(* ===== verification/FCP_Prelude.thy ===== *)
theory FCP_Prelude
  imports Main "HOL-Library.Word"
begin

unbundle bit_operations_syntax

text \<open>
  Shared vocabulary of the development: the C++ integer types as words, binary
  strings as byte lists, \<open>absl::Status\<close> and \<open>FCP_CHECK\<close> as values of a sum type,
  and the generic facts on lists, sums and words that the component theories use.
  The collection \<open>unat_ops\<close> gathers the rules that move word arithmetic to \<open>nat\<close>.
\<close>

section \<open>Machine types\<close>

type_synonym uint8 = "8 word"
type_synonym uint32 = "32 word"
type_synonym uint64 = "64 word"
type_synonym uint128 = "128 word"

text \<open>A \<open>std::string\<close> that holds binary data.\<close>

type_synonym bytes = "uint8 list"

section \<open>Failures\<close>

text \<open>
  \<open>fcp/base/monitoring.h\<close>: the status codes the modelled code returns, a failed
  \<open>FCP_CHECK\<close> (the process dies), an operation the language leaves undefined (an
  index past the end of a container, signed overflow), and a rejection-sampling loop
  that still runs when the given random draws are used up.
\<close>

datatype status_code = INVALID_ARGUMENT | FAILED_PRECONDITION | UNAVAILABLE | DATA_LOSS | INTERNAL
  | CANCELLED | UNKNOWN | DEADLINE_EXCEEDED | NOT_FOUND | ALREADY_EXISTS | PERMISSION_DENIED
  | RESOURCE_EXHAUSTED | ABORTED | OUT_OF_RANGE | UNIMPLEMENTED | UNAUTHENTICATED

datatype failure = Status status_code string | CheckFailed | Undefined | OutOfFuel

type_synonym 'a status_or = "failure + 'a"

text \<open>\<open>FCP_CHECK(condition)\<close> before the rest of the function.\<close>

definition fcp_check :: "bool \<Rightarrow> 'a status_or \<Rightarrow> 'a status_or" where
  "fcp_check c rest = (if c then rest else Inl CheckFailed)"

text \<open>\<open>FCP_ASSIGN_OR_RETURN\<close>: go on with the value, or return the failure.\<close>

definition and_then :: "'a status_or \<Rightarrow> ('a \<Rightarrow> 'b status_or) \<Rightarrow> 'b status_or" where
  "and_then r f = (case r of Inl e \<Rightarrow> Inl e | Inr a \<Rightarrow> f a)"

lemma and_then_simps [simp]:
  "and_then (Inl e) f = Inl e"
  "and_then (Inr a) f = f a"
  by (simp_all add: and_then_def)

lemma and_then_Inr_iff: "and_then r f = Inr b \<longleftrightarrow> (\<exists>a. r = Inr a \<and> f a = Inr b)"
  by (cases r) auto

lemma fcp_check_simps [simp]:
  "fcp_check True rest = rest"
  "fcp_check False rest = Inl CheckFailed"
  by (simp_all add: fcp_check_def)

lemma fcp_check_Inr_iff: "fcp_check c rest = Inr a \<longleftrightarrow> c \<and> rest = Inr a"
  by (simp add: fcp_check_def)

lemma sum_case_Inr_iff:
  "(case r of Inl e \<Rightarrow> f e | Inr x \<Rightarrow> g x) = Inr y
    \<longleftrightarrow> (\<exists>e. r = Inl e \<and> f e = Inr y) \<or> (\<exists>x. r = Inr x \<and> g x = Inr y)"
  by (cases r) auto

lemma option_case_Inr_iff:
  "(case r of None \<Rightarrow> f | Some x \<Rightarrow> g x) = Inr y
    \<longleftrightarrow> (r = None \<and> f = Inr y) \<or> (\<exists>x. r = Some x \<and> g x = Inr y)"
  by (cases r) auto

lemma if_Inr_iff: "(if b then x else z) = Inr y \<longleftrightarrow> (b \<and> x = Inr y) \<or> (\<not> b \<and> z = Inr y)"
  by auto

lemmas failure_iffs = and_then_Inr_iff fcp_check_Inr_iff

lemmas result_iffs = failure_iffs sum_case_Inr_iff option_case_Inr_iff if_Inr_iff

text \<open>\<open>container.at(i)\<close>: reading past the end is a failure.\<close>

definition at_index :: "'a list \<Rightarrow> nat \<Rightarrow> 'a status_or" where
  "at_index xs i = (if i < length xs then Inr (xs ! i) else Inl Undefined)"

lemma at_index_in [simp]: "i < length xs \<Longrightarrow> at_index xs i = Inr (xs ! i)"
  by (simp add: at_index_def)

text \<open>A loop over a list whose body may fail.\<close>

fun fold_status :: "('a \<Rightarrow> 's \<Rightarrow> 's status_or) \<Rightarrow> 'a list \<Rightarrow> 's \<Rightarrow> 's status_or" where
  "fold_status f [] s = Inr s"
| "fold_status f (x # xs) s = and_then (f x s) (fold_status f xs)"

lemma fold_status_append:
  "fold_status f (xs @ ys) s = and_then (fold_status f xs s) (fold_status f ys)"
proof (induction xs arbitrary: s)
  case (Cons x xs)
  then show ?case by (cases "f x s") simp_all
qed simp

lemma fold_status_invariant:
  assumes "fold_status f xs s = Inr t" "I s"
    and "\<And>x s t. x \<in> set xs \<Longrightarrow> I s \<Longrightarrow> f x s = Inr t \<Longrightarrow> I t"
  shows "I t"
  using assms
proof (induction xs arbitrary: s)
  case (Cons x xs)
  then obtain u where u: "f x s = Inr u" "fold_status f xs u = Inr t"
    by (auto simp: and_then_Inr_iff)
  have "I u" by (rule Cons.prems(3) [OF _ Cons.prems(2) u(1)]) simp
  then show ?case using Cons.IH [OF u(2)] Cons.prems(3) by (meson list.set_intros(2))
qed simp

lemma fold_status_total:
  assumes "I s" and "\<And>x s. x \<in> set xs \<Longrightarrow> I s \<Longrightarrow> \<exists>t. f x s = Inr t \<and> I t"
  shows "\<exists>t. fold_status f xs s = Inr t \<and> I t"
  using assms
proof (induction xs arbitrary: s)
  case (Cons x xs)
  from Cons.prems obtain u where "f x s = Inr u" "I u" by fastforce
  then show ?case using Cons.IH [of u] Cons.prems(2) by simp
qed simp

text \<open>A loop that replaces every element by the result of a body that may fail.\<close>

fun map_status :: "('a \<Rightarrow> 'b status_or) \<Rightarrow> 'a list \<Rightarrow> 'b list status_or" where
  "map_status f [] = Inr []"
| "map_status f (x # xs) = and_then (f x) (\<lambda>y. and_then (map_status f xs) (\<lambda>ys. Inr (y # ys)))"

lemma map_status_Inr_iff:
  "map_status f xs = Inr ys \<longleftrightarrow> list_all2 (\<lambda>x y. f x = Inr y) xs ys"
  by (induction xs arbitrary: ys) (auto simp: and_then_Inr_iff list_all2_Cons1)

lemma map_status_Inr: "\<forall>x\<in>set xs. f x = Inr (g x) \<Longrightarrow> map_status f xs = Inr (map g xs)"
  by (induction xs) simp_all

section \<open>Byte strings as numbers\<close>

text \<open>The values of a byte string read big endian and little endian.\<close>

definition le_val :: "bytes \<Rightarrow> nat" where
  "le_val bs = foldr (\<lambda>b n. unat b + 256 * n) bs 0"

definition be_val :: "bytes \<Rightarrow> nat" where
  "be_val bs = le_val (rev bs)"

lemma le_val_simps [simp]: "le_val [] = 0" "le_val (b # bs) = unat b + 256 * le_val bs"
  by (simp_all add: le_val_def)

lemma le_val_append: "le_val (xs @ ys) = le_val xs + 256 ^ length xs * le_val ys"
  by (induction xs) (simp_all add: algebra_simps)

section \<open>Words as naturals\<close>

named_theorems unat_ops \<open>rules that compute unat of word operations\<close>

declare unat_div_distrib [unat_ops] unat_mod_distrib [unat_ops]

lemma unat_add_small [unat_ops]:
  fixes a b :: "'a::len word"
  assumes "unat a + unat b < 2 ^ LENGTH('a)"
  shows "unat (a + b) = unat a + unat b"
  using assms by (simp add: unat_word_ariths)

lemma unat_mult_small [unat_ops]:
  fixes a b :: "'a::len word"
  assumes "unat a * unat b < 2 ^ LENGTH('a)"
  shows "unat (a * b) = unat a * unat b"
  using assms by (simp add: unat_word_ariths)

lemma unat_sub_le [unat_ops]:
  fixes a b :: "'a::len word"
  assumes "b \<le> a"
  shows "unat (a - b) = unat a - unat b"
  using assms by (rule unat_sub)

lemma unat_ucast_small:
  fixes w :: "'a::len word"
  assumes "unat w < 2 ^ LENGTH('b)"
  shows "unat (ucast w :: 'b::len word) = unat w"
  using assms by (simp add: unsigned_ucast_eq take_bit_nat_eq_self_iff)

lemma unat_ucast_up:
  fixes w :: "'a::len word"
  assumes "LENGTH('a) \<le> LENGTH('b)"
  shows "unat (ucast w :: 'b::len word) = unat w"
proof -
  have "unat w < 2 ^ LENGTH('a)" by (rule unsigned_less)
  also have "(2::nat) ^ LENGTH('a) \<le> 2 ^ LENGTH('b)" using assms by simp
  finally show ?thesis by (rule unat_ucast_small)
qed

lemma unat_ucast_32_64 [unat_ops, simp]: "unat (ucast (w :: uint32) :: uint64) = unat w"
  by (rule unat_ucast_up) simp

lemma unat_ucast_64_128 [unat_ops, simp]: "unat (ucast (w :: uint64) :: uint128) = unat w"
  by (rule unat_ucast_up) simp

lemma unat_ucast_8_32 [unat_ops, simp]: "unat (ucast (w :: uint8) :: uint32) = unat w"
  by (rule unat_ucast_up) simp

lemma unat_ucast_8_64 [unat_ops, simp]: "unat (ucast (w :: uint8) :: uint64) = unat w"
  by (rule unat_ucast_up) simp

lemma unat_byte_less [simp]: "unat (b :: uint8) < 256"
  using unsigned_less [of b] by simp

lemma unat_u32_less [simp]: "unat (w :: uint32) < 4294967296"
  using unsigned_less [of w] by simp

lemma unat_u64_less [simp]: "unat (w :: uint64) < 18446744073709551616"
  using unsigned_less [of w] by simp

lemma unat_of_nat_u32: "n < 4294967296 \<Longrightarrow> unat (of_nat n :: uint32) = n"
  by (simp add: unat_of_nat)

lemma unat_of_nat_u64: "n < 18446744073709551616 \<Longrightarrow> unat (of_nat n :: uint64) = n"
  by (simp add: unat_of_nat)

lemma unat_of_int_u32:
  assumes "0 \<le> k" "k < 4294967296"
  shows "unat (of_int k :: uint32) = nat k"
proof -
  have "of_int k = (of_nat (nat k) :: uint32)" using assms(1) by (simp add: of_nat_nat)
  moreover have "nat k < 4294967296" using assms by simp
  ultimately show ?thesis by (simp only: unat_of_nat_u32)
qed

lemma unat_eqI: "unat a = unat b \<Longrightarrow> a = (b :: 'a::len word)"
  by (simp add: word_unat_eq_iff)

lemma le_val_less: "le_val bs < 256 ^ length bs"
proof (induction bs)
  case (Cons b bs)
  have "unat b + 256 * le_val bs < 256 * (le_val bs + 1)" by simp
  also have "\<dots> \<le> 256 * 256 ^ length bs" using Cons by (intro mult_le_mono) simp_all
  finally show ?case by simp
qed simp

lemma le_val_nth: "i < length bs \<Longrightarrow> unat (bs ! i) = le_val bs div 256 ^ i mod 256"
proof (induction bs arbitrary: i)
  case (Cons b bs)
  show ?case
  proof (cases i)
    case 0
    then show ?thesis using unat_byte_less [of b] by simp
  next
    case (Suc k)
    have "(unat b + 256 * le_val bs) div 256 ^ i = (unat b + 256 * le_val bs) div 256 div 256 ^ k"
      by (simp add: Suc div_mult2_eq)
    also have "(unat b + 256 * le_val bs) div 256 = le_val bs"
      using unat_byte_less [of b] by simp
    finally show ?thesis using Cons Suc by simp
  qed
qed simp

lemma le_val_inj: "length xs = length ys \<Longrightarrow> le_val xs = le_val ys \<Longrightarrow> xs = ys"
  by (rule nth_equalityI) (auto intro: unat_eqI simp: le_val_nth)

text \<open>The \<open>n\<close> low bytes of a number, least significant first.\<close>

fun le_bytes :: "nat \<Rightarrow> nat \<Rightarrow> bytes" where
  "le_bytes 0 v = []"
| "le_bytes (Suc n) v = of_nat v # le_bytes n (v div 256)"

lemma length_le_bytes [simp]: "length (le_bytes n v) = n"
  by (induction n arbitrary: v) simp_all

lemma unat_of_nat_byte [simp]: "unat (of_nat v :: uint8) = v mod 256"
  by (simp add: unat_of_nat)

lemma le_val_le_bytes: "le_val (le_bytes n v) = v mod 256 ^ n"
proof (induction n arbitrary: v)
  case (Suc n)
  then show ?case by (simp add: mod_mult2_eq)
qed simp

lemma le_bytes_le_val: "le_bytes (length bs) (le_val bs) = bs"
  by (rule le_val_inj) (simp_all add: le_val_le_bytes le_val_less)

lemma le_bytes_0: "le_bytes n 0 = replicate n 0"
  by (induction n) simp_all

section \<open>Bit operations as arithmetic\<close>

lemma unat_drop_bit [unat_ops]: "unat (drop_bit n w) = unat w div 2 ^ n"
  by (simp only: unsigned_drop_bit_eq) (simp add: drop_bit_eq_div take_bit_nat_eq_self unsigned_less)

lemma unat_push_bit_small:
  fixes w :: "'a::len word"
  assumes "unat w * 2 ^ n < 2 ^ LENGTH('a)"
  shows "unat (push_bit n w) = unat w * 2 ^ n"
  using assms by (simp only: unsigned_push_bit_eq) (simp add: push_bit_eq_mult take_bit_nat_eq_self)

lemma unat_take_bit: "unat (take_bit n w) = unat w mod 2 ^ n"
  by (simp only: unsigned_take_bit_eq) (simp add: take_bit_eq_mod)

lemma unat_and_mask [unat_ops]: "unat (w AND mask n) = unat w mod 2 ^ n"
  by (simp only: unat_take_bit take_bit_eq_mask [symmetric])

lemma nat_or_disjoint:
  fixes a b :: nat
  assumes "a < 2 ^ n"
  shows "a OR (b * 2 ^ n) = a + b * 2 ^ n"
proof -
  have "take_bit n a = a" using assms by (simp add: take_bit_nat_eq_self)
  then have "\<not> bit a k" if "n \<le> k" for k using that by (metis bit_take_bit_iff not_le)
  then have "a AND push_bit n b = 0" by (auto simp: bit_eq_iff bit_simps not_le)
  then have "a + push_bit n b = a OR push_bit n b" by (rule disjunctive_add_eq_or)
  then show ?thesis by (simp add: push_bit_eq_mult)
qed

lemma unat_or_push:
  fixes a b :: "'a::len word"
  assumes "unat a < 2 ^ n" "unat b * 2 ^ n < 2 ^ LENGTH('a)"
  shows "unat (a OR push_bit n b) = unat a + unat b * 2 ^ n"
  using assms by (simp add: unsigned_or_eq unat_push_bit_small nat_or_disjoint)

end
