(* ===== verification/SecAgg_Math.thy ===== *)
theory SecAgg_Math
  imports FCP_Prelude
begin

unbundle bit_operations_syntax

text \<open>
  \<open>fcp/secagg/shared/math.h\<close>: the modular arithmetic used everywhere in SecAgg, at
  the widths of the source. The lemmas give each function's value on \<open>nat\<close> in the
  range where its comment allows it to be called, the equality of the optimised
  variants with the plain ones, and the big-endian round trip of \<open>IntToByteString\<close>.
  The \<open>FCP_CHECK\<close>s of the \<open>Opt\<close> variants are compiled in debug builds only; the
  release build is modelled.
\<close>

section \<open>Definitions\<close>

definition DivideRoundUp :: "uint32 \<Rightarrow> uint32 \<Rightarrow> uint32" where
  "DivideRoundUp a b = (a + b - 1) div b"

definition AddMod :: "uint64 \<Rightarrow> uint64 \<Rightarrow> uint64 \<Rightarrow> uint64" where
  "AddMod a b z = (a + b) mod z"

definition AddModOpt :: "uint64 \<Rightarrow> uint64 \<Rightarrow> uint64 \<Rightarrow> uint64" where
  "AddModOpt a b m = (let s = a + b in if s < m then s else s - m)"

definition SubtractMod :: "uint64 \<Rightarrow> uint64 \<Rightarrow> uint64 \<Rightarrow> uint64" where
  "SubtractMod a b z = ((a - b) + z) mod z"

definition SubtractModOpt :: "uint64 \<Rightarrow> uint64 \<Rightarrow> uint64 \<Rightarrow> uint64" where
  "SubtractModOpt a b m = (if b \<le> a then a - b else m - b + a)"

definition MultiplyMod :: "uint32 \<Rightarrow> uint32 \<Rightarrow> uint64 \<Rightarrow> uint32" where
  "MultiplyMod a b z = ucast ((ucast a * ucast b :: uint64) mod z)"

definition MultiplyMod64 :: "uint64 \<Rightarrow> uint64 \<Rightarrow> uint64 \<Rightarrow> uint64" where
  "MultiplyMod64 a b z = ucast ((ucast a * ucast b :: uint128) mod ucast z)"

text \<open>The \<open>while\<close> loop of \<open>InverseModPrime\<close>, and the function that starts it.\<close>

function InverseModPrime_loop :: "uint64 \<Rightarrow> uint64 \<Rightarrow> uint64 \<Rightarrow> uint64 \<Rightarrow> uint64" where
  "InverseModPrime_loop inv_acc a exponent z =
     (if exponent > 0 then
        InverseModPrime_loop
          (if exponent AND 1 \<noteq> 0 then MultiplyMod64 inv_acc a z else inv_acc)
          (MultiplyMod64 a a z) (drop_bit 1 exponent) z
      else inv_acc)"
  by pat_completeness auto
termination
  by (relation "measure (\<lambda>(i, a, e, z). unat e)")
    (auto simp: drop_bit_eq_div word_less_nat_alt unat_div_distrib)

declare InverseModPrime_loop.simps [simp del]

definition InverseModPrime :: "uint64 \<Rightarrow> uint64 \<Rightarrow> uint64" where
  "InverseModPrime a z = InverseModPrime_loop 1 a (z - 2) z"

definition IntToByteString :: "uint32 \<Rightarrow> bytes" where
  "IntToByteString input =
     [ucast (drop_bit 24 input), ucast (drop_bit 16 input), ucast (drop_bit 8 input), ucast input]"

section \<open>Values on naturals\<close>

lemma unat_DivideRoundUp:
  assumes "0 < b" and "unat a + unat b \<le> 2 ^ 32"
  shows "unat (DivideRoundUp a b) = (unat a + unat b - 1) div unat b"
proof -
  have b: "0 < unat b" using assms(1) by (simp add: word_less_nat_alt)
  have eq: "a + b - 1 = a + (b - 1)" by simp
  have "unat (b - 1) = unat b - 1"
    using b by (simp add: unat_sub_le word_le_nat_alt)
  then have "unat (a + (b - 1)) = unat a + (unat b - 1)"
    using assms(2) b by (simp add: unat_add_small)
  then show ?thesis using b by (simp only: DivideRoundUp_def unat_div_distrib eq) simp
qed

lemma unat_AddMod:
  assumes "unat a + unat b < 2 ^ 64"
  shows "unat (AddMod a b z) = (unat a + unat b) mod unat z"
  using assms by (simp add: AddMod_def unat_ops)

lemma unat_AddModOpt:
  assumes "a < m" "b < m" "unat m \<le> 2 ^ 63"
  shows "unat (AddModOpt a b m) = (unat a + unat b) mod unat m"
proof -
  have lt: "unat a < unat m" "unat b < unat m"
    using assms(1,2) by (simp_all add: word_less_nat_alt)
  have s: "unat (a + b) = unat a + unat b"
    using lt assms(3) by (simp add: unat_add_small)
  show ?thesis
  proof (cases "a + b < m")
    case True
    then show ?thesis using s by (simp add: AddModOpt_def Let_def word_less_nat_alt)
  next
    case False
    then have "unat m \<le> unat a + unat b" using s by (simp add: word_less_nat_alt)
    moreover from this have "(unat a + unat b) mod unat m = unat a + unat b - unat m"
      using lt by (simp add: mod_if)
    ultimately show ?thesis
      using False s by (simp add: AddModOpt_def Let_def unat_sub_le)
  qed
qed

lemma AddModOpt_less: "a < m \<Longrightarrow> b < m \<Longrightarrow> unat m \<le> 2 ^ 63 \<Longrightarrow> AddModOpt a b m < m"
  by (simp add: word_less_nat_alt unat_AddModOpt)

text \<open>Subtraction, as \<open>(a + z - b) mod z\<close> on naturals.\<close>

lemma unat_SubtractModOpt:
  assumes "a < m" "b < m"
  shows "unat (SubtractModOpt a b m) = (unat a + unat m - unat b) mod unat m"
proof (cases "b \<le> a")
  case True
  have "unat a < unat m" "unat b \<le> unat a"
    using True assms(1) by (simp_all add: word_less_nat_alt word_le_nat_alt)
  then have "(unat a + unat m - unat b) mod unat m = unat a - unat b"
    by (metis Nat.add_diff_assoc2 less_imp_diff_less mod_add_self2 mod_less)
  then show ?thesis
    using True by (simp add: SubtractModOpt_def unat_sub_le)
next
  case False
  have lt: "unat a < unat b" "unat b < unat m"
    using False assms(2) by (simp_all add: word_less_nat_alt word_le_nat_alt)
  have mb: "unat (m - b) = unat m - unat b"
    using assms(2) by (simp add: unat_sub_le)
  have "unat m - unat b + unat a < 18446744073709551616"
    using lt unat_u64_less [of m] by linarith
  then have "unat (m - b + a) = unat m - unat b + unat a"
    using mb by (simp add: unat_add_small)
  then show ?thesis using False lt by (simp add: SubtractModOpt_def)
qed

lemma SubtractModOpt_less: "a < m \<Longrightarrow> b < m \<Longrightarrow> SubtractModOpt a b m < m"
  by (simp add: word_less_nat_alt unat_SubtractModOpt)

lemma unat_SubtractMod:
  assumes "a < z" "b < z" "unat z \<le> 2 ^ 63"
  shows "unat (SubtractMod a b z) = (unat a + unat z - unat b) mod unat z"
proof -
  have lt: "unat a < unat z" "unat b < unat z"
    using assms(1,2) by (simp_all add: word_less_nat_alt)
  have eq: "(a - b) + z = a + (z - b)" by simp
  have "unat (z - b) = unat z - unat b"
    using assms(2) by (simp add: unat_sub_le)
  then have "unat (a + (z - b)) = unat a + (unat z - unat b)"
    using lt assms(3) by (simp add: unat_add_small)
  then show ?thesis using lt by (simp only: SubtractMod_def unat_mod_distrib eq) simp
qed

lemma unat_MultiplyMod:
  assumes "0 < unat z" "unat z \<le> 2 ^ 32"
  shows "unat (MultiplyMod a b z) = (unat a * unat b) mod unat z"
proof -
  have "unat a \<le> 4294967295" "unat b \<le> 4294967295"
    using unat_u32_less [of a] unat_u32_less [of b] by linarith+
  then have "unat a * unat b \<le> 4294967295 * 4294967295"
    by (intro mult_mono) simp_all
  then have ab: "unat (ucast a * ucast b :: uint64) = unat a * unat b"
    by (simp add: unat_mult_small)
  have "(unat a * unat b) mod unat z < unat z" using assms(1) by simp
  then have "(unat a * unat b) mod unat z < 2 ^ 32" using assms(2) by linarith
  then show ?thesis
    by (simp add: MultiplyMod_def unat_ucast_small unat_mod_distrib ab)
qed

lemma unat_MultiplyMod64:
  assumes "z \<noteq> 0"
  shows "unat (MultiplyMod64 a b z) = (unat a * unat b) mod unat z"
proof -
  have "unat a \<le> 18446744073709551615" "unat b \<le> 18446744073709551615"
    using unat_u64_less [of a] unat_u64_less [of b] by linarith+
  then have "unat a * unat b \<le> 18446744073709551615 * 18446744073709551615"
    by (intro mult_mono) simp_all
  then have ab: "unat (ucast a * ucast b :: uint128) = unat a * unat b"
    by (simp add: unat_mult_small)
  have "(unat a * unat b) mod unat z < unat z"
    using assms by (simp add: unat_gt_0)
  also have "unat z < 2 ^ 64" by simp
  finally have "(unat a * unat b) mod unat z < 2 ^ 64" .

  then show ?thesis
    by (simp add: MultiplyMod64_def unat_ucast_small unat_mod_distrib ab)
qed

section \<open>Square and multiply\<close>

lemma unat_InverseModPrime_loop:
  assumes "1 < unat z" "unat r < unat z"
  shows "unat (InverseModPrime_loop r a e z) = (unat r * unat a ^ unat e) mod unat z"
  using assms
proof (induction r a e z rule: InverseModPrime_loop.induct)
  case (1 r a e z)
  have z: "z \<noteq> 0" using "1.prems"(1) by auto
  show ?case
  proof (cases "e > 0")
    case False
    then have "e = 0" by (simp add: word_less_nat_alt unat_eq_zero)
    then show ?thesis using "1.prems" by (simp add: InverseModPrime_loop.simps [of r a 0 z])
  next
    case True
    let ?r = "if e AND 1 \<noteq> 0 then MultiplyMod64 r a z else r"
    have half: "unat (drop_bit 1 e) = unat e div 2"
      by (simp add: drop_bit_eq_div unat_div_distrib)
    have odd: "e AND 1 \<noteq> 0 \<longleftrightarrow> odd (unat e)"
      by (simp only: and_one_eq unat_0_iff [symmetric] unat_mod_distrib odd_iff_mod_2_eq_one) simp
    have r: "unat ?r mod unat z = (unat r * unat a ^ (unat e mod 2)) mod unat z"
      by (simp add: odd unat_MultiplyMod64 [OF z] mod_2_eq_odd)
    have "unat ?r < unat z"
      using "1.prems" by (simp add: unat_MultiplyMod64 [OF z])
    then have "unat (InverseModPrime_loop ?r (MultiplyMod64 a a z) (drop_bit 1 e) z)
        = (unat ?r * ((unat a * unat a) mod unat z) ^ (unat e div 2)) mod unat z"
      using "1.IH" [OF True "1.prems"(1)] by (simp only: unat_MultiplyMod64 [OF z] half)
    also have "\<dots> = ((unat r * unat a ^ (unat e mod 2)) * (unat a * unat a) ^ (unat e div 2)) mod unat z"
      by (rule mod_mult_cong [OF r power_mod])
    also have "unat r * unat a ^ (unat e mod 2) * (unat a * unat a) ^ (unat e div 2)
        = unat r * unat a ^ (unat e mod 2 + 2 * (unat e div 2))"
      by (simp only: power_add power_mult power2_eq_square mult.assoc)
    also have "unat e mod 2 + 2 * (unat e div 2) = unat e" by simp
    finally show ?thesis
      using True by (simp only: InverseModPrime_loop.simps [of r a e z] if_True)
  qed
qed

section \<open>Big-endian encoding\<close>

lemma length_IntToByteString [simp]: "length (IntToByteString x) = 4"
  by (simp add: IntToByteString_def)

lemma unat_ucast_byte: "unat (ucast (w :: uint32) :: uint8) = unat w mod 256"
  by (simp add: unsigned_ucast_eq take_bit_eq_mod)

lemma be_val_IntToByteString: "be_val (IntToByteString x) = unat x"
proof -
  define n where "n = unat x"
  have n: "n < 4294967296" by (simp add: n_def)
  have "be_val (IntToByteString x)
      = n mod 256 + 256 * (n div 256 mod 256 + 256 * (n div 65536 mod 256 + 256 * (n div 16777216 mod 256)))"
    by (simp add: be_val_def IntToByteString_def unat_ucast_byte unat_drop_bit n_def del: drop_bit_eq_div)
  also have "n div 65536 = n div 256 div 256" by (simp flip: div_mult2_eq)
  also have "n div 16777216 = n div 256 div 256 div 256" by (simp flip: div_mult2_eq)
  also have "n div 256 div 256 div 256 mod 256 = n div 256 div 256 div 256"
    using n by (simp flip: div_mult2_eq)
  finally show ?thesis by (simp add: n_def)
qed

section \<open>Properties\<close>

text \<open>
  The branch-only variants \<open>AddModOpt\<close> and \<open>SubtractModOpt\<close> compute the same as the
  plain \<open>AddMod\<close> and \<open>SubtractMod\<close> on reduced operands, and subtracting undoes adding:
  this is what lets a mask be removed again.
\<close>

theorem mod_opt_equivalence:
  assumes "a < m" "b < m" "unat m \<le> 2 ^ 63"
  shows "AddModOpt a b m = AddMod a b m \<and> SubtractModOpt a b m = SubtractMod a b m
    \<and> SubtractModOpt (AddModOpt a b m) b m = a"
proof (intro conjI)
  have lt: "unat a < unat m" "unat b < unat m" using assms by (simp_all add: word_less_nat_alt)
  show "AddModOpt a b m = AddMod a b m"
    using lt assms by (intro unat_eqI) (simp add: unat_AddModOpt unat_AddMod)
  show "SubtractModOpt a b m = SubtractMod a b m"
    using assms by (intro unat_eqI) (simp add: unat_SubtractModOpt unat_SubtractMod)
  have "unat (SubtractModOpt (AddModOpt a b m) b m)
      = ((unat a + unat b) mod unat m + (unat m - unat b)) mod unat m"
    using assms lt by (simp add: unat_SubtractModOpt AddModOpt_less unat_AddModOpt)
  also have "\<dots> = (unat a + unat b + (unat m - unat b)) mod unat m"
    by (rule mod_add_left_eq)
  finally show "SubtractModOpt (AddModOpt a b m) b m = a"
    using lt by (intro unat_eqI) simp
qed

theorem mod_opt_equivalence_witness:
  "AddModOpt 5 6 7 = AddMod 5 6 7 \<and> SubtractModOpt 5 6 7 = SubtractMod 5 6 7
    \<and> SubtractModOpt (AddModOpt 5 6 7) 6 7 = 5"
  by (rule mod_opt_equivalence) simp_all

end
