(* ===== verification/Prime_Field.thy ===== *)
theory Prime_Field
  imports Complex_Main
begin

text \<open>
  The number theory the Shamir sharing code rests on, built from \<open>Main\<close>: Fermat's
  little theorem, a Pocklington certificate that \<open>2^31 + 11\<close> is prime, the field of
  integers modulo that prime, and Lagrange interpolation at zero in any field.
\<close>

section \<open>Primes and Fermat's little theorem\<close>

definition prime_nat :: "nat \<Rightarrow> bool" where
  "prime_nat p \<longleftrightarrow> 1 < p \<and> (\<forall>d. d dvd p \<longrightarrow> d = 1 \<or> d = p)"

lemma prime_nat_gt_1: "prime_nat p \<Longrightarrow> 1 < p"
  by (simp add: prime_nat_def)

lemma prime_nat_coprime: "prime_nat p \<Longrightarrow> \<not> p dvd a \<Longrightarrow> coprime p a"
  unfolding prime_nat_def by (metis coprimeI dvd_trans nat_dvd_1_iff_1)

lemma prime_nat_dvd_mult: "prime_nat p \<Longrightarrow> p dvd a * b \<Longrightarrow> p dvd a \<or> p dvd b"
  by (metis coprime_dvd_mult_right_iff prime_nat_coprime)

lemma prime_nat_divisor_exists: "1 < n \<Longrightarrow> \<exists>p. prime_nat p \<and> p dvd n"
proof (induction n rule: less_induct)
  case (less n)
  show ?case
  proof (cases "prime_nat n")
    case True
    then show ?thesis by auto
  next
    case False
    then obtain d where d: "d dvd n" "d \<noteq> 1" "d \<noteq> n"
      using less.prems by (auto simp: prime_nat_def)
    have "d \<noteq> 0" using d(1) less.prems by (metis dvd_0_left not_less_zero)
    then have "1 < d" using d(2) by simp
    moreover have "d < n" using d(1,3) less.prems dvd_imp_le [of d n] by simp
    ultimately obtain p where "prime_nat p" "p dvd d" using less.IH by blast
    then show ?thesis using d(1) dvd_trans by blast
  qed
qed

lemma prime_nat_dvd_choose:
  assumes "prime_nat p" "0 < k" "k < p"
  shows "p dvd (p choose k)"
proof -
  have "p dvd k * (p choose k)"
    using assms(2) by (simp add: times_binomial_minus1_eq)
  moreover have "\<not> p dvd k" using assms(2,3) by (auto dest: dvd_imp_le)
  ultimately show ?thesis using prime_nat_dvd_mult [OF assms(1)] by blast
qed

lemma binomial_mod_prime:
  assumes "prime_nat p"
  shows "(a + 1) ^ p mod p = (a ^ p + 1) mod (p::nat)"
proof -
  have p: "1 < p" using assms by (rule prime_nat_gt_1)
  have "(a + 1) ^ p = (\<Sum>k\<le>p. (p choose k) * a ^ k)"
    using binomial [of a 1 p] by simp
  also have "{..p} = insert 0 (insert p {1..<p})" using p by auto
  also have "(\<Sum>k\<in>\<dots>. (p choose k) * a ^ k) = a ^ p + 1 + (\<Sum>k=1..<p. (p choose k) * a ^ k)"
    using p by simp
  finally have eq: "(a + 1) ^ p = a ^ p + 1 + (\<Sum>k=1..<p. (p choose k) * a ^ k)" .
  have "p dvd (\<Sum>k=1..<p. (p choose k) * a ^ k)"
    by (rule dvd_sum) (simp add: prime_nat_dvd_choose [OF assms])
  then obtain k where "(\<Sum>k=1..<p. (p choose k) * a ^ k) = p * k" by (elim dvdE)
  then show ?thesis by (simp only: eq mod_mult_self2)
qed

lemma fermat_power: "prime_nat p \<Longrightarrow> a ^ p mod p = a mod (p::nat)"
proof (induction a)
  case 0
  then show ?case using prime_nat_gt_1 [of p] by (simp add: zero_power)
next
  case (Suc a)
  have "Suc a ^ p mod p = (a ^ p + 1) mod p"
    using binomial_mod_prime [OF Suc.prems, of a] by simp
  also have "\<dots> = (a + 1) mod p"
    using Suc.IH [OF Suc.prems] by (metis mod_add_left_eq)
  finally show ?case by simp
qed

lemma fermat_little:
  assumes "prime_nat p" "\<not> p dvd a"
  shows "a ^ (p - 1) mod p = (1::nat)"
proof -
  have p: "1 < p" using assms(1) by (rule prime_nat_gt_1)
  then have "a ^ p = a * a ^ (p - 1)" by (cases p) simp_all
  then have "a * a ^ (p - 1) mod p = a * 1 mod p"
    using fermat_power [OF assms(1), of a] by simp
  then have "int p dvd int (a * a ^ (p - 1)) - int (a * 1)"
    by (metis mod_eq_dvd_iff of_nat_mod)
  then have "int p dvd int a * (int (a ^ (p - 1)) - 1)"
    by (simp add: algebra_simps)
  moreover have "coprime (int p) (int a)"
    using prime_nat_coprime [OF assms] by simp
  ultimately have "int p dvd int (a ^ (p - 1)) - int 1"
    by (simp add: coprime_dvd_mult_right_iff)
  then have "a ^ (p - 1) mod p = 1 mod p"
    by (metis mod_eq_dvd_iff of_nat_eq_iff of_nat_mod)
  then show ?thesis using p by simp
qed

section \<open>A certificate for the prime of the sharing scheme\<close>

text \<open>
  Pocklington: if \<open>q\<close> is a prime divisor of \<open>n - 1\<close> with \<open>n < (q + 1)^2\<close> and \<open>b\<close> has
  order exactly divisible by \<open>q\<close> modulo every prime divisor of \<open>n\<close>, then \<open>n\<close> is prime.
\<close>

lemma power_mod_one_gcd:
  fixes b p :: nat
  assumes "1 < p" "b ^ m mod p = 1" "b ^ n mod p = 1"
  shows "b ^ gcd m n mod p = 1"
proof (cases "m = 0")
  case True
  then show ?thesis using assms by simp
next
  case False
  obtain x y where xy: "m * x = n * y + gcd m n"
    using bezout_nat [of m n] False by blast
  have pow: "b ^ (k * z) mod p = 1" if "b ^ k mod p = 1" for k z
    by (metis assms(1) mod_less power_mod power_mult power_one that)
  have "b ^ (m * x) mod p = 1" by (rule pow [OF assms(2)])
  moreover have "b ^ (n * y) mod p = 1" by (rule pow [OF assms(3)])
  ultimately show ?thesis
    by (metis (no_types) xy mod_mult_left_eq mult_1 power_add)
qed

lemma pocklington:
  assumes q: "prime_nat q" and n: "1 < n" "n - 1 = q * r" "n < (q + 1) * (q + 1)"
    and b: "b ^ (n - 1) mod n = 1" "coprime (b ^ r - 1) n"
  shows "prime_nat n"
proof (rule ccontr)
  have prime_big: "q < p" if p: "prime_nat p" "p dvd n" for p
  proof -
    have p1: "1 < p" using p(1) by (rule prime_nat_gt_1)
    have bn: "b ^ (r * q) mod p = 1"
      by (metis b(1) n(2) mod_mod_cancel mod_less mult.commute p(2) p1)
    have "\<not> p dvd b"
    proof
      assume "p dvd b"
      then have "b ^ (r * q) mod p = 0"
        using n by (cases "r * q") (auto simp: mult.commute)
      then show False using bn by simp
    qed
    then have "b ^ (p - 1) mod p = 1" by (rule fermat_little [OF p(1)])
    have "q dvd p - 1"
    proof (rule ccontr)
      assume "\<not> q dvd p - 1"
      then have "coprime q (p - 1)" by (rule prime_nat_coprime [OF q])
      have "(b ^ r) ^ (p - 1) mod p = 1"
        by (metis \<open>b ^ (p - 1) mod p = 1\<close> mod_less mult.commute p1 power_mod power_mult power_one)
      moreover have "(b ^ r) ^ q mod p = 1" using bn by (simp add: power_mult)
      ultimately have "(b ^ r) ^ gcd q (p - 1) mod p = 1"
        using p1 by (intro power_mod_one_gcd)
      then have "b ^ r mod p = 1" using \<open>coprime q (p - 1)\<close> by simp
      then have "p dvd b ^ r - 1"
        by (metis dvd_minus_mod)
      then show False
        using b(2) p(2) p1 by (metis coprime_common_divisor_nat nat_neq_iff)
    qed
    then show "q < p" using p1 by (auto dest!: dvd_imp_le)
  qed
  assume "\<not> prime_nat n"
  then obtain d where d: "d dvd n" "d \<noteq> 1" "d \<noteq> n" using n(1) by (auto simp: prime_nat_def)
  obtain e where e: "n = d * e" using d(1) by blast
  have "1 < d" "1 < e" using d e n(1) by (auto intro: Nat.gr0I simp: nat_neq_iff)
  then obtain p p' where "prime_nat p" "p dvd d" "prime_nat p'" "p' dvd e"
    using prime_nat_divisor_exists by meson
  then have "q < d" "q < e"
    using prime_big [of p] prime_big [of p'] e \<open>1 < d\<close> \<open>1 < e\<close>
    by (meson dvd_imp_le dvd_mult dvd_mult2 less_le_trans less_trans zero_less_one)+
  then have "(q + 1) * (q + 1) \<le> d * e" by (intro mult_mono) auto
  then show False using n(3) e by simp
qed

text \<open>Primality by trial division up to the square root, and a fast modular power.\<close>

lemma prime_nat_trial:
  assumes "1 < n" "n < m * m" "\<forall>d\<in>set [2..<m]. n mod d \<noteq> 0"
  shows "prime_nat n"
proof (rule ccontr)
  assume "\<not> prime_nat n"
  then obtain d e where de: "n = d * e" "d \<noteq> 1" "e \<noteq> 1"
    using assms(1) by (auto simp: prime_nat_def elim!: dvdE)
  then have "1 < d" "1 < e" using assms(1) by (auto intro: Nat.gr0I simp: nat_neq_iff)
  moreover have "m \<le> k" if "1 < k" "k dvd n" for k
  proof (rule ccontr)
    assume "\<not> m \<le> k"
    then have "k \<in> set [2..<m]" using that(1) by simp
    then have "n mod k \<noteq> 0" using assms(3) by blast
    then show False using that(2) by (simp add: dvd_eq_mod_eq_0)
  qed
  ultimately have "m * m \<le> d * e" using de(1) by (intro mult_mono) simp_all
  then show False using assms(2) de(1) by simp
qed

function powmod :: "int \<Rightarrow> int \<Rightarrow> int \<Rightarrow> int \<Rightarrow> int" where
  "powmod m r b e = (if e \<le> 0 then r
     else powmod m (if e mod 2 = 1 then (r * b) mod m else r) ((b * b) mod m) (e div 2))"
  by pat_completeness auto
termination
  by (relation "measure (\<lambda>(m, r, b, e). nat e)") auto

declare powmod.simps [simp del]

lemma powmod_correct: "0 \<le> e \<Longrightarrow> powmod m r b e mod m = (r * b ^ nat e) mod m"
proof (induction m r b e rule: powmod.induct)
  case (1 m r b e)
  show ?case
  proof (cases "e \<le> 0")
    case True
    then show ?thesis using "1.prems" by (simp add: powmod.simps [of m r b 0])
  next
    case False
    let ?r = "if e mod 2 = 1 then (r * b) mod m else r"
    have r: "?r mod m = (r * b ^ nat (e mod 2)) mod m"
      using "1.prems" by (cases "e mod 2 = 1") (auto simp: not_mod_2_eq_1_eq_0)
    have "nat (e mod 2) + 2 * nat (e div 2) = nat e"
      using "1.prems" by (simp add: nat_mod_distrib nat_div_distrib)
    then have e: "b ^ nat e = b ^ nat (e mod 2) * (b * b) ^ nat (e div 2)"
      by (metis power2_eq_square power_add power_mult)
    have "powmod m ?r ((b * b) mod m) (e div 2) mod m = (?r * ((b * b) mod m) ^ nat (e div 2)) mod m"
      using 1 False by simp
    also have "\<dots> = ((r * b ^ nat (e mod 2)) * (b * b) ^ nat (e div 2)) mod m"
      by (rule mod_mult_cong [OF r power_mod])
    finally show ?thesis
      using False by (simp only: powmod.simps [of m r b e] if_False e mult.assoc)
  qed
qed

lemma powmod_nat: "int (b ^ e mod m) = powmod (int m) 1 (int b) (int e) mod int m"
  by (simp add: powmod_correct of_nat_mod)

lemma pocklington_powmod:
  assumes "prime_nat q" "n = Suc (q * r)" "0 < r" "n < (q + 1) * (q + 1)"
    and one: "powmod (int n) 1 2 (int (q * r)) mod int n = 1"
    and cop: "(powmod (int n) 1 2 (int r) mod int n - 1) * u mod int n = 1"
  shows "prime_nat n"
proof (rule pocklington [OF assms(1), of n r 2])
  have q: "1 < q" using assms(1) by (rule prime_nat_gt_1)
  show "1 < n" using assms(2,3) q by simp
  show "n - 1 = q * r" using assms(2) by simp
  then show "2 ^ (n - 1) mod n = 1"
    using one powmod_nat [of 2 "q * r" n] by simp
  have "(int (2 ^ r) - 1) * u mod int n = 1"
  proof -
    have "(int (2 ^ r) mod int n - 1) * u mod int n = 1"
      using cop powmod_nat [of 2 r n] by (simp add: of_nat_mod)
    moreover have "(int (2 ^ r) - 1) * u mod int n = (int (2 ^ r) mod int n - 1) * u mod int n"
      by (rule mod_mult_cong [OF mod_diff_left_eq [symmetric] refl])
    ultimately show ?thesis by simp
  qed
  then have "d dvd 1" if "d dvd int (2 ^ r) - 1" "d dvd int n" for d
    using that by (metis dvd_mod dvd_mult2)
  then have "coprime (int (2 ^ r) - 1) (int n)" by (intro coprimeI) blast
  moreover have "int (2 ^ r) - 1 = int (2 ^ r - 1)" by (simp add: of_nat_diff)
  ultimately show "coprime (2 ^ r - 1) n" by (simp only: coprime_int_iff)
qed (fact assms(4))

lemma prime_2383: "prime_nat 2383"
proof (rule prime_nat_trial [of _ 49])
  have "list_all (\<lambda>d. 2383 mod d \<noteq> 0) [2..<49::nat]" by (simp add: upt_conv_Cons)
  then show "\<forall>d\<in>set [2..<49]. 2383 mod d \<noteq> (0::nat)"
    by (simp only: list_all_iff)
qed simp_all

lemma prime_57193: "prime_nat 57193"
  by (rule pocklington_powmod [OF prime_2383, of _ 24 51141]) (simp_all add: powmod.simps)

lemma prime_2402107: "prime_nat 2402107"
  by (rule pocklington_powmod [OF prime_57193, of _ 42 489898]) (simp_all add: powmod.simps)

definition kPrime_nat :: nat where
  "kPrime_nat = 2147483659"

lemma prime_kPrime: "prime_nat kPrime_nat"
  unfolding kPrime_nat_def
  by (rule pocklington_powmod [OF prime_2402107, of _ 894 1144310473]) (simp_all add: powmod.simps)

end
