(* ===== verification/Math_Inverse.thy ===== *)
theory Math_Inverse
  imports SecAgg_Math Prime_Field
begin

text \<open>
  \<open>InverseModPrime\<close> of \<open>fcp/secagg/shared/math.h\<close>: the square-and-multiply loop computes
  the inverse by Fermat's little theorem, for every prime of at most 64 bits.
\<close>

text \<open>
  For a prime modulus \<open>InverseModPrime\<close> ends and returns a reduced inverse of every
  argument that is not a multiple of the modulus; no intermediate product overflows.
\<close>

theorem InverseModPrime_inverts:
  assumes "prime_nat (unat z)" "\<not> unat z dvd unat a"
  shows "unat a * unat (InverseModPrime a z) mod unat z = 1 \<and> unat (InverseModPrime a z) < unat z"
proof (rule conjI)
  have z: "1 < unat z" using assms(1) by (rule prime_nat_gt_1)
  then have "2 \<le> z" by (simp add: word_le_nat_alt)
  then have "unat (z - 2) = unat z - 2" by (simp add: unat_sub_le)
  then have inv: "unat (InverseModPrime a z) = unat a ^ (unat z - 2) mod unat z"
    using unat_InverseModPrime_loop [of z 1 a "z - 2"] z by (simp add: InverseModPrime_def)
  have "unat z - 1 = Suc (unat z - 2)" using z by simp
  then have "unat a * unat (InverseModPrime a z) mod unat z = unat a ^ (unat z - 1) mod unat z"
    by (simp add: inv mod_mult_right_eq)
  then show "unat a * unat (InverseModPrime a z) mod unat z = 1"
    using fermat_little [OF assms] by simp
  show "unat (InverseModPrime a z) < unat z" using z by (simp add: inv)
qed

theorem InverseModPrime_inverts_witness:
  "unat (5 :: uint64) * unat (InverseModPrime 5 7) mod unat (7 :: uint64) = 1
    \<and> unat (InverseModPrime 5 7) < unat (7 :: uint64)"
proof -
  have "prime_nat 7" by (rule prime_nat_trial [of _ 3]) (simp_all add: upt_rec)
  moreover have "\<not> (7::nat) dvd 5" by simp
  ultimately show ?thesis using InverseModPrime_inverts [of 7 5] by simp
qed

end
