(* ===== verification/Shamir_Subsecrets.thy ===== *)
theory Shamir_Subsecrets
  imports SecAgg_Math
begin

unbundle bit_operations_syntax

text \<open>
  The bit packing of \<open>fcp/secagg/shared/shamir_secret_sharing.cc\<close>: a secret is cut into
  31-bit subsecrets and rebuilt from them. Both loops are shown to be the change of base
  between 256 and \<open>2^31\<close>, so that rebuilding inverts dividing.
\<close>

section \<open>Definitions\<close>

definition kBitsPerSubsecret :: nat where "kBitsPerSubsecret = 31"

text \<open>
  \<open>DivideIntoSubsecrets\<close>. The loop runs from the last byte to the first, so its bytes
  are consumed from the reversed string, and \<open>i == 0\<close> is the case of no byte left after
  this one. \<open>secret_parts\<close> is kept in reversed order, as the reverse iterator sees it, with
  \<open>cur\<close> the position of \<open>current_subsecret\<close>.
\<close>

definition or_at :: "nat \<Rightarrow> uint32 \<Rightarrow> uint32 list \<Rightarrow> uint32 list status_or" where
  "or_at cur v parts =
     (if cur < length parts then Inr (parts[cur := (parts ! cur) OR v]) else Inl Undefined)"

fun DivideIntoSubsecrets_loop ::
  "bytes \<Rightarrow> nat \<Rightarrow> nat \<Rightarrow> uint32 list \<Rightarrow> (nat \<times> uint32 list) status_or" where
  "DivideIntoSubsecrets_loop [] bits_done cur parts = Inr (cur, parts)"
| "DivideIntoSubsecrets_loop (current_byte # rest) bits_done cur parts =
     (if kBitsPerSubsecret - bits_done > 8 then
        and_then (or_at cur (push_bit bits_done (ucast current_byte)) parts)
          (DivideIntoSubsecrets_loop rest (bits_done + 8) cur)
      else
        let current_byte_right =
          current_byte AND drop_bit (8 - (kBitsPerSubsecret - bits_done)) 0xFF in
        and_then (or_at cur (push_bit bits_done (ucast current_byte_right)) parts)
          (\<lambda>parts.
             if \<not> (rest = [] \<and> bits_done + 8 = kBitsPerSubsecret) then
               let bits_done' = (bits_done + 8) mod kBitsPerSubsecret in
               and_then (or_at (cur + 1) (ucast (drop_bit (8 - bits_done') current_byte)) parts)
                 (DivideIntoSubsecrets_loop rest bits_done' (cur + 1))
             else DivideIntoSubsecrets_loop rest bits_done cur parts))"

definition DivideIntoSubsecrets :: "bytes \<Rightarrow> uint32 list status_or" where
  "DivideIntoSubsecrets to_share =
     (let n = DivideRoundUp (of_nat (length to_share) * 8) (of_nat kBitsPerSubsecret) in
      and_then (DivideIntoSubsecrets_loop (rev to_share) 0 0 (replicate (unat n) 0))
        (\<lambda>(cur, parts). fcp_check (cur + 1 = length parts) (Inr (rev parts))))"

text \<open>
  \<open>RebuildFromSubsecrets\<close>: \<open>i\<close> bytes are still to be written, \<open>subs\<close> are the subsecrets from
  \<open>subsecret\<close> to \<open>crend()\<close>, and \<open>acc\<close> is the part of \<open>secret\<close> already written. Bytes the
  loop does not reach keep the zero of the constructor.
\<close>

fun RebuildFromSubsecrets_loop :: "nat \<Rightarrow> uint32 list \<Rightarrow> nat \<Rightarrow> bytes \<Rightarrow> bytes" where
  "RebuildFromSubsecrets_loop 0 subs bits_done acc = acc"
| "RebuildFromSubsecrets_loop (Suc i) [] bits_done acc = replicate (Suc i) 0 @ acc"
| "RebuildFromSubsecrets_loop (Suc i) (s # subs) bits_done acc =
     (if kBitsPerSubsecret - bits_done > 8 then
        RebuildFromSubsecrets_loop i (s # subs) (bits_done + 8)
          (ucast (drop_bit bits_done s AND 0xFF) # acc)
      else
        let next_low_bits = (ucast (drop_bit bits_done s) :: uint8);
            high = (if subs \<noteq> [] then
                ucast (hd subs AND drop_bit (kBitsPerSubsecret - bits_done) 0xFF)
              else 0 :: uint8);
            bits_done' = (bits_done + 8) mod kBitsPerSubsecret
        in RebuildFromSubsecrets_loop i subs bits_done'
             ((push_bit (8 - bits_done') high OR next_low_bits) # acc))"

definition RebuildFromSubsecrets :: "uint32 list \<Rightarrow> nat \<Rightarrow> bytes" where
  "RebuildFromSubsecrets secret_parts secret_length =
     RebuildFromSubsecrets_loop secret_length (rev secret_parts) 0 []"

section \<open>Subsecrets as digits in base \<open>2^31\<close>\<close>

definition parts_val :: "uint32 list \<Rightarrow> nat" where
  "parts_val ps = foldr (\<lambda>p v. unat p + 2147483648 * v) ps 0"

lemma parts_val_simps [simp]:
  "parts_val [] = 0" "parts_val (p # ps) = unat p + 2147483648 * parts_val ps"
  by (simp_all add: parts_val_def)

abbreviation subsecret_ok :: "uint32 \<Rightarrow> bool" where
  "subsecret_ok p \<equiv> unat p < 2147483648"

lemma parts_val_zeros [simp]: "parts_val (replicate n 0) = 0"
  by (induction n) simp_all

lemma parts_val_nth:
  "k < length ps \<Longrightarrow> \<forall>p\<in>set ps. subsecret_ok p \<Longrightarrow>
    unat (ps ! k) = parts_val ps div 2147483648 ^ k mod 2147483648"
proof (induction ps arbitrary: k)
  case (Cons p ps)
  show ?case
  proof (cases k)
    case 0
    then show ?thesis using Cons.prems by simp
  next
    case (Suc j)
    have "(unat p + 2147483648 * parts_val ps) div 2147483648 ^ k
        = (unat p + 2147483648 * parts_val ps) div 2147483648 div 2147483648 ^ j"
      by (simp add: Suc div_mult2_eq)
    also have "(unat p + 2147483648 * parts_val ps) div 2147483648 = parts_val ps"
      using Cons.prems by simp
    finally show ?thesis using Cons Suc by simp
  qed
qed simp

lemma parts_val_update:
  "k < length ps \<Longrightarrow> unat q = unat (ps ! k) + d \<Longrightarrow>
    parts_val (ps[k := q]) = parts_val ps + 2147483648 ^ k * d"
proof (induction ps arbitrary: k)
  case (Cons p ps)
  then show ?case by (cases k) (simp_all add: algebra_simps)
qed simp

lemma pow31: "(2147483648::nat) ^ k = 2 ^ (31 * k)"
  by (simp add: power_mult)

text \<open>One write of the loop: it adds a value whose bits are still clear.\<close>

lemma or_at_adds:
  assumes ok: "\<forall>p\<in>set parts. subsecret_ok p" and cur: "cur < length parts"
    and low: "parts_val parts < 2 ^ (31 * cur + b)" and b: "b \<le> 31"
    and v: "unat v * 2 ^ b < 2147483648"
  shows "\<exists>parts'. or_at cur (push_bit b v) parts = Inr parts' \<and> length parts' = length parts
    \<and> (\<forall>p\<in>set parts'. subsecret_ok p)
    \<and> parts_val parts' = parts_val parts + 2 ^ (31 * cur + b) * unat v"
proof -
  let ?q = "(parts ! cur) OR push_bit b v"
  have "parts_val parts div 2 ^ (31 * cur) < 2 ^ b"
    using low by (simp add: power_add less_mult_imp_div_less mult.commute)
  then have small: "unat (parts ! cur) < 2 ^ b"
    using parts_val_nth [OF cur ok] by (metis mod_less_eq_dividend le_less_trans pow31)
  then have q: "unat ?q = unat (parts ! cur) + unat v * 2 ^ b"
    using v by (intro unat_or_push) simp_all
  have "unat v * 2 ^ b + 2 ^ b \<le> 2147483648"
  proof -
    have "(unat v + 1) * 2 ^ b \<le> (2 ^ (31 - b)) * 2 ^ b"
    proof (rule mult_le_mono1)
      have "unat v * 2 ^ b < 2 ^ (31 - b) * 2 ^ b"
        using v b by (simp flip: power_add)
      then show "unat v + 1 \<le> 2 ^ (31 - b)" by simp
    qed
    also have "\<dots> = 2147483648" using b by (simp flip: power_add)
    finally show ?thesis by simp
  qed
  then have "subsecret_ok ?q" using q small by linarith
  then have "\<forall>p\<in>set (parts[cur := ?q]). subsecret_ok p"
    using ok by (auto dest!: subsetD [OF set_update_subset_insert])
  moreover have "parts_val (parts[cur := ?q]) = parts_val parts + 2 ^ (31 * cur + b) * unat v"
    using parts_val_update [OF cur q] by (simp add: pow31 power_add algebra_simps)
  ultimately show ?thesis using cur by (simp add: or_at_def)
qed

lemma mask_0xFF: "(0xFF :: 'a::len word) = mask 8"
  by (simp add: mask_eq_exp_minus_1)

lemma unat_and_0xFF_shift:
  fixes w :: "'a::len word"
  shows "unat (w AND drop_bit k 0xFF) = unat w mod 2 ^ (min LENGTH('a) 8 - k)"
proof -
  have "drop_bit k (mask 8 :: 'a word) = mask (min LENGTH('a) 8 - k)"
    by (rule bit_eqI) (auto simp: bit_simps)
  then show ?thesis by (simp only: mask_0xFF unat_and_mask)
qed

text \<open>
  The loop invariant: \<open>parts_val\<close> is the value of the bytes consumed so far, the write
  position \<open>31 * cur + bits_done\<close> is above all bits written, and the vector is exactly
  long enough for the bits still to come.
\<close>

definition divide_ready :: "bytes \<Rightarrow> nat \<Rightarrow> nat \<Rightarrow> uint32 list \<Rightarrow> bool" where
  "divide_ready rest b cur parts \<longleftrightarrow>
     b < 31 \<and> (b = 0 \<longrightarrow> rest \<noteq> []) \<and> (\<forall>p\<in>set parts. subsecret_ok p)
   \<and> parts_val parts < 2 ^ (31 * cur + b)
   \<and> 31 * cur + b + 8 * length rest \<le> 31 * length parts
   \<and> 31 * length parts < 31 + 31 * cur + b + 8 * length rest"

lemma add_high_bits: "(v::nat) < 2 ^ n \<Longrightarrow> x < 2 ^ m \<Longrightarrow> v + 2 ^ n * x < 2 ^ (n + m)"
proof -
  assume "v < 2 ^ n" "x < 2 ^ m"
  then have "v + 2 ^ n * x < 2 ^ n * (x + 1)" by simp
  also have "\<dots> \<le> 2 ^ n * 2 ^ m" using \<open>x < 2 ^ m\<close> by (intro mult_le_mono) simp_all
  finally show ?thesis by (simp add: power_add)
qed

lemma unat_lt_pow8: "unat (w :: uint8) < 2 ^ 8"
  by simp

lemma divide_step_low:
  assumes ready: "divide_ready (byte # rest) b cur parts" and b: "b \<le> 22"
  shows "\<exists>parts'. or_at cur (push_bit b (ucast byte)) parts = Inr parts'
    \<and> divide_ready rest (b + 8) cur parts' \<and> length parts' = length parts
    \<and> parts_val parts' = parts_val parts + 2 ^ (31 * cur + b) * unat byte"
proof -
  have "unat byte * 2 ^ b < 256 * 2 ^ b" by simp
  also have "(256::nat) * 2 ^ b \<le> 256 * 2 ^ 22"
    by (rule mult_le_mono2, rule power_increasing [OF b]) simp
  finally have v: "unat (ucast byte :: uint32) * 2 ^ b < 2147483648" by simp
  have "cur < length parts" using ready by (auto simp: divide_ready_def)
  then obtain parts' where p: "or_at cur (push_bit b (ucast byte)) parts = Inr parts'"
      "length parts' = length parts" "\<forall>p\<in>set parts'. subsecret_ok p"
      "parts_val parts' = parts_val parts + 2 ^ (31 * cur + b) * unat byte"
    using or_at_adds [of parts cur b "ucast byte"] ready v b by (auto simp: divide_ready_def)
  have "parts_val parts' < 2 ^ (31 * cur + b + 8)"
    unfolding p(4) using ready by (intro add_high_bits) (simp_all add: divide_ready_def)
  then show ?thesis
    using p ready b by (auto simp: divide_ready_def add.assoc)
qed

lemma divide_step_cross:
  assumes ready: "divide_ready (byte # rest) b cur parts" and b: "23 \<le> b"
  shows "\<exists>parts'. or_at cur (push_bit b (ucast (byte AND drop_bit (8 - (31 - b)) 0xFF))) parts
      = Inr parts' \<and> length parts' = length parts \<and> (\<forall>p\<in>set parts'. subsecret_ok p)
    \<and> parts_val parts' = parts_val parts + 2 ^ (31 * cur + b) * (unat byte mod 2 ^ (31 - b))
    \<and> parts_val parts' < 2 ^ (31 * (cur + 1))"
proof -
  let ?r = "byte AND drop_bit (8 - (31 - b)) 0xFF"
  have b31: "b < 31" using ready by (simp add: divide_ready_def)
  have "8 - (8 - (31 - b)) = 31 - b" using b by simp
  then have r: "unat ?r = unat byte mod 2 ^ (31 - b)"
    by (simp add: unat_and_0xFF_shift)
  have "unat ?r * 2 ^ b < 2 ^ (31 - b) * 2 ^ b" unfolding r by simp
  also have "(2::nat) ^ (31 - b) * 2 ^ b = 2147483648" using b31 by (simp flip: power_add)
  finally have v: "unat (ucast ?r :: uint32) * 2 ^ b < 2147483648" by simp
  have "cur < length parts" using ready by (auto simp: divide_ready_def)
  then obtain parts' where p: "or_at cur (push_bit b (ucast ?r)) parts = Inr parts'"
      "length parts' = length parts" "\<forall>p\<in>set parts'. subsecret_ok p"
      "parts_val parts' = parts_val parts + 2 ^ (31 * cur + b) * unat ?r"
    using or_at_adds [of parts cur b "ucast ?r"] ready v b31 by (auto simp: divide_ready_def)
  have "parts_val parts' < 2 ^ (31 * cur + b + (31 - b))"
    unfolding p(4) using ready r by (intro add_high_bits) (simp_all add: divide_ready_def)
  then show ?thesis using p r b31 by (auto simp: add.commute)
qed

lemma divide_step_next:
  assumes ready: "divide_ready (byte # rest) b cur parts" and b: "23 \<le> b"
    and more: "\<not> (rest = [] \<and> b = 23)"
    and p: "length parts' = length parts" "\<forall>p\<in>set parts'. subsecret_ok p"
      "parts_val parts' = parts_val parts + 2 ^ (31 * cur + b) * (unat byte mod 2 ^ (31 - b))"
      "parts_val parts' < 2 ^ (31 * (cur + 1))"
  shows "\<exists>parts''. or_at (cur + 1) (ucast (drop_bit (8 - (b - 23)) byte)) parts' = Inr parts''
    \<and> divide_ready rest (b - 23) (cur + 1) parts'' \<and> length parts'' = length parts
    \<and> parts_val parts'' = parts_val parts + 2 ^ (31 * cur + b) * unat byte"
proof -
  let ?h = "drop_bit (8 - (b - 23)) byte"
  have b31: "b < 31" using ready by (simp add: divide_ready_def)
  have h: "unat ?h = unat byte div 2 ^ (31 - b)"
    using b b31 by (simp add: unat_drop_bit)
  have "unat ?h \<le> 255" using unat_byte_less [of ?h] by linarith
  then have v: "unat (ucast ?h :: uint32) * 2 ^ 0 < 2147483648" by simp
  have "cur + 1 < length parts'"
    using ready more b b31 p(1) by (cases rest) (auto simp: divide_ready_def)
  then obtain parts'' where q: "or_at (cur + 1) (ucast ?h) parts' = Inr parts''"
      "length parts'' = length parts'" "\<forall>p\<in>set parts''. subsecret_ok p"
      "parts_val parts'' = parts_val parts' + 2 ^ (31 * (cur + 1)) * unat ?h"
    using or_at_adds [of parts' "cur + 1" 0 "ucast ?h"] p v by auto
  have "(2::nat) ^ (31 * (cur + 1)) = 2 ^ (31 * cur + b) * 2 ^ (31 - b)"
    using b31 by (simp flip: power_add)
  then have "parts_val parts'' = parts_val parts
      + 2 ^ (31 * cur + b) * (unat byte mod 2 ^ (31 - b) + 2 ^ (31 - b) * (unat byte div 2 ^ (31 - b)))"
    by (simp only: q(4) p(3) h distrib_left mult.assoc add.assoc)
  then have val: "parts_val parts'' = parts_val parts + 2 ^ (31 * cur + b) * unat byte"
    by simp
  have "31 * cur + b + 8 = 31 * (cur + 1) + (b - 23)" using b by simp
  then have "parts_val parts'' < 2 ^ (31 * (cur + 1) + (b - 23))"
    unfolding val using ready
    by (metis add_high_bits divide_ready_def unat_lt_pow8)
  then show ?thesis
    using q val p ready more b b31 by (auto simp: divide_ready_def)
qed

lemma DivideIntoSubsecrets_loop_correct:
  "divide_ready rest b cur parts \<Longrightarrow>
   \<exists>parts'. DivideIntoSubsecrets_loop rest b cur parts = Inr (length parts - 1, parts')
     \<and> length parts' = length parts \<and> (\<forall>p\<in>set parts'. subsecret_ok p)
     \<and> parts_val parts' = parts_val parts + 2 ^ (31 * cur + b) * le_val rest"
proof (induction rest arbitrary: b cur parts)
  case Nil
  then have "cur = length parts - 1" by (auto simp: divide_ready_def)
  then show ?case using Nil by (auto simp: divide_ready_def)
next
  case (Cons byte rest)
  show ?case
  proof (cases "b \<le> 22")
    case True
    then show ?thesis
      using divide_step_low [OF Cons.prems True] Cons.IH
      by (fastforce simp: kBitsPerSubsecret_def power_add algebra_simps)
  next
    case False
    then have b: "23 \<le> b" by simp
    have b31: "b < 31" using Cons.prems by (simp add: divide_ready_def)
    obtain parts' where p:
        "or_at cur (push_bit b (ucast (byte AND drop_bit (8 - (31 - b)) 0xFF))) parts = Inr parts'"
        "length parts' = length parts" "\<forall>p\<in>set parts'. subsecret_ok p"
        "parts_val parts' = parts_val parts + 2 ^ (31 * cur + b) * (unat byte mod 2 ^ (31 - b))"
        "parts_val parts' < 2 ^ (31 * (cur + 1))"
      using divide_step_cross [OF Cons.prems b] by blast
    show ?thesis
    proof (cases "rest = [] \<and> b = 23")
      case True
      then have "cur = length parts - 1" using Cons.prems by (auto simp: divide_ready_def)
      then show ?thesis using p True by (auto simp: kBitsPerSubsecret_def)
    next
      case more: False
      have mod31: "(b + 8) mod 31 = b - 23" using b b31 by (simp add: mod_if)
      obtain parts'' where q:
          "or_at (cur + 1) (ucast (drop_bit (8 - (b - 23)) byte)) parts' = Inr parts''"
          "divide_ready rest (b - 23) (cur + 1) parts''" "length parts'' = length parts"
          "parts_val parts'' = parts_val parts + 2 ^ (31 * cur + b) * unat byte"
        using divide_step_next [OF Cons.prems b more p(2-5)] by blast
      have "(2::nat) ^ (31 * (cur + 1) + (b - 23)) = 2 ^ (31 * cur + b) * 256"
      proof -
        have "31 * (cur + 1) + (b - 23) = 31 * cur + b + 8" using b by simp
        then show ?thesis by (simp only: power_add) simp
      qed
      moreover have "DivideIntoSubsecrets_loop (byte # rest) b cur parts
          = DivideIntoSubsecrets_loop rest (b - 23) (cur + 1) parts''"
        using False more p(1) q(1) mod31 by (auto simp: kBitsPerSubsecret_def Let_def)
      ultimately show ?thesis
        using Cons.IH [OF q(2)] q(3,4) by (auto simp: algebra_simps)
    qed
  qed
qed

lemma DivideIntoSubsecrets_correct:
  assumes "to_share \<noteq> []" "length to_share < 2 ^ 28"
  shows "\<exists>ps. DivideIntoSubsecrets to_share = Inr ps
    \<and> length ps = (8 * length to_share + 30) div 31
    \<and> (\<forall>p\<in>set ps. subsecret_ok p) \<and> parts_val (rev ps) = be_val to_share"
proof -
  let ?n = "DivideRoundUp (of_nat (length to_share) * 8) (of_nat kBitsPerSubsecret)"
  have len: "unat (of_nat (length to_share) * 8 :: uint32) = 8 * length to_share"
    using assms(2) by (simp add: unat_word_ariths unat_of_nat)
  have n: "unat ?n = (8 * length to_share + 30) div 31"
    using assms(2) unat_DivideRoundUp [of 31 "of_nat (length to_share) * 8"] len
    by (simp add: kBitsPerSubsecret_def)
  have "divide_ready (rev to_share) 0 0 (replicate (unat ?n) 0)"
    using assms(1) n by (auto simp: divide_ready_def)
  from DivideIntoSubsecrets_loop_correct [OF this] obtain parts where p:
      "DivideIntoSubsecrets_loop (rev to_share) 0 0 (replicate (unat ?n) 0) = Inr (unat ?n - 1, parts)"
      "length parts = unat ?n" "\<forall>p\<in>set parts. subsecret_ok p" "parts_val parts = be_val to_share"
    by (auto simp: be_val_def)
  moreover have "0 < unat ?n" using assms(1) n by (cases to_share) auto
  ultimately show ?thesis
    using n by (intro exI [of _ "rev parts"]) (simp add: DivideIntoSubsecrets_def Let_def)
qed

section \<open>Rebuilding\<close>

lemma rebuild_low_bits:
  assumes "subsecret_ok s" "b < 31"
  shows "unat s div 2 ^ b < 2 ^ (31 - b)"
proof (rule less_mult_imp_div_less)
  show "unat s < 2 ^ (31 - b) * 2 ^ b" using assms by (simp flip: power_add)
qed

lemma parts_val_mod:
  assumes "k \<le> 31"
  shows "parts_val (p # ps) mod 2 ^ k = unat p mod 2 ^ k"
proof -
  have "(2147483648::nat) = 2 ^ k * 2 ^ (31 - k)" using assms by (simp flip: power_add)
  then have "parts_val (p # ps) = unat p + 2 ^ k * (2 ^ (31 - k) * parts_val ps)"
    by (simp only: parts_val_simps mult.assoc)
  then show ?thesis by (simp only: mod_mult_self2)
qed

text \<open>A byte that straddles two subsecrets.\<close>

lemma rebuild_cross_byte:
  fixes subs :: "uint32 list" and s :: uint32
  assumes b: "23 \<le> b" "b < 31" and s: "subsecret_ok s"
  defines "high \<equiv> if subs \<noteq> [] then ucast (hd subs AND drop_bit (31 - b) 0xFF) else (0 :: uint8)"
  shows "push_bit (31 - b) high OR ucast (drop_bit b s)
    = (of_nat (unat s div 2 ^ b + 2 ^ (31 - b) * parts_val subs) :: uint8)"
proof (rule unat_eqI)
  let ?k = "31 - b" and ?L = "unat s div 2 ^ b"
  have L: "?L < 2 ^ ?k" using s b(2) by (rule rebuild_low_bits)
  have "(2::nat) ^ ?k \<le> 2 ^ 8" using b(1) by (intro power_increasing) simp_all
  then have low: "unat (ucast (drop_bit b s) :: uint8) = ?L"
    using L by (simp add: unat_ucast_small unat_drop_bit)
  have e: "8 - ?k = b - 23" "min 32 8 - ?k = b - 23" using b by simp_all
  have high: "unat high = parts_val subs mod 2 ^ (b - 23)"
  proof (cases subs)
    case (Cons h t)
    have "unat h mod 2 ^ (b - 23) < 2 ^ (b - 23)" by simp
    also have "(2::nat) ^ (b - 23) \<le> 2 ^ 8" using b(2) by (intro power_increasing) simp_all
    finally show ?thesis
      using Cons b(2) by (simp add: high_def unat_ucast_small unat_and_0xFF_shift e parts_val_mod
          del: parts_val_simps)
  qed (simp add: high_def)
  have pow: "(2::nat) ^ ?k * 2 ^ (b - 23) = 256" using b by (simp flip: power_add)
  have "unat high * 2 ^ ?k < 2 ^ (b - 23) * 2 ^ ?k" using high by simp
  then have "unat high * 2 ^ ?k < 256" by (simp only: pow mult.commute [of "2 ^ (b - 23)"])
  then have "unat (ucast (drop_bit b s) OR push_bit ?k high) = ?L + unat high * 2 ^ ?k"
    using unat_or_push [of "ucast (drop_bit b s)" ?k high] low L pow by (simp add: mult.commute)
  moreover have "(?L + 2 ^ ?k * parts_val subs) mod (2 ^ ?k * 2 ^ (b - 23)) = ?L + unat high * 2 ^ ?k"
    using L high by (simp only: mod_mult2_eq) simp
  ultimately show "unat (push_bit ?k high OR ucast (drop_bit b s))
      = unat (of_nat (?L + 2 ^ ?k * parts_val subs) :: uint8)"
    by (simp only: unat_of_nat_byte pow or.commute)
qed

lemma RebuildFromSubsecrets_loop_correct:
  "\<forall>p\<in>set subs. subsecret_ok p \<Longrightarrow> b < 31 \<Longrightarrow>
   RebuildFromSubsecrets_loop i subs b acc = rev (le_bytes i (parts_val subs div 2 ^ b)) @ acc"
proof (induction i subs b acc rule: RebuildFromSubsecrets_loop.induct)
  case (2 i b acc)
  then show ?case by (simp add: le_bytes_0 replicate_append_same flip: replicate_Suc)
next
  case (3 i s subs b acc)
  let ?V = "parts_val (s # subs)"
  have b31: "b < 31" by fact
  have split: "?V div 2 ^ b = unat s div 2 ^ b + 2 ^ (31 - b) * parts_val subs"
  proof -
    have "(2147483648::nat) = 2 ^ b * 2 ^ (31 - b)" using b31 by (simp flip: power_add)
    then have "?V = unat s + 2 ^ b * (2 ^ (31 - b) * parts_val subs)"
      by (simp only: parts_val_simps mult.assoc)
    then show ?thesis by (simp only: div_mult_self2) simp
  qed
  show ?case
  proof (cases "b \<le> 22")
    case True
    have "31 - b = 8 + (23 - b)" using True by simp
    then have "(2::nat) ^ (31 - b) = 256 * 2 ^ (23 - b)" by (simp only: power_add) simp
    then have "?V div 2 ^ b mod 256 = unat s div 2 ^ b mod 256"
      unfolding split by (simp add: mult.assoc)
    then have byte: "(ucast (drop_bit b s AND 0xFF) :: uint8) = of_nat (?V div 2 ^ b)"
      by (intro unat_eqI) (simp add: unat_ucast_small unat_and_mask unat_drop_bit mask_0xFF)
    have "?V div 2 ^ (b + 8) = ?V div 2 ^ b div 256" by (simp add: power_add div_mult2_eq)
    moreover have c: "kBitsPerSubsecret - b > 8" using True by (simp add: kBitsPerSubsecret_def)
    ultimately show ?thesis
      using "3.IH"(1) [OF c] True byte "3.prems"
      by (simp only: RebuildFromSubsecrets_loop.simps if_True le_bytes.simps) simp
  next
    case False
    let ?k = "31 - b" and ?W = "parts_val subs" and ?L = "unat s div 2 ^ b"
    define high where "high = (if subs \<noteq> [] then
      ucast (hd subs AND drop_bit (kBitsPerSubsecret - b) 0xFF) else 0 :: uint8)"
    have c: "\<not> kBitsPerSubsecret - b > 8" using False by (simp add: kBitsPerSubsecret_def)
    have m: "(b + 8) mod kBitsPerSubsecret = b - 23"
      using False b31 by (simp add: mod_if kBitsPerSubsecret_def)
    have k: "8 - (b - 23) = ?k" using False b31 by simp
    have byte: "push_bit ?k high OR ucast (drop_bit b s) = (of_nat (?V div 2 ^ b) :: uint8)"
      unfolding high_def kBitsPerSubsecret_def split
      using rebuild_cross_byte [of b s subs] False "3.prems" by simp
    have "(256::nat) = 2 ^ ?k * 2 ^ (b - 23)"
      using False b31 by (simp flip: power_add)
    then have "?V div 2 ^ b div 256 = (?L + 2 ^ ?k * ?W) div 2 ^ ?k div 2 ^ (b - 23)"
      unfolding split by (simp only: div_mult2_eq)
    also have "(?L + 2 ^ ?k * ?W) div 2 ^ ?k = ?W"
      using rebuild_low_bits [of s b] "3.prems" by simp
    finally have next_val: "?V div 2 ^ b div 256 = ?W div 2 ^ (b - 23)" .
    have "RebuildFromSubsecrets_loop (Suc i) (s # subs) b acc
        = RebuildFromSubsecrets_loop i subs (b - 23) (of_nat (?V div 2 ^ b) # acc)"
      by (simp only: RebuildFromSubsecrets_loop.simps c if_False Let_def m k byte flip: high_def)
    also have "\<dots> = rev (le_bytes i (?W div 2 ^ (b - 23))) @ of_nat (?V div 2 ^ b) # acc"
      using "3.IH"(2) [OF c refl refl refl] "3.prems" b31
      by (simp only: m k byte flip: high_def) simp
    finally show ?thesis by (simp only: le_bytes.simps next_val) simp
  qed
qed simp

lemma RebuildFromSubsecrets_correct:
  assumes "\<forall>p\<in>set ps. subsecret_ok p"
  shows "RebuildFromSubsecrets ps n = rev (le_bytes n (parts_val (rev ps)))"
  using RebuildFromSubsecrets_loop_correct [of "rev ps" 0 n "[]"] assms
  by (simp add: RebuildFromSubsecrets_def)

lemma rev_le_bytes_be_val: "rev (le_bytes (length bs) (be_val bs)) = bs"
  using le_bytes_le_val [of "rev bs"] by (simp add: be_val_def)

lemma Rebuild_Divide:
  assumes "to_share \<noteq> []" "length to_share < 2 ^ 28" "DivideIntoSubsecrets to_share = Inr ps"
  shows "RebuildFromSubsecrets ps (length to_share) = to_share"
  using DivideIntoSubsecrets_correct [OF assms(1,2)] assms(3)
  by (auto simp: RebuildFromSubsecrets_correct rev_le_bytes_be_val)

section \<open>Properties\<close>

text \<open>
  C36. Cutting a secret into 31-bit subsecrets never leaves the vector or fails its final
  check, gives \<open>ceil(8 n / 31)\<close> values below \<open>2^31\<close>, and \<open>RebuildFromSubsecrets\<close> returns the
  original bytes.
\<close>

theorem Divide_Rebuild_roundtrip:
  assumes "to_share \<noteq> []" "length to_share < 2 ^ 28"
  shows "\<exists>ps. DivideIntoSubsecrets to_share = Inr ps
    \<and> length ps = (8 * length to_share + 30) div 31 \<and> (\<forall>p\<in>set ps. unat p < 2 ^ 31)
    \<and> RebuildFromSubsecrets ps (length to_share) = to_share"
  using DivideIntoSubsecrets_correct [OF assms] Rebuild_Divide [OF assms] by auto

theorem Divide_Rebuild_roundtrip_witness:
  "\<exists>ps. DivideIntoSubsecrets [0x80, 1, 2, 3, 0xFF] = Inr ps
    \<and> length ps = (8 * length [0x80, 1, 2, 3, 0xFF :: uint8] + 30) div 31 \<and> list_all (\<lambda>p. unat p < 2 ^ 31) ps
    \<and> RebuildFromSubsecrets ps (length [0x80, 1, 2, 3, 0xFF :: uint8]) = [0x80, 1, 2, 3, 0xFF]"
  unfolding list_all_iff by (rule Divide_Rebuild_roundtrip) simp_all

end
