(* ===== verification/Interpolation.thy ===== *)
theory Interpolation
  imports Prime_Field
begin

text \<open>
  The field of integers modulo the prime of the Shamir code, as a type \<open>gf\<close> of the class
  \<open>field\<close>, and Lagrange interpolation at zero in any field: a polynomial of length at
  most \<open>card A\<close> is determined at zero by its values on a set \<open>A\<close> of nonzero points.
\<close>

section \<open>The field\<close>

typedef gf = "{0..<int kPrime_nat}"
  by (auto intro!: exI [of _ 0] simp: kPrime_nat_def)

setup_lifting type_definition_gf

lemma kPrime_pos: "0 < int kPrime_nat"
  by (simp add: kPrime_nat_def)

lemma mod_kPrime_range: "k mod int kPrime_nat \<in> {0..<int kPrime_nat}"
  using kPrime_pos by simp

instantiation gf :: comm_ring_1
begin

lift_definition zero_gf :: gf is 0 using kPrime_pos by simp
lift_definition one_gf :: gf is 1 by (simp add: kPrime_nat_def)
lift_definition plus_gf :: "gf \<Rightarrow> gf \<Rightarrow> gf" is "\<lambda>a b. (a + b) mod int kPrime_nat"
  by (rule mod_kPrime_range)
lift_definition minus_gf :: "gf \<Rightarrow> gf \<Rightarrow> gf" is "\<lambda>a b. (a - b) mod int kPrime_nat"
  by (rule mod_kPrime_range)
lift_definition uminus_gf :: "gf \<Rightarrow> gf" is "\<lambda>a. (- a) mod int kPrime_nat"
  by (rule mod_kPrime_range)
lift_definition times_gf :: "gf \<Rightarrow> gf \<Rightarrow> gf" is "\<lambda>a b. (a * b) mod int kPrime_nat"
  by (rule mod_kPrime_range)

instance
proof
  fix a b c :: gf
  show "a * b * c = a * (b * c)" by transfer (simp add: mod_simps mult.assoc)
  show "a * b = b * a" by transfer (simp add: mult.commute)
  show "1 * a = a" by transfer simp
  show "a + b + c = a + (b + c)" by transfer (simp add: mod_simps add.assoc)
  show "a + b = b + a" by transfer (simp add: add.commute)
  show "0 + a = a" by transfer simp
  show "- a + a = 0" by transfer (simp add: mod_simps)
  show "a - b = a + - b" by transfer (simp add: mod_simps)
  show "(a + b) * c = a * c + b * c" by transfer (simp add: mod_simps distrib_right)
  show "(0::gf) \<noteq> 1" by transfer simp
qed

end

lemma Rep_gf_0: "Rep_gf 0 = 0" and Rep_gf_1: "Rep_gf 1 = 1"
  by (transfer, simp)+

lemma Rep_gf_add: "Rep_gf (a + b) = (Rep_gf a + Rep_gf b) mod int kPrime_nat"
  and Rep_gf_mult: "Rep_gf (a * b) = (Rep_gf a * Rep_gf b) mod int kPrime_nat"
  by (transfer, simp)+

lemma Rep_gf_range: "0 \<le> Rep_gf a" "Rep_gf a < int kPrime_nat"
  using Rep_gf [of a] by simp_all

lemma Rep_gf_power: "Rep_gf (a ^ n) = Rep_gf a ^ n mod int kPrime_nat"
proof (induction n)
  case 0
  show ?case by (simp add: Rep_gf_1 kPrime_nat_def)
next
  case (Suc n)
  then show ?case by (simp add: Rep_gf_mult mod_simps)
qed

lemma gf_fermat:
  fixes a :: gf
  assumes "a \<noteq> 0"
  shows "a ^ (kPrime_nat - 1) = 1"
proof -
  define k where "k = nat (Rep_gf a)"
  have k: "Rep_gf a = int k" "k < kPrime_nat" using Rep_gf_range [of a] by (auto simp: k_def)
  have "k \<noteq> 0" using assms k(1) Rep_gf_0 Rep_gf_inject [of a 0] by auto
  then have "\<not> kPrime_nat dvd k" using k(2) by (auto dest: dvd_imp_le)
  then have "k ^ (kPrime_nat - 1) mod kPrime_nat = 1" by (rule fermat_little [OF prime_kPrime])
  then have "int k ^ (kPrime_nat - 1) mod int kPrime_nat = 1"
    by (metis of_nat_1 of_nat_mod of_nat_power)
  then have "Rep_gf (a ^ (kPrime_nat - 1)) = Rep_gf 1"
    by (simp only: Rep_gf_power k(1) Rep_gf_1)
  then show ?thesis by (simp only: Rep_gf_inject)
qed

instantiation gf :: field
begin

definition inverse_gf :: "gf \<Rightarrow> gf" where
  "inverse_gf a = (if a = 0 then 0 else a ^ (kPrime_nat - 2))"
definition divide_gf :: "gf \<Rightarrow> gf \<Rightarrow> gf" where
  "divide_gf a b = a * inverse b"

instance
proof
  fix a b :: gf
  show "inverse a * a = 1" if "a \<noteq> 0"
  proof -
    have "kPrime_nat - 1 = Suc (kPrime_nat - 2)"
      using prime_nat_gt_1 [OF prime_kPrime] by linarith
    then have "a ^ (kPrime_nat - 2) * a = a ^ (kPrime_nat - 1)" by (simp only: power_Suc2)
    then show ?thesis using gf_fermat [OF that] that by (simp only: inverse_gf_def if_False)
  qed
  show "a div b = a * inverse b" by (rule divide_gf_def)
  show "inverse (0::gf) = 0" by (simp add: inverse_gf_def)
qed

end

text \<open>The residue of an integer as a field element, and back.\<close>

lift_definition gf_of :: "int \<Rightarrow> gf" is "\<lambda>k. k mod int kPrime_nat"
  by (rule mod_kPrime_range)

lemma gf_of_arith:
  "gf_of (a + b) = gf_of a + gf_of b"
  "gf_of (a - b) = gf_of a - gf_of b"
  "gf_of (a * b) = gf_of a * gf_of b"
  "gf_of (- a) = - gf_of a"
  by (transfer, simp add: mod_simps)+

lemma gf_of_0 [simp]: "gf_of 0 = 0" and gf_of_1 [simp]: "gf_of 1 = 1"
  by (transfer, simp add: kPrime_nat_def)+

lemma gf_of_power: "gf_of (a ^ n) = gf_of a ^ n"
  by (induction n) (simp_all add: gf_of_arith)

lemma gf_of_mod [simp]: "gf_of (a mod int kPrime_nat) = gf_of a"
  by transfer simp

lemma gf_of_eq_iff: "gf_of a = gf_of b \<longleftrightarrow> a mod int kPrime_nat = b mod int kPrime_nat"
  by transfer simp

lemma gf_of_sum: "gf_of (\<Sum>x\<in>A. f x) = (\<Sum>x\<in>A. gf_of (f x))"
  by (induction A rule: infinite_finite_induct) (simp_all add: gf_of_arith)

lemma gf_of_prod: "gf_of (\<Prod>x\<in>A. f x) = (\<Prod>x\<in>A. gf_of (f x))"
  by (induction A rule: infinite_finite_induct) (simp_all add: gf_of_arith)

section \<open>Lagrange interpolation at zero\<close>

text \<open>Horner evaluation, constant coefficient first.\<close>

fun eval_poly :: "'a::comm_ring_1 list \<Rightarrow> 'a \<Rightarrow> 'a" where
  "eval_poly [] x = 0"
| "eval_poly (c # cs) x = c + x * eval_poly cs x"

text \<open>Synthetic division of a polynomial by \<open>x - r\<close>.\<close>

fun synth :: "'a::comm_ring_1 \<Rightarrow> 'a list \<Rightarrow> 'a list" where
  "synth r [] = []"
| "synth r (c # cs) = (if cs = [] then [] else eval_poly cs r # synth r cs)"

lemma synth_length: "length (synth r cs) = length cs - 1"
  by (induction cs) (auto simp: Suc_diff_1 simp del: One_nat_def)

lemma synth_eval: "eval_poly cs x = eval_poly cs r + (x - r) * eval_poly (synth r cs) x"
proof (induction cs)
  case (Cons c cs)
  have "eval_poly (c # cs) x = c + x * (eval_poly cs r + (x - r) * eval_poly (synth r cs) x)"
    using Cons.IH by simp
  then show ?case by (auto simp: algebra_simps)
qed simp

text \<open>The divided difference of \<open>h\<close> on the finite set \<open>A\<close>.\<close>

definition divdiff :: "('a::field \<Rightarrow> 'a) \<Rightarrow> 'a set \<Rightarrow> 'a" where
  "divdiff h A = (\<Sum>a\<in>A. h a / (\<Prod>b\<in>A - {a}. b - a))"

lemma divdiff_add: "divdiff (\<lambda>x. f x + g x) A = divdiff f A + divdiff g A"
  by (simp add: divdiff_def add_divide_distrib sum.distrib)

lemma divdiff_scale: "divdiff (\<lambda>x. c * f x) A = c * divdiff f A"
  by (simp add: divdiff_def sum_distrib_left mult.assoc)

lemma divdiff_linear:
  fixes g :: "'a::field \<Rightarrow> 'a"
  assumes A: "finite A" "c \<in> A"
  shows "divdiff (\<lambda>x. (x - c) * g x) A = - divdiff g (A - {c})"
proof -
  have "(a - c) * g a / (\<Prod>b\<in>A - {a}. b - a) = - (g a / (\<Prod>b\<in>A - {c} - {a}. b - a))"
    if "a \<in> A - {c}" for a
  proof -
    have "A - {a} = insert c (A - {c} - {a})" using that A by auto
    then have "(\<Prod>b\<in>A - {a}. b - a) = (c - a) * (\<Prod>b\<in>A - {c} - {a}. b - a)"
      using A by simp
    moreover have "a - c \<noteq> 0" using that by simp
    ultimately show ?thesis
      by (metis (no_types, lifting) minus_diff_eq mult_divide_mult_cancel_left minus_divide_right
          mult_minus_left minus_minus)
  qed
  then have "(\<Sum>a\<in>A - {c}. (a - c) * g a / (\<Prod>b\<in>A - {a}. b - a)) = - divdiff g (A - {c})"
    by (simp add: divdiff_def sum_negf)
  then show ?thesis
    using A by (simp add: divdiff_def sum.remove)
qed

lemma divdiff_one: "finite A \<Longrightarrow> 2 \<le> card A \<Longrightarrow> divdiff (\<lambda>x. 1) A = (0::'a::field)"
proof (induction "card A" arbitrary: A rule: less_induct)
  case less
  obtain c where c: "c \<in> A" using less.prems by fastforce
  have "card (A - {c}) \<noteq> 0" using less.prems c by (simp add: card_Diff_singleton)
  then obtain d where d: "d \<in> A - {c}" by (metis card.empty ex_in_conv)
  have eq: "divdiff (\<lambda>x. 1) (A - {c}) = divdiff (\<lambda>x. 1) (A - {d})"
  proof (cases "card A = 2")
    case True
    then have "A = {c, d}" using c d less.prems(1)
      by (intro card_subset_eq [symmetric]) auto
    then have "A - {c} = {d}" "A - {d} = {c}" using d by auto
    then show ?thesis by (simp add: divdiff_def)
  next
    case False
    have "divdiff (\<lambda>x. 1) (A - {e}) = (0::'a)" if "e \<in> A" for e
      using less.prems that False by (intro less.hyps) (auto simp: card_Diff_singleton card_gt_0_iff)
    then show ?thesis using c d by simp
  qed
  have "divdiff (\<lambda>x. (x - c) * 1 + (- 1) * ((x - d) * 1)) A = 0"
    using eq d by (simp only: divdiff_add divdiff_scale divdiff_linear [OF less.prems(1)] c Diff_iff) simp
  moreover have "(\<lambda>x. (x - c) * 1 + (- 1) * ((x - d) * 1)) = (\<lambda>x. (d - c) * 1)"
    by (auto simp: algebra_simps)
  ultimately have "(d - c) * divdiff (\<lambda>x. 1) A = 0" by (simp only: divdiff_scale)
  moreover have "d - c \<noteq> 0" using d by simp
  ultimately show ?case by simp
qed

lemma divdiff_poly:
  "finite A \<Longrightarrow> length cs + 1 \<le> card A \<Longrightarrow> divdiff (eval_poly cs) A = (0::'a::field)"
proof (induction "length cs" arbitrary: cs A rule: less_induct)
  case less
  show ?case
  proof (cases "cs = []")
    case True
    then show ?thesis by (simp add: divdiff_def)
  next
    case False
    then have "1 \<le> length cs" by (cases cs) auto
    then have two: "2 \<le> card A" using less.prems(2) by simp
    then obtain c where c: "c \<in> A" by fastforce
    have "divdiff (eval_poly (synth c cs)) (A - {c}) = 0"
      using less.prems False c by (intro less.hyps) (auto simp: synth_length card_Diff_singleton)
    moreover have "divdiff (eval_poly cs) A
        = divdiff (\<lambda>x. eval_poly cs c * 1 + (x - c) * eval_poly (synth c cs) x) A"
      by (rule arg_cong [of _ _ "\<lambda>h. divdiff h A"], rule ext) (simp add: synth_eval [of cs _ c, symmetric])
    moreover have "divdiff (\<lambda>x. eval_poly cs c * 1 + (x - c) * eval_poly (synth c cs) x) A
        = eval_poly cs c * divdiff (\<lambda>x. 1) A - divdiff (eval_poly (synth c cs)) (A - {c})"
      by (simp only: divdiff_add divdiff_scale divdiff_linear [OF less.prems(1) c]) simp
    ultimately show ?thesis
      using divdiff_one [OF less.prems(1) two] by simp
  qed
qed

lemma lagrange_at_zero:
  fixes cs :: "'a::field list"
  assumes A: "finite A" "0 \<notin> A" and len: "length cs \<le> card A"
  shows "(\<Sum>a\<in>A. eval_poly cs a * (\<Prod>b\<in>A - {a}. b / (b - a))) = eval_poly cs 0"
proof -
  let ?P = "\<Prod>b\<in>A. b"
  have P: "?P \<noteq> 0" using A by auto
  have "0 = divdiff (eval_poly cs) (insert 0 A)"
    using divdiff_poly [of "insert 0 A" cs] A len by simp
  also have "\<dots> = eval_poly cs 0 / ?P
      + (\<Sum>a\<in>A. eval_poly cs a / (\<Prod>b\<in>insert 0 A - {a}. b - a))"
    using A by (simp add: divdiff_def)
  also have "(\<Sum>a\<in>A. eval_poly cs a / (\<Prod>b\<in>insert 0 A - {a}. b - a))
      = (\<Sum>a\<in>A. - (eval_poly cs a * (\<Prod>b\<in>A - {a}. b / (b - a))) / ?P)"
  proof (rule sum.cong [OF refl])
    fix a assume a: "a \<in> A"
    have "insert 0 A - {a} = insert 0 (A - {a})" using a A by auto
    then have 1: "(\<Prod>b\<in>insert 0 A - {a}. b - a) = (- a) * (\<Prod>b\<in>A - {a}. b - a)"
      using A by simp
    have 2: "?P = a * (\<Prod>b\<in>A - {a}. b)" using A a by (simp add: prod.remove)
    have "a \<noteq> 0" "(\<Prod>b\<in>A - {a}. b) \<noteq> 0" "(\<Prod>b\<in>A - {a}. b - a) \<noteq> 0" using a A by auto
    then show "eval_poly cs a / (\<Prod>b\<in>insert 0 A - {a}. b - a)
        = - (eval_poly cs a * (\<Prod>b\<in>A - {a}. b / (b - a))) / ?P"
      by (simp add: 1 2 prod_dividef field_simps)
  qed
  also have "\<dots> = - (\<Sum>a\<in>A. eval_poly cs a * (\<Prod>b\<in>A - {a}. b / (b - a))) / ?P"
    by (simp add: sum_divide_distrib sum_negf)
  finally show ?thesis using P by (simp add: field_simps)
qed

lemma lagrange_indexed:
  fixes g :: "nat \<Rightarrow> 'a::field"
  assumes inj: "inj_on g {..<n}" and nz: "\<forall>i<n. g i \<noteq> 0" and len: "length cs \<le> n"
  shows "(\<Sum>i<n. eval_poly cs (g i) * (\<Prod>j\<in>{..<n} - {i}. g j / (g j - g i))) = eval_poly cs 0"
proof -
  let ?A = "g ` {..<n}"
  have "card ?A = n" using inj by (simp add: card_image)
  then have "(\<Sum>a\<in>?A. eval_poly cs a * (\<Prod>b\<in>?A - {a}. b / (b - a))) = eval_poly cs 0"
    using nz len by (intro lagrange_at_zero) auto
  moreover have "(\<Prod>b\<in>?A - {g i}. b / (b - g i)) = (\<Prod>j\<in>{..<n} - {i}. g j / (g j - g i))"
    if "i < n" for i
  proof -
    have "?A - {g i} = g ` ({..<n} - {i})" using inj that by (auto simp: inj_on_def)
    then show ?thesis
      using inj by (simp add: prod.reindex inj_on_diff)
  qed
  ultimately show ?thesis using inj by (simp add: sum.reindex)
qed

end
