(* ===== verification/Shamir.thy ===== *)
theory Shamir
  imports Shamir_Subsecrets Interpolation
begin

unbundle bit_operations_syntax

text \<open>
  \<open>fcp/secagg/shared/shamir_secret_sharing.{h,cc}\<close>: t-of-n Shamir secret sharing of byte
  strings, with the caches of the class as a record. Secrets are cut into 31-bit
  subsecrets, each shared by a polynomial over the field with \<open>kPrime = 2^31 + 11\<close>
  elements. \<open>RAND_bytes\<close> is a list of 32-bit draws; the rejection loop reports
  \<open>OutOfFuel\<close> when the list is used up. The C++ \<open>int\<close> parameters are integers, and the one
  product that can overflow \<open>int\<close> is guarded.
\<close>

section \<open>Definitions\<close>

definition kPrime :: uint64 where "kPrime = 2147483659"
definition kSubsecretSize :: nat where "kSubsecretSize = 4"

record ShamirShare =
  share_data :: bytes

record ShamirSecretSharing =
  inverses :: "uint32 list"
  last_lc_input :: "int list"
  last_lc_output :: "uint32 list"

definition new_ShamirSecretSharing :: ShamirSecretSharing where
  "new_ShamirSecretSharing = \<lparr>inverses = [], last_lc_input = [], last_lc_output = []\<rparr>"

text \<open>\<open>EvaluatePolynomial\<close>: the loop from the highest coefficient down to index 1.\<close>

definition EvaluatePolynomial_step :: "uint32 \<Rightarrow> uint32 \<Rightarrow> uint64 \<Rightarrow> uint64" where
  "EvaluatePolynomial_step x c acc = ((acc + ucast c) * ucast x) mod kPrime"

definition EvaluatePolynomial :: "uint32 list \<Rightarrow> uint32 \<Rightarrow> uint32" where
  "EvaluatePolynomial polynomial x =
     (let acc = foldr (EvaluatePolynomial_step x) (tl polynomial) 0
      in ucast ((acc + ucast (hd polynomial)) mod kPrime))"

text \<open>\<open>RandomFieldElement\<close>, and the loop of \<open>Share\<close> that draws coefficients.\<close>

fun RandomFieldElement :: "uint32 list \<Rightarrow> (uint32 \<times> uint32 list) status_or" where
  "RandomFieldElement [] = Inl OutOfFuel"
| "RandomFieldElement (rand # draws) =
     (if kPrime \<le> ucast rand then RandomFieldElement draws else Inr (rand, draws))"

fun random_coefficients :: "nat \<Rightarrow> uint32 list \<Rightarrow> (uint32 list \<times> uint32 list) status_or" where
  "random_coefficients 0 draws = Inr ([], draws)"
| "random_coefficients (Suc k) draws =
     and_then (RandomFieldElement draws) (\<lambda>(r, draws).
     and_then (random_coefficients k draws) (\<lambda>(rs, draws). Inr (r # rs, draws)))"

definition append_subshares ::
  "uint32 list \<Rightarrow> ShamirShare list \<Rightarrow> ShamirShare list" where
  "append_subshares coefficients shares =
     map (\<lambda>i. \<lparr>share_data = share_data (shares ! i) @
            IntToByteString (EvaluatePolynomial coefficients (of_nat (i + 1)))\<rparr>)
       [0..<length shares]"

fun Share_loop ::
  "nat \<Rightarrow> uint32 list \<Rightarrow> uint32 list \<Rightarrow> ShamirShare list
    \<Rightarrow> (ShamirShare list \<times> uint32 list) status_or" where
  "Share_loop threshold [] draws shares = Inr (shares, draws)"
| "Share_loop threshold (subsecret # subsecrets) draws shares =
     and_then (random_coefficients (threshold - 1) draws) (\<lambda>(coefficients, draws).
       Share_loop threshold subsecrets draws
         (append_subshares (subsecret # coefficients) shares))"

definition Share ::
  "uint32 list \<Rightarrow> int \<Rightarrow> int \<Rightarrow> bytes \<Rightarrow> (ShamirShare list \<times> uint32 list) status_or" where
  "Share draws threshold num_shares to_share =
     fcp_check (to_share \<noteq> [])
    (fcp_check (num_shares > 1)
    (fcp_check (2 \<le> threshold \<and> threshold \<le> num_shares)
    (and_then (DivideIntoSubsecrets to_share) (\<lambda>subsecrets.
       Share_loop (nat threshold) subsecrets draws
         (replicate (nat num_shares) \<lparr>share_data = []\<rparr>)))))"

text \<open>\<open>ModPow\<close>, \<open>ModInverse\<close> and \<open>LagrangeCoefficients\<close>, with the caches of the object.\<close>

function ModPow :: "uint32 \<Rightarrow> uint32 \<Rightarrow> uint32" where
  "ModPow x y =
     (if y = 0 then 1
      else
        let p = ucast ((ucast (ModPow x (y div 2)) :: uint64) mod kPrime);
            q = MultiplyMod p p kPrime
        in if y AND 1 = 0 then q else MultiplyMod x q kPrime)"
  by pat_completeness auto
termination
  by (relation "measure (\<lambda>(x, y). unat y)") (auto simp: unat_div_distrib unat_gt_0)

declare ModPow.simps [simp del]

function ModInverse_fill :: "uint32 list \<Rightarrow> uint32 \<Rightarrow> uint32 list" where
  "ModInverse_fill invs n =
     (if length invs < unat n
      then ModInverse_fill (invs @ [ModPow (of_nat (length invs + 1)) (ucast (kPrime - 2))]) n
      else invs)"
  by pat_completeness auto
termination
  by (relation "measure (\<lambda>(invs, n). unat n - length invs)") auto

declare ModInverse_fill.simps [simp del]

definition ModInverse ::
  "ShamirSecretSharing \<Rightarrow> uint32 \<Rightarrow> (uint32 \<times> ShamirSecretSharing) status_or" where
  "ModInverse st n =
     fcp_check (n > 0 \<and> ucast n < kPrime)
       (let invs = ModInverse_fill (inverses st) n
        in Inr (invs ! (unat n - 1), st\<lparr>inverses := invs\<rparr>))"

definition lc_step ::
  "int list \<Rightarrow> nat \<Rightarrow> nat \<Rightarrow> uint32 \<times> ShamirSecretSharing
    \<Rightarrow> (uint32 \<times> ShamirSecretSharing) status_or" where
  "lc_step x_values i j = (\<lambda>(out, st).
     if i = j then Inr (out, st)
     else
       let out = MultiplyMod out (of_int (x_values ! j)) kPrime in
       if x_values ! j > x_values ! i then
         and_then (ModInverse st (of_int (x_values ! j - x_values ! i)))
           (\<lambda>(inv, st). Inr (MultiplyMod out inv kPrime, st))
       else
         let out = MultiplyMod out (ucast (kPrime - 1)) kPrime in
         and_then (ModInverse st (of_int (x_values ! i - x_values ! j)))
           (\<lambda>(inv, st). Inr (MultiplyMod out inv kPrime, st)))"

definition lc_row ::
  "int list \<Rightarrow> nat \<Rightarrow> uint32 list \<times> ShamirSecretSharing
    \<Rightarrow> (uint32 list \<times> ShamirSecretSharing) status_or" where
  "lc_row x_values i = (\<lambda>(outs, st).
     and_then (fold_status (lc_step x_values i) [0..<length x_values] (1, st))
       (\<lambda>(out, st). Inr (outs @ [out], st)))"

definition LagrangeCoefficients ::
  "ShamirSecretSharing \<Rightarrow> int list \<Rightarrow> (uint32 list \<times> ShamirSecretSharing) status_or" where
  "LagrangeCoefficients st x_values =
     fcp_check (length x_values > 1)
    (fcp_check (list_all (\<lambda>x. x > 0) x_values)
      (if x_values = last_lc_input st then Inr (last_lc_output st, st)
       else and_then (fold_status (lc_row x_values) [0..<length x_values] ([], st))
         (\<lambda>(outs, st). Inr (outs, st\<lparr>last_lc_input := x_values, last_lc_output := outs\<rparr>))))"

text \<open>
  \<open>Reconstruct\<close>: the scan for the shares that are present, the big-endian decoding of
  one subshare, and the accumulation, a 32-bit sum reduced after each step.
\<close>

fun Reconstruct_scan ::
  "int \<Rightarrow> int \<Rightarrow> ShamirShare list \<Rightarrow> int \<Rightarrow> int \<Rightarrow> int list \<Rightarrow> (int \<times> int list) status_or" where
  "Reconstruct_scan threshold max_num [] i num_subsecrets x_values = Inr (num_subsecrets, x_values)"
| "Reconstruct_scan threshold max_num (share # shares) i num_subsecrets x_values =
     (if \<not> int (length x_values) < threshold then Inr (num_subsecrets, x_values)
      else if share_data share = [] then
        Reconstruct_scan threshold max_num shares (i + 1) num_subsecrets x_values
      else
        let sz = length (share_data share) in
        fcp_check (sz mod kSubsecretSize = 0)
          (if num_subsecrets = 0 then
             let num' = int (sz div kSubsecretSize) in
             fcp_check (num' > 0 \<and> num' \<le> max_num)
               (Reconstruct_scan threshold max_num shares (i + 1) num' (x_values @ [i + 1]))
           else
             fcp_check (int sz = num_subsecrets * int kSubsecretSize)
               (Reconstruct_scan threshold max_num shares (i + 1) num_subsecrets
                  (x_values @ [i + 1]))))"

definition decode_subshare :: "bytes \<Rightarrow> nat \<Rightarrow> uint32" where
  "decode_subshare d i =
     foldl (\<lambda>subshare k. push_bit 8 subshare + ucast (d ! (kSubsecretSize * i + k)))
       0 [0..<kSubsecretSize]"

definition accumulate :: "uint32 \<Rightarrow> uint32 \<times> uint32 \<Rightarrow> uint32" where
  "accumulate acc = (\<lambda>(subshare, coefficient).
     ucast ((ucast (acc + MultiplyMod subshare coefficient kPrime) :: uint64) mod kPrime))"

definition subshares_of :: "ShamirShare list \<Rightarrow> int list \<Rightarrow> nat \<Rightarrow> uint32 list" where
  "subshares_of shares x_values i =
     map (\<lambda>x. decode_subshare (share_data (shares ! nat (x - 1))) i) x_values"

definition Reconstruct ::
  "ShamirSecretSharing \<Rightarrow> int \<Rightarrow> ShamirShare list \<Rightarrow> int
    \<Rightarrow> (bytes \<times> ShamirSecretSharing) status_or" where
  "Reconstruct st threshold shares secret_length =
     fcp_check (threshold > 1)
    (fcp_check (secret_length > 0)
    (fcp_check (int (length shares) \<ge> threshold)
    (if 8 * secret_length + int kBitsPerSubsecret > 2147483647 then Inl Undefined else
     let max_num = (8 * secret_length + int kBitsPerSubsecret - 1) div int kBitsPerSubsecret in
     and_then (Reconstruct_scan threshold max_num shares 0 0 []) (\<lambda>(num_subsecrets, x_values).
       if int (length x_values) < threshold
       then Inl (Status FAILED_PRECONDITION ''Only x_values.size() valid shares were provided'')
       else
         and_then (LagrangeCoefficients st x_values) (\<lambda>(coefficients, st).
           let subsecrets =
             map (\<lambda>i. foldl accumulate 0 (zip (subshares_of shares x_values i) coefficients))
               [0..<nat num_subsecrets]
           in Inr (RebuildFromSubsecrets subsecrets (nat secret_length), st))))))"

section \<open>Field arithmetic on 32-bit words\<close>

text \<open>The residue a word stands for.\<close>

definition gfw :: "uint32 \<Rightarrow> gf" where
  "gfw w = gf_of (int (unat w))"

lemma unat_kPrime [simp]: "unat kPrime = kPrime_nat"
  by (simp add: kPrime_def kPrime_nat_def)

lemma kPrime_bounds: "0 < kPrime_nat" "kPrime_nat < 4294967296" "2147483648 < kPrime_nat"
  by (simp_all add: kPrime_nat_def)

lemma unat_MultiplyMod_kPrime: "unat (MultiplyMod a b kPrime) = unat a * unat b mod kPrime_nat"
  using unat_MultiplyMod [of kPrime a b] by (simp add: kPrime_nat_def)

lemma gfw_MultiplyMod [simp]: "gfw (MultiplyMod a b kPrime) = gfw a * gfw b"
  by (simp add: gfw_def unat_MultiplyMod_kPrime of_nat_mod gf_of_arith)

lemma unat_mod_kPrime: "unat (ucast (w mod kPrime :: uint64) :: uint32) = unat w mod kPrime_nat"
proof -
  have "unat w mod kPrime_nat < kPrime_nat" using kPrime_bounds(1) by simp
  then have "unat w mod kPrime_nat < 2 ^ 32" using kPrime_bounds(2) by simp
  then show ?thesis by (simp add: unat_ucast_small unat_mod_distrib)
qed

lemma gfw_mod_kPrime: "gfw (ucast (w mod kPrime :: uint64)) = gf_of (int (unat w))"
  by (simp add: gfw_def unat_mod_kPrime of_nat_mod)

lemma gfw_inj: "gfw a = gfw b \<Longrightarrow> unat a < kPrime_nat \<Longrightarrow> unat b < kPrime_nat \<Longrightarrow> a = b"
  by (rule unat_eqI) (simp only: gfw_def gf_of_eq_iff of_nat_mod [symmetric] of_nat_eq_iff mod_less)

lemma gfw_1 [simp]: "gfw 1 = 1"
  by (simp add: gfw_def)

lemma word_odd_iff: "y AND 1 = 0 \<longleftrightarrow> even (unat (y :: uint32))"
  by (simp only: and_one_eq unat_0_iff [symmetric] unat_mod_distrib even_iff_mod_2_eq_zero) simp

lemma gfw_ModPow: "gfw (ModPow x y) = gfw x ^ unat y"
proof (induction x y rule: ModPow.induct)
  case (1 x y)
  show ?case
  proof (cases "y = 0")
    case True
    then show ?thesis by (simp add: ModPow.simps [of x 0])
  next
    case False
    let ?h = "ModPow x (y div 2)"
    have "gfw (ucast ((ucast ?h :: uint64) mod kPrime)) = gfw x ^ (unat y div 2)"
      using 1 [OF False] by (simp add: gfw_mod_kPrime unat_div_distrib) (simp add: gfw_def)
    moreover have "gfw x ^ unat y = gfw x ^ (unat y mod 2) * (gfw x ^ (unat y div 2) * gfw x ^ (unat y div 2))"
      by (simp flip: power_add add: mult_2 [symmetric])
    ultimately show ?thesis
      using False by (simp add: ModPow.simps [of x y] Let_def word_odd_iff mod_2_eq_odd)
  qed
qed

lemma inverse_gf_power: "inverse a = (a::gf) ^ (kPrime_nat - 2)"
proof (cases "a = 0")
  case True
  have "kPrime_nat - 2 \<noteq> 0" by (simp add: kPrime_nat_def)
  then show ?thesis using True by (simp only: inverse_gf_def power_0_left) simp
next
  case False
  then show ?thesis by (simp only: inverse_gf_def if_False)
qed

section \<open>The inverse cache\<close>

definition inverses_ok :: "uint32 list \<Rightarrow> bool" where
  "inverses_ok invs \<longleftrightarrow> (\<forall>i<length invs. gfw (invs ! i) = inverse (gf_of (int i + 1)))"

lemma ModInverse_fill_ok:
  "inverses_ok invs \<Longrightarrow> inverses_ok (ModInverse_fill invs n) \<and> unat n \<le> length (ModInverse_fill invs n)"
proof (induction invs n rule: ModInverse_fill.induct)
  case (1 invs n)
  show ?case
  proof (cases "length invs < unat n")
    case True
    let ?new = "ModPow (of_nat (length invs + 1)) (ucast (kPrime - 2))"
    have "length invs + 1 < 4294967296" using True unat_u32_less [of n] by linarith
    then have "unat (of_nat (length invs + 1) :: uint32) = length invs + 1"
      by (rule unat_of_nat_u32)
    moreover have "unat (ucast (kPrime - 2) :: uint32) = kPrime_nat - 2"
      by (simp add: kPrime_def kPrime_nat_def)
    ultimately have "gfw ?new = inverse (gf_of (int (length invs) + 1))"
      by (simp only: gfw_ModPow inverse_gf_power) (simp add: gfw_def add.commute)
    then have "inverses_ok (invs @ [?new])"
      using "1.prems" by (auto simp: inverses_ok_def nth_append less_Suc_eq)
    then show ?thesis
      using "1.IH" [OF True] True by (simp add: ModInverse_fill.simps [of invs n])
  qed (simp add: ModInverse_fill.simps [of invs n] "1.prems")
qed

lemma ModInverse_correct:
  assumes "inverses_ok (inverses st)" "0 < unat n" "unat n < kPrime_nat"
  shows "\<exists>v invs. ModInverse st n = Inr (v, st\<lparr>inverses := invs\<rparr>) \<and> inverses_ok invs
    \<and> gfw v = inverse (gfw n)"
proof -
  let ?invs = "ModInverse_fill (inverses st) n"
  have ok: "inverses_ok ?invs" "unat n \<le> length ?invs"
    using ModInverse_fill_ok [OF assms(1)] by auto
  then have "gfw (?invs ! (unat n - 1)) = inverse (gfw n)"
    using assms(2) by (auto simp: inverses_ok_def gfw_def of_nat_diff)
  then show ?thesis
    using ok(1) assms(2,3)
    by (intro exI [of _ "?invs ! (unat n - 1)"] exI [of _ ?invs])
      (simp add: ModInverse_def word_less_nat_alt Let_def)
qed

section \<open>Lagrange coefficients\<close>

definition lcoef :: "int list \<Rightarrow> nat \<Rightarrow> gf" where
  "lcoef xs i = (\<Prod>j\<in>{..<length xs} - {i}. gf_of (xs ! j) / (gf_of (xs ! j) - gf_of (xs ! i)))"

definition lc_ok :: "int list \<Rightarrow> uint32 list \<Rightarrow> bool" where
  "lc_ok xs cs \<longleftrightarrow> length cs = length xs \<and> (\<forall>i<length xs. gfw (cs ! i) = lcoef xs i)"

text \<open>What the object keeps: both caches hold the values they stand for.\<close>

definition shamir_inv :: "ShamirSecretSharing \<Rightarrow> bool" where
  "shamir_inv st \<longleftrightarrow> inverses_ok (inverses st)
     \<and> (last_lc_input st \<noteq> [] \<longrightarrow> lc_ok (last_lc_input st) (last_lc_output st))"

lemma shamir_inv_new: "shamir_inv new_ShamirSecretSharing"
  by (simp add: shamir_inv_def new_ShamirSecretSharing_def inverses_ok_def)

text \<open>Points at which the scheme can interpolate.\<close>

definition x_values_ok :: "int list \<Rightarrow> bool" where
  "x_values_ok xs \<longleftrightarrow> distinct xs \<and> (\<forall>x\<in>set xs. 0 < x \<and> x < 2147483648)"

lemma gfw_of_int: "0 \<le> k \<Longrightarrow> k < 4294967296 \<Longrightarrow> gfw (of_int k) = gf_of k"
  by (simp only: gfw_def unat_of_int_u32) simp

lemma gf_of_eq_small:
  assumes "0 \<le> a" "a < int kPrime_nat" "0 \<le> b" "b < int kPrime_nat"
  shows "gf_of a = gf_of b \<longleftrightarrow> a = b"
  using assms by (simp add: gf_of_eq_iff)

lemma x_values_points:
  assumes "x_values_ok xs"
  shows "inj_on (\<lambda>i. gf_of (xs ! i)) {..<length xs}" "\<forall>i<length xs. gf_of (xs ! i) \<noteq> 0"
proof -
  have r: "0 < xs ! i \<and> xs ! i < int kPrime_nat" if "i < length xs" for i
  proof -
    have "0 < xs ! i \<and> xs ! i < 2147483648" using assms that by (simp add: x_values_ok_def)
    then show ?thesis using kPrime_bounds(3) by linarith
  qed
  show "inj_on (\<lambda>i. gf_of (xs ! i)) {..<length xs}"
    using assms r by (auto simp: inj_on_def x_values_ok_def nth_eq_iff_index_eq gf_of_eq_small less_imp_le)
  show "\<forall>i<length xs. gf_of (xs ! i) \<noteq> 0"
    using r gf_of_eq_small [of _ 0] kPrime_bounds(1) by (force simp: less_imp_le)
qed

lemma gf_minus_1: "gfw (ucast (kPrime - 1)) = - 1"
proof -
  have "unat (ucast (kPrime - 1) :: uint32) = kPrime_nat - 1"
    by (simp add: kPrime_def kPrime_nat_def)
  then have "gfw (ucast (kPrime - 1)) = gf_of (int kPrime_nat + - 1)"
    by (simp add: gfw_def kPrime_nat_def)
  also have "\<dots> = gf_of (- 1)" by (simp only: gf_of_eq_iff) simp
  finally show ?thesis by (simp only: gf_of_arith gf_of_1)
qed

lemma lc_step_correct:
  assumes xs: "x_values_ok xs" "i < length xs" "j < length xs" "i \<noteq> j"
    and st: "inverses_ok (inverses st)"
  shows "\<exists>out' invs. lc_step xs i j (out, st) = Inr (out', st\<lparr>inverses := invs\<rparr>)
    \<and> inverses_ok invs
    \<and> gfw out' = gfw out * (gf_of (xs ! j) / (gf_of (xs ! j) - gf_of (xs ! i)))"
proof -
  let ?xi = "xs ! i" and ?xj = "xs ! j"
  have r: "0 < ?xi" "?xi < 2147483648" "0 < ?xj" "?xj < 2147483648" "?xi \<noteq> ?xj"
    using xs by (auto simp: x_values_ok_def nth_eq_iff_index_eq)
  have xj: "gfw (of_int ?xj) = gf_of ?xj" using r by (intro gfw_of_int) simp_all
  have inv: "\<exists>v invs. ModInverse st (of_int k) = Inr (v, st\<lparr>inverses := invs\<rparr>) \<and> inverses_ok invs
      \<and> gfw v = inverse (gf_of k)" if "0 < k" "k < 2147483648" for k
  proof -
    have "unat (of_int k :: uint32) = nat k" using that by (intro unat_of_int_u32) simp_all
    moreover have "gfw (of_int k) = gf_of k" using that by (intro gfw_of_int) simp_all
    ultimately show ?thesis
      using ModInverse_correct [OF st, of "of_int k"] that kPrime_bounds(3) by simp
  qed
  show ?thesis
  proof (cases "?xj > ?xi")
    case True
    then obtain v invs where v: "ModInverse st (of_int (?xj - ?xi)) = Inr (v, st\<lparr>inverses := invs\<rparr>)"
        "inverses_ok invs" "gfw v = inverse (gf_of ?xj - gf_of ?xi)"
      using inv [of "?xj - ?xi"] r by (auto simp: gf_of_arith)
    then show ?thesis
      using True xs(4) xj by (auto simp: lc_step_def Let_def divide_inverse)
  next
    case False
    then obtain v invs where v: "ModInverse st (of_int (?xi - ?xj)) = Inr (v, st\<lparr>inverses := invs\<rparr>)"
        "inverses_ok invs" "gfw v = inverse (gf_of ?xi - gf_of ?xj)"
      using inv [of "?xi - ?xj"] r by (auto simp: gf_of_arith)
    have "inverse (gf_of ?xi - gf_of ?xj) = - inverse (gf_of ?xj - gf_of ?xi)"
      by (metis inverse_minus_eq minus_diff_eq)
    then show ?thesis
      using False xs(4) xj v by (auto simp: lc_step_def Let_def divide_inverse gf_minus_1)
  qed
qed

lemma lc_inner_correct:
  assumes xs: "x_values_ok xs" "i < length xs" and st: "inverses_ok (inverses st)"
  shows "m \<le> length xs \<Longrightarrow> \<exists>out invs. fold_status (lc_step xs i) [0..<m] (1, st)
      = Inr (out, st\<lparr>inverses := invs\<rparr>) \<and> inverses_ok invs
    \<and> gfw out = (\<Prod>j\<in>{..<m} - {i}. gf_of (xs ! j) / (gf_of (xs ! j) - gf_of (xs ! i)))"
proof (induction m)
  case 0
  show ?case using st by (auto intro!: exI [of _ 1] exI [of _ "inverses st"])
next
  case (Suc m)
  then obtain out invs where IH: "fold_status (lc_step xs i) [0..<m] (1, st)
      = Inr (out, st\<lparr>inverses := invs\<rparr>)" "inverses_ok invs"
      "gfw out = (\<Prod>j\<in>{..<m} - {i}. gf_of (xs ! j) / (gf_of (xs ! j) - gf_of (xs ! i)))"
    by auto
  show ?case
  proof (cases "i = m")
    case True
    then have "{..<Suc m} - {i} = {..<m} - {i}" by auto
    moreover have "lc_step xs i m (out, st\<lparr>inverses := invs\<rparr>) = Inr (out, st\<lparr>inverses := invs\<rparr>)"
      using True by (simp add: lc_step_def)
    ultimately show ?thesis using IH by (auto simp: fold_status_append)
  next
    case False
    obtain out' invs' where s: "lc_step xs i m (out, st\<lparr>inverses := invs\<rparr>)
        = Inr (out', st\<lparr>inverses := invs'\<rparr>)" "inverses_ok invs'"
        "gfw out' = gfw out * (gf_of (xs ! m) / (gf_of (xs ! m) - gf_of (xs ! i)))"
      using lc_step_correct [OF xs, of m "st\<lparr>inverses := invs\<rparr>" out] False Suc.prems IH(2) by auto
    have "{..<Suc m} - {i} = insert m ({..<m} - {i})" using False by auto
    then show ?thesis using IH s by (auto simp: fold_status_append mult.commute)
  qed
qed

lemma lc_rows_correct:
  assumes xs: "x_values_ok xs" and st: "inverses_ok (inverses st)"
  shows "m \<le> length xs \<Longrightarrow> \<exists>outs invs. fold_status (lc_row xs) [0..<m] ([], st)
      = Inr (outs, st\<lparr>inverses := invs\<rparr>) \<and> inverses_ok invs \<and> length outs = m
    \<and> (\<forall>i<m. gfw (outs ! i) = lcoef xs i)"
proof (induction m)
  case 0
  show ?case using st by (auto intro!: exI [of _ "inverses st"])
next
  case (Suc m)
  then obtain outs invs where IH: "fold_status (lc_row xs) [0..<m] ([], st)
      = Inr (outs, st\<lparr>inverses := invs\<rparr>)" "inverses_ok invs" "length outs = m"
      "\<forall>i<m. gfw (outs ! i) = lcoef xs i"
    by auto
  obtain out invs' where o: "fold_status (lc_step xs m) [0..<length xs] (1, st\<lparr>inverses := invs\<rparr>)
      = Inr (out, st\<lparr>inverses := invs'\<rparr>)" "inverses_ok invs'" "gfw out = lcoef xs m"
    using lc_inner_correct [OF xs, of m "st\<lparr>inverses := invs\<rparr>" "length xs"] IH(2) Suc.prems
    by (auto simp: lcoef_def)
  then have "lc_row xs m (outs, st\<lparr>inverses := invs\<rparr>) = Inr (outs @ [out], st\<lparr>inverses := invs'\<rparr>)"
    by (simp add: lc_row_def)
  then show ?case
    using IH o by (auto simp: fold_status_append nth_append less_Suc_eq)
qed

lemma LagrangeCoefficients_correct:
  assumes xs: "x_values_ok xs" "1 < length xs" and st: "shamir_inv st"
  shows "\<exists>cs st'. LagrangeCoefficients st xs = Inr (cs, st') \<and> shamir_inv st' \<and> lc_ok xs cs"
proof (cases "xs = last_lc_input st")
  case True
  then have "lc_ok xs (last_lc_output st)" using st xs(2) by (auto simp: shamir_inv_def)
  then show ?thesis
    using True xs st by (auto simp: LagrangeCoefficients_def list_all_iff x_values_ok_def)
next
  case False
  obtain outs invs where o: "fold_status (lc_row xs) [0..<length xs] ([], st)
      = Inr (outs, st\<lparr>inverses := invs\<rparr>)" "inverses_ok invs" "lc_ok xs outs"
    using lc_rows_correct [OF xs(1), of st "length xs"] st by (auto simp: shamir_inv_def lc_ok_def)
  then show ?thesis
    using False xs by (auto simp: LagrangeCoefficients_def list_all_iff x_values_ok_def shamir_inv_def)
qed

section \<open>Polynomials and their encoding\<close>

lemma EvaluatePolynomial_loop:
  "\<forall>c\<in>set cs. unat c < kPrime_nat \<Longrightarrow> unat x < 2147483648 \<Longrightarrow>
   let v = foldr (EvaluatePolynomial_step x) cs 0 in
     unat v < kPrime_nat \<and> gf_of (int (unat v)) = gfw x * eval_poly (map gfw cs) (gfw x)"
proof (induction cs)
  case Nil
  show ?case by (simp add: Let_def kPrime_nat_def)
next
  case (Cons c cs)
  define v where "v = foldr (EvaluatePolynomial_step x) cs 0"
  have v: "unat v < kPrime_nat" "gf_of (int (unat v)) = gfw x * eval_poly (map gfw cs) (gfw x)"
    using Cons by (simp_all add: v_def Let_def)
  have s: "unat v + unat c < 4294967318"
    using v(1) Cons.prems(1) by (simp add: kPrime_nat_def)
  then have a: "unat (v + ucast c) = unat v + unat c" by (simp add: unat_add_small)
  have "(unat v + unat c) * unat x \<le> 4294967318 * 2147483648"
    using s Cons.prems(2) by (intro mult_le_mono) simp_all
  then have "unat ((v + ucast c) * ucast x) = (unat v + unat c) * unat x"
    by (simp add: unat_mult_small a)
  then have w: "unat (EvaluatePolynomial_step x c v) = (unat v + unat c) * unat x mod kPrime_nat"
    by (simp add: EvaluatePolynomial_step_def unat_mod_distrib)
  have "gf_of (int (unat (EvaluatePolynomial_step x c v))) = (gf_of (int (unat v)) + gfw c) * gfw x"
    by (simp only: w) (simp add: of_nat_mod gf_of_arith gfw_def)
  also have "\<dots> = gfw x * eval_poly (map gfw (c # cs)) (gfw x)"
    by (simp only: v(2)) (simp add: algebra_simps)
  moreover have "unat (EvaluatePolynomial_step x c v) < kPrime_nat"
    by (simp add: w kPrime_bounds(1))
  ultimately show ?case by (simp only: Let_def foldr_Cons o_apply v_def simp_thms)
qed

lemma EvaluatePolynomial_correct:
  assumes "p \<noteq> []" "\<forall>c\<in>set p. unat c < kPrime_nat" "unat x < 2147483648"
  shows "unat (EvaluatePolynomial p x) < kPrime_nat"
    and "gfw (EvaluatePolynomial p x) = eval_poly (map gfw p) (gfw x)"
proof -
  obtain c cs where p: "p = c # cs" using assms(1) by (cases p) auto
  define v where "v = foldr (EvaluatePolynomial_step x) cs 0"
  have v: "unat v < kPrime_nat" "gf_of (int (unat v)) = gfw x * eval_poly (map gfw cs) (gfw x)"
    using EvaluatePolynomial_loop [of cs x] assms(2,3) by (simp_all add: p v_def Let_def)
  have "unat (v + ucast c) = unat v + unat c"
  proof -
    have "unat v + unat c < 18446744073709551616"
      using v(1) unat_u32_less [of c] unfolding kPrime_nat_def by linarith
    then show ?thesis by (simp add: unat_add_small)
  qed
  then show "gfw (EvaluatePolynomial p x) = eval_poly (map gfw p) (gfw x)"
    using v(2) by (simp add: p EvaluatePolynomial_def gfw_mod_kPrime gf_of_arith flip: v_def)
      (simp add: gfw_def)
  show "unat (EvaluatePolynomial p x) < kPrime_nat"
    using kPrime_bounds(1) by (simp add: p EvaluatePolynomial_def unat_mod_kPrime)
qed

lemma decode_step:
  assumes "unat w < 16777216"
  shows "unat (push_bit 8 w + ucast b :: uint32) = 256 * unat w + unat (b :: uint8)"
proof -
  have "unat (push_bit 8 w) = unat w * 2 ^ 8"
    using assms by (intro unat_push_bit_small) simp
  moreover have "256 * unat w + unat b < 4294967296"
    using assms unat_byte_less [of b] by linarith
  ultimately show ?thesis by (subst unat_add_small) (simp_all add: mult.commute)
qed

lemma three_bytes_less:
  "a \<le> 255 \<Longrightarrow> b \<le> 255 \<Longrightarrow> c \<le> 255 \<Longrightarrow> 256 * (256 * a + b) + c < (16777216::nat)"
  by simp

lemma decode_subshare_be_val:
  assumes "4 * i + 4 \<le> length d"
  shows "unat (decode_subshare d i) = be_val (take 4 (drop (4 * i) d))"
proof -
  let ?b = "\<lambda>k. d ! (4 * i + k)"
  let ?s = "\<lambda>w k. push_bit 8 w + ucast (?b k) :: uint32"
  have l: "take 4 (drop (4 * i) d) = [?b 0, ?b 1, ?b 2, ?b 3]"
    using assms by (intro nth_equalityI) (auto simp: less_Suc_eq numeral_eq_Suc)
  have b: "unat (?b k) \<le> 255" for k using unat_byte_less [of "?b k"] by linarith
  have 0: "unat (?s 0 0) = unat (?b 0)" using decode_step [of 0 "?b 0"] by simp
  then have "unat (?s 0 0) < 16777216" using b [of 0] by linarith
  from decode_step [OF this, of "?b 1"]
  have 1: "unat (?s (?s 0 0) 1) = 256 * unat (?b 0) + unat (?b 1)" by (simp only: 0)
  then have "unat (?s (?s 0 0) 1) < 16777216" using b [of 0] b [of 1] by linarith
  from decode_step [OF this, of "?b 2"]
  have 2: "unat (?s (?s (?s 0 0) 1) 2) = 256 * (256 * unat (?b 0) + unat (?b 1)) + unat (?b 2)"
    by (simp only: 1)
  have "unat (?s (?s (?s 0 0) 1) 2) < 16777216"
    unfolding 2 by (intro three_bytes_less b)
  from decode_step [OF this, of "?b 3"]
  have 3: "unat (?s (?s (?s (?s 0 0) 1) 2) 3)
      = 256 * (256 * (256 * unat (?b 0) + unat (?b 1)) + unat (?b 2)) + unat (?b 3)"
    by (simp only: 2)
  have "[0..<4] = [0, 1, 2, 3::nat]" by (simp add: upt_rec)
  then have "decode_subshare d i = ?s (?s (?s (?s 0 0) 1) 2) 3"
    by (simp only: decode_subshare_def kSubsecretSize_def foldl_Cons foldl_Nil)
  then show ?thesis using 3 by (simp only: l be_val_def) simp
qed

lemma decode_encoded:
  assumes "i < length ws"
  shows "decode_subshare (concat (map IntToByteString ws)) i = ws ! i"
proof -
  have d: "drop (4 * i) (concat (map IntToByteString ws)) = concat (map IntToByteString (drop i ws))"
    for i
  proof (induction ws arbitrary: i)
    case (Cons w ws)
    then show ?case by (cases i) (simp_all add: drop_append)
  qed simp
  have "take 4 (drop (4 * i) (concat (map IntToByteString ws))) = IntToByteString (ws ! i)"
    using assms by (simp only: d Cons_nth_drop_Suc [symmetric]) simp
  moreover have "4 * i + 4 \<le> length (concat (map IntToByteString ws))"
  proof -
    have "length (concat (map IntToByteString ws)) = 4 * length ws"
      by (induction ws) simp_all
    then show ?thesis using assms by simp
  qed
  ultimately show ?thesis
    by (intro unat_eqI) (simp add: decode_subshare_be_val be_val_IntToByteString)
qed

section \<open>What \<open>Share\<close> produces\<close>

lemma RandomFieldElement_range:
  "RandomFieldElement draws = Inr (r, draws') \<Longrightarrow> unat r < kPrime_nat"
  by (induction draws rule: RandomFieldElement.induct)
    (auto simp: word_le_nat_alt split: if_splits)

lemma random_coefficients_range:
  "random_coefficients k draws = Inr (rs, draws') \<Longrightarrow>
    length rs = k \<and> (\<forall>r\<in>set rs. unat r < kPrime_nat)"
  by (induction k arbitrary: draws rs draws') (auto simp: failure_iffs dest: RandomFieldElement_range)

definition poly_ok :: "nat \<Rightarrow> uint32 \<Rightarrow> uint32 list \<Rightarrow> bool" where
  "poly_ok t subsecret p \<longleftrightarrow> length p = t \<and> hd p = subsecret \<and> (\<forall>c\<in>set p. unat c < kPrime_nat)"

text \<open>The share of holder \<open>i\<close> for a list of polynomials.\<close>

definition share_bytes :: "uint32 list list \<Rightarrow> nat \<Rightarrow> bytes" where
  "share_bytes polys i = concat (map IntToByteString
     (map (\<lambda>p. EvaluatePolynomial p (of_nat (i + 1))) polys))"

lemma length_append_subshares [simp]: "length (append_subshares p shares) = length shares"
  by (simp add: append_subshares_def)

lemma Share_loop_polys:
  assumes "Share_loop t subs draws shares = Inr (shares', draws')" "0 < t"
    and "\<forall>s\<in>set subs. unat s < kPrime_nat"
  shows "\<exists>polys. list_all2 (poly_ok t) subs polys \<and> length shares' = length shares
    \<and> (\<forall>i<length shares. share_data (shares' ! i) = share_data (shares ! i) @ share_bytes polys i)"
  using assms
proof (induction subs arbitrary: draws shares)
  case Nil
  then show ?case by (auto simp: share_bytes_def)
next
  case (Cons s subs)
  then obtain rs draws1 where rs: "random_coefficients (t - 1) draws = Inr (rs, draws1)"
      "Share_loop t subs draws1 (append_subshares (s # rs) shares) = Inr (shares', draws')"
    by (auto simp: failure_iffs)
  from Cons.IH [OF rs(2) Cons.prems(2)] Cons.prems(3) obtain polys where polys:
      "list_all2 (poly_ok t) subs polys" "length shares' = length shares"
      "\<forall>i<length shares. share_data (shares' ! i)
         = share_data (append_subshares (s # rs) shares ! i) @ share_bytes polys i"
    by auto
  have "poly_ok t s (s # rs)"
    using random_coefficients_range [OF rs(1)] Cons.prems(2,3) by (auto simp: poly_ok_def)
  moreover have "share_data (append_subshares (s # rs) shares ! i) @ share_bytes polys i
      = share_data (shares ! i) @ share_bytes ((s # rs) # polys) i" if "i < length shares" for i
    using that by (simp add: append_subshares_def share_bytes_def)
  ultimately show ?case
    using polys by (intro exI [of _ "(s # rs) # polys"]) simp
qed

section \<open>The shares \<open>Reconstruct\<close> uses\<close>

definition present :: "ShamirShare list \<Rightarrow> int \<Rightarrow> int list" where
  "present shares i = map (\<lambda>k. i + int k + 1)
     (filter (\<lambda>k. share_data (shares ! k) \<noteq> []) [0..<length shares])"

lemma present_Nil [simp]: "present [] i = []"
  by (simp add: present_def)

lemma present_Cons: "present (s # shares) i
  = (if share_data s \<noteq> [] then [i + 1] else []) @ present shares (i + 1)"
proof -
  have "[0..<length (s # shares)] = 0 # map Suc [0..<length shares]"
    by (simp add: map_Suc_upt upt_conv_Cons del: upt_Suc)
  then show ?thesis
    by (simp add: present_def filter_map o_def add.assoc del: upt_Suc)
qed

lemma Reconstruct_scan_correct:
  assumes "\<forall>s\<in>set shares. share_data s \<noteq> [] \<longrightarrow> length (share_data s) = 4 * m"
    and "0 < m" "int m \<le> max_num" "int (length xs) \<le> t" "n = (if xs = [] then 0 else int m)"
  shows "Reconstruct_scan t max_num shares i n xs
    = (let xs' = xs @ take (nat t - length xs) (present shares i)
       in Inr (if xs' = [] then 0 else int m, xs'))"
  using assms
proof (induction shares arbitrary: i n xs)
  case Nil
  then show ?case by simp
next
  case (Cons s shares)
  show ?case
  proof (cases "int (length xs) < t \<and> share_data s \<noteq> []")
    case False
    then show ?thesis using Cons by (auto simp: present_Cons)
  next
    case True
    have len: "length (share_data s) = 4 * m" using Cons.prems(1) True by simp
    have "length xs < nat t" using True by linarith
    then have "nat t - length xs = Suc (nat t - length (xs @ [i + 1]))" by simp
    then have "xs @ take (nat t - length xs) (present (s # shares) i)
        = (xs @ [i + 1]) @ take (nat t - length (xs @ [i + 1])) (present shares (i + 1))"
      using True by (simp only: present_Cons) simp
    then show ?thesis
      using Cons.IH [of "xs @ [i + 1]" "int m" "i + 1"] Cons.prems(1-5) True len
      by (simp add: kSubsecretSize_def Let_def)
  qed
qed

section \<open>Accumulation\<close>

text \<open>
  The sum of \<open>Reconstruct\<close> is kept in 32 bits. Two residues can add up to more than
  \<open>2^32\<close>, so the code is right exactly when no addition of the run wraps.
\<close>

fun acc_fits :: "uint32 \<Rightarrow> (uint32 \<times> uint32) list \<Rightarrow> bool" where
  "acc_fits acc [] = True"
| "acc_fits acc ((y, c) # ycs) =
     (acc \<le> acc + MultiplyMod y c kPrime \<and> acc_fits (accumulate acc (y, c)) ycs)"

lemma no_wrap_iff: "a \<le> a + b \<longleftrightarrow> unat a + unat (b :: uint32) < 4294967296"
proof (cases "unat a + unat b < 4294967296")
  case True
  then show ?thesis by (simp add: word_le_nat_alt unat_add_small)
next
  case False
  have "unat a + unat b < 2 * 4294967296" using unat_u32_less [of a] unat_u32_less [of b] by linarith
  then have "unat (a + b) = unat a + unat b - 4294967296"
    using False by (simp add: unat_word_ariths mod_if)
  then have "unat (a + b) < unat a" using False unat_u32_less [of b] by linarith
  then show ?thesis using False by (simp add: word_le_nat_alt)
qed

lemma accumulate_correct:
  assumes "unat acc + unat (MultiplyMod y c kPrime) < 4294967296"
  shows "unat (accumulate acc (y, c)) < kPrime_nat"
    and "gfw (accumulate acc (y, c)) = gfw acc + gfw y * gfw c"
proof -
  have s: "unat (acc + MultiplyMod y c kPrime) = unat acc + unat (MultiplyMod y c kPrime)"
    using assms by (simp add: unat_add_small)
  show "unat (accumulate acc (y, c)) < kPrime_nat"
    using kPrime_bounds(1) by (simp add: accumulate_def unat_mod_kPrime)
  have "gfw (accumulate acc (y, c)) = gf_of (int (unat acc + unat (MultiplyMod y c kPrime)))"
    unfolding accumulate_def split_conv gfw_mod_kPrime unat_ucast_32_64 s ..
  also have "\<dots> = gfw acc + gfw (MultiplyMod y c kPrime)"
    by (simp only: gfw_def of_nat_add gf_of_arith)
  finally show "gfw (accumulate acc (y, c)) = gfw acc + gfw y * gfw c" by simp
qed

lemma foldl_accumulate:
  "acc_fits acc ycs \<Longrightarrow> unat acc < kPrime_nat \<Longrightarrow>
     unat (foldl accumulate acc ycs) < kPrime_nat
   \<and> gfw (foldl accumulate acc ycs) = gfw acc + (\<Sum>(y, c)\<leftarrow>ycs. gfw y * gfw c)"
proof (induction acc ycs rule: acc_fits.induct)
  case (2 acc y c ycs)
  then show ?case using accumulate_correct [of acc y c] by (simp add: add.assoc no_wrap_iff)
qed simp

lemma interpolate_subsecret:
  assumes xs: "x_values_ok xs" "length p = length xs" "p \<noteq> []"
    and p: "\<forall>c\<in>set p. unat c < kPrime_nat" and lc: "lc_ok xs cs"
    and fits: "acc_fits 0 (zip (map (\<lambda>x. EvaluatePolynomial p (of_int x)) xs) cs)"
  shows "foldl accumulate 0 (zip (map (\<lambda>x. EvaluatePolynomial p (of_int x)) xs) cs) = hd p"
proof -
  let ?n = "length xs" and ?g = "\<lambda>i. gf_of (xs ! i)"
  let ?ycs = "zip (map (\<lambda>x. EvaluatePolynomial p (of_int x)) xs) cs"
  have cs: "length cs = ?n" "\<And>i. i < ?n \<Longrightarrow> gfw (cs ! i) = lcoef xs i"
    using lc by (simp_all add: lc_ok_def)
  have ev: "gfw (EvaluatePolynomial p (of_int (xs ! i))) = eval_poly (map gfw p) (?g i)"
    if "i < ?n" for i
  proof -
    have r: "0 \<le> xs ! i" "xs ! i < 2147483648" using xs(1) that by (auto simp: x_values_ok_def less_imp_le)
    then have "unat (of_int (xs ! i) :: uint32) < 2147483648"
      by (subst unat_of_int_u32) simp_all
    then show ?thesis using r by (simp add: EvaluatePolynomial_correct [OF xs(3) p] gfw_of_int)
  qed
  have "(\<Sum>(y, c)\<leftarrow>?ycs. gfw y * gfw c) = (\<Sum>i<?n. eval_poly (map gfw p) (?g i) * lcoef xs i)"
    using cs ev by (simp add: sum_list_sum_nth atLeast0LessThan)
  also have "\<dots> = eval_poly (map gfw p) 0"
    unfolding lcoef_def using x_values_points [OF xs(1)] xs(2) by (intro lagrange_indexed) simp_all
  also have "\<dots> = gfw (hd p)" using xs(3) by (cases p) simp_all
  finally have "gfw (foldl accumulate 0 ?ycs) = gfw (hd p)"
    using foldl_accumulate [OF fits] kPrime_bounds(1) by (simp add: gfw_def)
  moreover have "unat (foldl accumulate 0 ?ycs) < kPrime_nat"
    using foldl_accumulate [OF fits] kPrime_bounds(1) by simp
  ultimately show ?thesis using p xs(3) by (intro gfw_inj) simp_all
qed

section \<open>Reconstruction returns the secret\<close>

text \<open>No addition wraps while the shares \<open>Reconstruct\<close> chooses are accumulated.\<close>

definition reconstruct_fits :: "ShamirSecretSharing \<Rightarrow> int \<Rightarrow> ShamirShare list \<Rightarrow> bool" where
  "reconstruct_fits st threshold shares =
     (let xs = take (nat threshold) (present shares 0) in
      case LagrangeCoefficients st xs of
        Inl _ \<Rightarrow> True
      | Inr (cs, _) \<Rightarrow>
          list_all (\<lambda>i. acc_fits 0 (zip (subshares_of shares xs i) cs))
            [0..<length (share_data (shares ! nat (hd xs - 1))) div kSubsecretSize])"

text \<open>The shares that arrive: some of those sent, the others missing.\<close>

definition subset_of_shares :: "ShamirShare list \<Rightarrow> ShamirShare list \<Rightarrow> bool" where
  "subset_of_shares recv shares \<longleftrightarrow>
     list_all2 (\<lambda>r s. r = s \<or> share_data r = []) recv shares"

lemma present_props:
  "distinct (present shares i)" "length (present shares i) = length (filter (\<lambda>s. share_data s \<noteq> []) shares)"
  "x \<in> set (present shares 0) \<longleftrightarrow> 0 < x \<and> nat (x - 1) < length shares \<and> share_data (shares ! nat (x - 1)) \<noteq> []"
proof -
  show "distinct (present shares i)" by (simp add: present_def distinct_map inj_on_def)
  show "length (present shares i) = length (filter (\<lambda>s. share_data s \<noteq> []) shares)"
    by (induction shares arbitrary: i) (simp_all add: present_Cons)
  show "x \<in> set (present shares 0) \<longleftrightarrow>
      0 < x \<and> nat (x - 1) < length shares \<and> share_data (shares ! nat (x - 1)) \<noteq> []"
  proof
    assume "x \<in> set (present shares 0)"
    then obtain k where "k < length shares" "share_data (shares ! k) \<noteq> []" "x = int k + 1"
      by (auto simp: present_def)
    then show "0 < x \<and> nat (x - 1) < length shares \<and> share_data (shares ! nat (x - 1)) \<noteq> []" by simp
  next
    assume r: "0 < x \<and> nat (x - 1) < length shares \<and> share_data (shares ! nat (x - 1)) \<noteq> []"
    then have "x = 0 + int (nat (x - 1)) + 1" by simp
    then show "x \<in> set (present shares 0)" unfolding present_def set_map set_filter set_upt
      using r by (intro image_eqI [of _ _ "nat (x - 1)"]) simp_all
  qed
qed

lemma length_share_bytes [simp]: "length (share_bytes polys i) = 4 * length polys"
  by (induction polys) (simp_all add: share_bytes_def)

lemma decode_share_bytes:
  "i < length polys \<Longrightarrow>
    decode_subshare (share_bytes polys k) i = EvaluatePolynomial (polys ! i) (of_nat (k + 1))"
  by (simp only: share_bytes_def decode_encoded length_map nth_map)

lemma Share_polys:
  assumes share: "Share draws t n secret = Inr (shares, draws')" and len: "length secret < 2 ^ 28"
  shows "\<exists>ps polys. DivideIntoSubsecrets secret = Inr ps \<and> list_all2 (poly_ok (nat t)) ps polys
    \<and> length ps = (8 * length secret + 30) div 31 \<and> int (length shares) = n
    \<and> (\<forall>i<length shares. share_data (shares ! i) = share_bytes polys i)
    \<and> secret \<noteq> [] \<and> 2 \<le> t \<and> t \<le> n"
proof -
  have c: "secret \<noteq> []" "2 \<le> t" "t \<le> n" using share by (auto simp: Share_def failure_iffs)
  obtain ps where ps: "DivideIntoSubsecrets secret = Inr ps"
      "length ps = (8 * length secret + 30) div 31" "\<forall>p\<in>set ps. subsecret_ok p"
    using DivideIntoSubsecrets_correct [OF c(1) len] by blast
  have loop: "Share_loop (nat t) ps draws (replicate (nat n) \<lparr>share_data = []\<rparr>) = Inr (shares, draws')"
    using share ps(1) by (auto simp: Share_def failure_iffs)
  have "\<forall>s\<in>set ps. unat s < kPrime_nat" using ps(3) kPrime_bounds(3) by (auto dest: bspec)
  from Share_loop_polys [OF loop _ this] obtain polys where "list_all2 (poly_ok (nat t)) ps polys"
      "length shares = nat n" "\<forall>i<nat n. share_data (shares ! i) = share_bytes polys i"
    using c by auto
  then show ?thesis using ps c by (intro exI [of _ ps] exI [of _ polys]) simp
qed

text \<open>
  Facts on the shares that arrive, for shares made of the polynomials \<open>polys\<close>: the scan
  picks the first \<open>t\<close> present ones, and their subshares are values of the polynomials.
\<close>

definition received_from :: "int \<Rightarrow> uint32 list list \<Rightarrow> ShamirShare list \<Rightarrow> bool" where
  "received_from t polys recv \<longleftrightarrow>
     (\<forall>k<length recv. share_data (recv ! k) \<noteq> [] \<longrightarrow> share_data (recv ! k) = share_bytes polys k)
   \<and> 0 < length polys \<and> 2 \<le> t \<and> int (length recv) < 2147483648
   \<and> t \<le> int (length (filter (\<lambda>s. share_data s \<noteq> []) recv))"

definition points :: "int \<Rightarrow> ShamirShare list \<Rightarrow> int list" where
  "points t recv = take (nat t) (present recv 0)"

lemma length_points: "received_from t polys recv \<Longrightarrow> length (points t recv) = nat t"
  using present_props(2) [of recv 0] by (auto simp: points_def received_from_def min_def)

lemma points_nonempty: "received_from t polys recv \<Longrightarrow> points t recv \<noteq> []"
  using length_points [of t polys recv] by (auto simp: received_from_def)

lemma point_data:
  assumes "received_from t polys recv" "x \<in> set (points t recv)"
  shows "0 < x" "nat (x - 1) < length recv"
    "share_data (recv ! nat (x - 1)) = share_bytes polys (nat (x - 1))"
  using assms present_props(3) [of x recv]
  by (auto simp: points_def received_from_def dest: in_set_takeD)

lemma points_ok:
  assumes "received_from t polys recv"
  shows "x_values_ok (points t recv)"
proof -
  have "x < 2147483648" if "x \<in> set (points t recv)" for x
    using point_data(1,2) [OF assms that] assms unfolding received_from_def by linarith
  then show ?thesis
    using present_props(1) [of recv 0] point_data(1) [OF assms]
    by (auto simp: x_values_ok_def points_def)
qed

lemma scan_points:
  assumes "received_from t polys recv"
  shows "Reconstruct_scan t (int (length polys)) recv 0 0 [] = Inr (int (length polys), points t recv)"
proof -
  have "\<forall>s\<in>set recv. share_data s \<noteq> [] \<longrightarrow> length (share_data s) = 4 * length polys"
    using assms by (metis in_set_conv_nth length_share_bytes received_from_def)
  then show ?thesis
    using Reconstruct_scan_correct [of recv "length polys" "int (length polys)" "[]" t 0 0]
      points_nonempty [OF assms] assms
    by (simp add: Let_def points_def received_from_def)
qed

lemma subshares_of_points:
  assumes "received_from t polys recv" "i < length polys"
  shows "subshares_of recv (points t recv) i
    = map (\<lambda>x. EvaluatePolynomial (polys ! i) (of_int x)) (points t recv)"
proof -
  have "of_nat (nat (x - 1) + 1) = (of_int x :: uint32)" if "0 < x" for x
    using that by (simp add: of_nat_nat)
  then show ?thesis
    using point_data [OF assms(1)] assms(2)
    by (auto simp: subshares_of_def decode_share_bytes simp del: of_nat_add)
qed

lemma subsecret_value:
  assumes recv: "received_from t polys recv" and i: "i < length polys"
    and p: "poly_ok (nat t) v (polys ! i)"
    and lc: "LagrangeCoefficients st (points t recv) = Inr (cs, st')" "lc_ok (points t recv) cs"
    and fits: "reconstruct_fits st t recv"
  shows "foldl accumulate 0 (zip (subshares_of recv (points t recv) i) cs) = v"
proof -
  have q: "length (polys ! i) = nat t" "hd (polys ! i) = v" "\<forall>c\<in>set (polys ! i). unat c < kPrime_nat"
    using p by (simp_all add: poly_ok_def)
  have "hd (points t recv) \<in> set (points t recv)" using points_nonempty [OF recv] by simp
  then have "length (share_data (recv ! nat (hd (points t recv) - 1))) div kSubsecretSize = length polys"
    by (simp add: point_data(3) [OF recv] kSubsecretSize_def)
  then have "acc_fits 0 (zip (subshares_of recv (points t recv) i) cs)"
    using fits i lc(1) by (simp add: reconstruct_fits_def Let_def list_all_iff flip: points_def)
  moreover have "polys ! i \<noteq> []" using q(1) recv by (auto simp: received_from_def)
  ultimately show ?thesis
    using interpolate_subsecret [OF points_ok [OF recv] _ _ q(3) lc(2)] length_points [OF recv] q
      subshares_of_points [OF recv i] by simp
qed

lemma Share_received:
  assumes share: "Share draws t n secret = Inr (shares, draws')" and len: "length secret < 2 ^ 28"
    and n: "n < 2147483648" and recv: "subset_of_shares recv shares"
    and enough: "t \<le> int (length (filter (\<lambda>s. share_data s \<noteq> []) recv))"
  shows "\<exists>ps polys. DivideIntoSubsecrets secret = Inr ps \<and> list_all2 (poly_ok (nat t)) ps polys
    \<and> int (length polys) = (8 * int (length secret) + 31 - 1) div 31 \<and> received_from t polys recv
    \<and> secret \<noteq> [] \<and> t \<le> int (length recv)"
proof -
  obtain ps polys where ps: "DivideIntoSubsecrets secret = Inr ps"
      "list_all2 (poly_ok (nat t)) ps polys" "length ps = (8 * length secret + 30) div 31"
      "int (length shares) = n" "\<And>i. i < length shares \<Longrightarrow> share_data (shares ! i) = share_bytes polys i"
      "secret \<noteq> []" "2 \<le> t" "t \<le> n"
    using Share_polys [OF share len] by blast
  have m: "length ps = length polys" using ps(2) by (rule list_all2_lengthD)
  have "1 \<le> length secret" using ps(6) by (cases secret) simp_all
  then have "0 < length polys" using ps(3) m by linarith
  moreover have "length recv = length shares"
    using recv by (simp add: subset_of_shares_def list_all2_lengthD)
  ultimately have "received_from t polys recv"
    using recv ps(4,5,7) enough n
    by (auto simp: received_from_def subset_of_shares_def list_all2_conv_all_nth)
  moreover have "int (length polys) = (8 * int (length secret) + 31 - 1) div 31"
    using ps(3) m by (simp add: zdiv_int)
  ultimately show ?thesis using ps \<open>length recv = length shares\<close> by auto
qed

lemma Reconstruct_of_Share:
  assumes share: "Share draws t n secret = Inr (shares, draws')" and len: "8 * length secret + 31 < 2 ^ 31"
    and n: "n < 2147483648" and recv: "subset_of_shares recv shares"
    and enough: "t \<le> int (length (filter (\<lambda>s. share_data s \<noteq> []) recv))"
    and st: "shamir_inv st" and fits: "reconstruct_fits st t recv"
  shows "\<exists>st'. Reconstruct st t recv (int (length secret)) = Inr (secret, st') \<and> shamir_inv st'"
proof -
  have len28: "length secret < 2 ^ 28" using len by simp
  obtain ps polys where ps: "DivideIntoSubsecrets secret = Inr ps"
      "list_all2 (poly_ok (nat t)) ps polys"
      "int (length polys) = (8 * int (length secret) + 31 - 1) div 31"
      "received_from t polys recv" "secret \<noteq> []" "t \<le> int (length recv)"
    using Share_received [OF share len28 n recv enough] by blast
  have t: "2 \<le> t" using ps(4) by (simp add: received_from_def)
  obtain cs st' where lc: "LagrangeCoefficients st (points t recv) = Inr (cs, st')" "shamir_inv st'"
      "lc_ok (points t recv) cs"
    using LagrangeCoefficients_correct [OF points_ok [OF ps(4)] _ st] length_points [OF ps(4)] t by auto
  have "map (\<lambda>i. foldl accumulate 0 (zip (subshares_of recv (points t recv) i) cs)) [0..<length polys] = ps"
    using ps(2) subsecret_value [OF ps(4) _ _ lc(1,3) fits]
    by (intro nth_equalityI) (auto simp: list_all2_conv_all_nth)
  moreover have "RebuildFromSubsecrets ps (length secret) = secret"
    by (rule Rebuild_Divide [OF ps(5) len28 ps(1)])
  moreover have "int (length (points t recv)) = t" using length_points [OF ps(4)] t by simp
  moreover have "\<not> 8 * int (length secret) + int kBitsPerSubsecret > 2147483647"
    using len by (simp add: kBitsPerSubsecret_def)
  moreover have "(8 * int (length secret) + int kBitsPerSubsecret - 1) div int kBitsPerSubsecret
      = int (length polys)"
    using ps(3) by (simp add: kBitsPerSubsecret_def)
  ultimately have "Reconstruct st t recv (int (length secret)) = Inr (secret, st')"
    using scan_points [OF ps(4)] lc(1) ps(5,6) t by (simp add: Reconstruct_def Let_def)
  then show ?thesis using lc(2) by blast
qed

section \<open>Termination of the rejection loop\<close>

definition accepted :: "uint32 list \<Rightarrow> nat" where
  "accepted draws = length (filter (\<lambda>r. ucast r < kPrime) draws)"

lemma RandomFieldElement_total:
  "0 < accepted draws \<Longrightarrow>
    \<exists>r draws'. RandomFieldElement draws = Inr (r, draws') \<and> accepted draws' = accepted draws - 1"
  by (induction draws rule: RandomFieldElement.induct) (auto simp: accepted_def not_le)

lemma random_coefficients_total:
  "k \<le> accepted draws \<Longrightarrow>
    \<exists>rs draws'. random_coefficients k draws = Inr (rs, draws') \<and> accepted draws' = accepted draws - k"
proof (induction k arbitrary: draws)
  case (Suc k)
  then obtain r draws1 where r: "RandomFieldElement draws = Inr (r, draws1)"
      "accepted draws1 = accepted draws - 1"
    using RandomFieldElement_total [of draws] by auto
  then show ?case using Suc.IH [of draws1] Suc.prems by fastforce
qed simp

lemma Share_loop_total:
  "(t - 1) * length subs \<le> accepted draws \<Longrightarrow>
    \<exists>shares' draws'. Share_loop t subs draws shares = Inr (shares', draws') \<and> accepted draws' = accepted draws - (t - 1) * length subs"
proof (induction subs arbitrary: draws shares)
  case (Cons s subs)
  then obtain rs draws1 where "random_coefficients (t - 1) draws = Inr (rs, draws1)"
      "accepted draws1 = accepted draws - (t - 1)"
    using random_coefficients_total [of "t - 1" draws] by auto
  then show ?case using Cons.IH [of draws1] Cons.prems by (simp add: diff_diff_add)
qed simp

lemma Share_total:
  assumes "secret \<noteq> []" "length secret < 2 ^ 28" "2 \<le> t" "t \<le> n"
    and "nat (t - 1) * ((8 * length secret + 30) div 31) \<le> accepted draws"
  shows "\<exists>shares draws'. Share draws t n secret = Inr (shares, draws')
    \<and> accepted draws' = accepted draws - nat (t - 1) * ((8 * length secret + 30) div 31)"
proof -
  obtain ps where "DivideIntoSubsecrets secret = Inr ps" "length ps = (8 * length secret + 30) div 31"
    using DivideIntoSubsecrets_correct [OF assms(1,2)] by blast
  moreover have "nat t - 1 = nat (t - 1)" using assms(3) by simp
  ultimately show ?thesis
    using Share_loop_total [of "nat t" ps draws] assms by (auto simp: Share_def)
qed

section \<open>Properties\<close>

text \<open>
  C5. Any \<open>threshold\<close> or more of the shares that \<open>Share\<close> produced give the secret back:
  \<open>Reconstruct\<close> returns exactly the shared bytes, whatever shares are missing and whatever
  its caches hold, as long as no 32-bit accumulation wraps. The object's caches stay correct.
\<close>

theorem Reconstruct_Share:
  assumes "Share draws t n secret = Inr (shares, draws')" "8 * length secret + 31 < 2 ^ 31"
    and "n < 2147483648" "subset_of_shares recv shares"
    and "t \<le> int (length (filter (\<lambda>s. share_data s \<noteq> []) recv))"
    and "shamir_inv st" "reconstruct_fits st t recv"
  shows "\<exists>st'. Reconstruct st t recv (int (length secret)) = Inr (secret, st') \<and> shamir_inv st'"
  by (rule Reconstruct_of_Share [OF assms])

theorem Reconstruct_Share_witness:
  "\<exists>st'. Reconstruct new_ShamirSecretSharing 2
      [\<lparr>share_data = []\<rparr>, \<lparr>share_data = [0, 0, 0, 28]\<rparr>, \<lparr>share_data = [0, 0, 0, 33]\<rparr>] 1 = Inr ([0x12], st')
    \<and> shamir_inv st'"
proof -
  let ?recv = "[\<lparr>share_data = []\<rparr>, \<lparr>share_data = [0, 0, 0, 28]\<rparr>, \<lparr>share_data = [0, 0, 0, 33]\<rparr>]"
  have share: "Share [5] 2 3 [0x12] = Inr ([\<lparr>share_data = [0, 0, 0, 23]\<rparr>, \<lparr>share_data = [0, 0, 0, 28]\<rparr>,
      \<lparr>share_data = [0, 0, 0, 33]\<rparr>], [])"
    by code_simp
  have recv: "subset_of_shares ?recv [\<lparr>share_data = [0, 0, 0, 23]\<rparr>,
      \<lparr>share_data = [0, 0, 0, 28]\<rparr>, \<lparr>share_data = [0, 0, 0, 33]\<rparr>]"
    by (simp add: subset_of_shares_def)
  have fits: "reconstruct_fits new_ShamirSecretSharing 2 ?recv" by code_simp
  have "\<exists>st'. Reconstruct new_ShamirSecretSharing 2 ?recv (int (length [0x12 :: uint8]))
      = Inr ([0x12], st') \<and> shamir_inv st'"
    by (rule Reconstruct_Share [OF share _ _ recv _ shamir_inv_new fits]) simp_all
  then show ?thesis by simp
qed

text \<open>
  The 32-bit accumulation of \<open>Reconstruct\<close> can wrap, and then the result is wrong:
  two of two untouched shares of the secret \<open>7F FF FF FF\<close> reconstruct to \<open>00 00 00 0A\<close>.
\<close>

lemma Reconstruct_wraps:
  "\<exists>shares st. Share [5, 1073741836] 2 2 [0x7F, 0xFF, 0xFF, 0xFF] = Inr (shares, [])
     \<and> Reconstruct new_ShamirSecretSharing 2 shares 4 = Inr ([0, 0, 0, 0x0A], st)"
proof -
  have "Share [5, 1073741836] 2 2 [0x7F, 0xFF, 0xFF, 0xFF] = Inr ([\<lparr>share_data = [0, 0, 0, 5, 64, 0, 0, 0]\<rparr>,
      \<lparr>share_data = [0, 0, 0, 10, 0, 0, 0, 1]\<rparr>], [])"
    by code_simp
  moreover have "Reconstruct new_ShamirSecretSharing 2 [\<lparr>share_data = [0, 0, 0, 5, 64, 0, 0, 0]\<rparr>,
      \<lparr>share_data = [0, 0, 0, 10, 0, 0, 0, 1]\<rparr>] 4
    = Inr ([0, 0, 0, 0x0A], \<lparr>inverses = [1], last_lc_input = [1, 2], last_lc_output = [2, 2147483658]\<rparr>)"
    by code_simp
  ultimately show ?thesis by blast
qed

text \<open>
  C37. \<open>ModInverse\<close> returns the multiplicative inverse modulo \<open>2^31 + 11\<close> for every
  argument in range, from any state of the cache that earlier calls can leave, and keeps
  the cache correct.
\<close>

theorem ModInverse_inverts:
  assumes "shamir_inv st" "0 < unat n" "unat n < 2147483659"
  shows "\<exists>v st'. ModInverse st n = Inr (v, st') \<and> shamir_inv st'
    \<and> unat n * unat v mod 2147483659 = 1"
proof -
  have n: "unat n < kPrime_nat" using assms(3) by (simp add: kPrime_nat_def)
  obtain v invs where v: "ModInverse st n = Inr (v, st\<lparr>inverses := invs\<rparr>)" "inverses_ok invs"
      "gfw v = inverse (gfw n)"
    using ModInverse_correct [of st, OF _ assms(2) n] assms(1) unfolding shamir_inv_def by blast
  have "int (unat n) \<noteq> 0" using assms(2) by (simp only: of_nat_eq_0_iff)
  then have "gfw n \<noteq> 0"
    using gf_of_eq_small [of "int (unat n)" 0] n unfolding gfw_def by (simp del: of_nat_unat)
  then have "gf_of (int (unat n) * int (unat v)) = gf_of 1"
    using v(3) by (simp only: gf_of_arith flip: gfw_def) simp
  then have "int (unat n * unat v mod kPrime_nat) = int (1 mod kPrime_nat)"
    by (simp only: gf_of_eq_iff of_nat_mult of_nat_mod of_nat_1)
  then have "unat n * unat v mod kPrime_nat = 1 mod kPrime_nat" by (simp only: of_nat_eq_iff)
  moreover have "shamir_inv (st\<lparr>inverses := invs\<rparr>)" using assms(1) v(2) by (simp add: shamir_inv_def)
  ultimately show ?thesis using v(1) by (simp add: kPrime_nat_def)
qed

theorem ModInverse_inverts_witness:
  "\<exists>v st'. ModInverse new_ShamirSecretSharing 7 = Inr (v, st') \<and> shamir_inv st'
    \<and> unat (7 :: uint32) * unat v mod 2147483659 = 1"
  by (rule ModInverse_inverts) (simp_all add: shamir_inv_new)

text \<open>
  C27. \<open>Share\<close> returns: with enough random draws below the prime (one per random
  coefficient) the rejection loops end, no check fails and no iterator leaves its vector.
\<close>

theorem Share_returns:
  assumes "secret \<noteq> []" "length secret < 2 ^ 28" "2 \<le> t" "t \<le> n"
    and "nat (t - 1) * ((8 * length secret + 30) div 31) \<le> accepted draws"
  shows "\<exists>shares draws'. Share draws t n secret = Inr (shares, draws')"
  using Share_total [OF assms] by blast

theorem Share_returns_witness:
  "\<exists>shares draws'. Share [4000000000, 17] 2 3 [0x12] = Inr (shares, draws')"
  by (rule Share_returns) (simp_all add: accepted_def kPrime_def)

text \<open>
  C28. With fewer present shares than the threshold, \<open>Reconstruct\<close> returns
  \<open>FAILED_PRECONDITION\<close> and never a secret.
\<close>

theorem Reconstruct_too_few:
  assumes "1 < t" "0 < secret_length" "t \<le> int (length recv)"
    and "8 * secret_length + 31 \<le> 2147483647"
    and "\<forall>s\<in>set recv. share_data s \<noteq> [] \<longrightarrow> length (share_data s) = 4 * m"
    and "0 < m" "int m \<le> (8 * secret_length + 30) div 31"
    and "int (length (filter (\<lambda>s. share_data s \<noteq> []) recv)) < t"
  shows "Reconstruct st t recv secret_length
    = Inl (Status FAILED_PRECONDITION ''Only x_values.size() valid shares were provided'')"
proof -
  have "(8 * secret_length + int kBitsPerSubsecret - 1) div int kBitsPerSubsecret
      = (8 * secret_length + 30) div 31"
    by (simp add: kBitsPerSubsecret_def)
  moreover have "Reconstruct_scan t ((8 * secret_length + 30) div 31) recv 0 0 []
      = Inr (if present recv 0 = [] then 0 else int m, present recv 0)"
    using Reconstruct_scan_correct [OF assms(5-7), of "[]" t 0 0] assms(1,8) present_props(2) [of recv 0]
    by (simp add: Let_def)
  ultimately show ?thesis
    using assms present_props(2) [of recv 0]
    by (simp add: Reconstruct_def Let_def kBitsPerSubsecret_def)
qed

theorem Reconstruct_too_few_witness:
  "Reconstruct new_ShamirSecretSharing 2 [\<lparr>share_data = []\<rparr>, \<lparr>share_data = [0, 0, 0, 28]\<rparr>] 1
    = Inl (Status FAILED_PRECONDITION ''Only x_values.size() valid shares were provided'')"
  by (rule Reconstruct_too_few [where m = 1]) simp_all

end
