(* ===== verification/SecAgg_Vector.thy ===== *)
theory SecAgg_Vector
  imports SecAgg_Math
begin

unbundle bit_operations_syntax

text \<open>
  \<open>fcp/secagg/shared/secagg_vector.{h,cc}\<close>: vectors of integers below a modulus, packed
  with a fixed bit width in little-endian order. The plain codec, the branchless \<open>Coder\<close>
  and \<open>Decoder\<close>, the unpacked vectors and the sums of maps of vectors. Hash maps are
  association lists with distinct names. Writes outside a buffer and signed overflow are
  \<open>Undefined\<close>; \<open>memcpy\<close> is that of a little-endian host.
\<close>

section \<open>Definitions\<close>

definition kMaxModulus :: uint64 where
  "kMaxModulus = push_bit 62 1"

text \<open>\<open>std::bit_width\<close>: the number of bits needed to write a number.\<close>

function bit_width :: "uint64 \<Rightarrow> nat" where
  "bit_width x = (if x = 0 then 0 else Suc (bit_width (x div 2)))"
  by pat_completeness auto
termination
  by (relation "measure unat") (auto simp: unat_div_distrib unat_gt_0)

declare bit_width.simps [simp del]

definition GetBitWidth :: "uint64 \<Rightarrow> nat" where
  "GetBitWidth modulus = bit_width (modulus - 1)"

record SecAggVector =
  packed_bytes :: bytes
  sv_modulus :: uint64
  sv_bit_width :: nat
  sv_num_elements :: nat
  branchless_codec :: bool

definition num_bytes_needed :: "nat \<Rightarrow> nat \<Rightarrow> nat" where
  "num_bytes_needed num_elements bw = unat (DivideRoundUp (of_nat (num_elements * bw)) 8)"

definition or_byte :: "nat \<Rightarrow> uint8 \<Rightarrow> bytes \<Rightarrow> bytes status_or" where
  "or_byte i v bs = (if i < length bs then Inr (bs[i := (bs ! i) OR v]) else Inl Undefined)"

definition set_byte :: "nat \<Rightarrow> uint8 \<Rightarrow> bytes \<Rightarrow> bytes status_or" where
  "set_byte i v bs = (if i < length bs then Inr (bs[i := v]) else Inl Undefined)"

text \<open>\<open>PackUint64IntoByteStringAt\<close>: the partial first byte, the whole bytes, the rest.\<close>

definition Pack_head ::
  "nat \<Rightarrow> nat \<Rightarrow> uint64 \<Rightarrow> bytes \<Rightarrow> (int \<times> uint64 \<times> nat \<times> bytes) status_or" where
  "Pack_head bw leftmost_bit_position element packed =
     (let current_byte_index = leftmost_bit_position div 8;
          starting_bit_position = leftmost_bit_position mod 8;
          empty_bits_left = 8 - starting_bit_position
      in if starting_bit_position \<noteq> 0 then
           let value_to_add =
             push_bit starting_bit_position (element AND mask (min empty_bits_left bw))
           in and_then (or_byte current_byte_index (ucast value_to_add) packed) (\<lambda>packed.
                Inr (int bw - int empty_bits_left, drop_bit empty_bits_left element,
                     current_byte_index + 1, packed))
         else Inr (int bw, element, current_byte_index, packed))"

function Pack_whole ::
  "int \<Rightarrow> uint64 \<Rightarrow> nat \<Rightarrow> bytes \<Rightarrow> (int \<times> uint64 \<times> nat \<times> bytes) status_or" where
  "Pack_whole bits_left element i packed =
     (if bits_left \<ge> 8 then
        and_then (set_byte i (ucast (element AND 255)) packed)
          (Pack_whole (bits_left - 8) (drop_bit 8 element) (i + 1))
      else Inr (bits_left, element, i, packed))"
  by pat_completeness auto
termination
  by (relation "measure (\<lambda>(bits_left, element, i, packed). nat bits_left)") auto

declare Pack_whole.simps [simp del]

definition PackUint64IntoByteStringAt :: "nat \<Rightarrow> nat \<Rightarrow> uint64 \<Rightarrow> bytes \<Rightarrow> bytes status_or" where
  "PackUint64IntoByteStringAt bw index element packed =
     (if index * bw > 2147483647 then Inl Undefined else
      and_then (Pack_head bw (index * bw) element packed)
        (\<lambda>(bits_left, element, i, packed).
      and_then (Pack_whole bits_left element i packed)
        (\<lambda>(bits_left, element, i, packed).
           if bits_left > 0 then or_byte i (ucast element) packed else Inr packed)))"

fun Pack_elements :: "nat \<Rightarrow> nat \<Rightarrow> uint64 list \<Rightarrow> bytes \<Rightarrow> bytes status_or" where
  "Pack_elements bw index [] packed = Inr packed"
| "Pack_elements bw index (e # es) packed =
     and_then (PackUint64IntoByteStringAt bw index e packed)
       (Pack_elements bw (index + 1) es)"

text \<open>\<open>UnpackUint64FromByteStringAt\<close>.\<close>

fun Unpack_whole :: "nat \<Rightarrow> nat \<Rightarrow> uint64 \<Rightarrow> bytes \<Rightarrow> (nat \<times> nat \<times> uint64) status_or" where
  "Unpack_whole bits_left i unpacked bs =
     (if bits_left \<ge> 8 then
        and_then (at_index bs i) (\<lambda>byte.
          Unpack_whole (bits_left - 8) (i - 1) (push_bit 8 unpacked OR (ucast byte AND 0xff)) bs)
      else Inr (bits_left, i, unpacked))"

declare Unpack_whole.simps [simp del]

definition Unpack_tail :: "nat \<Rightarrow> nat \<Rightarrow> uint64 \<Rightarrow> bytes \<Rightarrow> uint64 status_or" where
  "Unpack_tail bits_left i unpacked bs =
     (if bits_left > 0 then
        and_then (at_index bs i) (\<lambda>byte.
          Inr (push_bit bits_left unpacked OR drop_bit (8 - bits_left) (ucast byte AND 0xff)))
      else Inr unpacked)"

definition UnpackUint64FromByteStringAt :: "nat \<Rightarrow> nat \<Rightarrow> bytes \<Rightarrow> uint64 status_or" where
  "UnpackUint64FromByteStringAt index bw bs =
     (if (index + 1) * bw > 2147483647 then Inl Undefined else
      let leftmost_bit_position = index * bw;
          leftmost_byte_index = leftmost_bit_position div 8;
          right_boundary_bit_position = (index + 1) * bw;
          rightmost_byte_index = (right_boundary_bit_position - 1) div 8
      in if leftmost_byte_index = rightmost_byte_index then
           let num_bits_to_skip = leftmost_bit_position mod 8;
               msk = push_bit num_bits_to_skip (mask bw)
           in and_then (at_index bs leftmost_byte_index) (\<lambda>byte.
                Inr (drop_bit num_bits_to_skip (ucast byte AND msk)))
         else if right_boundary_bit_position mod 8 \<noteq> 0 then
           let bits_to_copy = right_boundary_bit_position mod 8 in
           and_then (at_index bs rightmost_byte_index) (\<lambda>byte.
           and_then (Unpack_whole (bw - bits_to_copy) (rightmost_byte_index - 1)
                       (0 OR (ucast byte AND mask bits_to_copy)) bs)
             (\<lambda>(bits_left, i, unpacked). Unpack_tail bits_left i unpacked bs))
         else
           and_then (Unpack_whole bw rightmost_byte_index 0 bs)
             (\<lambda>(bits_left, i, unpacked). Unpack_tail bits_left i unpacked bs))"

text \<open>\<open>SecAggVector::Coder\<close>.\<close>

record Coder =
  c_packed_bytes :: bytes
  c_num_bytes_needed :: nat
  c_modulus :: uint64
  c_bit_width :: nat
  c_num_elements :: nat
  write_cursor :: nat
  target_cursor_value :: uint64
  starting_bit_position :: nat

definition new_Coder :: "uint64 \<Rightarrow> nat \<Rightarrow> nat \<Rightarrow> Coder" where
  "new_Coder modulus bw num_elements =
     \<lparr>c_packed_bytes = replicate (num_bytes_needed num_elements bw + 8) 0,
      c_num_bytes_needed = num_bytes_needed num_elements bw,
      c_modulus = modulus, c_bit_width = bw, c_num_elements = num_elements,
      write_cursor = 0, target_cursor_value = 0, starting_bit_position = 0\<rparr>"

definition memcpy_u64 :: "nat \<Rightarrow> uint64 \<Rightarrow> bytes \<Rightarrow> bytes status_or" where
  "memcpy_u64 i v bs =
     (if i + 8 \<le> length bs then Inr (take i bs @ le_bytes 8 (unat v) @ drop (i + 8) bs)
      else Inl Undefined)"

definition WriteValue :: "uint64 \<Rightarrow> Coder \<Rightarrow> Coder status_or" where
  "WriteValue value c =
     (let s = starting_bit_position c;
          target = (target_cursor_value c AND mask s) OR push_bit s value
      in and_then (memcpy_u64 (write_cursor c) target (c_packed_bytes c)) (\<lambda>packed.
           let advance = (s + c_bit_width c) div 8;
               new_starting_bit_position = (s + c_bit_width c) mod 8;
               runt_cursor_value =
                 (if new_starting_bit_position \<noteq> 0 then drop_bit ((64 - s) mod 64) value else 0);
               shifted = drop_bit ((advance * 8) mod 64) target
           in Inr (c\<lparr>c_packed_bytes := packed,
                     target_cursor_value := (if advance = 8 then runt_cursor_value else shifted),
                     write_cursor := write_cursor c + advance,
                     starting_bit_position := new_starting_bit_position\<rparr>)))"

definition SecAggVector_of_packed ::
  "bytes \<Rightarrow> uint64 \<Rightarrow> nat \<Rightarrow> bool \<Rightarrow> SecAggVector status_or" where
  "SecAggVector_of_packed packed modulus num_elements branchless =
     fcp_check (modulus > 1 \<and> modulus \<le> kMaxModulus)
    (fcp_check (length packed = num_bytes_needed num_elements (GetBitWidth modulus))
       (Inr \<lparr>packed_bytes = packed, sv_modulus = modulus, sv_bit_width = GetBitWidth modulus,
             sv_num_elements = num_elements, branchless_codec = branchless\<rparr>))"

definition Coder_Create :: "Coder \<Rightarrow> SecAggVector status_or" where
  "Coder_Create c =
     and_then (memcpy_u64 (write_cursor c) (target_cursor_value c) (c_packed_bytes c)) (\<lambda>packed.
       SecAggVector_of_packed (take (c_num_bytes_needed c) packed) (c_modulus c) (c_num_elements c) True)"

definition CheckHasValue :: "SecAggVector \<Rightarrow> 'a status_or \<Rightarrow> 'a status_or" where
  "CheckHasValue v rest = fcp_check (sv_modulus v > 0) rest"

definition TakePackedBytes :: "SecAggVector \<Rightarrow> bytes status_or" where
  "TakePackedBytes v = CheckHasValue v (Inr (packed_bytes v))"

definition PackUint64IntoByteStringBranchless ::
  "uint64 \<Rightarrow> nat \<Rightarrow> uint64 list \<Rightarrow> bytes status_or" where
  "PackUint64IntoByteStringBranchless modulus bw span =
     and_then (fold_status WriteValue span (new_Coder modulus bw (length span))) (\<lambda>c.
     and_then (Coder_Create c) TakePackedBytes)"

definition SecAggVector_of_span :: "uint64 list \<Rightarrow> uint64 \<Rightarrow> bool \<Rightarrow> SecAggVector status_or" where
  "SecAggVector_of_span span modulus branchless =
     fcp_check (modulus > 1 \<and> modulus \<le> kMaxModulus)
    (fcp_check (list_all (\<lambda>element. element \<ge> 0 \<and> element < modulus) span)
       (let bw = GetBitWidth modulus in
        and_then
          (if branchless then PackUint64IntoByteStringBranchless modulus bw span
           else Pack_elements bw 0 span
                  (replicate (num_bytes_needed (length span) bw) 0))
          (\<lambda>packed. Inr \<lparr>packed_bytes = packed, sv_modulus = modulus, sv_bit_width = bw,
             sv_num_elements = length span, branchless_codec = branchless\<rparr>)))"

text \<open>\<open>SecAggVector::Decoder\<close>. The read cursor is an offset into the bytes.\<close>

record Decoder =
  d_bytes :: bytes
  read_cursor :: nat
  cursor_read_value :: uint64
  scratch :: uint64
  read_cursor_bit :: int
  d_bit_width :: nat
  d_modulus :: uint64

definition ReadData :: "Decoder \<Rightarrow> Decoder" where
  "ReadData d =
     (let bytes_remaining = int (length (d_bytes d)) - int (read_cursor d);
          n = (if bytes_remaining \<ge> 8 then 8 else if bytes_remaining > 0 then nat bytes_remaining else 0);
          value = of_nat (le_val (take n (drop (read_cursor d) (d_bytes d))
                            @ drop n (le_bytes 8 (unat (cursor_read_value d)))))
      in d\<lparr>cursor_read_value := value,
            scratch := scratch d OR push_bit (nat (read_cursor_bit d)) value\<rparr>)"

definition new_Decoder :: "bytes \<Rightarrow> uint64 \<Rightarrow> Decoder" where
  "new_Decoder bs modulus =
     ReadData \<lparr>d_bytes = bs, read_cursor = 0, cursor_read_value = 0, scratch = 0,
       read_cursor_bit = 0, d_bit_width = GetBitWidth modulus, d_modulus = modulus\<rparr>"

definition ReadValue :: "Decoder \<Rightarrow> uint64 \<times> Decoder" where
  "ReadValue d =
     (let bw = int (d_bit_width d);
          current_value = scratch d AND mask (d_bit_width d);
          scratch1 = drop_bit (d_bit_width d) (scratch d);
          unwritten_bits = read_cursor_bit d;
          rcb = read_cursor_bit d - bw;
          read_bit_shift = bw - unwritten_bits;
          right_shift_value = (if read_bit_shift > 0 then read_bit_shift else 0);
          left_shift_value = (if read_bit_shift < 0 then - read_bit_shift else 0);
          crv = push_bit (nat left_shift_value) (drop_bit (nat right_shift_value) (cursor_read_value d));
          scratch2 = scratch1 OR crv;
          valid = 64 - bw + unwritten_bits;
          valid_scratch_bits = (if valid > 64 then 64 else valid);
          rcb1 = rcb + (valid_scratch_bits - rcb) div 8 * 8;
          new_read_cursor_bit = (if rcb1 = 64 then 56 else rcb1);
          d' = ReadData (d\<lparr>read_cursor := read_cursor d + nat ((new_read_cursor_bit - rcb) div 8),
                  cursor_read_value := crv, scratch := scratch2,
                  read_cursor_bit := new_read_cursor_bit\<rparr>)
      in (if current_value < d_modulus d then current_value else current_value - d_modulus d, d'))"

fun ReadValues :: "nat \<Rightarrow> Decoder \<Rightarrow> uint64 list" where
  "ReadValues 0 d = []"
| "ReadValues (Suc n) d = (let (v, d') = ReadValue d in v # ReadValues n d')"

definition UnpackByteStringToUint64VectorBranchless :: "SecAggVector \<Rightarrow> uint64 list" where
  "UnpackByteStringToUint64VectorBranchless v =
     ReadValues (sv_num_elements v) (new_Decoder (packed_bytes v) (sv_modulus v))"

definition GetAsUint64Vector :: "SecAggVector \<Rightarrow> uint64 list status_or" where
  "GetAsUint64Vector v = CheckHasValue v
     (if branchless_codec v then Inr (UnpackByteStringToUint64VectorBranchless v)
      else map_status (\<lambda>i. UnpackUint64FromByteStringAt i (sv_bit_width v) (packed_bytes v))
             [0..<sv_num_elements v])"

text \<open>\<open>SecAggUnpackedVector\<close> and the maps.\<close>

record SecAggUnpackedVector =
  elements :: "uint64 list"
  uv_modulus :: uint64

type_synonym SecAggVectorMap = "(bytes \<times> SecAggVector) list"
type_synonym SecAggUnpackedVectorMap = "(bytes \<times> SecAggUnpackedVector) list"

definition SecAggUnpackedVector_zero :: "nat \<Rightarrow> uint64 \<Rightarrow> SecAggUnpackedVector" where
  "SecAggUnpackedVector_zero n modulus = \<lparr>elements = replicate n 0, uv_modulus = modulus\<rparr>"

definition SecAggUnpackedVector_of :: "SecAggVector \<Rightarrow> SecAggUnpackedVector" where
  "SecAggUnpackedVector_of other =
     \<lparr>elements = ReadValues (sv_num_elements other) (new_Decoder (packed_bytes other) (sv_modulus other)),
      uv_modulus = sv_modulus other\<rparr>"

definition Add_packed :: "SecAggUnpackedVector \<Rightarrow> SecAggVector \<Rightarrow> SecAggUnpackedVector status_or" where
  "Add_packed this other =
     fcp_check (length (elements this) = sv_num_elements other)
    (fcp_check (uv_modulus this = sv_modulus other)
       (Inr (this\<lparr>elements := map2 (\<lambda>v w. AddModOpt v w (uv_modulus this)) (elements this)
          (ReadValues (length (elements this)) (new_Decoder (packed_bytes other) (sv_modulus other)))\<rparr>)))"

definition Add_unpacked ::
  "SecAggUnpackedVector \<Rightarrow> SecAggUnpackedVector \<Rightarrow> SecAggUnpackedVector status_or" where
  "Add_unpacked this other =
     fcp_check (length (elements this) = length (elements other))
    (fcp_check (uv_modulus this = uv_modulus other)
       (Inr (this\<lparr>elements := map2 (\<lambda>v w. AddModOpt v w (uv_modulus this))
          (elements this) (elements other)\<rparr>)))"

definition SecAggUnpackedVectorMap_of :: "SecAggVectorMap \<Rightarrow> SecAggUnpackedVectorMap" where
  "SecAggUnpackedVectorMap_of other = map (\<lambda>(name, v). (name, SecAggUnpackedVector_of v)) other"

definition Add_to_map ::
  "(SecAggUnpackedVector \<Rightarrow> 'v \<Rightarrow> SecAggUnpackedVector status_or)
    \<Rightarrow> SecAggUnpackedVectorMap \<Rightarrow> (bytes \<times> 'v) list \<Rightarrow> SecAggUnpackedVectorMap status_or" where
  "Add_to_map add this other =
     fcp_check (length this = length other)
       (map_status (\<lambda>(name, vec). case map_of other name of
            None \<Rightarrow> Inl CheckFailed
          | Some w \<Rightarrow> and_then (add vec w) (\<lambda>vec. Inr (name, vec))) this)"

definition Map_Add_packed ::
  "SecAggUnpackedVectorMap \<Rightarrow> SecAggVectorMap \<Rightarrow> SecAggUnpackedVectorMap status_or" where
  "Map_Add_packed = Add_to_map Add_packed"

definition Map_Add_unpacked ::
  "SecAggUnpackedVectorMap \<Rightarrow> SecAggUnpackedVectorMap \<Rightarrow> SecAggUnpackedVectorMap status_or" where
  "Map_Add_unpacked = Add_to_map Add_unpacked"

definition Map_AddMaps ::
  "SecAggUnpackedVectorMap \<Rightarrow> SecAggUnpackedVectorMap \<Rightarrow> SecAggUnpackedVectorMap status_or" where
  "Map_AddMaps a b =
     map_status (\<lambda>(name, av). case map_of b name of
          None \<Rightarrow> Inl CheckFailed
        | Some bv \<Rightarrow> and_then
            (map_status (\<lambda>j. and_then (at_index (elements bv) j) (\<lambda>w.
                 Inr (AddModOpt (elements av ! j) w (uv_modulus av)))) [0..<length (elements av)])
            (\<lambda>es. Inr (name, \<lparr>elements = es, uv_modulus = uv_modulus av\<rparr>))) a"

end
