(* ===== verification/Map_Of_Masks.thy ===== *)
theory Map_Of_Masks
  imports SecAgg_Vector
begin

unbundle bit_operations_syntax

text \<open>
  \<open>aes_ctr_prng.{h,cc}\<close> and \<open>map_of_masks.{h,cc}\<close> of \<open>fcp/secagg/shared\<close>: the pseudorandom
  masks. SHA-256 (\<open>sha256\<close>) and the AES-256-CTR key stream for the zero IV (\<open>aes_ctr\<close>, by
  key and byte offset) belong to OpenSSL and are parameters. The abort signal is an oracle
  read at each poll; rejection sampling gets as many draws per key as \<open>fuel\<close> says.
\<close>

section \<open>The generator\<close>

type_synonym sha256 = "bytes \<Rightarrow> bytes"
type_synonym aes_ctr = "bytes \<Rightarrow> nat \<Rightarrow> uint8"

definition kBatchSize :: nat where "kBatchSize = 3 * 5 * 7"
definition kBlockSize :: nat where "kBlockSize = 16"
definition kCacheSize :: nat where "kCacheSize = kBatchSize * kBlockSize"
definition kMaxBlocks :: nat where "kMaxBlocks = 0xFFFFFFFF"

record AesCtrPrng =
  seed :: bytes
  cache :: bytes
  next_byte_pos :: nat
  blocks_generated :: nat

definition new_AesCtrPrng :: "bytes \<Rightarrow> AesCtrPrng" where
  "new_AesCtrPrng key =
     \<lparr>seed = key, cache = replicate kCacheSize 0, next_byte_pos = kCacheSize, blocks_generated = 0\<rparr>"

definition GenerateBytes :: "aes_ctr \<Rightarrow> nat \<Rightarrow> AesCtrPrng \<Rightarrow> (bytes \<times> AesCtrPrng) status_or" where
  "GenerateBytes aes_ctr cache_size prng =
     fcp_check (cache_size mod kBlockSize = 0)
    (fcp_check (cache_size \<le> kCacheSize)
    (fcp_check (blocks_generated prng \<le> kMaxBlocks)
       (Inr (map (\<lambda>i. aes_ctr (seed prng) (kBlockSize * blocks_generated prng + i)) [0..<cache_size],
             prng\<lparr>blocks_generated := blocks_generated prng + cache_size div kBlockSize\<rparr>))))"

definition Rand8 :: "aes_ctr \<Rightarrow> AesCtrPrng \<Rightarrow> (uint8 \<times> AesCtrPrng) status_or" where
  "Rand8 aes_ctr prng =
     and_then
       (if next_byte_pos prng \<ge> kCacheSize
        then and_then (GenerateBytes aes_ctr kCacheSize prng) (\<lambda>(bs, prng).
               Inr (prng\<lparr>cache := bs, next_byte_pos := 0\<rparr>))
        else Inr prng)
       (\<lambda>prng. and_then (at_index (cache prng) (next_byte_pos prng)) (\<lambda>b.
          Inr (b, prng\<lparr>next_byte_pos := next_byte_pos prng + 1\<rparr>)))"

definition Rand64 :: "aes_ctr \<Rightarrow> AesCtrPrng \<Rightarrow> (uint64 \<times> AesCtrPrng) status_or" where
  "Rand64 aes_ctr prng =
     fold_status (\<lambda>i (out, prng). and_then (Rand8 aes_ctr prng) (\<lambda>(b, prng).
        Inr (out OR push_bit (8 * i) (ucast b), prng))) [0..<8] (0, prng)"

definition RandBuffer :: "aes_ctr \<Rightarrow> nat \<Rightarrow> AesCtrPrng \<Rightarrow> (bytes \<times> AesCtrPrng) status_or" where
  "RandBuffer aes_ctr buffer_size prng = GenerateBytes aes_ctr (min buffer_size kCacheSize) prng"

section \<open>Sample sizes\<close>

definition kPrngSeedConstant :: uint8 where "kPrngSeedConstant = 0x02"
definition kMaxSampleBits :: int where "kMaxSampleBits = 63"
definition kMaxSampleBitsExpansion :: int where "kMaxSampleBitsExpansion = 16"
definition AesKey_kSize :: nat where "AesKey_kSize = 32"

definition DigestKey :: "sha256 \<Rightarrow> bytes \<Rightarrow> nat \<Rightarrow> bytes \<Rightarrow> bytes status_or" where
  "DigestKey sha256 prng_input bw prng_key =
     (let digest = sha256 (IntToByteString (of_nat bw) @ prng_key @ [kPrngSeedConstant]
                     @ IntToByteString (of_nat (length prng_input)) @ prng_input)
      in fcp_check (length digest = AesKey_kSize) (Inr digest))"

definition choose_better_sample_bits :: "uint64 \<Rightarrow> nat \<Rightarrow> nat \<Rightarrow> nat status_or" where
  "choose_better_sample_bits modulus sample_bits_1 sample_bits_2 =
     fcp_check (sample_bits_1 \<le> sample_bits_2)
    (fcp_check (int sample_bits_2 \<le> kMaxSampleBits)
    (fcp_check (int sample_bits_2 - int sample_bits_1 \<le> kMaxSampleBitsExpansion)
       (let sample_modulus_1 = (push_bit sample_bits_1 1 :: uint64) in
        fcp_check (modulus \<le> sample_modulus_1)
          (if sample_bits_1 = sample_bits_2 then Inr sample_bits_1
           else
             let sample_modulus_2 = (push_bit sample_bits_2 1 :: uint64);
                 sample_modulus_2_over_1 = (push_bit (sample_bits_2 - sample_bits_1) 1 :: uint64);
                 cost_per_sample_1 = DivideRoundUp (of_nat sample_bits_1) 8;
                 cost_per_sample_2 = DivideRoundUp (of_nat sample_bits_2) 8;
                 modulus_reps_1 = sample_modulus_1 div modulus;
                 modulus_reps_2 = sample_modulus_2 div modulus;
                 cost_product_1 = ucast cost_per_sample_1 * modulus_reps_1;
                 cost_product_2 = ucast cost_per_sample_2 * modulus_reps_2 * sample_modulus_2_over_1
             in Inr (if cost_product_1 > cost_product_2 then sample_bits_2 else sample_bits_1)))))"

definition compute_best_sample_bits :: "uint64 \<Rightarrow> nat status_or" where
  "compute_best_sample_bits modulus =
     (let min_sample_bits = bit_width (modulus - 1);
          max_sample_bits = min kMaxSampleBitsExpansion (int min_sample_bits + kMaxSampleBitsExpansion)
      in fold_status (\<lambda>sample_bits best. choose_better_sample_bits modulus best sample_bits)
           [min_sample_bits + 1..<nat (max_sample_bits + 1)] min_sample_bits)"

section \<open>Masks\<close>

record PrngBuffer =
  prng :: AesCtrPrng
  msb_mask :: uint8
  bytes_per_output :: nat
  buffer :: bytes
  buffer_ptr :: nat

definition FillBuffer :: "aes_ctr \<Rightarrow> PrngBuffer \<Rightarrow> PrngBuffer status_or" where
  "FillBuffer aes_ctr pb =
     and_then (RandBuffer aes_ctr (length (buffer pb)) (prng pb)) (\<lambda>(bs, g).
       fcp_check (length bs = length (buffer pb))
         (Inr (pb\<lparr>prng := g, buffer := bs, buffer_ptr := 0\<rparr>)))"

definition new_PrngBuffer :: "aes_ctr \<Rightarrow> bytes \<Rightarrow> uint8 \<Rightarrow> nat \<Rightarrow> PrngBuffer status_or" where
  "new_PrngBuffer aes_ctr key msb bpo =
     fcp_check (kCacheSize mod bpo = 0)
       (FillBuffer aes_ctr \<lparr>prng = new_AesCtrPrng key, msb_mask = msb, bytes_per_output = bpo,
          buffer = replicate kCacheSize 0, buffer_ptr = 0\<rparr>)"

fun NextMask_bytes :: "nat \<Rightarrow> uint64 \<Rightarrow> PrngBuffer \<Rightarrow> (uint64 \<times> PrngBuffer) status_or" where
  "NextMask_bytes 0 output pb = Inr (output, pb)"
| "NextMask_bytes (Suc n) output pb =
     and_then (at_index (buffer pb) (buffer_ptr pb)) (\<lambda>b.
       NextMask_bytes n (push_bit 8 output OR ucast b) (pb\<lparr>buffer_ptr := buffer_ptr pb + 1\<rparr>))"

definition NextMask :: "aes_ctr \<Rightarrow> PrngBuffer \<Rightarrow> (uint64 \<times> PrngBuffer) status_or" where
  "NextMask aes_ctr pb =
     and_then (if buffer_ptr pb = length (buffer pb) then FillBuffer aes_ctr pb else Inr pb) (\<lambda>pb.
     and_then (at_index (buffer pb) (buffer_ptr pb)) (\<lambda>b.
       NextMask_bytes (bytes_per_output pb - 1) (ucast (b AND msb_mask pb))
         (pb\<lparr>buffer_ptr := buffer_ptr pb + 1\<rparr>)))"

record InputVectorSpecification =
  spec_name :: bytes
  spec_length :: nat
  spec_modulus :: uint64

definition new_InputVectorSpecification ::
  "bytes \<Rightarrow> int \<Rightarrow> uint64 \<Rightarrow> InputVectorSpecification status_or" where
  "new_InputVectorSpecification name len modulus =
     fcp_check (len \<ge> 0) (fcp_check (modulus > 1 \<and> modulus \<le> kMaxModulus)
       (Inr \<lparr>spec_name = name, spec_length = nat len, spec_modulus = modulus\<rparr>))"

text \<open>
  The inner loops of \<open>MapOfMasksImpl\<close> for one key: \<open>op\<close> is \<open>AddModImpl\<close> or \<open>SubtractModImpl\<close>
  of the adapter, and the list is the part of \<open>mask_vector_buffer\<close> from index \<open>i\<close> on.
\<close>

type_synonym mod_op = "uint64 \<Rightarrow> uint64 \<Rightarrow> uint64 \<Rightarrow> uint64"

fun mask_loop :: "aes_ctr \<Rightarrow> mod_op \<Rightarrow> uint64 \<Rightarrow> PrngBuffer \<Rightarrow> uint64 list \<Rightarrow> uint64 list status_or" where
  "mask_loop aes_ctr op m pb [] = Inr []"
| "mask_loop aes_ctr op m pb (v # vs) =
     and_then (NextMask aes_ctr pb) (\<lambda>(msk, pb).
     and_then (mask_loop aes_ctr op m pb vs) (\<lambda>vs. Inr (op v msk m # vs)))"

fun reject_loop ::
  "aes_ctr \<Rightarrow> mod_op \<Rightarrow> uint64 \<Rightarrow> uint64 \<Rightarrow> nat \<Rightarrow> PrngBuffer \<Rightarrow> uint64 list \<Rightarrow> uint64 list status_or" where
  "reject_loop aes_ctr op m threshold fuel pb [] = Inr []"
| "reject_loop aes_ctr op m threshold 0 pb (v # vs) = Inl OutOfFuel"
| "reject_loop aes_ctr op m threshold (Suc fuel) pb (v # vs) =
     and_then (NextMask aes_ctr pb) (\<lambda>(msk, pb).
       let reject = msk < threshold;
           msk = (if reject then 0 else msk);
           v = op v (msk mod m) m
       in if reject then reject_loop aes_ctr op m threshold fuel pb (v # vs)
          else and_then (reject_loop aes_ctr op m threshold fuel pb vs) (\<lambda>vs. Inr (v # vs)))"

definition msb_mask_of :: "nat \<Rightarrow> nat \<Rightarrow> uint8" where
  "msb_mask_of bits bpo = mask (bits - (bpo - 1) * 8)"

definition prng_input_of :: "bytes \<Rightarrow> InputVectorSpecification \<Rightarrow> bytes" where
  "prng_input_of session_id spec =
     session_id @ IntToByteString (of_nat (bit_width (spec_modulus spec - 1)))
       @ IntToByteString (of_nat (spec_length spec)) @ spec_name spec"

definition mask_with_key ::
  "sha256 \<Rightarrow> aes_ctr \<Rightarrow> nat \<Rightarrow> mod_op \<Rightarrow> bytes \<Rightarrow> InputVectorSpecification \<Rightarrow> bytes \<Rightarrow> uint64 list
    \<Rightarrow> uint64 list status_or" where
  "mask_with_key sha256 aes_ctr fuel op session_id spec key vs =
     (let m = spec_modulus spec; bw = bit_width (m - 1); input = prng_input_of session_id spec
      in if push_bit bw 1 = m then
           let bpo = unat (DivideRoundUp (of_nat bw) 8) in
           and_then (DigestKey sha256 input bw key) (\<lambda>digest_key.
           and_then (new_PrngBuffer aes_ctr digest_key (msb_mask_of bw bpo) bpo) (\<lambda>pb.
             mask_loop aes_ctr op m pb vs))
         else
           and_then (compute_best_sample_bits m) (\<lambda>sample_bits.
             let bpo = unat (DivideRoundUp (of_nat sample_bits) 8);
                 rejection_threshold = (push_bit sample_bits 1 - m) mod m in
             and_then (DigestKey sha256 input sample_bits key) (\<lambda>digest_key.
             and_then (new_PrngBuffer aes_ctr digest_key (msb_mask_of sample_bits bpo) bpo) (\<lambda>pb.
               reject_loop aes_ctr op m rejection_threshold fuel pb vs))))"

text \<open>
  The loops over keys and specifications. \<open>abort p\<close> is what the \<open>p\<close>-th poll of the signal
  sees; the result \<open>None\<close> is the \<open>nullptr\<close> of an aborted run.
\<close>

fun keys_loop ::
  "(bytes \<Rightarrow> uint64 list \<Rightarrow> uint64 list status_or) \<Rightarrow> (nat \<Rightarrow> bool) \<Rightarrow> bytes list \<Rightarrow> uint64 list \<Rightarrow> nat
    \<Rightarrow> (uint64 list option \<times> nat) status_or" where
  "keys_loop step abort [] vs p = Inr (Some vs, p)"
| "keys_loop step abort (key # keys) vs p =
     (if abort p then Inr (None, p + 1)
      else and_then (step key vs) (\<lambda>vs. keys_loop step abort keys vs (p + 1)))"

definition emplace :: "bytes \<Rightarrow> 'v \<Rightarrow> (bytes \<times> 'v) list \<Rightarrow> (bytes \<times> 'v) list" where
  "emplace name v m = (if map_of m name = None then m @ [(name, v)] else m)"

record mask_env =
  env_sha256 :: sha256
  env_aes_ctr :: aes_ctr
  env_fuel :: nat

definition spec_masks ::
  "mask_env \<Rightarrow> mod_op \<Rightarrow> mod_op \<Rightarrow> bytes list \<Rightarrow> bytes list \<Rightarrow> bytes \<Rightarrow> (nat \<Rightarrow> bool)
    \<Rightarrow> InputVectorSpecification \<Rightarrow> nat \<Rightarrow> (uint64 list option \<times> nat) status_or" where
  "spec_masks env add sub keys_add keys_sub session_id abort spec p =
     (if abort p then Inr (None, p + 1) else
      let step = (\<lambda>op. mask_with_key (env_sha256 env) (env_aes_ctr env) (env_fuel env) op session_id spec)
      in and_then (keys_loop (step add) abort keys_add (replicate (spec_length spec) 0) (p + 1))
        (\<lambda>(r, p). case r of None \<Rightarrow> Inr (None, p) | Some vs \<Rightarrow>
           and_then (keys_loop (step sub) abort keys_sub vs p)
             (\<lambda>(r, p). case r of None \<Rightarrow> Inr (None, p) | Some vs \<Rightarrow>
                Inr (if abort p then None else Some vs, p + 1))))"

fun MapOfMasksImpl ::
  "mask_env \<Rightarrow> mod_op \<Rightarrow> mod_op \<Rightarrow> (uint64 list \<Rightarrow> uint64 \<Rightarrow> 'v status_or)
    \<Rightarrow> bytes list \<Rightarrow> bytes list \<Rightarrow> bytes \<Rightarrow> (nat \<Rightarrow> bool)
    \<Rightarrow> InputVectorSpecification list \<Rightarrow> nat \<Rightarrow> (bytes \<times> 'v) list \<Rightarrow> (bytes \<times> 'v) list option status_or" where
  "MapOfMasksImpl env add sub mk keys_add keys_sub session_id abort [] p acc = Inr (Some acc)"
| "MapOfMasksImpl env add sub mk keys_add keys_sub session_id abort (spec # specs) p acc =
     and_then (spec_masks env add sub keys_add keys_sub session_id abort spec p) (\<lambda>(r, p).
       case r of None \<Rightarrow> Inr None
       | Some vs \<Rightarrow> and_then (mk vs (spec_modulus spec)) (\<lambda>v.
           MapOfMasksImpl env add sub mk keys_add keys_sub session_id abort specs p
             (emplace (spec_name spec) v acc)))"

definition MapOfMasks ::
  "mask_env \<Rightarrow> bytes list \<Rightarrow> bytes list \<Rightarrow> InputVectorSpecification list \<Rightarrow> bytes \<Rightarrow> (nat \<Rightarrow> bool)
    \<Rightarrow> SecAggVectorMap option status_or" where
  "MapOfMasks env keys_add keys_sub specs session_id abort =
     MapOfMasksImpl env AddMod SubtractMod (\<lambda>vs m. SecAggVector_of_span vs m False)
       keys_add keys_sub session_id abort specs 0 []"

definition MapOfMasksV3 ::
  "mask_env \<Rightarrow> bytes list \<Rightarrow> bytes list \<Rightarrow> InputVectorSpecification list \<Rightarrow> bytes \<Rightarrow> (nat \<Rightarrow> bool)
    \<Rightarrow> SecAggVectorMap option status_or" where
  "MapOfMasksV3 env keys_add keys_sub specs session_id abort =
     MapOfMasksImpl env AddModOpt SubtractModOpt (\<lambda>vs m. SecAggVector_of_span vs m False)
       keys_add keys_sub session_id abort specs 0 []"

definition UnpackedMapOfMasks ::
  "mask_env \<Rightarrow> bytes list \<Rightarrow> bytes list \<Rightarrow> InputVectorSpecification list \<Rightarrow> bytes \<Rightarrow> (nat \<Rightarrow> bool)
    \<Rightarrow> SecAggUnpackedVectorMap option status_or" where
  "UnpackedMapOfMasks env keys_add keys_sub specs session_id abort =
     MapOfMasksImpl env AddModOpt SubtractModOpt (\<lambda>vs m. Inr \<lparr>elements = vs, uv_modulus = m\<rparr>)
       keys_add keys_sub session_id abort specs 0 []"

fun AddVectors_loop :: "nat \<Rightarrow> uint64 \<Rightarrow> Decoder \<Rightarrow> Decoder \<Rightarrow> Coder \<Rightarrow> Coder status_or" where
  "AddVectors_loop 0 modulus da db c = Inr c"
| "AddVectors_loop (Suc n) modulus da db c =
     (let (a, da) = ReadValue da; (b, db) = ReadValue db
      in and_then (WriteValue ((a + b) mod modulus) c) (AddVectors_loop n modulus da db))"

definition AddVectors :: "SecAggVector \<Rightarrow> SecAggVector \<Rightarrow> SecAggVector status_or" where
  "AddVectors a b =
     fcp_check (sv_modulus a = sv_modulus b \<and> sv_num_elements a = sv_num_elements b)
       (and_then (AddVectors_loop (sv_num_elements a) (sv_modulus a)
            (new_Decoder (packed_bytes a) (sv_modulus a)) (new_Decoder (packed_bytes b) (sv_modulus b))
            (new_Coder (sv_modulus a) (sv_bit_width a) (sv_num_elements a)))
          Coder_Create)"

definition AddMaps :: "SecAggVectorMap \<Rightarrow> SecAggVectorMap \<Rightarrow> SecAggVectorMap status_or" where
  "AddMaps a b =
     map_status (\<lambda>(name, v). case map_of b name of
          None \<Rightarrow> Inl CheckFailed
        | Some w \<Rightarrow> and_then (AddVectors v w) (\<lambda>s. Inr (name, s))) a"

end
