(* ===== verification/SecAgg_Codec.thy ===== *)
theory SecAgg_Codec
  imports SecAgg_Vector
begin

unbundle bit_operations_syntax

text \<open>
  The codecs of \<open>secagg_vector.cc\<close> against one reference: a vector with elements below
  \<open>2^bw\<close> is the number \<open>vec_val bw\<close>, its packed form is that number in little-endian bytes,
  and element \<open>i\<close> is the digit \<open>vec_val bw div 2^(i bw) mod 2^bw\<close>. The plain packer, the plain
  unpacker, the branchless \<open>Coder\<close> and the branchless \<open>Decoder\<close> are each shown to meet it.
\<close>

section \<open>Bit widths\<close>

lemma bit_width_upper: "unat x < 2 ^ bit_width x"
proof (induction x rule: bit_width.induct)
  case (1 x)
  then show ?case
    by (cases "x = 0") (auto simp: bit_width.simps [of x] unat_div_distrib)
qed

lemma bit_width_lower: "x \<noteq> 0 \<Longrightarrow> 2 ^ (bit_width x - 1) \<le> unat x"
proof (induction x rule: bit_width.induct)
  case (1 x)
  show ?case
  proof (cases "x div 2 = 0")
    case True
    then show ?thesis
      using 1(2) by (simp add: bit_width.simps [of x] bit_width.simps [of 0] unat_gt_0 Suc_leI)
  next
    case False
    then have "2 ^ (bit_width (x div 2) - 1) \<le> unat x div 2"
      using 1 by (simp add: unat_div_distrib)
    moreover have "bit_width (x div 2) \<noteq> 0" using False by (simp add: bit_width.simps [of "x div 2"])
    ultimately show ?thesis
      using 1(2) by (cases "bit_width (x div 2)") (auto simp: bit_width.simps [of x])
  qed
qed

definition modulus_ok :: "uint64 \<Rightarrow> bool" where
  "modulus_ok m \<longleftrightarrow> 1 < m \<and> m \<le> kMaxModulus"

lemma unat_kMaxModulus: "unat kMaxModulus = 4611686018427387904"
  by (simp add: kMaxModulus_def)

lemma modulus_ok_unat: "modulus_ok m \<longleftrightarrow> 1 < unat m \<and> unat m \<le> 4611686018427387904"
  by (simp add: modulus_ok_def word_less_nat_alt word_le_nat_alt unat_kMaxModulus)

lemma GetBitWidth_bounds:
  assumes "modulus_ok m"
  shows "unat m \<le> 2 ^ GetBitWidth m" "2 ^ GetBitWidth m < 2 * unat m"
    "0 < GetBitWidth m" "GetBitWidth m \<le> 62"
proof -
  have m: "1 < unat m" "unat m \<le> 4611686018427387904" using assms by (simp_all add: modulus_ok_unat)
  have "1 \<le> m" using m(1) by (simp add: word_le_nat_alt)
  then have m1: "unat (m - 1) = unat m - 1" by (simp add: unat_sub_le)
  then have nz: "m - 1 \<noteq> 0" using m(1) by (metis less_numeral_extra(3) unsigned_0 zero_less_diff)
  show up: "unat m \<le> 2 ^ GetBitWidth m"
    using bit_width_upper [of "m - 1"] m1 by (simp add: GetBitWidth_def)
  show pos: "0 < GetBitWidth m"
    using nz by (simp add: GetBitWidth_def bit_width.simps [of "m - 1"])
  have low: "2 ^ (GetBitWidth m - 1) \<le> unat m - 1"
    using bit_width_lower [OF nz] m1 by (simp add: GetBitWidth_def)
  then show "2 ^ GetBitWidth m < 2 * unat m"
    using pos m(1) by (cases "GetBitWidth m") auto
  have "(2::nat) ^ (GetBitWidth m - 1) < 2 ^ 62" using low m by simp
  then have "GetBitWidth m - 1 < 62" by (rule power_less_imp_less_exp [rotated]) simp
  then show "GetBitWidth m \<le> 62" by simp
qed

section \<open>The reference\<close>

definition vec_val :: "nat \<Rightarrow> uint64 list \<Rightarrow> nat" where
  "vec_val bw es = foldr (\<lambda>e v. unat e + 2 ^ bw * v) es 0"

lemma vec_val_simps [simp]: "vec_val bw [] = 0" "vec_val bw (e # es) = unat e + 2 ^ bw * vec_val bw es"
  by (simp_all add: vec_val_def)

definition vec_ok :: "nat \<Rightarrow> uint64 list \<Rightarrow> bool" where
  "vec_ok bw es \<longleftrightarrow> (\<forall>e\<in>set es. unat e < 2 ^ bw)"

lemma vec_ok_simps [simp]: "vec_ok bw []" "vec_ok bw (e # es) \<longleftrightarrow> unat e < 2 ^ bw \<and> vec_ok bw es"
  by (simp_all add: vec_ok_def)

lemma add_high_digit: "(v::nat) < 2 ^ n \<Longrightarrow> x < 2 ^ m \<Longrightarrow> v + 2 ^ n * x < 2 ^ (n + m)"
proof -
  assume "v < 2 ^ n" "x < 2 ^ m"
  then have "v + 2 ^ n * x < 2 ^ n * (x + 1)" by simp
  also have "\<dots> \<le> 2 ^ n * 2 ^ m" using \<open>x < 2 ^ m\<close> by (intro mult_le_mono) simp_all
  finally show ?thesis by (simp add: power_add)
qed

lemma vec_val_less: "vec_ok bw es \<Longrightarrow> vec_val bw es < 2 ^ (bw * length es)"
proof (induction es)
  case (Cons e es)
  then show ?case using add_high_digit [of "unat e" bw "vec_val bw es" "bw * length es"] by simp
qed simp

lemma vec_val_nth:
  "vec_ok bw es \<Longrightarrow> i < length es \<Longrightarrow> unat (es ! i) = vec_val bw es div 2 ^ (i * bw) mod 2 ^ bw"
proof (induction es arbitrary: i)
  case (Cons e es)
  show ?case
  proof (cases i)
    case 0
    then show ?thesis using Cons.prems by simp
  next
    case (Suc j)
    have "vec_val bw (e # es) div 2 ^ (i * bw) = vec_val bw (e # es) div 2 ^ bw div 2 ^ (j * bw)"
      by (simp add: Suc power_add div_mult2_eq)
    also have "vec_val bw (e # es) div 2 ^ bw = vec_val bw es" using Cons.prems by simp
    finally show ?thesis using Cons Suc by simp
  qed
qed simp

section \<open>The plain packer\<close>

lemma pow256: "(256::nat) ^ k = 2 ^ (8 * k)"
  by (simp add: power_mult)

lemma le_val_update:
  "k < length bs \<Longrightarrow> unat b = unat (bs ! k) + d \<Longrightarrow> le_val (bs[k := b]) = le_val bs + 2 ^ (8 * k) * d"
proof (induction bs arbitrary: k)
  case (Cons c bs)
  then show ?case by (cases k) (simp_all add: algebra_simps power_add)
qed simp

lemma byte_below:
  assumes "k < length bs" "le_val bs < 2 ^ (8 * k + s)"
  shows "unat (bs ! k) < 2 ^ s"
proof -
  have "le_val bs div 2 ^ (8 * k) < 2 ^ s"
    using assms(2) by (simp add: power_add less_mult_imp_div_less mult.commute)
  then show ?thesis
    using le_val_nth [OF assms(1)] by (metis mod_less_eq_dividend le_less_trans pow256)
qed

lemma or_byte_adds:
  assumes k: "k < length bs" and low: "le_val bs < 2 ^ (8 * k + s)" and v: "unat v * 2 ^ s < 256"
  shows "\<exists>bs'. or_byte k (push_bit s v) bs = Inr bs' \<and> length bs' = length bs
    \<and> le_val bs' = le_val bs + 2 ^ (8 * k + s) * unat v"
proof -
  have "unat (bs ! k OR push_bit s v) = unat (bs ! k) + unat v * 2 ^ s"
    using byte_below [OF k low] v by (intro unat_or_push) simp_all
  from le_val_update [OF k this] show ?thesis
    using k by (simp add: or_byte_def power_add algebra_simps)
qed

lemma set_byte_adds:
  assumes k: "k < length bs" and low: "le_val bs < 2 ^ (8 * k)"
  shows "\<exists>bs'. set_byte k v bs = Inr bs' \<and> length bs' = length bs
    \<and> le_val bs' = le_val bs + 2 ^ (8 * k) * unat v"
proof -
  have "unat v = unat (bs ! k) + unat v" using byte_below [OF k, of 0] low by simp
  from le_val_update [OF k this] show ?thesis using k by (simp add: set_byte_def)
qed

lemma unat_ucast_byte_64: "unat (ucast (w :: uint64) :: uint8) = unat w mod 256"
  by (simp add: unsigned_ucast_eq take_bit_eq_mod)

lemma unat_and_255: "unat ((w :: uint64) AND 255) = unat w mod 256"
proof -
  have "(255 :: uint64) = mask 8" by (simp add: mask_eq_exp_minus_1)
  then show ?thesis by (simp only: unat_and_mask) simp
qed

definition pack_rest :: "int \<times> uint64 \<times> nat \<times> bytes \<Rightarrow> bytes status_or" where
  "pack_rest = (\<lambda>(bits_left, element, i, packed).
     and_then (Pack_whole bits_left element i packed)
       (\<lambda>(bits_left, element, i, packed).
          if bits_left > 0 then or_byte i (ucast element) packed else Inr packed))"

lemma pack_rest_adds:
  "unat e < 2 ^ nat nb \<Longrightarrow> le_val bs < 2 ^ (8 * i) \<Longrightarrow> 8 * i + nat nb \<le> 8 * length bs \<Longrightarrow>
   \<exists>bs'. pack_rest (nb, e, i, bs) = Inr bs' \<and> length bs' = length bs
     \<and> le_val bs' = le_val bs + 2 ^ (8 * i) * unat e"
proof (induction nb e i bs rule: Pack_whole.induct)
  case (1 nb e i bs)
  show ?case
  proof (cases "nb \<ge> 8")
    case True
    then have nb: "nat nb = nat (nb - 8) + 8" by simp
    have b: "unat (ucast (e AND 255) :: uint8) = unat e mod 256"
      by (simp add: unat_ucast_byte_64 unat_and_255)
    obtain bs1 where bs1: "set_byte i (ucast (e AND 255)) bs = Inr bs1" "length bs1 = length bs"
        "le_val bs1 = le_val bs + 2 ^ (8 * i) * (unat e mod 256)"
      using set_byte_adds [of i bs "ucast (e AND 255)"] 1 nb by (auto simp: b)
    have "unat (drop_bit 8 e) = unat e div 256" by (simp add: unat_drop_bit del: drop_bit_eq_div)
    moreover have "unat e div 256 < 2 ^ nat (nb - 8)"
      using "1.prems"(1) by (simp add: nb power_add less_mult_imp_div_less mult.commute)
    moreover have "le_val bs1 < 2 ^ (8 * (i + 1))"
      unfolding bs1(3) using "1.prems"(2) add_high_digit [of "le_val bs" "8 * i" "unat e mod 256" 8]
      by (simp add: power_add)
    ultimately obtain bs2 where bs2: "pack_rest (nb - 8, drop_bit 8 e, i + 1, bs1) = Inr bs2"
        "length bs2 = length bs1" "le_val bs2 = le_val bs1 + 2 ^ (8 * (i + 1)) * (unat e div 256)"
      using "1.IH" [OF True, of bs1] "1.prems"(3) nb bs1(2) by auto
    have "le_val bs2 = le_val bs + 2 ^ (8 * i) * (256 * (unat e div 256) + unat e mod 256)"
    proof -
      have "(2::nat) ^ (8 * (i + 1)) = 2 ^ (8 * i) * 256" by (simp add: power_add)
      then show ?thesis unfolding bs2(3) bs1(3) by (simp only: algebra_simps)
    qed
    then have "le_val bs2 = le_val bs + 2 ^ (8 * i) * unat e" by simp
    then show ?thesis
      using True bs1(1,2) bs2(1,2) by (simp add: pack_rest_def Pack_whole.simps [of nb e i bs])
  next
    case False
    show ?thesis
    proof (cases "nb > 0")
      case True
      have "(2::nat) ^ nat nb \<le> 2 ^ 8" using False by (intro power_increasing) auto
      then have e: "unat e < 256" using "1.prems"(1) by simp
      then have "unat (ucast e :: uint8) = unat e" by (simp add: unat_ucast_byte_64)
      then show ?thesis
        using or_byte_adds [of i bs 0 "ucast e"] "1.prems" True False e
        by (simp add: pack_rest_def Pack_whole.simps [of nb e i bs])
    next
      case nonpos: False
      then show ?thesis
        using "1.prems"(1) by (simp add: pack_rest_def Pack_whole.simps [of nb e i bs])
    qed
  qed
qed

lemma Pack_head_adds:
  assumes e: "unat e < 2 ^ bw" and low: "le_val bs < 2 ^ pos" and len: "pos + bw \<le> 8 * length bs"
    and bw: "0 < bw"
  shows "\<exists>nb e' i bs'. Pack_head bw pos e bs = Inr (nb, e', i, bs') \<and> unat e' < 2 ^ nat nb
    \<and> le_val bs' < 2 ^ (8 * i) \<and> 8 * i + nat nb \<le> 8 * length bs' \<and> length bs' = length bs
    \<and> le_val bs' + 2 ^ (8 * i) * unat e' = le_val bs + 2 ^ pos * unat e"
proof (cases "pos mod 8 = 0")
  case True
  then have "8 * (pos div 8) = pos" by auto
  then show ?thesis using True assms by (simp add: Pack_head_def Let_def)
next
  case False
  define k where "k = pos div 8"
  define s where "s = pos mod 8"
  have pos: "pos = 8 * k + s" "s < 8" "0 < s" using False by (simp_all add: k_def s_def)
  let ?r = "8 - s" and ?m = "min (8 - s) bw"
  have m: "unat (e AND mask ?m) = unat e mod 2 ^ ?r"
  proof (cases "bw \<le> ?r")
    case True
    then have "(2::nat) ^ bw \<le> 2 ^ ?r" by (intro power_increasing) simp_all
    then have "unat e < 2 ^ ?r" using e by (rule less_le_trans [rotated])
    then show ?thesis using True e by (simp add: unat_and_mask min_def)
  qed (simp add: unat_and_mask min_def)
  have "unat e mod 2 ^ ?r * 2 ^ s < 2 ^ ?r * 2 ^ s" by simp
  also have "(2::nat) ^ ?r * 2 ^ s = 256" using pos(2) by (simp flip: power_add)
  finally have v: "unat e mod 2 ^ ?r * 2 ^ s < 256" .
  let ?v = "of_nat (unat e mod 2 ^ ?r) :: uint8"
  have uv: "unat ?v = unat e mod 2 ^ ?r"
  proof -
    have "unat e mod 2 ^ ?r * 1 \<le> unat e mod 2 ^ ?r * 2 ^ s" by (intro mult_le_mono) simp_all
    then have "unat e mod 2 ^ ?r < 256" using v by linarith
    then show ?thesis by simp
  qed
  have add: "ucast (push_bit s (e AND mask ?m)) = push_bit s ?v"
  proof (rule unat_eqI)
    have "unat (push_bit s (e AND mask ?m)) = unat e mod 2 ^ ?r * 2 ^ s"
      using v m by (subst unat_push_bit_small) simp_all
    moreover have "unat (push_bit s ?v) = unat e mod 2 ^ ?r * 2 ^ s"
      using v uv by (subst unat_push_bit_small) simp_all
    ultimately show "unat (ucast (push_bit s (e AND mask ?m)) :: uint8) = unat (push_bit s ?v)"
      using v by (simp add: unat_ucast_byte_64)
  qed
  have k: "k < length bs" using len pos bw by simp
  obtain bs' where bs': "or_byte k (push_bit s ?v) bs = Inr bs'" "length bs' = length bs"
      "le_val bs' = le_val bs + 2 ^ pos * (unat e mod 2 ^ ?r)"
    using or_byte_adds [OF k, of s ?v] low pos(1) v uv by auto
  have head: "Pack_head bw pos e bs = Inr (int bw - int ?r, drop_bit ?r e, k + 1, bs')"
    using False bs'(1) add by (simp add: Pack_head_def Let_def k_def s_def)
  have ue: "unat (drop_bit ?r e) = unat e div 2 ^ ?r" by (rule unat_drop_bit)
  have "unat e div 2 ^ ?r < 2 ^ nat (int bw - int ?r)"
  proof (rule less_mult_imp_div_less)
    have "(2::nat) ^ bw \<le> 2 ^ (nat (int bw - int ?r) + ?r)" by (intro power_increasing) auto
    then show "unat e < 2 ^ nat (int bw - int ?r) * 2 ^ ?r" using e by (simp add: power_add)
  qed
  moreover have "le_val bs' < 2 ^ (8 * (k + 1))"
    unfolding bs'(3) using add_high_digit [OF low, of "unat e mod 2 ^ ?r" ?r] pos
    by (simp add: add.commute)
  moreover have "8 * (k + 1) + nat (int bw - int ?r) \<le> 8 * length bs'"
  proof -
    have "8 * (k + 1) \<le> 8 * length bs" using k by simp
    then show ?thesis using len pos bs'(2) by (cases "8 - s \<le> bw") auto
  qed
  moreover have "le_val bs' + 2 ^ (8 * (k + 1)) * (unat e div 2 ^ ?r) = le_val bs + 2 ^ pos * unat e"
  proof -
    have "(2::nat) ^ (8 * (k + 1)) = 2 ^ pos * 2 ^ ?r" using pos by (simp flip: power_add)
    then have "le_val bs' + 2 ^ (8 * (k + 1)) * (unat e div 2 ^ ?r)
        = le_val bs + 2 ^ pos * (2 ^ ?r * (unat e div 2 ^ ?r) + unat e mod 2 ^ ?r)"
      unfolding bs'(3) by (simp only: algebra_simps)
    then show ?thesis by simp
  qed
  ultimately show ?thesis using head bs'(2) ue by auto
qed

lemma Pack_at_adds:
  assumes "unat e < 2 ^ bw" "le_val bs < 2 ^ (index * bw)" "index * bw + bw \<le> 8 * length bs" "0 < bw"
    and "index * bw \<le> 2147483647"
  shows "\<exists>bs'. PackUint64IntoByteStringAt bw index e bs = Inr bs' \<and> length bs' = length bs
    \<and> le_val bs' = le_val bs + 2 ^ (index * bw) * unat e"
proof -
  obtain nb e' i bs1 where h: "Pack_head bw (index * bw) e bs = Inr (nb, e', i, bs1)"
      "unat e' < 2 ^ nat nb" "le_val bs1 < 2 ^ (8 * i)" "8 * i + nat nb \<le> 8 * length bs1"
      "length bs1 = length bs" "le_val bs1 + 2 ^ (8 * i) * unat e' = le_val bs + 2 ^ (index * bw) * unat e"
    using Pack_head_adds [OF assms(1-4)] by blast
  moreover obtain bs2 where "pack_rest (nb, e', i, bs1) = Inr bs2" "length bs2 = length bs1"
      "le_val bs2 = le_val bs1 + 2 ^ (8 * i) * unat e'"
    using pack_rest_adds [OF h(2-4)] by blast
  ultimately show ?thesis
    using assms(5) by (auto simp: PackUint64IntoByteStringAt_def pack_rest_def)
qed

lemma Pack_elements_adds:
  "vec_ok bw es \<Longrightarrow> le_val bs < 2 ^ (index * bw) \<Longrightarrow> (index + length es) * bw \<le> 8 * length bs \<Longrightarrow>
   0 < bw \<Longrightarrow> (index + length es) * bw \<le> 2147483647 \<Longrightarrow>
   \<exists>bs'. Pack_elements bw index es bs = Inr bs' \<and> length bs' = length bs
     \<and> le_val bs' = le_val bs + 2 ^ (index * bw) * vec_val bw es"
proof (induction es arbitrary: index bs)
  case (Cons e es)
  have "index * bw + bw \<le> (index + length (e # es)) * bw" by (simp add: algebra_simps)
  then have "index * bw + bw \<le> 8 * length bs" "index * bw \<le> 2147483647"
    using Cons.prems(3,5) by linarith+
  then obtain bs1 where bs1: "PackUint64IntoByteStringAt bw index e bs = Inr bs1"
      "length bs1 = length bs" "le_val bs1 = le_val bs + 2 ^ (index * bw) * unat e"
    using Pack_at_adds [of e bw bs index] Cons.prems by auto
  have "le_val bs1 < 2 ^ ((index + 1) * bw)"
    unfolding bs1(3) using add_high_digit [OF Cons.prems(2), of "unat e" bw] Cons.prems(1)
    by (simp add: algebra_simps)
  moreover have "index + 1 + length es = index + length (e # es)" by simp
  ultimately obtain bs2 where "Pack_elements bw (index + 1) es bs1 = Inr bs2"
      "length bs2 = length bs1" "le_val bs2 = le_val bs1 + 2 ^ ((index + 1) * bw) * vec_val bw es"
    using Cons.IH [of bs1 "index + 1"] Cons.prems bs1(2) by auto
  then show ?case using bs1 by (simp add: power_add algebra_simps)
qed simp

section \<open>The plain unpacker\<close>

lemma byte_digit: "k < length bs \<Longrightarrow> unat (bs ! k) = le_val bs div 2 ^ (8 * k) mod 256"
  using le_val_nth [of k bs] by (simp only: pow256)

lemma digit_extend:
  fixes V :: nat
  shows "V div 2 ^ p mod 2 ^ (d + n) = V div 2 ^ p mod 2 ^ d + 2 ^ d * (V div 2 ^ (p + d) mod 2 ^ n)"
  by (simp add: power_add mod_mult2_eq div_mult2_eq)

lemma unat_or_push_u64:
  fixes a b :: uint64
  assumes "unat a < 2 ^ d" "unat b < 2 ^ n" "d + n \<le> 64"
  shows "unat (push_bit d b OR a) = unat a + 2 ^ d * unat b"
proof -
  have "unat b * 2 ^ d < 2 ^ n * 2 ^ d" using assms(2) by simp
  also have "(2::nat) ^ n * 2 ^ d \<le> 2 ^ 64"
    using assms(3) by (simp only: flip: power_add) (intro power_increasing; simp)
  finally have "unat (a OR push_bit d b) = unat a + unat b * 2 ^ d"
    using assms(1) by (intro unat_or_push) simp_all
  then show ?thesis by (simp only: or.commute mult.commute)
qed

definition unpack_rest :: "nat \<Rightarrow> nat \<Rightarrow> uint64 \<Rightarrow> bytes \<Rightarrow> uint64 status_or" where
  "unpack_rest bits_left i unpacked bs =
     and_then (Unpack_whole bits_left i unpacked bs)
       (\<lambda>(bits_left, i, unpacked). Unpack_tail bits_left i unpacked bs)"

lemma unat_byte_and_ff: "unat ((ucast (b :: uint8) :: uint64) AND 0xff) = unat b"
  by (simp add: unat_and_255)

lemma unpack_rest_digit:
  "unat u = le_val bs div 2 ^ (8 * Suc i) mod 2 ^ n \<Longrightarrow> b + n \<le> 62 \<Longrightarrow> b \<le> 8 * Suc i \<Longrightarrow>
   Suc i \<le> length bs \<Longrightarrow>
   \<exists>v. unpack_rest b i u bs = Inr v \<and> unat v = le_val bs div 2 ^ (8 * Suc i - b) mod 2 ^ (b + n)"
proof (induction b i u bs arbitrary: n rule: Unpack_whole.induct)
  case (1 b i u bs)
  have un: "unat u < 2 ^ n" using "1.prems"(1) by simp
  have byte: "unat (bs ! i) = le_val bs div 2 ^ (8 * i) mod 256"
    using "1.prems"(4) by (intro byte_digit) simp
  show ?case
  proof (cases "b \<ge> 8")
    case True
    let ?u = "push_bit 8 u OR (ucast (bs ! i) AND 0xff)"
    have "unat ?u = unat (bs ! i) + 2 ^ 8 * unat u"
      using un True "1.prems"(2)
      by (subst unat_or_push_u64 [where n = n]) (simp_all add: unat_byte_and_ff)
    also have "\<dots> = le_val bs div 2 ^ (8 * i) mod 2 ^ (8 + n)"
      using digit_extend [of "le_val bs" "8 * i" 8 n] "1.prems"(1) byte by (simp add: add.commute)
    finally have u: "unat ?u = le_val bs div 2 ^ (8 * i) mod 2 ^ (8 + n)" .
    have step: "unpack_rest b i u bs = unpack_rest (b - 8) (i - 1) ?u bs"
      using True "1.prems"(4) by (simp add: unpack_rest_def Unpack_whole.simps [of b i u bs])
    show ?thesis
    proof (cases i)
      case 0
      then have "b = 8" using True "1.prems"(3) by simp
      then show ?thesis
        using step u 0 by (simp add: unpack_rest_def Unpack_whole.simps [of 0] Unpack_tail_def add.commute)
    next
      case (Suc j)
      then have "Suc (i - 1) = i" by simp
      then show ?thesis
        using "1.IH" [OF True, of "bs ! i" "8 + n"] u True "1.prems" step
        by (simp add: add.commute add.left_commute)
    qed
  next
    case False
    have pos: "8 * Suc i - b = 8 * i + (8 - b)" using False by simp
    show ?thesis
    proof (cases "b > 0")
      case False
      then show ?thesis
        using "1.prems"(1) by (simp add: unpack_rest_def Unpack_whole.simps [of 0] Unpack_tail_def)
    next
      case True
      let ?h = "drop_bit (8 - b) (ucast (bs ! i) AND 0xff) :: uint64"
      have "unat ?h = unat (bs ! i) div 2 ^ (8 - b)"
        by (simp only: unat_drop_bit unat_byte_and_ff)
      also have "\<dots> = le_val bs div 2 ^ (8 * i) div 2 ^ (8 - b) mod 2 ^ b"
      proof -
        have "(256::nat) = 2 ^ (8 - b) * 2 ^ b" using False by (simp flip: power_add)
        then show ?thesis unfolding byte by (simp only: mod_mult2_eq) simp
      qed
      also have "\<dots> = le_val bs div 2 ^ (8 * Suc i - b) mod 2 ^ b"
        unfolding pos by (simp only: power_add div_mult2_eq)
      finally have h: "unat ?h = le_val bs div 2 ^ (8 * Suc i - b) mod 2 ^ b" .
      then have "unat (push_bit b u OR ?h) = unat ?h + 2 ^ b * unat u"
        using un True "1.prems"(2) by (intro unat_or_push_u64 [where n = n]) simp_all
      also have "\<dots> = le_val bs div 2 ^ (8 * Suc i - b) mod 2 ^ (b + n)"
        using digit_extend [of "le_val bs" "8 * Suc i - b" b n] h "1.prems"(1,3) by simp
      finally show ?thesis
        using False True "1.prems"(4)
        by (simp add: unpack_rest_def Unpack_whole.simps [of b] Unpack_tail_def)
    qed
  qed
qed

lemma digit_in_byte:
  fixes V :: nat
  assumes "s + n \<le> 8"
  shows "V mod 256 div 2 ^ s mod 2 ^ n = V div 2 ^ s mod 2 ^ n"
proof -
  have "(256::nat) = 2 ^ s * 2 ^ (8 - s)" using assms by (simp flip: power_add)
  then have "V mod 256 div 2 ^ s = V div 2 ^ s mod 2 ^ (8 - s)"
    by (simp only: mod_mult2_eq) simp
  moreover have "(2::nat) ^ n dvd 2 ^ (8 - s)" using assms by (intro le_imp_power_dvd) simp
  ultimately show ?thesis by (simp add: mod_mod_cancel)
qed

lemma unpack_single:
  assumes "k < length bs" "s + bw \<le> 8"
  shows "unat (drop_bit s ((ucast (bs ! k) :: uint64) AND push_bit s (mask bw)))
    = le_val bs div 2 ^ (8 * k + s) mod 2 ^ bw"
proof -
  have "drop_bit s ((ucast (bs ! k) :: uint64) AND push_bit s (mask bw))
      = drop_bit s (ucast (bs ! k)) AND mask bw"
    using assms(2) by (intro bit_eqI) (auto simp: bit_simps simp del: drop_bit_eq_div)
  then have "unat (drop_bit s ((ucast (bs ! k) :: uint64) AND push_bit s (mask bw)))
      = unat (bs ! k) div 2 ^ s mod 2 ^ bw"
    by (simp only: unat_and_mask unat_drop_bit unat_ucast_8_64)
  then show ?thesis
    unfolding byte_digit [OF assms(1)] by (simp add: digit_in_byte [OF assms(2)] power_add div_mult2_eq)
qed

lemma pred_div_8:
  assumes "(n::nat) mod 8 \<noteq> 0"
  shows "(n - 1) div 8 = n div 8"
proof -
  define q r where "q = n div 8" and "r = n mod 8"
  have "n = 8 * q + r" "r < 8" "0 < r" using assms by (simp_all add: q_def r_def)
  then have "(n - 1) div 8 = q" by (intro div_nat_eqI) simp_all
  then show ?thesis by (simp add: q_def)
qed

lemma Unpack_digit:
  assumes bw: "0 < bw" "bw \<le> 62" and len: "(index + 1) * bw \<le> 8 * length bs"
    and int31: "(index + 1) * bw \<le> 2147483647"
  shows "\<exists>v. UnpackUint64FromByteStringAt index bw bs = Inr v
    \<and> unat v = le_val bs div 2 ^ (index * bw) mod 2 ^ bw"
proof -
  let ?L = "index * bw" and ?R = "(index + 1) * bw"
  define lb where "lb = ?L div 8"
  define rb where "rb = (?R - 1) div 8"
  have R: "?R = ?L + bw" by simp
  have rb_len: "rb < length bs" using len bw R by (simp add: rb_def less_mult_imp_div_less)
  show ?thesis
  proof (cases "lb = rb")
    case True
    have L: "?L = 8 * lb + ?L mod 8" by (simp add: lb_def)
    have "?R - 1 = 8 * rb + (?R - 1) mod 8" "(?R - 1) mod 8 \<le> 7" by (simp_all add: rb_def)
    then have "?L mod 8 + bw \<le> 8" using True L R bw by linarith
    then have "unat (drop_bit (?L mod 8) ((ucast (bs ! lb) :: uint64) AND push_bit (?L mod 8) (mask bw)))
        = le_val bs div 2 ^ ?L mod 2 ^ bw"
      using unpack_single [of lb bs "?L mod 8" bw] rb_len True L by simp
    then show ?thesis
      using True rb_len int31
      by (auto simp: UnpackUint64FromByteStringAt_def Let_def lb_def rb_def simp del: drop_bit_eq_div)
  next
    case False
    have rest: "UnpackUint64FromByteStringAt index bw bs
        = (if ?R mod 8 \<noteq> 0
           then unpack_rest (bw - ?R mod 8) (rb - 1) (0 OR (ucast (bs ! rb) AND mask (?R mod 8))) bs
           else unpack_rest bw rb 0 bs)"
      using False rb_len int31
      by (simp add: UnpackUint64FromByteStringAt_def Let_def lb_def rb_def unpack_rest_def)
    show ?thesis
    proof (cases "?R mod 8 = 0")
      case True
      then obtain q where q: "?R = 8 * q" by auto
      moreover have "0 < q" using q bw R by (cases q) auto
      moreover have "(8 * q - 1) div 8 = q - 1" using \<open>0 < q\<close> by (cases q) auto
      ultimately have r8: "8 * Suc rb = ?R" unfolding rb_def by simp
      have "unat (0 :: uint64) = le_val bs div 2 ^ (8 * Suc rb) mod 2 ^ 0" by simp
      from unpack_rest_digit [OF this, of bw] show ?thesis
        using bw r8 R rb_len rest True by simp
    next
      case partial: False
      have "(?R - 1) div 8 = ?R div 8" using partial by (rule pred_div_8)
      then have r8: "?R = 8 * rb + ?R mod 8" by (simp only: rb_def) simp
      have "lb \<le> rb" unfolding lb_def rb_def using bw R by (intro div_le_mono) simp
      then have lt: "lb < rb" using False by simp
      have "?L = 8 * lb + ?L mod 8" "?L mod 8 < 8" by (simp_all add: lb_def)
      then have c: "?R mod 8 \<le> bw" using lt r8 R by linarith
      have suc: "Suc (rb - 1) = rb" using lt by simp
      have "unat (0 OR (ucast (bs ! rb) AND mask (?R mod 8)) :: uint64) = unat (bs ! rb) mod 2 ^ (?R mod 8)"
        by (simp add: unat_and_mask)
      also have "\<dots> = le_val bs div 2 ^ (8 * rb) mod 2 ^ (?R mod 8)"
        unfolding byte_digit [OF rb_len] using digit_in_byte [of 0 "?R mod 8"] by simp
      finally have u: "unat (0 OR (ucast (bs ! rb) AND mask (?R mod 8)) :: uint64)
          = le_val bs div 2 ^ (8 * Suc (rb - 1)) mod 2 ^ (?R mod 8)"
        using suc by simp
      have pos: "8 * Suc (rb - 1) - (bw - ?R mod 8) = ?L" "bw - ?R mod 8 + ?R mod 8 = bw"
          "bw - ?R mod 8 \<le> 8 * Suc (rb - 1)" "Suc (rb - 1) \<le> length bs"
      proof -
        define m where "m = ?R mod 8"
        have "m \<le> bw" "?L + bw = 8 * rb + m" using c r8 R by (simp_all add: m_def)
        then show "8 * Suc (rb - 1) - (bw - ?R mod 8) = ?L" "bw - ?R mod 8 + ?R mod 8 = bw"
            "bw - ?R mod 8 \<le> 8 * Suc (rb - 1)" "Suc (rb - 1) \<le> length bs"
          unfolding suc m_def [symmetric] using rb_len by simp_all
      qed
      from unpack_rest_digit [OF u, of "bw - ?R mod 8"] show ?thesis
        using bw(2) partial pos unfolding rest by (simp only: if_True not_False_eq_True)
    qed
  qed
qed

section \<open>The branchless coder\<close>

lemma le_bytes_cong: "v mod 256 ^ n = w mod 256 ^ n \<Longrightarrow> le_bytes n v = le_bytes n w"
  by (rule le_val_inj) (simp_all add: le_val_le_bytes)

lemma le_bytes_append: "le_bytes (m + k) v = le_bytes m v @ le_bytes k (v div 256 ^ m)"
  by (induction m arbitrary: v) (simp_all add: div_mult2_eq)

lemma take_le_bytes: "k \<le> n \<Longrightarrow> take k (le_bytes n v) = le_bytes k v"
  using le_bytes_append [of k "n - k" v] by simp

lemma unat_or_push_wrap:
  fixes a b :: uint64
  assumes "unat a < 2 ^ n" "n \<le> 64"
  shows "unat (a OR push_bit n b) = (unat a + 2 ^ n * unat b) mod 2 ^ 64"
proof -
  have "unat (push_bit n b) = (unat b mod 2 ^ (64 - n)) * 2 ^ n"
    using assms(2)
    by (simp only: unsigned_push_bit_eq take_bit_push_bit) (simp add: push_bit_eq_mult take_bit_eq_mod)
  then have "unat (a OR push_bit n b) = unat a + (unat b mod 2 ^ (64 - n)) * 2 ^ n"
    using assms(1) by (simp only: unsigned_or_eq nat_or_disjoint)
  moreover have "(2::nat) ^ 64 = 2 ^ n * 2 ^ (64 - n)" using assms(2) by (simp flip: power_add)
  then have "(unat a + 2 ^ n * unat b) mod 2 ^ 64 = unat a + 2 ^ n * (unat b mod 2 ^ (64 - n))"
    using assms(1) by (simp only: mod_mult2_eq) simp
  ultimately show ?thesis by (simp only: mult.commute)
qed

text \<open>
  The coder after \<open>T\<close> bits with value \<open>V\<close>: the bytes below the cursor are final, and the
  bits above it are in \<open>target_cursor_value\<close>.
\<close>

definition coder_inv :: "nat \<Rightarrow> nat \<Rightarrow> nat \<Rightarrow> nat \<Rightarrow> Coder \<Rightarrow> bool" where
  "coder_inv bw nb V T c \<longleftrightarrow>
     c_bit_width c = bw \<and> c_num_bytes_needed c = nb \<and> length (c_packed_bytes c) = nb + 8
   \<and> starting_bit_position c < 8 \<and> 8 * write_cursor c + starting_bit_position c = T
   \<and> T \<le> 8 * nb \<and> V < 2 ^ T
   \<and> take (write_cursor c) (c_packed_bytes c) = le_bytes (write_cursor c) V
   \<and> unat (target_cursor_value c) = V div 2 ^ (8 * write_cursor c)"

lemma memcpy_at_cursor:
  assumes "length bs = nb + 8" "wc \<le> nb" "take wc bs = le_bytes wc V"
    and W: "unat w = W mod 2 ^ 64" and V: "V' mod 2 ^ (8 * wc) = V mod 2 ^ (8 * wc)" "V' div 2 ^ (8 * wc) = W"
  shows "\<exists>bs'. memcpy_u64 wc w bs = Inr bs' \<and> length bs' = nb + 8
    \<and> (\<forall>k\<le>8. take (wc + k) bs' = le_bytes (wc + k) V')"
proof -
  let ?bs' = "take wc bs @ le_bytes 8 (unat w) @ drop (wc + 8) bs"
  have "take (wc + k) ?bs' = le_bytes (wc + k) V'" if "k \<le> 8" for k
  proof -
    have "take (wc + k) ?bs' = take wc bs @ le_bytes k (unat w)"
      using that assms(1,2) by (simp add: take_le_bytes)
    moreover have "le_bytes k (unat w) = le_bytes k (V' div 256 ^ wc)"
    proof (rule le_bytes_cong)
      have "(256::nat) ^ k dvd 2 ^ 64" using that by (simp only: pow256) (intro le_imp_power_dvd, simp)
      then show "unat w mod 256 ^ k = V' div 256 ^ wc mod 256 ^ k"
        using W V(2) by (simp only: pow256 mod_mod_cancel)
    qed
    moreover have "take wc bs = le_bytes wc V'"
      using assms(3) V(1) le_bytes_cong [of V wc V'] by (simp only: pow256)
    ultimately show ?thesis by (simp only: le_bytes_append)
  qed
  then show ?thesis using assms(1,2) by (simp add: memcpy_u64_def)
qed

text \<open>The scratch value that stays after a write.\<close>

lemma coder_next_target:
  assumes a: "a < 2 ^ s" and s: "s < 8" and v: "unat value < 2 ^ bw" and bw: "bw \<le> 62"
    and t: "unat t = (a + 2 ^ s * unat value) mod 2 ^ 64"
  defines "adv \<equiv> (s + bw) div 8"
  shows "unat (if adv = 8 then if (s + bw) mod 8 \<noteq> 0 then drop_bit ((64 - s) mod 64) value else 0
      else drop_bit ((adv * 8) mod 64) t) = (a + 2 ^ s * unat value) div 2 ^ (8 * adv)"
proof (cases "adv = 8")
  case False
  have adv: "adv < 8" using False s bw unfolding adv_def by linarith
  have "a + 2 ^ s * unat value < 2 ^ (s + bw)" by (rule add_high_digit [OF a v])
  also have "(2::nat) ^ (s + bw) \<le> 2 ^ 64"
    using adv by (intro power_increasing) (simp_all add: adv_def div_less_iff_less_mult)
  finally have "unat t = a + 2 ^ s * unat value" using t by simp
  moreover have "adv * 8 mod 64 = 8 * adv" using adv by simp
  ultimately show ?thesis using False by (simp only: if_False unat_drop_bit)
next
  case True
  have sum: "64 \<le> s + bw" using True unfolding adv_def by linarith
  have s64: "(64 - s) mod 64 = 64 - s" using sum bw by simp
  have pow: "(2::nat) ^ 64 = 2 ^ s * 2 ^ (64 - s)" using s by (simp flip: power_add)
  have "(a + 2 ^ s * unat value) div 2 ^ 64 = (a + 2 ^ s * unat value) div 2 ^ s div 2 ^ (64 - s)"
    by (simp only: pow div_mult2_eq)
  also have "(a + 2 ^ s * unat value) div 2 ^ s = unat value" using a by simp
  finally have d: "(a + 2 ^ s * unat value) div 2 ^ (8 * adv) = unat value div 2 ^ (64 - s)"
    using True by simp
  show ?thesis
  proof (cases "(s + bw) mod 8 = 0")
    case True
    then have "s + bw = 64" using sum s bw by presburger
    then have "64 - s = bw" by simp
    then show ?thesis using d \<open>adv = 8\<close> True v by simp
  next
    case False
    then show ?thesis using d \<open>adv = 8\<close> s64 by (simp only: simp_thms if_True unat_drop_bit)
  qed
qed

lemma WriteValue_inv:
  assumes inv: "coder_inv bw nb V T c" and v: "unat value < 2 ^ bw" and bw: "bw \<le> 62"
    and room: "T + bw \<le> 8 * nb"
  shows "\<exists>c'. WriteValue value c = Inr c' \<and> coder_inv bw nb (V + 2 ^ T * unat value) (T + bw) c'
    \<and> c_modulus c' = c_modulus c \<and> c_num_elements c' = c_num_elements c"
proof -
  let ?s = "starting_bit_position c" and ?wc = "write_cursor c" and ?V' = "V + 2 ^ T * unat value"
  have i: "c_bit_width c = bw" "c_num_bytes_needed c = nb" "length (c_packed_bytes c) = nb + 8"
      "?s < 8" "T = 8 * ?wc + ?s" "T \<le> 8 * nb" "V < 2 ^ T"
      "take ?wc (c_packed_bytes c) = le_bytes ?wc V"
      "unat (target_cursor_value c) = V div 2 ^ (8 * ?wc)"
    using inv by (auto simp: coder_inv_def)
  define a where "a = V div 2 ^ (8 * ?wc)"
  have a: "a < 2 ^ ?s"
    using i(5,7) by (simp add: a_def power_add less_mult_imp_div_less mult.commute)
  define t where "t = (target_cursor_value c AND mask ?s) OR push_bit ?s value"
  have "unat (target_cursor_value c AND mask ?s) = a"
    using a i(9) by (simp add: unat_and_mask a_def)
  then have t: "unat t = (a + 2 ^ ?s * unat value) mod 2 ^ 64"
    unfolding t_def using a i(4) by (subst unat_or_push_wrap) simp_all
  have split: "?V' = V + 2 ^ (8 * ?wc) * (2 ^ ?s * unat value)" by (simp add: i(5) power_add)
  have V': "?V' mod 2 ^ (8 * ?wc) = V mod 2 ^ (8 * ?wc)" "?V' div 2 ^ (8 * ?wc) = a + 2 ^ ?s * unat value"
    unfolding split a_def by simp_all
  have "?wc \<le> nb" using i(5,6) by simp
  from memcpy_at_cursor [OF i(3) this i(8) t V'] obtain bs' where
    bs': "memcpy_u64 ?wc t (c_packed_bytes c) = Inr bs'" "length bs' = nb + 8"
      "\<And>k. k \<le> 8 \<Longrightarrow> take (?wc + k) bs' = le_bytes (?wc + k) ?V'" by blast
  let ?adv = "(?s + bw) div 8" and ?ns = "(?s + bw) mod 8"
  let ?t' = "if ?adv = 8 then if ?ns \<noteq> 0 then drop_bit ((64 - ?s) mod 64) value else 0
      else drop_bit ((?adv * 8) mod 64) t"
  let ?c' = "c\<lparr>c_packed_bytes := bs', target_cursor_value := ?t', write_cursor := ?wc + ?adv,
      starting_bit_position := ?ns\<rparr>"
  have "unat ?t' = ?V' div 2 ^ (8 * (?wc + ?adv))"
    using coder_next_target [OF a i(4) v bw t] V'(2)
    by (simp only: distrib_left power_add div_mult2_eq)
  moreover have "?adv \<le> 8" using i(4) bw by linarith
  moreover have "8 * (?wc + ?adv) + ?ns = T + bw" using i(5) by simp
  moreover have "?V' < 2 ^ (T + bw)" by (rule add_high_digit [OF i(7) v])
  ultimately have "coder_inv bw nb ?V' (T + bw) ?c'"
    using i(1,2) bs'(2) bs'(3) [of ?adv] room by (simp add: coder_inv_def)
  moreover have "WriteValue value c = Inr ?c'"
    using bs'(1) i(1) by (simp add: WriteValue_def Let_def flip: t_def)
  ultimately show ?thesis by (intro exI [of _ ?c']) simp
qed

lemma fold_WriteValue_inv:
  "coder_inv bw nb V T c \<Longrightarrow> vec_ok bw es \<Longrightarrow> bw \<le> 62 \<Longrightarrow> T + bw * length es \<le> 8 * nb \<Longrightarrow>
   \<exists>c'. fold_status WriteValue es c = Inr c'
     \<and> coder_inv bw nb (V + 2 ^ T * vec_val bw es) (T + bw * length es) c'
     \<and> c_modulus c' = c_modulus c \<and> c_num_elements c' = c_num_elements c"
proof (induction es arbitrary: V T c)
  case (Cons e es)
  obtain c1 where c1: "WriteValue e c = Inr c1" "coder_inv bw nb (V + 2 ^ T * unat e) (T + bw) c1"
      "c_modulus c1 = c_modulus c" "c_num_elements c1 = c_num_elements c"
    using WriteValue_inv [OF Cons.prems(1), of e] Cons.prems by auto
  then show ?case
    using Cons.IH [OF c1(2)] Cons.prems by (auto simp: power_add algebra_simps)
qed simp

lemma num_bytes_needed_eq:
  assumes "n * bw \<le> 2147483647"
  shows "num_bytes_needed n bw = (n * bw + 7) div 8"
proof -
  have "unat (of_nat (n * bw) :: uint32) = n * bw" using assms by (intro unat_of_nat_u32) simp
  then show ?thesis
    using assms unat_DivideRoundUp [of 8 "of_nat (n * bw)"] by (simp add: num_bytes_needed_def)
qed

lemma num_bytes_bounds:
  assumes "n * bw \<le> 2147483647"
  shows "n * bw \<le> 8 * num_bytes_needed n bw" "8 * num_bytes_needed n bw < n * bw + 8"
  unfolding num_bytes_needed_eq [OF assms] by linarith+

lemma coder_pack:
  assumes m: "modulus_ok m" and es: "\<forall>e\<in>set es. e < m"
    and len: "length es * GetBitWidth m \<le> 2147483647"
  defines "bw \<equiv> GetBitWidth m"
  shows "and_then (fold_status WriteValue es (new_Coder m bw (length es))) Coder_Create
    = Inr \<lparr>packed_bytes = le_bytes (num_bytes_needed (length es) bw) (vec_val bw es), sv_modulus = m,
        sv_bit_width = bw, sv_num_elements = length es, branchless_codec = True\<rparr>"
proof -
  let ?nb = "num_bytes_needed (length es) bw"
  have bw: "unat m \<le> 2 ^ bw" "0 < bw" "bw \<le> 62" using GetBitWidth_bounds [OF m] by (simp_all add: bw_def)
  have nb: "length es * bw \<le> 8 * ?nb" "8 * ?nb < length es * bw + 8"
    using num_bytes_bounds len by (simp_all add: bw_def)
  have ok: "vec_ok bw es"
    using es bw(1) by (fastforce simp: vec_ok_def word_less_nat_alt)
  have "coder_inv bw ?nb 0 0 (new_Coder m bw (length es))"
    by (simp add: coder_inv_def new_Coder_def)
  from fold_WriteValue_inv [OF this ok bw(3)] nb(1) obtain c where
    c: "fold_status WriteValue es (new_Coder m bw (length es)) = Inr c"
      "coder_inv bw ?nb (vec_val bw es) (bw * length es) c"
      "c_modulus c = m" "c_num_elements c = length es"
    by (auto simp: mult.commute new_Coder_def)
  have i: "c_num_bytes_needed c = ?nb" "length (c_packed_bytes c) = ?nb + 8"
      "8 * write_cursor c \<le> bw * length es" "bw * length es < 8 * write_cursor c + 8"
      "take (write_cursor c) (c_packed_bytes c) = le_bytes (write_cursor c) (vec_val bw es)"
      "unat (target_cursor_value c) = vec_val bw es div 2 ^ (8 * write_cursor c)"
    using c(2) by (auto simp: coder_inv_def)
  have wc: "write_cursor c \<le> ?nb" "?nb - write_cursor c \<le> 8"
    using nb i(3,4) by (simp_all add: mult.commute)
  have "unat (target_cursor_value c) = vec_val bw es div 2 ^ (8 * write_cursor c) mod 2 ^ 64"
    using i(6) unat_u64_less [of "target_cursor_value c"] by simp
  from memcpy_at_cursor [OF i(2) wc(1) i(5) this refl refl] obtain bs where
    bs: "memcpy_u64 (write_cursor c) (target_cursor_value c) (c_packed_bytes c) = Inr bs"
      "length bs = ?nb + 8"
      "\<And>k. k \<le> 8 \<Longrightarrow> take (write_cursor c + k) bs = le_bytes (write_cursor c + k) (vec_val bw es)"
    by blast
  have "take ?nb bs = le_bytes ?nb (vec_val bw es)" using bs(3) [OF wc(2)] wc(1) by simp
  then show ?thesis
    using m c(1,3,4) bs(1,2) i(1)
    by (simp add: Coder_Create_def SecAggVector_of_packed_def modulus_ok_def bw_def)
qed

lemma branchless_pack:
  assumes m: "modulus_ok m" and es: "\<forall>e\<in>set es. e < m"
    and len: "length es * GetBitWidth m \<le> 2147483647"
  defines "bw \<equiv> GetBitWidth m"
  shows "PackUint64IntoByteStringBranchless m bw es
    = Inr (le_bytes (num_bytes_needed (length es) bw) (vec_val bw es))"
proof -
  have "0 < m" using m by (simp add: modulus_ok_unat word_less_nat_alt)
  moreover have "PackUint64IntoByteStringBranchless m bw es
      = and_then (and_then (fold_status WriteValue es (new_Coder m bw (length es))) Coder_Create) TakePackedBytes"
    by (cases "fold_status WriteValue es (new_Coder m bw (length es))")
      (simp_all add: PackUint64IntoByteStringBranchless_def)
  ultimately show ?thesis
    using coder_pack [OF m es len] by (simp add: TakePackedBytes_def CheckHasValue_def bw_def)
qed

lemma plain_pack:
  assumes m: "modulus_ok m" and es: "\<forall>e\<in>set es. e < m"
    and len: "length es * GetBitWidth m \<le> 2147483647"
  defines "bw \<equiv> GetBitWidth m"
  defines "nb \<equiv> num_bytes_needed (length es) bw"
  shows "Pack_elements bw 0 es (replicate nb 0) = Inr (le_bytes nb (vec_val bw es))"
proof -
  have bw: "unat m \<le> 2 ^ bw" "0 < bw" using GetBitWidth_bounds [OF m] by (simp_all add: bw_def)
  have ok: "vec_ok bw es"
    using es bw(1) by (fastforce simp: vec_ok_def word_less_nat_alt)
  have z: "le_val (replicate nb 0) = 0" using le_bytes_0 [of nb] le_val_le_bytes [of nb 0] by simp
  obtain bs where bs: "Pack_elements bw 0 es (replicate nb 0) = Inr bs" "length bs = nb"
      "le_val bs = vec_val bw es"
    using Pack_elements_adds [OF ok, of "replicate nb 0" 0] bw(2) z len num_bytes_bounds(1) [of "length es" bw]
    by (auto simp: bw_def nb_def)
  have "bs = le_bytes nb (le_val bs)" using le_bytes_le_val [of bs] bs(2) by simp
  then show ?thesis using bs by simp
qed

section \<open>The branchless decoder\<close>

text \<open>Bit facts on 64-bit words in the form the decoder needs.\<close>

lemma bit_u64_less: "bit (w :: uint64) k \<Longrightarrow> k < 64"
  using bit_imp_le_length [of w k] by simp

lemma bit_u64_shifts:
  "bit (drop_bit n (w :: uint64)) k \<longleftrightarrow> bit w (n + k)"
  "bit (push_bit n (w :: uint64)) k \<longleftrightarrow> n \<le> k \<and> k < 64 \<and> bit w (k - n)"
  "bit (v OR (w :: uint64)) k \<longleftrightarrow> bit v k \<or> bit w k"
  by (auto simp: bit_simps simp del: drop_bit_eq_div push_bit_eq_mult)

text \<open>\<open>w\<close> holds the bits of the number \<open>V\<close> from position \<open>p\<close> on, as far as the data of \<open>N\<close> bits goes.\<close>

definition window :: "nat \<Rightarrow> nat \<Rightarrow> uint64 \<Rightarrow> nat \<Rightarrow> bool" where
  "window V N w p \<longleftrightarrow> (\<forall>k<64. p + k < N \<longrightarrow> (bit w k \<longleftrightarrow> bit V (p + k)))"

lemma bit_low: "k < n \<Longrightarrow> bit (v::nat) k \<longleftrightarrow> bit (v mod 2 ^ n) k"
  by (simp add: bit_take_bit_iff flip: take_bit_eq_mod)

lemma le_val_slice: "le_val (take n (drop r bs)) = le_val bs div 2 ^ (8 * r) mod 2 ^ (8 * n)"
proof (cases "r \<le> length bs")
  case True
  have "le_val bs = le_val (take r bs) + 256 ^ r * le_val (drop r bs)"
    using le_val_append [of "take r bs" "drop r bs"] True by simp
  moreover have "le_val (take r bs) < 256 ^ r" using le_val_less [of "take r bs"] True by simp
  ultimately have d: "le_val (drop r bs) = le_val bs div 256 ^ r" by simp
  show ?thesis
  proof (cases "n \<le> length (drop r bs)")
    case True
    have "le_val (drop r bs) = le_val (take n (drop r bs)) + 256 ^ n * le_val (drop n (drop r bs))"
      using le_val_append [of "take n (drop r bs)" "drop n (drop r bs)"] True
      by (simp del: drop_drop)
    moreover have "le_val (take n (drop r bs)) < 256 ^ n"
      using le_val_less [of "take n (drop r bs)"] True by simp
    ultimately show ?thesis using d by (simp add: pow256)
  next
    case False
    have "le_val (drop r bs) < 256 ^ length (drop r bs)" by (rule le_val_less)
    also have "(256::nat) ^ length (drop r bs) \<le> 256 ^ n" using False by (intro power_increasing) simp_all
    finally show ?thesis using d False by (simp add: pow256)
  qed
next
  case False
  have "le_val bs < 256 ^ length bs" by (rule le_val_less)
  also have "(256::nat) ^ length bs \<le> 256 ^ r" using False by (intro power_increasing) simp_all
  finally show ?thesis using False by (simp add: pow256)
qed

lemma window_read:
  assumes len: "length stale = 8 - n" and n: "n \<le> 8" "r + 8 \<le> length bs \<Longrightarrow> n = 8"
    "r + 8 > length bs \<Longrightarrow> n = length bs - r"
  shows "window (le_val bs) (8 * length bs) (of_nat (le_val (take n (drop r bs) @ stale))) (8 * r)"
  unfolding window_def
proof (intro allI impI)
  fix k :: nat
  assume k: "k < 64" "8 * r + k < 8 * length bs"
  then have kn: "k < 8 * n" using n by (cases "r + 8 \<le> length bs") auto
  have lenA: "length (take n (drop r bs)) = n"
    using n kn k by (cases "r + 8 \<le> length bs") (auto simp: min_def)
  let ?x = "le_val (take n (drop r bs) @ stale)"
  have "?x < 256 ^ 8" using le_val_less [of "take n (drop r bs) @ stale"] lenA len n(1) by simp
  then have "bit (of_nat ?x :: uint64) k \<longleftrightarrow> bit ?x k"
    using k(1) by (simp add: bit_of_nat_iff_bit bit_simps)
  also have "\<dots> \<longleftrightarrow> bit (?x mod 2 ^ (8 * n)) k" by (rule bit_low [OF kn])
  also have "?x mod 2 ^ (8 * n) = le_val (take n (drop r bs))"
    using le_val_less [of "take n (drop r bs)"] lenA by (simp add: le_val_append pow256)
  also have "\<dots> = le_val bs div 2 ^ (8 * r) mod 2 ^ (8 * n)" by (rule le_val_slice)
  also have "bit \<dots> k \<longleftrightarrow> bit (le_val bs div 2 ^ (8 * r)) k" by (rule bit_low [OF kn, symmetric])
  also have "\<dots> \<longleftrightarrow> bit (le_val bs) (8 * r + k)"
    by (simp add: bit_drop_bit_eq flip: drop_bit_eq_div)
  finally show "bit (of_nat ?x :: uint64) k \<longleftrightarrow> bit (le_val bs) (8 * r + k)" .
qed

definition dec_inv :: "bytes \<Rightarrow> nat \<Rightarrow> Decoder \<Rightarrow> bool" where
  "dec_inv bs P d \<longleftrightarrow> d_bytes d = bs
     \<and> (\<exists>r<64. read_cursor_bit d = int r \<and> 8 * read_cursor d = P + r)
     \<and> window (le_val bs) (8 * length bs) (cursor_read_value d) (8 * read_cursor d)
     \<and> window (le_val bs) (8 * length bs) (scratch d) P"

lemma ReadData_inv:
  assumes "d_bytes d = bs" "r < 64" "read_cursor_bit d = int r" "8 * read_cursor d = P + r"
    and scratch: "\<And>k. k < 64 \<Longrightarrow> P + k < 8 * length bs \<Longrightarrow> bit (scratch d) k \<Longrightarrow> bit (le_val bs) (P + k)"
      "\<And>k. k < r \<Longrightarrow> P + k < 8 * length bs \<Longrightarrow> bit (le_val bs) (P + k) \<Longrightarrow> bit (scratch d) k"
  shows "dec_inv bs P (ReadData d)"
proof -
  let ?rc = "read_cursor d"
  let ?rem = "int (length bs) - int ?rc"
  let ?n = "if ?rem \<ge> 8 then 8 else if ?rem > 0 then nat ?rem else 0"
  let ?v = "of_nat (le_val (take ?n (drop ?rc bs) @ drop ?n (le_bytes 8 (unat (cursor_read_value d))))) :: uint64"
  have win: "window (le_val bs) (8 * length bs) ?v (8 * ?rc)"
    by (rule window_read) auto
  have rd: "ReadData d = d\<lparr>cursor_read_value := ?v, scratch := scratch d OR push_bit r ?v\<rparr>"
    using assms(1,3) by (simp add: ReadData_def Let_def del: le_bytes.simps)
  have "bit (scratch d OR push_bit r ?v) k \<longleftrightarrow> bit (le_val bs) (P + k)"
    if k: "k < 64" "P + k < 8 * length bs" for k
  proof (cases "k < r")
    case True
    then show ?thesis using scratch k by (auto simp: bit_u64_shifts)
  next
    case False
    then have pos: "8 * ?rc + (k - r) = P + k" using assms(4) by simp
    have "bit ?v (k - r) \<longleftrightarrow> bit (le_val bs) (8 * ?rc + (k - r))"
      using win k pos unfolding window_def by (metis less_imp_diff_less)
    then show ?thesis using False k pos scratch(1) by (auto simp: bit_u64_shifts)
  qed
  then have "window (le_val bs) (8 * length bs) (scratch d OR push_bit r ?v) P"
    by (simp add: window_def)
  then show ?thesis
    unfolding dec_inv_def rd using assms(1-4) win by simp
qed

text \<open>Where the read cursor goes: the new offset keeps all valid scratch bits.\<close>

definition next_rcb :: "nat \<Rightarrow> nat \<Rightarrow> int" where
  "next_rcb r bw =
     (let rcb = int r - int bw;
          valid = 64 - int bw + int r;
          rcb1 = rcb + ((if valid > 64 then 64 else valid) - rcb) div 8 * 8
      in if rcb1 = 64 then 56 else rcb1)"

lemma next_rcb_props:
  assumes "r < 64" "0 < bw" "bw \<le> 62"
  shows "\<exists>r' q. next_rcb r bw = int r' \<and> r' < 64 \<and> r' + bw \<le> 64 + r
    \<and> (int r' - (int r - int bw)) div 8 = int q \<and> 8 * q + r = r' + bw"
proof (cases "r \<le> bw")
  case True
  then have eq: "next_rcb r bw = (if r = bw then 56 else int r - int bw + 64)"
    by (auto simp: next_rcb_def Let_def)
  show ?thesis
  proof (cases "r = bw")
    case True
    then show ?thesis using eq by (intro exI [of _ 56] exI [of _ 7]) simp
  next
    case False
    then show ?thesis using eq True assms by (intro exI [of _ "64 + r - bw"] exI [of _ 8]) auto
  qed
next
  case False
  define t where "t = r - bw"
  have t: "r = bw + t" "0 < t" "t < 64" using False assms by (simp_all add: t_def)
  define q where "q = (64 - t) div 8"
  have q: "t + 8 * q \<le> 64" "57 \<le> t + 8 * q" using t(3) unfolding q_def by linarith+
  have "(64 - int t) div 8 = int q" using t(3) by (simp add: q_def zdiv_int of_nat_diff)
  then have eq: "next_rcb r bw = (if t + 8 * q = 64 then 56 else int (t + 8 * q))"
    using t by (auto simp: next_rcb_def Let_def)
  show ?thesis
  proof (cases "t + 8 * q = 64")
    case True
    have "1 \<le> q" using True t(3) by simp
    then show ?thesis using eq True t by (intro exI [of _ 56] exI [of _ "q - 1"]) auto
  next
    case False
    then show ?thesis using eq q t by (intro exI [of _ "t + 8 * q"] exI [of _ q]) auto
  qed
qed

text \<open>The scratch after the shift: its bits are right, and complete below \<open>64 + r - bw\<close>.\<close>

definition next_crv :: "nat \<Rightarrow> nat \<Rightarrow> uint64 \<Rightarrow> uint64" where
  "next_crv r bw crv = (if r \<le> bw then drop_bit (bw - r) crv else push_bit (r - bw) crv)"

lemma next_scratch:
  assumes r: "8 * rc = P + r" "r < 64"
    and crv: "window V N crv (8 * rc)" and scr: "window V N scr P"
    and k: "k < 64" "P + bw + k < N"
  shows "bit (drop_bit bw scr OR next_crv r bw crv) k \<Longrightarrow> bit V (P + bw + k)"
    and "k + bw < 64 + r \<Longrightarrow> bit V (P + bw + k) \<Longrightarrow> bit (drop_bit bw scr OR next_crv r bw crv) k"
proof -
  have s: "bit scr (bw + k) \<longleftrightarrow> bit V (P + bw + k)" if "bw + k < 64"
    using scr k that by (simp add: window_def add.assoc)
  have c: "bit crv (bw + k - r) \<longleftrightarrow> bit V (P + bw + k)" if "r \<le> bw + k" "bw + k < 64 + r"
  proof -
    have "8 * rc + (bw + k - r) = P + bw + k" using that r by simp
    then show ?thesis using crv k that unfolding window_def
      by (metis less_diff_conv2 add.commute)
  qed
  show "bit V (P + bw + k)" if b: "bit (drop_bit bw scr OR next_crv r bw crv) k"
  proof (cases "bit scr (bw + k)")
    case True
    then show ?thesis using s bit_u64_less [OF True] by simp
  next
    case False
    then have "bit (next_crv r bw crv) k" using b by (simp add: bit_u64_shifts)
    then have "r \<le> bw + k \<and> bit crv (bw + k - r)"
      by (auto simp: next_crv_def bit_u64_shifts add.commute split: if_splits)
    then show ?thesis using c bit_u64_less [of crv "bw + k - r"] by auto
  qed
  show "bit (drop_bit bw scr OR next_crv r bw crv) k"
    if "k + bw < 64 + r" "bit V (P + bw + k)"
  proof (cases "bw + k < 64")
    case True
    then show ?thesis using s that by (simp add: bit_u64_shifts)
  next
    case False
    then have "bit crv (bw + k - r)" using c that r(2) by simp
    moreover have "bw + k - r = bw - r + k \<or> \<not> r \<le> bw" by auto
    moreover have "bw + k - r = k - (r - bw)" if "bw < r" using that by auto
    ultimately show ?thesis
      using False k(1) r(2) by (auto simp: next_crv_def bit_u64_shifts)
  qed
qed

lemma ReadValue_eq:
  assumes "read_cursor_bit d = int r" "d_bit_width d = bw"
  shows "ReadValue d =
    (let v = scratch d AND mask bw in if v < d_modulus d then v else v - d_modulus d,
     ReadData (d\<lparr>read_cursor := read_cursor d + nat ((next_rcb r bw - (int r - int bw)) div 8),
       cursor_read_value := next_crv r bw (cursor_read_value d),
       scratch := drop_bit bw (scratch d) OR next_crv r bw (cursor_read_value d),
       read_cursor_bit := next_rcb r bw\<rparr>))"
proof -
  have "push_bit (nat (if int bw - int r < 0 then - (int bw - int r) else 0))
      (drop_bit (nat (if int bw - int r > 0 then int bw - int r else 0)) w) = next_crv r bw w" for w :: uint64
    by (auto simp: next_crv_def nat_diff_distrib simp del: drop_bit_eq_div push_bit_eq_mult)
  then show ?thesis
    unfolding ReadValue_def assms Let_def next_rcb_def by simp
qed

lemma ReadValue_inv:
  assumes inv: "dec_inv bs P d" and bw: "d_bit_width d = bw" "0 < bw" "bw \<le> 62"
  shows "dec_inv bs (P + bw) (snd (ReadValue d))"
proof -
  obtain r where r: "r < 64" "read_cursor_bit d = int r" "8 * read_cursor d = P + r"
    using inv by (auto simp: dec_inv_def)
  have i: "d_bytes d = bs" "window (le_val bs) (8 * length bs) (cursor_read_value d) (8 * read_cursor d)"
      "window (le_val bs) (8 * length bs) (scratch d) P"
    using inv by (auto simp: dec_inv_def)
  obtain r' q where q: "next_rcb r bw = int r'" "r' < 64" "r' + bw \<le> 64 + r"
      "(int r' - (int r - int bw)) div 8 = int q" "8 * q + r = r' + bw"
    using next_rcb_props [OF r(1) bw(2,3)] by blast
  note ns = next_scratch [OF r(3,1) i(2,3)]
  show ?thesis
    unfolding ReadValue_eq [OF r(2) bw(1)] snd_conv
  proof (rule ReadData_inv [where r = r'], goal_cases)
    case 5
    then show ?case using ns(1) by simp
  next
    case (6 k)
    then show ?case using ns(2) [of k bw] q(2,3) by simp
  qed (use i(1) q r(3) in simp_all)
qed

lemma ReadValue_value:
  assumes inv: "dec_inv bs P d" and bw: "d_bit_width d = bw" "bw \<le> 62"
    and data: "P + bw \<le> 8 * length bs"
  shows "fst (ReadValue d) = (let v = of_nat (le_val bs div 2 ^ P mod 2 ^ bw) in
    if v < d_modulus d then v else v - d_modulus d)"
proof -
  obtain r where r: "read_cursor_bit d = int r" using inv by (auto simp: dec_inv_def)
  have win: "window (le_val bs) (8 * length bs) (scratch d) P" using inv by (simp add: dec_inv_def)
  have "scratch d AND mask bw = of_nat (le_val bs div 2 ^ P mod 2 ^ bw)"
  proof (rule bit_eqI)
    fix k assume "possible_bit TYPE(uint64) k"
    then have k: "k < 64" by simp
    have "bit (le_val bs div 2 ^ P mod 2 ^ bw) k \<longleftrightarrow> k < bw \<and> bit (le_val bs) (P + k)"
      by (simp add: bit_take_bit_iff bit_drop_bit_eq flip: take_bit_eq_mod drop_bit_eq_div)
    then show "bit (scratch d AND mask bw) k \<longleftrightarrow> bit (of_nat (le_val bs div 2 ^ P mod 2 ^ bw) :: uint64) k"
      using win k data by (auto simp: window_def bit_simps bit_of_nat_iff_bit)
  qed
  then show ?thesis unfolding ReadValue_eq [OF r bw(1)] by simp
qed

lemma ReadData_static: "d_bit_width (ReadData d) = d_bit_width d" "d_modulus (ReadData d) = d_modulus d"
  unfolding ReadData_def Let_def by simp_all

lemma ReadValue_static:
  assumes "read_cursor_bit d = int r"
  shows "d_bit_width (snd (ReadValue d)) = d_bit_width d" "d_modulus (snd (ReadValue d)) = d_modulus d"
  unfolding ReadValue_eq [OF assms refl] snd_conv ReadData_static by simp_all

definition reduce_once :: "uint64 \<Rightarrow> uint64 \<Rightarrow> uint64" where
  "reduce_once m v = (if v < m then v else v - m)"

lemma ReadValues_digits:
  "dec_inv bs P d \<Longrightarrow> d_bit_width d = bw \<Longrightarrow> 0 < bw \<Longrightarrow> bw \<le> 62 \<Longrightarrow> P + n * bw \<le> 8 * length bs \<Longrightarrow>
   ReadValues n d = map (\<lambda>i. reduce_once (d_modulus d)
     (of_nat (le_val bs div 2 ^ (P + i * bw) mod 2 ^ bw))) [0..<n]"
proof (induction n arbitrary: P d)
  case (Suc n)
  obtain v d' where rv: "ReadValue d = (v, d')" by fastforce
  have v: "v = reduce_once (d_modulus d) (of_nat (le_val bs div 2 ^ P mod 2 ^ bw))"
    using ReadValue_value [OF Suc.prems(1,2,4)] Suc.prems(5) rv by (simp add: reduce_once_def Let_def)
  have d': "dec_inv bs (P + bw) d'" "d_bit_width d' = bw" "d_modulus d' = d_modulus d"
    using ReadValue_inv [OF Suc.prems(1-4)] ReadValue_static [of d] Suc.prems(1,2) rv
    by (auto simp: dec_inv_def)
  have "[0..<Suc n] = 0 # map Suc [0..<n]" by (simp add: map_Suc_upt upt_conv_Cons del: upt_Suc)
  then show ?case
    using Suc.IH [OF d'(1,2)] Suc.prems rv v d'(3)
    by (simp add: o_def add.assoc del: upt_Suc)
qed simp

lemma new_Decoder_inv: "dec_inv bs 0 (new_Decoder bs m)"
  unfolding new_Decoder_def by (rule ReadData_inv [where r = 0]) simp_all

lemma new_Decoder_static: "d_bit_width (new_Decoder bs m) = GetBitWidth m" "d_modulus (new_Decoder bs m) = m"
  by (simp_all add: new_Decoder_def ReadData_static)

text \<open>What the decoder returns on any byte string that is long enough.\<close>

lemma Decoder_digits:
  assumes "modulus_ok m" "n * GetBitWidth m \<le> 8 * length bs"
  shows "ReadValues n (new_Decoder bs m) = map (\<lambda>i. reduce_once m
    (of_nat (le_val bs div 2 ^ (i * GetBitWidth m) mod 2 ^ GetBitWidth m))) [0..<n]"
  using ReadValues_digits [OF new_Decoder_inv new_Decoder_static(1) GetBitWidth_bounds(3,4) [OF assms(1)]]
    assms(2) by (simp add: new_Decoder_static)

lemma Decoder_range:
  assumes "modulus_ok m" "n * GetBitWidth m \<le> 8 * length bs"
  shows "\<forall>v\<in>set (ReadValues n (new_Decoder bs m)). v < m"
proof
  fix v assume "v \<in> set (ReadValues n (new_Decoder bs m))"
  then obtain i where v: "v = reduce_once m
      (of_nat (le_val bs div 2 ^ (i * GetBitWidth m) mod 2 ^ GetBitWidth m))"
    using Decoder_digits [OF assms] by auto
  define x where "x = le_val bs div 2 ^ (i * GetBitWidth m) mod 2 ^ GetBitWidth m"
  have "x < 2 ^ GetBitWidth m" by (simp add: x_def)
  also have "\<dots> < 2 * unat m" by (rule GetBitWidth_bounds(2) [OF assms(1)])
  finally have x: "x < 2 * unat m" .
  then have "unat (of_nat x :: uint64) = x"
    using assms(1) by (intro unat_of_nat_u64) (simp add: modulus_ok_unat)
  moreover have "v = reduce_once m (of_nat x)" using v by (simp add: x_def)
  ultimately show "v < m"
    using x by (auto simp: reduce_once_def word_less_nat_alt unat_sub_le not_less word_le_nat_alt)
qed

section \<open>Round trips\<close>

lemma decode_packed:
  assumes m: "modulus_ok m" and es: "\<forall>e\<in>set es. e < m"
    and len: "length es * GetBitWidth m \<le> 2147483647"
  defines "bw \<equiv> GetBitWidth m"
  defines "bs \<equiv> le_bytes (num_bytes_needed (length es) bw) (vec_val bw es)"
  shows "ReadValues (length es) (new_Decoder bs m) = es"
    and "map_status (\<lambda>i. UnpackUint64FromByteStringAt i bw bs) [0..<length es] = Inr es"
proof -
  let ?nb = "num_bytes_needed (length es) bw"
  have bw: "unat m \<le> 2 ^ bw" "0 < bw" "bw \<le> 62" using GetBitWidth_bounds [OF m] by (simp_all add: bw_def)
  have ok: "vec_ok bw es" using es bw(1) by (fastforce simp: vec_ok_def word_less_nat_alt)
  have nb: "length es * bw \<le> 8 * ?nb" using num_bytes_bounds(1) len by (simp add: bw_def)
  have "vec_val bw es < 2 ^ (bw * length es)" using ok by (rule vec_val_less)
  also have "(2::nat) ^ (bw * length es) \<le> 2 ^ (8 * ?nb)" using nb by (intro power_increasing) (simp_all add: mult.commute)
  finally have val: "le_val bs = vec_val bw es" by (simp add: bs_def le_val_le_bytes pow256)
  have lb: "length bs = ?nb" by (simp add: bs_def)
  have digit: "unat (es ! i) = le_val bs div 2 ^ (i * bw) mod 2 ^ bw" if "i < length es" for i
    using vec_val_nth [OF ok that] val by simp
  show "ReadValues (length es) (new_Decoder bs m) = es"
  proof (rule nth_equalityI)
    fix i assume "i < length (ReadValues (length es) (new_Decoder bs m))"
    then have i: "i < length es" using Decoder_digits [OF m] nb lb by (simp add: bw_def)
    have "(of_nat (unat (es ! i)) :: uint64) = es ! i" by simp
    then show "ReadValues (length es) (new_Decoder bs m) ! i = es ! i"
      using Decoder_digits [OF m, of "length es" bs] nb lb i digit [OF i] es
      by (simp add: bw_def reduce_once_def)
  qed (use Decoder_digits [OF m, of "length es" bs] nb lb in \<open>simp add: bw_def\<close>)
  have "UnpackUint64FromByteStringAt i bw bs = Inr (es ! i)" if i: "i < length es" for i
  proof -
    have "(i + 1) * bw \<le> length es * bw" using i by (intro mult_le_mono1) simp
    then have "\<exists>v. UnpackUint64FromByteStringAt i bw bs = Inr v \<and> unat v = le_val bs div 2 ^ (i * bw) mod 2 ^ bw"
      using nb lb len bw by (intro Unpack_digit) (simp_all add: bw_def)
    then show ?thesis using digit [OF i] by (metis unat_eqI)
  qed
  then show "map_status (\<lambda>i. UnpackUint64FromByteStringAt i bw bs) [0..<length es] = Inr es"
    using map_status_Inr [of "[0..<length es]" _ "\<lambda>i. es ! i"] by (simp add: map_nth)
qed

section \<open>Sums of vectors\<close>

text \<open>A packed vector as its constructors make it, and an unpacked vector in range.\<close>

definition packed_ok :: "SecAggVector \<Rightarrow> bool" where
  "packed_ok v \<longleftrightarrow> modulus_ok (sv_modulus v) \<and> sv_bit_width v = GetBitWidth (sv_modulus v)
     \<and> sv_num_elements v * sv_bit_width v \<le> 2147483647
     \<and> length (packed_bytes v) = num_bytes_needed (sv_num_elements v) (sv_bit_width v)"

definition unpacked_ok :: "SecAggUnpackedVector \<Rightarrow> bool" where
  "unpacked_ok u \<longleftrightarrow> modulus_ok (uv_modulus u) \<and> (\<forall>e\<in>set (elements u). e < uv_modulus u)"

text \<open>The elements a packed vector stands for.\<close>

definition packed_elements :: "SecAggVector \<Rightarrow> uint64 list" where
  "packed_elements v = ReadValues (sv_num_elements v) (new_Decoder (packed_bytes v) (sv_modulus v))"

lemma packed_room:
  "packed_ok v \<Longrightarrow> sv_num_elements v * GetBitWidth (sv_modulus v) \<le> 8 * length (packed_bytes v)"
  using num_bytes_bounds(1) [of "sv_num_elements v" "sv_bit_width v"] by (auto simp: packed_ok_def)

lemma packed_elements_ok:
  assumes "packed_ok v"
  shows "length (packed_elements v) = sv_num_elements v" "\<forall>e\<in>set (packed_elements v). e < sv_modulus v"
  using Decoder_digits [OF _ packed_room [OF assms]] Decoder_range [OF _ packed_room [OF assms]] assms
  by (simp_all add: packed_elements_def packed_ok_def)

definition add_elements :: "uint64 \<Rightarrow> uint64 list \<Rightarrow> uint64 list \<Rightarrow> uint64 list" where
  "add_elements m = map2 (\<lambda>v w. AddModOpt v w m)"

lemma add_elements_ok:
  assumes "modulus_ok m" "length xs = length ys" "\<forall>x\<in>set xs. x < m" "\<forall>y\<in>set ys. y < m"
  shows "length (add_elements m xs ys) = length xs" "\<forall>e\<in>set (add_elements m xs ys). e < m"
    "i < length xs \<Longrightarrow> unat (add_elements m xs ys ! i) = (unat (xs ! i) + unat (ys ! i)) mod unat m"
proof -
  have m: "unat m \<le> 2 ^ 63" using assms(1) by (simp add: modulus_ok_unat)
  show "length (add_elements m xs ys) = length xs" using assms(2) by (simp add: add_elements_def)
  show "\<forall>e\<in>set (add_elements m xs ys). e < m"
    using assms(3,4) m by (auto simp: add_elements_def intro!: AddModOpt_less dest: set_zip_leftD set_zip_rightD)
  show "unat (add_elements m xs ys ! i) = (unat (xs ! i) + unat (ys ! i)) mod unat m" if "i < length xs"
    using that assms m by (simp add: add_elements_def unat_AddModOpt)
qed

lemma Add_packed_eq:
  assumes "unpacked_ok u" "packed_ok v" "length (elements u) = sv_num_elements v" "uv_modulus u = sv_modulus v"
  shows "Add_packed u v = Inr (u\<lparr>elements := add_elements (uv_modulus u) (elements u) (packed_elements v)\<rparr>)"
  using assms by (simp add: Add_packed_def add_elements_def packed_elements_def)

section \<open>Properties\<close>

text \<open>
  C10. Both codecs of \<open>SecAggVector\<close> are lossless and give the same bytes: a vector of
  reduced elements is packed without any write outside the buffer into exactly its base
  \<open>2^bit_width\<close> value in little-endian bytes, and \<open>GetAsUint64Vector\<close> returns the elements.
\<close>

theorem codec_roundtrip:
  assumes "modulus_ok m" "\<forall>e\<in>set es. e < m" "length es * GetBitWidth m \<le> 2147483647"
  shows "\<exists>v. SecAggVector_of_span es m branchless = Inr v \<and> GetAsUint64Vector v = Inr es
    \<and> packed_bytes v = le_bytes (num_bytes_needed (length es) (GetBitWidth m)) (vec_val (GetBitWidth m) es)"
proof -
  have m: "1 < m \<and> m \<le> kMaxModulus" "0 < m"
    using assms(1) by (auto simp: modulus_ok_def modulus_ok_unat word_less_nat_alt)
  have es: "list_all (\<lambda>e. e \<ge> 0 \<and> e < m) es" using assms(2) by (simp add: list_all_iff)
  show ?thesis
    using m es branchless_pack [OF assms] plain_pack [OF assms] decode_packed [OF assms]
    by (cases branchless)
      (simp_all add: SecAggVector_of_span_def Let_def GetAsUint64Vector_def CheckHasValue_def
        UnpackByteStringToUint64VectorBranchless_def)
qed

theorem codec_roundtrip_witness:
  "\<exists>v. SecAggVector_of_span [4, 0, 3] 5 True = Inr v \<and> GetAsUint64Vector v = Inr [4, 0, 3]
    \<and> packed_bytes v = le_bytes (num_bytes_needed (length [4, 0, 3 :: uint64]) (GetBitWidth 5))
         (vec_val (GetBitWidth 5) [4, 0, 3])"
  by (rule codec_roundtrip)
    (simp_all add: modulus_ok_def kMaxModulus_def GetBitWidth_def bit_width.simps)

text \<open>
  C26. The branchless decoder against the plain unpacker, on any byte string long enough,
  also one a client made up: it returns the plain element reduced once, so every value it
  returns is below the modulus although the buffer may hold larger digits.
\<close>

theorem decoder_equivalence:
  assumes "modulus_ok m" "n * GetBitWidth m \<le> 8 * length bs" "n * GetBitWidth m \<le> 2147483647"
  shows "(\<exists>us. map_status (\<lambda>i. UnpackUint64FromByteStringAt i (GetBitWidth m) bs) [0..<n] = Inr us
      \<and> ReadValues n (new_Decoder bs m) = map (\<lambda>u. if u < m then u else u - m) us)
    \<and> (\<forall>v\<in>set (ReadValues n (new_Decoder bs m)). v < m)"
proof -
  let ?bw = "GetBitWidth m"
  let ?u = "\<lambda>i. of_nat (le_val bs div 2 ^ (i * ?bw) mod 2 ^ ?bw) :: uint64"
  note bw = GetBitWidth_bounds(3,4) [OF assms(1)]
  have "UnpackUint64FromByteStringAt i ?bw bs = Inr (?u i)" if "i < n" for i
  proof -
    have "(i + 1) * ?bw \<le> n * ?bw" using that by (intro mult_le_mono1) simp
    then have "\<exists>v. UnpackUint64FromByteStringAt i ?bw bs = Inr v
        \<and> unat v = le_val bs div 2 ^ (i * ?bw) mod 2 ^ ?bw"
      using assms(2,3) bw by (intro Unpack_digit) simp_all
    then obtain v where v: "UnpackUint64FromByteStringAt i ?bw bs = Inr v"
        "unat v = le_val bs div 2 ^ (i * ?bw) mod 2 ^ ?bw" by blast
    have "?u i = v" unfolding v(2) [symmetric] by simp
    then show ?thesis using v(1) by simp
  qed
  then have "map_status (\<lambda>i. UnpackUint64FromByteStringAt i ?bw bs) [0..<n] = Inr (map ?u [0..<n])"
    by (intro map_status_Inr) simp
  moreover have "ReadValues n (new_Decoder bs m) = map (\<lambda>u. if u < m then u else u - m) (map ?u [0..<n])"
    by (simp only: Decoder_digits [OF assms(1,2)] map_map o_def reduce_once_def)
  ultimately show ?thesis using Decoder_range [OF assms(1,2)] by blast
qed

theorem decoder_equivalence_witness:
  "(\<exists>us. map_status (\<lambda>i. UnpackUint64FromByteStringAt i (GetBitWidth 5) [255, 1]) [0..<4] = Inr us
      \<and> ReadValues 4 (new_Decoder [255, 1] 5) = map (\<lambda>u. if u < 5 then u else u - 5) us)
    \<and> list_all (\<lambda>v. v < 5) (ReadValues 4 (new_Decoder [255, 1] 5))"
  unfolding list_all_iff
  by (rule decoder_equivalence)
    (simp_all add: modulus_ok_def kMaxModulus_def GetBitWidth_def bit_width.simps)

text \<open>
  C35. \<open>SecAggUnpackedVector::Add\<close> with a packed vector of the same shape passes its checks,
  keeps every element below the modulus and adds element by element modulo the modulus.
\<close>

theorem Add_packed_correct:
  assumes "unpacked_ok u" "packed_ok v" "length (elements u) = sv_num_elements v" "uv_modulus u = sv_modulus v"
  shows "\<exists>u'. Add_packed u v = Inr u' \<and> unpacked_ok u' \<and> length (elements u') = length (elements u)
    \<and> (\<forall>i<length (elements u). unat (elements u' ! i)
         = (unat (elements u ! i) + unat (packed_elements v ! i)) mod unat (uv_modulus u))"
  using Add_packed_eq [OF assms] packed_elements_ok [OF assms(2)] assms
    add_elements_ok [of "uv_modulus u" "elements u" "packed_elements v"]
  by (simp add: unpacked_ok_def)

theorem Add_packed_correct_witness:
  "\<exists>u'. Add_packed \<lparr>elements = [3, 4], uv_modulus = 5\<rparr>
      \<lparr>packed_bytes = [0x14], sv_modulus = 5, sv_bit_width = 3, sv_num_elements = 2, branchless_codec = False\<rparr> = Inr u'
    \<and> unpacked_ok u' \<and> length (elements u') = 2 \<and> unat (elements u' ! 0) = 2 \<and> unat (elements u' ! 1) = 1"
proof -
  let ?u = "\<lparr>elements = [3, 4], uv_modulus = 5\<rparr>"
  let ?v = "\<lparr>packed_bytes = [0x14], sv_modulus = 5, sv_bit_width = 3, sv_num_elements = 2, branchless_codec = False\<rparr>"
  have b: "GetBitWidth 5 = 3" by (simp add: GetBitWidth_def bit_width.simps)
  have ok: "unpacked_ok ?u" "packed_ok ?v" "length (elements ?u) = sv_num_elements ?v" "uv_modulus ?u = sv_modulus ?v"
    by (simp_all add: unpacked_ok_def packed_ok_def modulus_ok_def kMaxModulus_def b num_bytes_needed_def DivideRoundUp_def)
  have "vec_val 3 [4, 2] = 0x14" "num_bytes_needed 2 3 = 1" by code_simp+
  then have "[0x14] = le_bytes (num_bytes_needed (length [4, 2 :: uint64]) (GetBitWidth 5)) (vec_val (GetBitWidth 5) [4, 2])"
    by (simp add: b flip: numeral_2_eq_2)
  moreover have "\<forall>e\<in>set [4, 2]. e < (5 :: uint64)" "length [4, 2 :: uint64] * GetBitWidth 5 \<le> 2147483647" "modulus_ok 5"
    by (simp_all add: b modulus_ok_def kMaxModulus_def)
  ultimately have es: "packed_elements ?v = [4, 2]" using decode_packed(1) [of 5 "[4, 2]"]
    by (simp add: packed_elements_def flip: numeral_2_eq_2)
  obtain u' where u': "Add_packed ?u ?v = Inr u'" "unpacked_ok u'" "length (elements u') = 2"
      "\<forall>i<2. unat (elements u' ! i) = (unat ([3, 4 :: uint64] ! i) + unat ([4, 2 :: uint64] ! i)) mod unat (5 :: uint64)"
    using Add_packed_correct [OF ok] unfolding es by auto
  then have "unat (elements u' ! 0) = 2" "unat (elements u' ! 1) = 1" by simp_all
  then show ?thesis using u' by blast
qed

end
