(* ===== verification/Mask_Sums.thy ===== *)
theory Mask_Sums
  imports Map_Of_Masks SecAgg_Codec
begin

unbundle bit_operations_syntax

text \<open>
  What the mask generator computes: buffering is invisible (the \<open>k\<close>-th mask is the \<open>k\<close>-th
  group of bytes of the key stream), rejection sampling is uniform, and the map of masks is
  the signed sum of the masks of its keys modulo each modulus. The template parameter
  \<open>TAdapter\<close> is the locale \<open>mod_adapter\<close>, interpreted for both adapters of the source.
\<close>

section \<open>Sample sizes\<close>

lemma unat_push_one: "n < 64 \<Longrightarrow> unat (push_bit n 1 :: uint64) = 2 ^ n"
  using power_strict_increasing [of n 64 "2::nat"] by (subst unat_push_bit_small) simp_all

lemma unat_DivideRoundUp_8: "n \<le> 64 \<Longrightarrow> unat (DivideRoundUp (of_nat n) 8) = (n + 7) div 8"
  by (subst unat_DivideRoundUp) (simp_all add: unat_of_nat)

lemma unat_cost:
  fixes c :: uint32 and r s :: uint64
  assumes "unat c \<le> 2" "unat r \<le> 65536" "unat s \<le> 65536"
  shows "unat (ucast c * r :: uint64) = unat c * unat r"
    and "unat (ucast c * r * s :: uint64) = unat c * unat r * unat s"
proof -
  have "unat c * unat r \<le> 2 * 65536" using assms by (intro mult_le_mono)
  then show a: "unat (ucast c * r :: uint64) = unat c * unat r" by (simp add: unat_mult_small)
  have "unat c * unat r * unat s \<le> 2 * 65536 * 65536" using assms by (intro mult_le_mono)
  then show "unat (ucast c * r * s :: uint64) = unat c * unat r * unat s"
    using a by (simp add: unat_mult_small)
qed

lemma choose_keeps_smaller:
  assumes m: "unat m \<le> 2 ^ bw" "0 < unat m" and sb: "bw < sb" "sb \<le> 16"
  shows "choose_better_sample_bits m bw sb = Inr bw"
proof -
  have pow: "(2::nat) ^ bw \<le> 65536" "(2::nat) ^ sb \<le> 65536" "(2::nat) ^ (sb - bw) \<le> 65536"
    using sb power_increasing [of _ 16 "2::nat"] by simp_all
  have le: "(2::nat) ^ bw \<le> 2 ^ sb" using sb by (intro power_increasing) simp_all
  have u: "unat (push_bit bw 1 :: uint64) = 2 ^ bw" "unat (push_bit sb 1 :: uint64) = 2 ^ sb"
      "unat (push_bit (sb - bw) 1 :: uint64) = 2 ^ (sb - bw)"
    using sb by (simp_all add: unat_push_one del: push_bit_of_1)
  have c: "unat (DivideRoundUp (of_nat bw) 8) = (bw + 7) div 8" "unat (DivideRoundUp (of_nat sb) 8) = (sb + 7) div 8"
    using sb by (simp_all add: unat_DivideRoundUp_8)
  have c2: "(bw + 7) div 8 \<le> 2" "(sb + 7) div 8 \<le> 2" "(bw + 7) div 8 \<le> (sb + 7) div 8"
    using sb by (auto intro: div_le_mono)
  let ?r1 = "push_bit bw 1 div m" and ?r2 = "push_bit sb 1 div m"
  have r: "unat ?r1 = 2 ^ bw div unat m" "unat ?r2 = 2 ^ sb div unat m"
    by (simp_all only: unat_div_distrib u)
  have r2: "2 ^ bw div unat m \<le> 65536" "2 ^ sb div unat m \<le> 65536"
    using pow by (meson div_le_dividend le_trans)+
  have "(bw + 7) div 8 * (2 ^ bw div unat m) * 1 \<le> (sb + 7) div 8 * (2 ^ sb div unat m) * 2 ^ (sb - bw)"
    using c2(3) div_le_mono [OF le, of "unat m"] by (intro mult_le_mono) simp_all
  then have "\<not> ucast (DivideRoundUp (of_nat bw) 8) * ?r1
      > ucast (DivideRoundUp (of_nat sb) 8) * ?r2 * push_bit (sb - bw) 1"
    using unat_cost [of "DivideRoundUp (of_nat bw) 8" ?r1 1]
      unat_cost [of "DivideRoundUp (of_nat sb) 8" ?r2 "push_bit (sb - bw) 1"] c c2 r r2 u pow
    by (simp only: word_less_nat_alt not_less) simp
  then show ?thesis
    using sb m(1) u(1)
    by (simp add: choose_better_sample_bits_def Let_def kMaxSampleBits_def kMaxSampleBitsExpansion_def
        word_le_nat_alt del: push_bit_of_1)
qed

lemma compute_best_is_min:
  assumes "modulus_ok m"
  shows "compute_best_sample_bits m = Inr (GetBitWidth m)"
proof -
  note b = GetBitWidth_bounds [OF assms]
  have "\<exists>t. fold_status (\<lambda>sb best. choose_better_sample_bits m best sb) [GetBitWidth m + 1..<17] (GetBitWidth m)
      = Inr t \<and> t = GetBitWidth m"
    using b(1) assms by (intro fold_status_total) (auto simp: choose_keeps_smaller modulus_ok_unat)
  then show ?thesis
    by (simp add: compute_best_sample_bits_def Let_def kMaxSampleBitsExpansion_def GetBitWidth_def)
qed

section \<open>Buffering is invisible\<close>

definition stream_mask :: "aes_ctr \<Rightarrow> bytes \<Rightarrow> uint8 \<Rightarrow> nat \<Rightarrow> nat \<Rightarrow> nat" where
  "stream_mask aes key msb bpo k =
     be_val ((aes key (k * bpo) AND msb) # map (aes key) [k * bpo + 1..<(k + 1) * bpo])"

definition pb_inv :: "aes_ctr \<Rightarrow> bytes \<Rightarrow> uint8 \<Rightarrow> nat \<Rightarrow> nat \<Rightarrow> PrngBuffer \<Rightarrow> bool" where
  "pb_inv aes key msb bpo k pb \<longleftrightarrow> 0 < bpo \<and> bpo \<le> 8 \<and> bpo dvd kCacheSize
     \<and> seed (prng pb) = key \<and> msb_mask pb = msb \<and> bytes_per_output pb = bpo
     \<and> (\<exists>n. blocks_generated (prng pb) = kBatchSize * (n + 1)
          \<and> buffer pb = map (aes key) [kCacheSize * n..<kCacheSize * (n + 1)]
          \<and> buffer_ptr pb \<le> kCacheSize \<and> kCacheSize * n + buffer_ptr pb = k * bpo)"

lemma cache_consts: "kCacheSize = 1680" "kBatchSize = 105" "kBlockSize = 16" "kMaxBlocks = 4294967295"
  by (simp_all add: kCacheSize_def kBatchSize_def kBlockSize_def kMaxBlocks_def)

lemma be_val_Cons: "be_val (b # bs) = unat b * 256 ^ length bs + be_val bs"
  by (simp add: be_val_def le_val_append)

lemma be_val_snoc: "be_val (bs @ [b]) = 256 * be_val bs + unat b"
  by (simp add: be_val_def)

lemma NextMask_bytes_value:
  "buffer_ptr pb + n \<le> length (buffer pb) \<Longrightarrow> (unat out + 1) * 256 ^ n \<le> 256 ^ 8 \<Longrightarrow>
   \<exists>w. NextMask_bytes n out pb = Inr (w, pb\<lparr>buffer_ptr := buffer_ptr pb + n\<rparr>)
     \<and> unat w = unat out * 256 ^ n + be_val (take n (drop (buffer_ptr pb) (buffer pb)))"
proof (induction n arbitrary: out pb)
  case 0
  then show ?case by (simp add: be_val_def)
next
  case (Suc n)
  let ?b = "buffer pb ! buffer_ptr pb"
  let ?pb = "pb\<lparr>buffer_ptr := buffer_ptr pb + 1\<rparr>"
  have i: "buffer_ptr pb < length (buffer pb)" using Suc.prems(1) by simp
  have o: "(unat out + 1) * 256 * 256 ^ n \<le> 256 ^ 8" using Suc.prems(2) by (simp add: algebra_simps)
  moreover have "(unat out + 1) * 256 * 1 \<le> (unat out + 1) * 256 * 256 ^ n" by (intro mult_le_mono) simp_all
  ultimately have "(unat out + 1) * 256 \<le> 256 ^ 8" by linarith
  then have "unat out * 2 ^ 8 < 2 ^ LENGTH(64)" by simp
  then have u: "unat (push_bit 8 out OR ucast ?b) = 256 * unat out + unat ?b"
    using unat_or_push [of "ucast ?b :: uint64" 8 out] by (simp add: or.commute)
  have "unat ?b + 1 \<le> 256" using unat_byte_less [of ?b] by linarith
  then have "(256 * unat out + unat ?b + 1) * 256 ^ n \<le> (unat out + 1) * 256 * 256 ^ n"
    by (intro mult_le_mono1) simp
  then have "(unat (push_bit 8 out OR ucast ?b) + 1) * 256 ^ n \<le> 256 ^ 8"
    using o by (simp only: u)
  then obtain w where w: "NextMask_bytes n (push_bit 8 out OR ucast ?b) ?pb
      = Inr (w, ?pb\<lparr>buffer_ptr := buffer_ptr ?pb + n\<rparr>)"
      "unat w = unat (push_bit 8 out OR ucast ?b) * 256 ^ n
        + be_val (take n (drop (buffer_ptr ?pb) (buffer ?pb)))"
    using Suc.IH [of ?pb] Suc.prems(1) by auto
  have d: "take (Suc n) (drop (buffer_ptr pb) (buffer pb))
      = ?b # take n (drop (buffer_ptr pb + 1) (buffer pb))"
    using i by (simp add: Cons_nth_drop_Suc [symmetric])
  have l: "length (take n (drop (buffer_ptr pb + 1) (buffer pb))) = n" using Suc.prems(1) by simp
  show ?case
    using w i u l by (simp add: d be_val_Cons algebra_simps)
qed

lemma FillBuffer_eq:
  assumes "length (buffer pb) = kCacheSize" "blocks_generated (prng pb) \<le> kMaxBlocks"
  shows "FillBuffer aes pb = Inr (pb\<lparr>
      prng := prng pb\<lparr>blocks_generated := blocks_generated (prng pb) + kBatchSize\<rparr>,
      buffer := map (\<lambda>i. aes (seed (prng pb)) (kBlockSize * blocks_generated (prng pb) + i)) [0..<kCacheSize],
      buffer_ptr := 0\<rparr>)"
  using assms by (simp add: FillBuffer_def RandBuffer_def GenerateBytes_def cache_consts)

lemma map_shift: "map (\<lambda>i. f (a + i)) [0..<n] = map f [a..<a + (n::nat)]"
  by (rule nth_equalityI) simp_all

lemma pb_refill:
  assumes inv: "pb_inv aes key msb bpo k pb" and room: "k * bpo \<le> kBlockSize * kMaxBlocks"
  shows "\<exists>pb' n. (if buffer_ptr pb = length (buffer pb) then FillBuffer aes pb else Inr pb) = Inr pb'
    \<and> pb_inv aes key msb bpo k pb' \<and> buffer pb' = map (aes key) [kCacheSize * n..<kCacheSize * (n + 1)]
    \<and> kCacheSize * n + buffer_ptr pb' = k * bpo \<and> buffer_ptr pb' + bpo \<le> kCacheSize
    \<and> msb_mask pb' = msb \<and> bytes_per_output pb' = bpo"
proof -
  obtain n where n: "blocks_generated (prng pb) = kBatchSize * (n + 1)"
      "buffer pb = map (aes key) [kCacheSize * n..<kCacheSize * (n + 1)]"
      "buffer_ptr pb \<le> kCacheSize" "kCacheSize * n + buffer_ptr pb = k * bpo"
    and i: "0 < bpo" "bpo \<le> 8" "bpo dvd kCacheSize" "seed (prng pb) = key" "msb_mask pb = msb"
      "bytes_per_output pb = bpo"
    using inv by (auto simp: pb_inv_def)
  show ?thesis
  proof (cases "buffer_ptr pb = kCacheSize")
    case True
    let ?pb = "pb\<lparr>prng := prng pb\<lparr>blocks_generated := kBatchSize * (n + 2)\<rparr>,
      buffer := map (aes key) [kCacheSize * (n + 1)..<kCacheSize * (n + 2)], buffer_ptr := 0\<rparr>"
    have k: "k * bpo = kCacheSize * (n + 1)" using n(4) True by simp
    then have "blocks_generated (prng pb) \<le> kMaxBlocks"
      using room n(1) by (simp add: cache_consts)
    moreover have "map (\<lambda>i. aes key (kBlockSize * blocks_generated (prng pb) + i)) [0..<kCacheSize]
        = map (aes key) [kCacheSize * (n + 1)..<kCacheSize * (n + 2)]"
      using map_shift [of "aes key" "kCacheSize * (n + 1)" kCacheSize] n(1)
      by (simp add: cache_consts algebra_simps)
    ultimately have "FillBuffer aes pb = Inr ?pb"
      using FillBuffer_eq [of pb aes] n(1,2) i(4) by (simp add: cache_consts algebra_simps)
    moreover have "pb_inv aes key msb bpo k ?pb"
      using i k unfolding pb_inv_def by (intro conjI exI [of _ "n + 1"]) simp_all
    moreover have "bpo \<le> kCacheSize" using i(2) by (simp add: cache_consts)
    moreover have "buffer_ptr pb = length (buffer pb)" using True n(2) by simp
    ultimately show ?thesis
      using i(5,6) k by (intro exI [of _ ?pb] exI [of _ "n + 1"] conjI) simp_all
  next
    case False
    have "bpo dvd kCacheSize * n + buffer_ptr pb" unfolding n(4) by simp
    then have "bpo dvd buffer_ptr pb" using i(3) by (simp add: dvd_add_right_iff)
    then have "bpo dvd kCacheSize - buffer_ptr pb" using i(3) by simp
    moreover have "0 < kCacheSize - buffer_ptr pb" using False n(3) by simp
    ultimately have "bpo \<le> kCacheSize - buffer_ptr pb" by (rule dvd_imp_le)
    then have "buffer_ptr pb + bpo \<le> kCacheSize" using n(3) by simp
    then show ?thesis
      using False n inv i(5,6) by (intro exI [of _ pb] exI [of _ n]) auto
  qed
qed

lemma stream_mask_bound:
  assumes "0 < bpo" "bits = 8 * (bpo - 1) + c" "c \<le> 8" "msb = mask c"
  shows "stream_mask aes key msb bpo k < 2 ^ bits"
proof -
  let ?t = "map (aes key) [k * bpo + 1..<(k + 1) * bpo]"
  have l: "length ?t = bpo - 1" using assms(1) by simp
  have "unat (aes key (k * bpo) AND msb) = unat (aes key (k * bpo)) mod 2 ^ c"
    using assms(4) by (simp only: unat_and_mask)
  then have h: "unat (aes key (k * bpo) AND msb) < 2 ^ c" by simp
  have "be_val ?t < 2 ^ (8 * (bpo - 1))"
    using le_val_less [of "rev ?t"] l by (simp add: be_val_def pow256)
  then have "be_val ?t + 2 ^ (8 * (bpo - 1)) * unat (aes key (k * bpo) AND msb) < 2 ^ (8 * (bpo - 1) + c)"
    using h by (rule add_high_digit)
  then show ?thesis
    using l assms(2) by (simp add: stream_mask_def be_val_Cons pow256 add.commute mult.commute)
qed

lemma NextMask_correct:
  assumes inv: "pb_inv aes key msb bpo k pb" and room: "k * bpo \<le> kBlockSize * kMaxBlocks"
  shows "\<exists>w pb'. NextMask aes pb = Inr (w, pb') \<and> unat w = stream_mask aes key msb bpo k
    \<and> pb_inv aes key msb bpo (k + 1) pb'"
proof -
  obtain pb1 n where pb1:
      "(if buffer_ptr pb = length (buffer pb) then FillBuffer aes pb else Inr pb) = Inr pb1"
      "pb_inv aes key msb bpo k pb1" "buffer pb1 = map (aes key) [kCacheSize * n..<kCacheSize * (n + 1)]"
      "kCacheSize * n + buffer_ptr pb1 = k * bpo" "buffer_ptr pb1 + bpo \<le> kCacheSize"
      "msb_mask pb1 = msb" "bytes_per_output pb1 = bpo"
    using pb_refill [OF inv room] by blast
  have bpo: "0 < bpo" "bpo \<le> 8" using inv by (simp_all add: pb_inv_def)
  have at: "buffer pb1 ! j = aes key (kCacheSize * n + j)" if "j < kCacheSize" for j
    using that by (simp add: pb1(3))
  have len: "length (buffer pb1) = kCacheSize" by (simp add: pb1(3))
  let ?i = "buffer_ptr pb1" and ?h = "aes key (k * bpo) AND msb"
  let ?pb = "pb1\<lparr>buffer_ptr := ?i + 1\<rparr>"
  have i: "?i < kCacheSize" using pb1(5) bpo by simp
  have h: "buffer pb1 ! ?i = aes key (k * bpo)" using at [OF i] pb1(4) by simp
  have "(unat (ucast ?h :: uint64) + 1) * 256 ^ (bpo - 1) \<le> 256 * 256 ^ (bpo - 1)"
    using unat_byte_less [of ?h] by (intro mult_le_mono1) (simp only: unat_ucast_8_64 Suc_eq_plus1 [symmetric] Suc_leI)
  also have "(256::nat) * 256 ^ (bpo - 1) \<le> 256 ^ 8"
    using bpo power_increasing [of bpo 8 "256::nat"] by (cases bpo) simp_all
  finally obtain w where w: "NextMask_bytes (bpo - 1) (ucast ?h) ?pb
      = Inr (w, ?pb\<lparr>buffer_ptr := buffer_ptr ?pb + (bpo - 1)\<rparr>)"
      "unat w = unat (ucast ?h :: uint64) * 256 ^ (bpo - 1) + be_val (take (bpo - 1) (drop (?i + 1) (buffer pb1)))"
    using NextMask_bytes_value [of ?pb "bpo - 1" "ucast ?h"] pb1(5) len bpo by auto
  have "take (bpo - 1) (drop (?i + 1) (buffer pb1)) = map (aes key) [k * bpo + 1..<(k + 1) * bpo]"
  proof (rule nth_equalityI)
    show "length (take (bpo - 1) (drop (?i + 1) (buffer pb1))) = length (map (aes key) [k * bpo + 1..<(k + 1) * bpo])"
      using pb1(5) len bpo by simp
    fix j assume "j < length (take (bpo - 1) (drop (?i + 1) (buffer pb1)))"
    then have j: "j < bpo - 1" by simp
    then have "buffer pb1 ! (?i + 1 + j) = aes key (kCacheSize * n + (?i + 1 + j))"
      using pb1(5) by (intro at) simp
    also have "kCacheSize * n + (?i + 1 + j) = k * bpo + 1 + j" using pb1(4) by simp
    finally show "take (bpo - 1) (drop (?i + 1) (buffer pb1)) ! j = map (aes key) [k * bpo + 1..<(k + 1) * bpo] ! j"
      using j pb1(5) len by (simp add: add.assoc)
  qed
  then have "unat w = stream_mask aes key msb bpo k"
    using w(2) bpo by (simp add: stream_mask_def be_val_Cons)
  moreover have "NextMask aes pb = Inr (w, pb1\<lparr>buffer_ptr := ?i + bpo\<rparr>)"
    using pb1(1,6,7) w(1) h i len bpo by (simp add: NextMask_def)
  moreover have "pb_inv aes key msb bpo (k + 1) (pb1\<lparr>buffer_ptr := ?i + bpo\<rparr>)"
  proof -
    obtain n' where "blocks_generated (prng pb1) = kBatchSize * (n' + 1)"
        "buffer pb1 = map (aes key) [kCacheSize * n'..<kCacheSize * (n' + 1)]"
        "kCacheSize * n' + ?i = k * bpo"
      using pb1(2) by (auto simp: pb_inv_def)
    then show ?thesis
      using pb1(2,5) unfolding pb_inv_def by (auto intro!: exI [of _ n'])
  qed
  ultimately show ?thesis by blast
qed

lemma new_PrngBuffer_inv:
  assumes "0 < bpo" "bpo \<le> 8"
  shows "\<exists>pb. new_PrngBuffer aes key msb bpo = Inr pb \<and> pb_inv aes key msb bpo 0 pb"
proof -
  have "bpo \<in> {1, 2, 3, 4, 5, 6, 7, 8}" using assms by auto
  then have d: "bpo dvd kCacheSize" by (auto simp: cache_consts)
  then have "kCacheSize mod bpo = 0" by (simp add: dvd_eq_mod_eq_0)
  then show ?thesis
    using assms d by (auto simp: new_PrngBuffer_def FillBuffer_eq new_AesCtrPrng_def pb_inv_def
        cache_consts intro!: exI [of _ 0])
qed

section \<open>The masks of one key\<close>

text \<open>The law of an adapter operation: it adds \<open>s\<close> times the mask modulo \<open>m\<close>.\<close>

definition op_law :: "mod_op \<Rightarrow> int \<Rightarrow> bool" where
  "op_law op s \<longleftrightarrow> (\<forall>m a b. modulus_ok m \<longrightarrow> a < m \<longrightarrow> b < m \<longrightarrow> op a b m < m
     \<and> int (unat (op a b m)) = (int (unat a) + s * int (unat b)) mod int (unat m))"

lemma op_lawD:
  assumes "op_law op s" "modulus_ok m" "a < m" "b < m"
  shows "op a b m < m" "int (unat (op a b m)) = (int (unat a) + s * int (unat b)) mod int (unat m)"
  using assms by (auto simp: op_law_def)

lemma op_law_zero:
  assumes "op_law op s" "modulus_ok m" "a < m"
  shows "op a 0 m = a"
proof (rule unat_eqI)
  have m: "0 < m" using assms(2) by (simp add: modulus_ok_unat word_less_nat_alt)
  have "int (unat (op a 0 m)) = int (unat a) mod int (unat m)"
    using op_lawD(2) [OF assms(1,2,3) m] by simp
  also have "\<dots> = int (unat a)"
    using assms(3) by (simp add: word_less_nat_alt del: of_nat_unat flip: of_nat_mod)
  finally show "unat (op a 0 m) = unat a" by (simp only: of_nat_eq_iff)
qed

definition apply_masks :: "mod_op \<Rightarrow> uint64 \<Rightarrow> uint64 list \<Rightarrow> uint64 list \<Rightarrow> uint64 list" where
  "apply_masks op m vs ms = map2 (\<lambda>v k. op v k m) vs ms"

abbreviation stream_word :: "aes_ctr \<Rightarrow> bytes \<Rightarrow> uint8 \<Rightarrow> nat \<Rightarrow> nat \<Rightarrow> uint64" where
  "stream_word aes key msb bpo k \<equiv> of_nat (stream_mask aes key msb bpo k)"

lemma mask_loop_eq:
  "pb_inv aes key msb bpo k pb \<Longrightarrow> (k + length vs) * bpo \<le> kBlockSize * kMaxBlocks \<Longrightarrow>
   mask_loop aes op m pb vs
     = Inr (apply_masks op m vs (map (stream_word aes key msb bpo) [k..<k + length vs]))"
proof (induction vs arbitrary: k pb)
  case Nil
  show ?case by (simp add: apply_masks_def)
next
  case (Cons v vs)
  have "k * bpo \<le> kBlockSize * kMaxBlocks"
    using Cons.prems(2) by (meson le_add1 le_trans mult_le_mono1)
  then obtain w pb' where w: "NextMask aes pb = Inr (w, pb')" "unat w = stream_mask aes key msb bpo k"
      "pb_inv aes key msb bpo (k + 1) pb'"
    using NextMask_correct [OF Cons.prems(1)] by blast
  have "w = stream_word aes key msb bpo k" using w(2) by (metis of_nat_unat ucast_id)
  moreover have "[k..<k + length (v # vs)] = k # [k + 1..<k + 1 + length vs]"
    by (simp add: upt_conv_Cons del: upt_Suc)
  ultimately show ?case
    using Cons.IH [OF w(3)] Cons.prems(2) w(1) by (simp add: apply_masks_def del: upt_Suc)
qed

fun masks_reject :: "(nat \<Rightarrow> uint64) \<Rightarrow> uint64 \<Rightarrow> uint64 \<Rightarrow> nat \<Rightarrow> nat \<Rightarrow> nat \<Rightarrow> uint64 list option" where
  "masks_reject s m threshold fuel 0 k = Some []"
| "masks_reject s m threshold 0 (Suc n) k = None"
| "masks_reject s m threshold (Suc fuel) (Suc n) k =
     (if s k < threshold then masks_reject s m threshold fuel (Suc n) (k + 1)
      else map_option ((#) (s k mod m)) (masks_reject s m threshold fuel n (k + 1)))"

lemma masks_reject_length: "masks_reject s m threshold fuel n k = Some ms \<Longrightarrow> length ms = n"
  by (induction s m threshold fuel n k arbitrary: ms rule: masks_reject.induct)
    (auto split: if_splits)

lemma masks_reject_less:
  assumes "0 < m"
  shows "masks_reject s m threshold fuel n k = Some ms \<Longrightarrow> \<forall>x\<in>set ms. x < m"
  using assms
proof (induction s m threshold fuel n k arbitrary: ms rule: masks_reject.induct)
  case (3 s m threshold fuel n k)
  have "s k mod m < m" using 3(4) by (simp add: word_less_nat_alt unat_mod_distrib)
  then show ?case using 3 by (auto split: if_splits)
qed auto

lemma reject_loop_eq:
  assumes op: "op_law op s" "modulus_ok m"
  shows "pb_inv aes key msb bpo k pb \<Longrightarrow> (k + fuel) * bpo \<le> kBlockSize * kMaxBlocks \<Longrightarrow>
   \<forall>v\<in>set vs. v < m \<Longrightarrow>
   reject_loop aes op m threshold fuel pb vs
     = (case masks_reject (stream_word aes key msb bpo) m threshold fuel (length vs) k of
          None \<Rightarrow> Inl OutOfFuel | Some ms \<Rightarrow> Inr (apply_masks op m vs ms))"
proof (induction fuel arbitrary: k pb vs)
  case 0
  show ?case by (cases vs) (simp_all add: apply_masks_def)
next
  case (Suc fuel)
  show ?case
  proof (cases vs)
    case Nil
    then show ?thesis by (simp add: apply_masks_def)
  next
    case (Cons v vs')
    have "k * bpo \<le> kBlockSize * kMaxBlocks"
      using Suc.prems(2) by (meson le_add1 le_trans mult_le_mono1)
    then obtain w pb' where w: "NextMask aes pb = Inr (w, pb')" "unat w = stream_mask aes key msb bpo k"
        "pb_inv aes key msb bpo (k + 1) pb'"
      using NextMask_correct [OF Suc.prems(1)] by blast
    have weq: "stream_word aes key msb bpo k = w" unfolding w(2) [symmetric] by simp
    have room: "(k + 1 + fuel) * bpo \<le> kBlockSize * kMaxBlocks" using Suc.prems(2) by simp
    have "op v 0 m = v" using Suc.prems(3) Cons by (intro op_law_zero [OF op]) simp
    then show ?thesis
      using Suc.IH [OF w(3) room, of "v # vs'"] Suc.IH [OF w(3) room, of vs'] Suc.prems(3) Cons w(1) weq
      by (auto simp: Let_def apply_masks_def split: option.splits)
  qed
qed

definition key_masks :: "mask_env \<Rightarrow> bytes \<Rightarrow> InputVectorSpecification \<Rightarrow> bytes \<Rightarrow> uint64 list option" where
  "key_masks env session_id spec key =
     (let m = spec_modulus spec; bits = GetBitWidth m; bpo = (bits + 7) div 8;
          digest = env_sha256 env (IntToByteString (of_nat bits) @ key @ [kPrngSeedConstant]
            @ IntToByteString (of_nat (length (prng_input_of session_id spec))) @ prng_input_of session_id spec);
          s = stream_word (env_aes_ctr env) digest (msb_mask_of bits bpo) bpo
      in if push_bit bits 1 = m then Some (map s [0..<spec_length spec])
         else masks_reject s m ((push_bit bits 1 - m) mod m) (env_fuel env) (spec_length spec) 0)"

text \<open>What the code relies on: SHA-256 gives 32 bytes, and the stream is not exhausted.\<close>

definition mask_env_ok :: "mask_env \<Rightarrow> bool" where
  "mask_env_ok env \<longleftrightarrow> (\<forall>x. length (env_sha256 env x) = 32) \<and> env_fuel env \<le> 8589934590"

definition spec_ok :: "InputVectorSpecification \<Rightarrow> bool" where
  "spec_ok spec \<longleftrightarrow> modulus_ok (spec_modulus spec)
     \<and> spec_length spec * GetBitWidth (spec_modulus spec) \<le> 2147483647"

lemma bpo_bounds:
  assumes "modulus_ok m"
  shows "unat (DivideRoundUp (of_nat (GetBitWidth m)) 8) = (GetBitWidth m + 7) div 8"
    "0 < (GetBitWidth m + 7) div 8" "(GetBitWidth m + 7) div 8 \<le> 8"
  using GetBitWidth_bounds(3,4) [OF assms] by (auto simp: unat_DivideRoundUp_8)

lemma mask_with_key_eq:
  assumes env: "mask_env_ok env" and spec: "spec_ok spec" and op: "op_law op s"
    and vs: "length vs = spec_length spec" "\<forall>v\<in>set vs. v < spec_modulus spec"
  shows "mask_with_key (env_sha256 env) (env_aes_ctr env) (env_fuel env) op session_id spec key vs
    = (case key_masks env session_id spec key of None \<Rightarrow> Inl OutOfFuel
       | Some ms \<Rightarrow> Inr (apply_masks op (spec_modulus spec) vs ms))"
proof -
  let ?m = "spec_modulus spec"
  define bits where "bits = GetBitWidth ?m"
  define bpo where "bpo = (bits + 7) div 8"
  have m: "modulus_ok ?m" using spec by (simp add: spec_ok_def)
  have bw: "bit_width (?m - 1) = bits" by (simp add: bits_def GetBitWidth_def)
  have b: "unat (DivideRoundUp (of_nat bits) 8) = bpo" "0 < bpo" "bpo \<le> 8"
    using bpo_bounds [OF m] by (simp_all add: bits_def bpo_def)
  define input where "input = prng_input_of session_id spec"
  define digest where "digest = env_sha256 env (IntToByteString (of_nat bits) @ key @ [kPrngSeedConstant]
      @ IntToByteString (of_nat (length input)) @ input)"
  have dk: "DigestKey (env_sha256 env) input bits key = Inr digest"
    using env by (simp add: DigestKey_def Let_def digest_def mask_env_ok_def AesKey_kSize_def)
  obtain pb where pb: "new_PrngBuffer (env_aes_ctr env) digest (msb_mask_of bits bpo) bpo = Inr pb"
      "pb_inv (env_aes_ctr env) digest (msb_mask_of bits bpo) bpo 0 pb"
    using new_PrngBuffer_inv [OF b(2,3)] by blast
  have "spec_length spec * 1 \<le> spec_length spec * bits"
    using GetBitWidth_bounds(3) [OF m] by (intro mult_le_mono) (simp_all add: bits_def)
  moreover have "spec_length spec * bits \<le> 2147483647" using spec by (simp add: spec_ok_def bits_def)
  ultimately have "spec_length spec \<le> 2147483647" by linarith
  then have "spec_length spec * bpo \<le> 2147483647 * 8" using b(3) by (intro mult_le_mono)
  then have room1: "(0 + length vs) * bpo \<le> kBlockSize * kMaxBlocks" using vs(1) by (simp add: cache_consts)
  have "env_fuel env * bpo \<le> 8589934590 * 8"
    using b(3) env by (intro mult_le_mono) (simp_all add: mask_env_ok_def)
  then have room2: "(0 + env_fuel env) * bpo \<le> kBlockSize * kMaxBlocks" by (simp add: cache_consts)
  have cb: "compute_best_sample_bits ?m = Inr bits" using compute_best_is_min [OF m] by (simp add: bits_def)
  show ?thesis
  proof (cases "push_bit bits 1 = ?m")
    case True
    then show ?thesis
      using mask_loop_eq [OF pb(2) room1] pb(1) dk b(1) vs(1)
      by (simp add: mask_with_key_def key_masks_def Let_def bw cb True digest_def flip: bits_def bpo_def input_def)
  next
    case False
    then show ?thesis
      using reject_loop_eq [OF op m pb(2) room2 vs(2)] pb(1) dk b(1) vs(1)
      by (simp add: mask_with_key_def key_masks_def Let_def bw cb False
          digest_def flip: bits_def bpo_def input_def)
  qed
qed

section \<open>Sums of masks\<close>

definition mask_at :: "mask_env \<Rightarrow> bytes \<Rightarrow> InputVectorSpecification \<Rightarrow> nat \<Rightarrow> bytes \<Rightarrow> int" where
  "mask_at env session_id spec i key =
     (case key_masks env session_id spec key of None \<Rightarrow> 0 | Some ms \<Rightarrow> int (unat (ms ! i)))"

definition masks_total :: "mask_env \<Rightarrow> bytes \<Rightarrow> InputVectorSpecification \<Rightarrow> nat \<Rightarrow> bytes list \<Rightarrow> int" where
  "masks_total env session_id spec i keys = sum_list (map (mask_at env session_id spec i) keys)"

lemma masks_total_simps [simp]:
  "masks_total env session_id spec i [] = 0"
  "masks_total env session_id spec i (key # keys)
     = mask_at env session_id spec i key + masks_total env session_id spec i keys"
  by (simp_all add: masks_total_def)

lemma stream_word_less:
  assumes m: "modulus_ok m" "push_bit (GetBitWidth m) 1 = m"
  shows "stream_word aes key (msb_mask_of (GetBitWidth m) ((GetBitWidth m + 7) div 8))
    ((GetBitWidth m + 7) div 8) k < m"
proof -
  define bits where "bits = GetBitWidth m"
  define bpo where "bpo = (bits + 7) div 8"
  have b: "0 < bits" "bits \<le> 62" using GetBitWidth_bounds(3,4) [OF m(1)] by (simp_all add: bits_def)
  have bpo: "0 < bpo" "bits = 8 * (bpo - 1) + (bits - (bpo - 1) * 8)" "bits - (bpo - 1) * 8 \<le> 8"
    using b(1) unfolding bpo_def by linarith+
  have "stream_mask aes key (msb_mask_of bits bpo) bpo k < 2 ^ bits"
    using stream_mask_bound [OF bpo] by (simp add: msb_mask_of_def)
  moreover have "unat m = 2 ^ bits" using m(2) b(2) unat_push_one [of bits] by (simp add: bits_def)
  moreover have "unat m < 18446744073709551616" by simp
  ultimately have "unat (stream_word aes key (msb_mask_of bits bpo) bpo k) < unat m"
    by (subst unat_of_nat_u64) simp_all
  then show ?thesis by (simp add: word_less_nat_alt bits_def bpo_def)
qed

lemma key_masks_ok:
  assumes spec: "spec_ok spec" and ms: "key_masks env session_id spec key = Some ms"
  shows "length ms = spec_length spec" "\<forall>x\<in>set ms. x < spec_modulus spec"
proof -
  have m: "modulus_ok (spec_modulus spec)" using spec by (simp add: spec_ok_def)
  have "0 < spec_modulus spec" using m by (simp add: modulus_ok_unat word_less_nat_alt)
  note r = masks_reject_length masks_reject_less [OF this]
  show "length ms = spec_length spec"
    using ms r(1) by (auto simp: key_masks_def Let_def split: if_splits)
  show "\<forall>x\<in>set ms. x < spec_modulus spec"
    using ms r(2) stream_word_less [OF m] by (fastforce simp: key_masks_def Let_def split: if_splits)
qed

lemma apply_masks_ok:
  assumes op: "op_law op s" "modulus_ok m" and len: "length vs = length ms"
    and vs: "\<forall>v\<in>set vs. v < m" "\<forall>x\<in>set ms. x < m"
  shows "length (apply_masks op m vs ms) = length vs" "\<forall>v\<in>set (apply_masks op m vs ms). v < m"
    "i < length vs \<Longrightarrow> int (unat (apply_masks op m vs ms ! i))
       = (int (unat (vs ! i)) + s * int (unat (ms ! i))) mod int (unat m)"
proof -
  show "length (apply_masks op m vs ms) = length vs" using len by (simp add: apply_masks_def)
  show "\<forall>v\<in>set (apply_masks op m vs ms). v < m"
    using vs by (auto simp: apply_masks_def in_set_zip intro!: op_lawD(1) [OF op])
  show "int (unat (apply_masks op m vs ms ! i)) = (int (unat (vs ! i)) + s * int (unat (ms ! i))) mod int (unat m)"
    if "i < length vs"
    using that len vs op_lawD(2) [OF op, of "vs ! i" "ms ! i"] by (simp add: apply_masks_def)
qed

lemma keys_loop_sum:
  assumes env: "mask_env_ok env" and spec: "spec_ok spec" and op: "op_law op s"
    and drawn: "\<forall>key\<in>set keys. key_masks env session_id spec key \<noteq> None"
    and vs: "length vs = spec_length spec" "\<forall>v\<in>set vs. v < spec_modulus spec"
  shows "\<exists>vs'. keys_loop (mask_with_key (env_sha256 env) (env_aes_ctr env) (env_fuel env) op session_id spec)
      (\<lambda>_. False) keys vs p = Inr (Some vs', p + length keys)
    \<and> length vs' = spec_length spec \<and> (\<forall>v\<in>set vs'. v < spec_modulus spec)
    \<and> (\<forall>i < spec_length spec. int (unat (vs' ! i))
         = (int (unat (vs ! i)) + s * masks_total env session_id spec i keys) mod int (unat (spec_modulus spec)))"
  using drawn vs
proof (induction keys arbitrary: vs p)
  case Nil
  have "int (unat (vs ! i)) mod int (unat (spec_modulus spec)) = int (unat (vs ! i))"
    if "i < spec_length spec" for i
    using Nil that by (simp add: word_less_nat_alt del: of_nat_unat flip: of_nat_mod)
  then show ?case using Nil by (simp del: of_nat_unat)
next
  case (Cons key keys)
  let ?m = "spec_modulus spec"
  have m: "modulus_ok ?m" using spec by (simp add: spec_ok_def)
  obtain ms where ms: "key_masks env session_id spec key = Some ms" using Cons.prems(1) by auto
  note ok = key_masks_ok [OF spec ms]
  let ?vs = "apply_masks op ?m vs ms"
  have len: "length vs = length ms" using Cons.prems(2) ok(1) by simp
  note a = apply_masks_ok [OF op m len Cons.prems(3) ok(2)]
  obtain vs' where vs': "keys_loop (mask_with_key (env_sha256 env) (env_aes_ctr env) (env_fuel env) op session_id spec)
      (\<lambda>_. False) keys ?vs (p + 1) = Inr (Some vs', p + 1 + length keys)"
      "length vs' = spec_length spec" "\<forall>v\<in>set vs'. v < ?m"
      "\<forall>i < spec_length spec. int (unat (vs' ! i))
         = (int (unat (?vs ! i)) + s * masks_total env session_id spec i keys) mod int (unat ?m)"
    using Cons.IH [of ?vs "p + 1"] Cons.prems(1,2) a(1,2) by auto
  have "int (unat (vs' ! i)) = (int (unat (vs ! i))
      + s * masks_total env session_id spec i (key # keys)) mod int (unat ?m)"
    if i: "i < spec_length spec" for i
  proof -
    have "mask_at env session_id spec i key = int (unat (ms ! i))" using ms by (simp add: mask_at_def)
    moreover have "int (unat (?vs ! i)) = (int (unat (vs ! i)) + s * int (unat (ms ! i))) mod int (unat ?m)"
      using a(3) i Cons.prems(2) by simp
    moreover have "int (unat (vs' ! i))
        = (int (unat (?vs ! i)) + s * masks_total env session_id spec i keys) mod int (unat ?m)"
      using vs'(4) i by blast
    ultimately show ?thesis by (simp add: mod_simps algebra_simps del: of_nat_unat)
  qed
  moreover have "mask_with_key (env_sha256 env) (env_aes_ctr env) (env_fuel env) op session_id spec key vs = Inr ?vs"
    using mask_with_key_eq [OF env spec op Cons.prems(2,3)] ms by simp
  ultimately show ?case using vs'(1-3) by auto
qed

section \<open>The map of masks\<close>

definition mask_vector ::
  "mask_env \<Rightarrow> bytes \<Rightarrow> bytes list \<Rightarrow> bytes list \<Rightarrow> InputVectorSpecification \<Rightarrow> uint64 list" where
  "mask_vector env session_id keys_add keys_sub spec =
     map (\<lambda>i. of_int ((masks_total env session_id spec i keys_add - masks_total env session_id spec i keys_sub)
        mod int (unat (spec_modulus spec)))) [0..<spec_length spec]"

text \<open>All keys have their masks within the draws that the fuel allows.\<close>

definition keys_drawn :: "mask_env \<Rightarrow> bytes \<Rightarrow> InputVectorSpecification \<Rightarrow> bytes list \<Rightarrow> bool" where
  "keys_drawn env session_id spec keys \<longleftrightarrow> (\<forall>key\<in>set keys. key_masks env session_id spec key \<noteq> None)"

lemma unat_of_int_mod:
  "int (unat (of_int (k mod int (unat m)) :: uint64)) = k mod int (unat (m :: uint64))" if "0 < unat m"
proof -
  define r where "r = nat (k mod int (unat m))"
  have "0 \<le> k mod int (unat m)" "k mod int (unat m) < int (unat m)"
    using that by (simp_all del: of_nat_unat)
  then have r: "k mod int (unat m) = int r" "r < unat m" by (simp_all add: r_def del: of_nat_unat)
  then have "r < 18446744073709551616" using unat_u64_less [of m] by linarith
  then show ?thesis unfolding r(1) by (simp add: unat_of_nat_u64 del: of_nat_unat)
qed

lemma mask_vector_ok:
  assumes "spec_ok spec"
  shows "length (mask_vector env session_id ka ks spec) = spec_length spec"
    "\<forall>v\<in>set (mask_vector env session_id ka ks spec). v < spec_modulus spec"
    "i < spec_length spec \<Longrightarrow> int (unat (mask_vector env session_id ka ks spec ! i))
       = (masks_total env session_id spec i ka - masks_total env session_id spec i ks) mod int (unat (spec_modulus spec))"
proof -
  have m: "0 < unat (spec_modulus spec)" using assms by (simp add: spec_ok_def modulus_ok_unat)
  show "length (mask_vector env session_id ka ks spec) = spec_length spec" by (simp add: mask_vector_def)
  show val: "int (unat (mask_vector env session_id ka ks spec ! i))
      = (masks_total env session_id spec i ka - masks_total env session_id spec i ks) mod int (unat (spec_modulus spec))"
    if "i < spec_length spec" for i
    using that unat_of_int_mod [OF m] by (simp add: mask_vector_def del: of_nat_unat)
  have "v < spec_modulus spec" if "v = of_int (k mod int (unat (spec_modulus spec)))" for v k
  proof -
    have "int (unat v) < int (unat (spec_modulus spec))"
      unfolding that unat_of_int_mod [OF m] using m by (simp del: of_nat_unat)
    then show ?thesis by (simp add: word_less_nat_alt del: of_nat_unat)
  qed
  then show "\<forall>v\<in>set (mask_vector env session_id ka ks spec). v < spec_modulus spec"
    by (auto simp: mask_vector_def)
qed

locale mod_adapter =
  fixes add sub :: mod_op
  assumes add_law: "op_law add 1" and sub_law: "op_law sub (- 1)"
begin

lemma spec_masks_sum:
  assumes env: "mask_env_ok env" and spec: "spec_ok spec"
    and drawn: "keys_drawn env session_id spec (ka @ ks)"
  shows "spec_masks env add sub ka ks session_id (\<lambda>_. False) spec p
    = Inr (Some (mask_vector env session_id ka ks spec), p + 2 + length ka + length ks)"
proof -
  let ?L = "spec_length spec" and ?m = "spec_modulus spec"
  have m: "0 < ?m" using spec by (simp add: spec_ok_def modulus_ok_unat word_less_nat_alt)
  have z: "length (replicate ?L (0::uint64)) = ?L" "\<forall>v\<in>set (replicate ?L 0). v < ?m" using m by auto
  obtain vs1 where vs1: "keys_loop (mask_with_key (env_sha256 env) (env_aes_ctr env) (env_fuel env) add session_id spec)
      (\<lambda>_. False) ka (replicate ?L 0) (p + 1) = Inr (Some vs1, p + 1 + length ka)"
      "length vs1 = ?L" "\<forall>v\<in>set vs1. v < ?m"
      "\<forall>i < ?L. int (unat (vs1 ! i)) = masks_total env session_id spec i ka mod int (unat ?m)"
    using keys_loop_sum [OF env spec add_law, of ka session_id "replicate ?L 0" "p + 1"] drawn z
    by (auto simp: keys_drawn_def)
  obtain vs2 where vs2: "keys_loop (mask_with_key (env_sha256 env) (env_aes_ctr env) (env_fuel env) sub session_id spec)
      (\<lambda>_. False) ks vs1 (p + 1 + length ka) = Inr (Some vs2, p + 1 + length ka + length ks)"
      "length vs2 = ?L"
      "\<forall>i < ?L. int (unat (vs2 ! i)) = (int (unat (vs1 ! i)) - masks_total env session_id spec i ks) mod int (unat ?m)"
    using keys_loop_sum [OF env spec sub_law, of ks session_id vs1 "p + 1 + length ka"] drawn vs1(2,3)
    by (auto simp: keys_drawn_def)
  have "vs2 = mask_vector env session_id ka ks spec"
  proof (rule nth_equalityI)
    show "length vs2 = length (mask_vector env session_id ka ks spec)"
      using vs2(2) mask_vector_ok(1) [OF spec] by simp
    fix i assume "i < length vs2"
    then have i: "i < ?L" using vs2(2) by simp
    have "int (unat (vs2 ! i)) = (masks_total env session_id spec i ka mod int (unat ?m)
        - masks_total env session_id spec i ks) mod int (unat ?m)"
      using vs2(3) vs1(4) i by presburger
    also have "\<dots> = int (unat (mask_vector env session_id ka ks spec ! i))"
      by (simp add: mask_vector_ok(3) [OF spec i] mod_simps del: of_nat_unat)
    finally show "vs2 ! i = mask_vector env session_id ka ks spec ! i"
      by (intro unat_eqI) (simp only: of_nat_eq_iff)
  qed
  then show ?thesis
    using vs1(1) vs2(1) by (simp add: spec_masks_def Let_def)
qed

lemma impl_sum:
  assumes env: "mask_env_ok env"
    and specs: "\<forall>spec\<in>set specs. spec_ok spec \<and> keys_drawn env session_id spec (ka @ ks)
      \<and> mk (mask_vector env session_id ka ks spec) (spec_modulus spec) = Inr (f spec)"
    and names: "distinct (map fst acc @ map spec_name specs)"
  shows "MapOfMasksImpl env add sub mk ka ks session_id (\<lambda>_. False) specs p acc
    = Inr (Some (acc @ map (\<lambda>spec. (spec_name spec, f spec)) specs))"
  using specs names
proof (induction specs arbitrary: p acc)
  case (Cons spec specs)
  have "map_of acc (spec_name spec) = None"
    using Cons.prems(2) by (auto simp: map_of_eq_None_iff)
  then have "emplace (spec_name spec) (f spec) acc = acc @ [(spec_name spec, f spec)]"
    by (simp add: emplace_def)
  then show ?case
    using Cons.IH [of "acc @ [(spec_name spec, f spec)]"] Cons.prems spec_masks_sum [OF env, of spec]
    by simp
qed simp

end

interpretation plain_adapter: mod_adapter AddMod SubtractMod
proof
  have m: "unat m \<le> 2 ^ 63" if "modulus_ok m" for m using that by (simp add: modulus_ok_unat)
  have lt: "unat (a mod m) < unat m" if "modulus_ok m" for a m :: uint64
    using that by (simp add: unat_mod_distrib modulus_ok_unat)
  show "op_law AddMod 1"
  proof (unfold op_law_def, intro allI impI conjI)
    fix m a b :: uint64
    assume ok: "modulus_ok m" "a < m" "b < m"
    show "AddMod a b m < m" using lt [OF ok(1)] by (simp add: AddMod_def word_less_nat_alt)
    have "unat a + unat b < 2 ^ 64" using ok m by (simp add: word_less_nat_alt modulus_ok_unat)
    then show "int (unat (AddMod a b m)) = (int (unat a) + 1 * int (unat b)) mod int (unat m)"
      by (simp only: unat_AddMod of_nat_mod of_nat_add mult_1)
  qed
  show "op_law SubtractMod (- 1)"
  proof (unfold op_law_def, intro allI impI conjI)
    fix m a b :: uint64
    assume ok: "modulus_ok m" "a < m" "b < m"
    show "SubtractMod a b m < m" using lt [OF ok(1)] by (simp add: SubtractMod_def word_less_nat_alt)
    have "unat b \<le> unat a + unat m" using ok(3) by (simp add: word_less_nat_alt)
    then have "int (unat (SubtractMod a b m)) = (int (unat a) + int (unat m) - int (unat b)) mod int (unat m)"
      by (simp only: unat_SubtractMod [OF ok(2,3) m [OF ok(1)]] of_nat_mod of_nat_diff of_nat_add)
    also have "\<dots> = (int (unat a) + - 1 * int (unat b) + int (unat m)) mod int (unat m)"
      by (simp add: algebra_simps)
    finally show "int (unat (SubtractMod a b m)) = (int (unat a) + - 1 * int (unat b)) mod int (unat m)"
      by (simp only: mod_add_self2)
  qed
qed

interpretation opt_adapter: mod_adapter AddModOpt SubtractModOpt
proof
  have "AddModOpt a b m = AddMod a b m \<and> SubtractModOpt a b m = SubtractMod a b m"
    if "modulus_ok m" "a < m" "b < m" for a b m
  proof -
    have "unat m \<le> 2 ^ 63" using that(1) by (simp add: modulus_ok_unat)
    then show ?thesis
      using that unat_AddModOpt [of a m b] unat_AddMod [of a b m] unat_SubtractModOpt [of a m b]
        unat_SubtractMod [of a m b]
      by (auto intro!: unat_eqI simp: word_less_nat_alt)
  qed
  then show "op_law AddModOpt 1" "op_law SubtractModOpt (- 1)"
    using plain_adapter.add_law plain_adapter.sub_law by (simp_all add: op_law_def)
qed

section \<open>Sums of packed vectors\<close>

lemma AddVectors_loop_eq:
  "AddVectors_loop n m da db c
     = fold_status WriteValue (map2 (\<lambda>a b. (a + b) mod m) (ReadValues n da) (ReadValues n db)) c"
proof (induction n arbitrary: da db c)
  case (Suc n)
  have "AddVectors_loop n m da' db' = fold_status WriteValue
      (map2 (\<lambda>a b. (a + b) mod m) (ReadValues n da') (ReadValues n db'))" for da' db'
    by (rule ext) (rule Suc.IH)
  then show ?case by (simp add: Let_def split: prod.splits)
qed simp

definition packed_of :: "uint64 \<Rightarrow> uint64 list \<Rightarrow> SecAggVector" where
  "packed_of m es = \<lparr>packed_bytes = le_bytes (num_bytes_needed (length es) (GetBitWidth m)) (vec_val (GetBitWidth m) es),
     sv_modulus = m, sv_bit_width = GetBitWidth m, sv_num_elements = length es, branchless_codec = True\<rparr>"

lemma packed_of_elements:
  assumes "modulus_ok m" "\<forall>e\<in>set es. e < m" "length es * GetBitWidth m \<le> 2147483647"
  shows "packed_ok (packed_of m es)" "packed_elements (packed_of m es) = es"
  using assms decode_packed(1) [OF assms]
  by (simp_all add: packed_ok_def packed_of_def packed_elements_def)

lemma AddVectors_eq:
  assumes a: "packed_ok a" and b: "packed_ok b"
    and same: "sv_modulus a = sv_modulus b" "sv_num_elements a = sv_num_elements b"
  shows "AddVectors a b
    = Inr (packed_of (sv_modulus a) (map2 (\<lambda>v w. (v + w) mod sv_modulus a) (packed_elements a) (packed_elements b)))"
proof -
  let ?m = "sv_modulus a"
  let ?es = "map2 (\<lambda>v w. (v + w) mod ?m) (packed_elements a) (packed_elements b)"
  have m: "modulus_ok ?m" "sv_bit_width a = GetBitWidth ?m"
      "sv_num_elements a * GetBitWidth ?m \<le> 2147483647"
    using a by (auto simp: packed_ok_def)
  have len: "length ?es = sv_num_elements a"
    using packed_elements_ok(1) [OF a] packed_elements_ok(1) [OF b] same(2) by simp
  have "\<forall>e\<in>set ?es. e < ?m"
    using m(1) by (auto simp: word_less_nat_alt unat_mod_distrib modulus_ok_unat)
  from coder_pack [OF m(1) this] show ?thesis
    using m len same
    by (simp add: AddVectors_def AddVectors_loop_eq packed_of_def packed_elements_def)
qed

section \<open>Properties\<close>

fun nth_mask :: "aes_ctr \<Rightarrow> nat \<Rightarrow> PrngBuffer \<Rightarrow> uint64 status_or" where
  "nth_mask aes 0 pb = and_then (NextMask aes pb) (\<lambda>(w, pb). Inr w)"
| "nth_mask aes (Suc k) pb = and_then (NextMask aes pb) (\<lambda>(w, pb). nth_mask aes k pb)"

lemma nth_mask_from:
  "pb_inv aes key msb bpo j pb \<Longrightarrow> (j + k) * bpo \<le> kBlockSize * kMaxBlocks \<Longrightarrow>
   \<exists>w. nth_mask aes k pb = Inr w \<and> unat w = stream_mask aes key msb bpo (j + k)"
proof (induction k arbitrary: j pb)
  case 0
  then show ?case using NextMask_correct [of aes key msb bpo j pb] by auto
next
  case (Suc k)
  have "j * bpo \<le> kBlockSize * kMaxBlocks"
    using Suc.prems(2) by (meson le_add1 le_trans mult_le_mono1)
  then obtain w pb' where "NextMask aes pb = Inr (w, pb')" "pb_inv aes key msb bpo (j + 1) pb'"
    using NextMask_correct [OF Suc.prems(1)] by blast
  then show ?case using Suc.IH [of "j + 1" pb'] Suc.prems(2) by simp
qed

text \<open>
  C29. Buffering is invisible: the \<open>k\<close>-th mask of a fresh \<open>PrngBuffer\<close> exists for every \<open>k\<close> the
  generator's block limit allows and is the \<open>k\<close>-th group of \<open>bytes_per_output\<close> key-stream bytes read
  big endian with its top byte masked, whatever refills happen in between.
\<close>

theorem PrngBuffer_transparent:
  assumes "0 < bpo" "bpo \<le> 8" "k * bpo \<le> 68719476720"
  shows "\<exists>w. and_then (new_PrngBuffer aes key msb bpo) (nth_mask aes k) = Inr w
    \<and> unat w = be_val ((aes key (k * bpo) AND msb) # map (aes key) [k * bpo + 1..<(k + 1) * bpo])"
  using new_PrngBuffer_inv [OF assms(1,2), of aes key msb] nth_mask_from [of aes key msb bpo 0 _ k] assms(3)
  by (auto simp: cache_consts stream_mask_def)

theorem PrngBuffer_transparent_witness:
  "\<exists>w. and_then (new_PrngBuffer (\<lambda>key i. of_nat i) [] 3 2) (nth_mask (\<lambda>key i. of_nat i) 900) = Inr w
    \<and> unat w = be_val (((\<lambda>key i. of_nat i) ([] :: bytes) (900 * 2) AND 3)
         # map ((\<lambda>key i. of_nat i) ([] :: bytes)) [900 * 2 + 1..<(900 + 1) * 2])"
  by (rule PrngBuffer_transparent) simp_all

lemma residues_in_interval:
  fixes m :: nat
  assumes "0 < m" "r < m"
  shows "card {x. t \<le> x \<and> x < t + q * m \<and> x mod m = r} = q"
proof (induction q)
  case (Suc q)
  let ?lo = "t + q * m"
  define x0 where "x0 = ?lo + (r + m - ?lo mod m) mod m"
  have x0: "?lo \<le> x0" "x0 < ?lo + m" using assms(1) by (simp_all add: x0_def)
  have "x0 mod m = (?lo mod m + (r + m - ?lo mod m)) mod m"
    unfolding x0_def by (simp only: mod_add_left_eq mod_add_right_eq)
  also have "?lo mod m + (r + m - ?lo mod m) = r + m" using mod_less_divisor [OF assms(1), of ?lo] by linarith
  finally have x0m: "x0 mod m = r" using assms(2) by simp
  have uniq: "x = x0" if "?lo \<le> x" "x < ?lo + m" "x mod m = r" for x
  proof -
    have "(if x \<le> x0 then x0 - x else x - x0) mod m = 0"
      using that x0m mod_eq_dvd_iff_nat [of x x0 m] mod_eq_dvd_iff_nat [of x0 x m]
      by (auto simp: dvd_eq_mod_eq_0 [symmetric])
    moreover have "(if x \<le> x0 then x0 - x else x - x0) < m" using that x0 by auto
    ultimately show ?thesis by (auto split: if_splits)
  qed
  have "{x. t \<le> x \<and> x < t + Suc q * m \<and> x mod m = r}
      = insert x0 {x. t \<le> x \<and> x < ?lo \<and> x mod m = r}"
  proof (intro set_eqI iffI)
    fix x assume "x \<in> {x. t \<le> x \<and> x < t + Suc q * m \<and> x mod m = r}"
    then show "x \<in> insert x0 {x. t \<le> x \<and> x < ?lo \<and> x mod m = r}"
      using uniq [of x] by (cases "x < ?lo") auto
  next
    fix x assume "x \<in> insert x0 {x. t \<le> x \<and> x < ?lo \<and> x mod m = r}"
    then show "x \<in> {x. t \<le> x \<and> x < t + Suc q * m \<and> x mod m = r}" using x0 x0m by auto
  qed
  moreover have "finite {x. t \<le> x \<and> x < ?lo \<and> x mod m = r}"
    by (rule finite_subset [of _ "{..<?lo}"]) auto
  moreover have "x0 \<notin> {x. t \<le> x \<and> x < ?lo \<and> x mod m = r}" using x0 by simp
  ultimately show ?case using Suc.IH by simp
qed simp

lemma accepted_residues:
  assumes "modulus_ok m" "r < unat m"
  shows "card {x. unat ((push_bit (GetBitWidth m) 1 - m) mod m) \<le> x \<and> x < 2 ^ GetBitWidth m \<and> x mod unat m = r}
    = 2 ^ GetBitWidth m div unat m"
proof -
  let ?b = "GetBitWidth m" and ?q = "2 ^ GetBitWidth m div unat m"
  have m: "0 < unat m" "unat m \<le> 2 ^ ?b" "?b \<le> 62"
    using assms(1) GetBitWidth_bounds [OF assms(1)] by (simp_all add: modulus_ok_unat)
  have u: "unat (push_bit ?b 1 :: uint64) = 2 ^ ?b" using m(3) by (intro unat_push_one) simp
  then have "m \<le> push_bit ?b 1" using m(2) by (simp add: word_le_nat_alt)
  then have "unat ((push_bit ?b 1 - m) mod m) = (2 ^ ?b - unat m) mod unat m"
    by (simp only: unat_mod_distrib unat_sub_le u)
  also have "\<dots> = 2 ^ ?b mod unat m" using m(2) by (rule le_mod_geq [symmetric])
  finally have t: "unat ((push_bit ?b 1 - m) mod m) = 2 ^ ?b mod unat m" .
  have "2 ^ ?b = 2 ^ ?b mod unat m + ?q * unat m" by simp
  then show ?thesis
    unfolding t using residues_in_interval [OF m(1) assms(2), of "2 ^ ?b mod unat m" ?q] by simp
qed

text \<open>A key stream that begins with the bytes of the sample \<open>x\<close>, and the first sample that the buffer takes from it.\<close>

definition one_sample :: "nat \<Rightarrow> nat \<Rightarrow> aes_ctr" where
  "one_sample bpo x key i = (if i < bpo then rev (le_bytes bpo x) ! i else 0)"

lemma one_sample_mask:
  assumes "0 < bpo" "bits = 8 * (bpo - 1) + c" "c \<le> 8" "x < 2 ^ bits"
  shows "stream_mask (one_sample bpo x) key (mask c) bpo 0 = x"
proof -
  let ?bs = "rev (le_bytes bpo x)"
  have bytes: "map (one_sample bpo x key) [0..<bpo] = ?bs" by (rule nth_equalityI) (simp_all add: one_sample_def)
  have len: "length ?bs = bpo" by simp
  then obtain h t where ht: "?bs = h # t" using assms(1) by (cases "rev (le_bytes bpo x)") simp_all
  then have tl: "length t = bpo - 1" using len by (metis diff_Suc_1 length_Cons)
  have "[0..<bpo] = 0 # [1..<bpo]" using assms(1) by (simp add: upt_conv_Cons)
  then have "one_sample bpo x key 0 = h" "map (one_sample bpo x key) [1..<bpo] = t" using bytes ht by simp_all
  moreover have val: "be_val (h # t) = x"
  proof -
    have "bits \<le> 8 * bpo" using assms(1-3) by simp
    then have "(2::nat) ^ bits \<le> 256 ^ bpo" unfolding pow256 by (rule power_increasing) simp
    then show ?thesis using assms(4) ht by (metis be_val_def le_val_le_bytes less_le_trans mod_less rev_rev_ident)
  qed
  moreover have "h AND mask c = h"
  proof (rule unat_eqI)
    have "unat h * 2 ^ (8 * (bpo - 1)) \<le> x" using val tl by (simp add: be_val_Cons pow256)
    also have "x < 2 ^ c * 2 ^ (8 * (bpo - 1))" using assms(2,4) by (simp add: power_add mult.commute)
    finally have "unat h < 2 ^ c" by simp
    then show "unat (h AND mask c) = unat h" by (simp only: unat_and_mask mod_less)
  qed
  ultimately show ?thesis using assms(1) by (simp add: stream_mask_def)
qed

lemma first_mask:
  assumes sha: "\<forall>y. length (sha256 y) = 32" and spec: "spec_length spec = 1" "modulus_ok (spec_modulus spec)"
    and x: "x < 2 ^ GetBitWidth (spec_modulus spec)"
  shows "mask_with_key sha256 (one_sample ((GetBitWidth (spec_modulus spec) + 7) div 8) x) 1 AddMod session_id spec key [0]
    = (if x < unat ((push_bit (GetBitWidth (spec_modulus spec)) 1 - spec_modulus spec) mod spec_modulus spec) then Inl OutOfFuel
       else Inr [of_nat (x mod unat (spec_modulus spec))])"
proof -
  let ?m = "spec_modulus spec"
  define bits where "bits = GetBitWidth ?m"
  define bpo where "bpo = (bits + 7) div 8"
  let ?env = "\<lparr>env_sha256 = sha256, env_aes_ctr = one_sample bpo x, env_fuel = 1\<rparr>"
  have bounds: "0 < bits" "bits \<le> 62" "unat ?m \<le> 2 ^ bits" "0 < unat ?m"
    using GetBitWidth_bounds [OF spec(2)] spec(2) by (simp_all add: bits_def modulus_ok_unat)
  have bpo: "0 < bpo" "bits = 8 * (bpo - 1) + (bits - (bpo - 1) * 8)" "bits - (bpo - 1) * 8 \<le> 8" using bounds(1) by (auto simp: bpo_def)
  have s: "stream_word (one_sample bpo x) k (msb_mask_of bits bpo) bpo 0 = (of_nat x :: uint64)" for k
    using one_sample_mask [OF bpo] x by (simp add: msb_mask_of_def bits_def)
  have "(2::nat) ^ bits \<le> 2 ^ 62" using bounds(2) by (rule power_increasing) simp
  then have x64: "unat (of_nat x :: uint64) = x" using x by (simp add: bits_def [symmetric] unat_of_nat)
  have pow: "unat (push_bit bits 1 :: uint64) = 2 ^ bits" using bounds(2) by (intro unat_push_one) simp
  have lt: "of_nat x mod ?m < ?m" "of_nat x mod ?m = of_nat (x mod unat ?m)"
    using bounds(4) x64 by (simp_all add: word_less_nat_alt unat_mod_distrib unat_eqI) (metis of_nat_unat unat_mod_distrib ucast_id)
  have zero: "AddMod 0 (of_nat x mod ?m) ?m = of_nat x mod ?m"
  proof (rule unat_eqI)
    have z: "(0 :: uint64) < ?m" using bounds(4) by (simp add: word_less_nat_alt)
    have "int (unat (AddMod 0 (of_nat x mod ?m) ?m)) = int (unat (of_nat x mod ?m)) mod int (unat ?m)"
      using op_lawD(2) [OF plain_adapter.add_law spec(2) z lt(1)] by simp
    also have "\<dots> = int (unat (of_nat x mod ?m))"
      using lt(1) unfolding word_less_nat_alt by (simp only: mod_less flip: of_nat_mod)
    finally show "unat (AddMod 0 (of_nat x mod ?m) ?m) = unat (of_nat x mod ?m)" by (simp only: of_nat_eq_iff)
  qed
  define threshold where "threshold = (push_bit bits 1 - ?m) mod ?m"
  have "mask_env_ok ?env" using sha by (simp add: mask_env_ok_def)
  moreover have "spec_ok spec" using spec bounds(2) by (simp add: spec_ok_def bits_def)
  moreover have "\<forall>v\<in>set [0]. v < ?m" using bounds(4) by (simp add: word_less_nat_alt)
  ultimately have run: "mask_with_key sha256 (one_sample bpo x) 1 AddMod session_id spec key [0]
      = (case key_masks ?env session_id spec key of None \<Rightarrow> Inl OutOfFuel | Some ms \<Rightarrow> Inr (apply_masks AddMod ?m [0] ms))"
    using mask_with_key_eq [of ?env spec AddMod 1 "[0]" session_id key] plain_adapter.add_law spec(1) by simp
  have masks: "key_masks ?env session_id spec key = (if of_nat x < threshold then None else Some [of_nat x mod ?m])"
  proof (cases "push_bit bits 1 = ?m")
    case True
    then have "threshold = 0" "of_nat x mod ?m = (of_nat x :: uint64)"
      using x x64 pow by (auto simp: threshold_def bits_def [symmetric] intro!: unat_eqI simp: unat_mod_distrib)
    then show ?thesis using True spec(1) s by (simp add: key_masks_def Let_def flip: bits_def bpo_def)
  next
    case False
    then show ?thesis
      using spec(1) s by (simp add: key_masks_def Let_def threshold_def flip: bits_def bpo_def)
  qed
  have "(of_nat x :: uint64) < threshold \<longleftrightarrow> x < unat threshold" by (simp add: word_less_nat_alt x64)
  then show ?thesis
    using run masks zero lt(2) by (simp add: apply_masks_def threshold_def flip: bits_def bpo_def)
qed

text \<open>
  C30. The masks are uniform: of the \<open>2^bits\<close> samples that a key stream can begin with, each residue \<open>r\<close> modulo the modulus is what
  \<open>mask_with_key\<close> takes as the mask of the first element for the same number of them; the other samples are rejected, and the
  loop asks for another one (with one unit of fuel: it runs out).
\<close>

theorem rejection_sampling_uniform:
  assumes "\<forall>y. length (sha256 y) = 32" "spec_length spec = 1" "modulus_ok (spec_modulus spec)" "r < unat (spec_modulus spec)"
  shows "card {x. x < 2 ^ GetBitWidth (spec_modulus spec)
      \<and> mask_with_key sha256 (one_sample ((GetBitWidth (spec_modulus spec) + 7) div 8) x) 1 AddMod session_id spec key [0] = Inr [of_nat r]}
    = 2 ^ GetBitWidth (spec_modulus spec) div unat (spec_modulus spec)"
proof -
  let ?m = "spec_modulus spec"
  have "(of_nat (x mod unat ?m) :: uint64) = of_nat r \<longleftrightarrow> x mod unat ?m = r" for x
  proof -
    have m: "0 < unat ?m" "unat ?m < 2 ^ 64" using assms(3) by (simp_all add: modulus_ok_unat)
    then have "x mod unat ?m < 2 ^ 64" "r < 2 ^ 64" using assms(4) mod_less_divisor [OF m(1), of x] by linarith+
    then have "unat (of_nat (x mod unat ?m) :: uint64) = x mod unat ?m" "unat (of_nat r :: uint64) = r"
      by (simp_all add: unat_of_nat)
    then show ?thesis by metis
  qed
  then have "{x. x < 2 ^ GetBitWidth ?m
      \<and> mask_with_key sha256 (one_sample ((GetBitWidth ?m + 7) div 8) x) 1 AddMod session_id spec key [0] = Inr [of_nat r]}
    = {x. unat ((push_bit (GetBitWidth ?m) 1 - ?m) mod ?m) \<le> x \<and> x < 2 ^ GetBitWidth ?m \<and> x mod unat ?m = r}"
    using first_mask [OF assms(1-3)] by (auto split: if_splits)
  then show ?thesis using accepted_residues [OF assms(3,4)] by simp
qed

theorem rejection_sampling_uniform_witness:
  "card {x. x < 2 ^ GetBitWidth 5
      \<and> mask_with_key (\<lambda>_. replicate 32 0) (one_sample ((GetBitWidth 5 + 7) div 8) x) 1 AddMod [1]
          \<lparr>spec_name = [2], spec_length = 1, spec_modulus = 5\<rparr> [3] [0] = Inr [of_nat 4]} = 2 ^ GetBitWidth 5 div unat (5 :: uint64)"
  using rejection_sampling_uniform [of "\<lambda>_. replicate 32 0" "\<lparr>spec_name = [2], spec_length = 1, spec_modulus = 5\<rparr>" 4 "[1]" "[3]"]
  by (simp add: modulus_ok_def kMaxModulus_def)

lemma mask_vector_span:
  assumes "spec_ok spec"
  shows "SecAggVector_of_span (mask_vector env session_id ka ks spec) (spec_modulus spec) False
    = Inr (packed_of (spec_modulus spec) (mask_vector env session_id ka ks spec) \<lparr>branchless_codec := False\<rparr>)"
proof -
  let ?vs = "mask_vector env session_id ka ks spec" and ?m = "spec_modulus spec"
  have m: "modulus_ok ?m" "1 < ?m \<and> ?m \<le> kMaxModulus" using assms by (simp_all add: spec_ok_def modulus_ok_def)
  have "length ?vs * GetBitWidth ?m \<le> 2147483647"
    using assms mask_vector_ok(1) [OF assms] by (simp add: spec_ok_def)
  from plain_pack [OF m(1) mask_vector_ok(2) [OF assms] this] show ?thesis
    using m(2) mask_vector_ok(2) [OF assms]
    by (simp add: SecAggVector_of_span_def Let_def packed_of_def list_all_iff)
qed

text \<open>
  C6. \<open>UnpackedMapOfMasks\<close> returns, for every input vector, the sum of the masks of the keys
  to add minus the sum of the masks of the keys to subtract, modulo the vector's modulus, and
  \<open>MapOfMasks\<close> and \<open>MapOfMasksV3\<close> return the same vectors in packed form.
\<close>

theorem map_of_masks_correct:
  assumes "mask_env_ok env" "\<forall>spec\<in>set specs. spec_ok spec \<and> keys_drawn env session_id spec (ka @ ks)"
    and "distinct (map spec_name specs)"
  shows "UnpackedMapOfMasks env ka ks specs session_id (\<lambda>_. False)
      = Inr (Some (map (\<lambda>spec. (spec_name spec,
          \<lparr>elements = mask_vector env session_id ka ks spec, uv_modulus = spec_modulus spec\<rparr>)) specs))
    \<and> MapOfMasks env ka ks specs session_id (\<lambda>_. False)
      = Inr (Some (map (\<lambda>spec. (spec_name spec,
          packed_of (spec_modulus spec) (mask_vector env session_id ka ks spec) \<lparr>branchless_codec := False\<rparr>)) specs))
    \<and> MapOfMasksV3 env ka ks specs session_id (\<lambda>_. False) = MapOfMasks env ka ks specs session_id (\<lambda>_. False)"
proof -
  note u = opt_adapter.impl_sum [OF assms(1), of specs session_id ka ks
      "\<lambda>vs m. Inr \<lparr>elements = vs, uv_modulus = m\<rparr>"
      "\<lambda>spec. \<lparr>elements = mask_vector env session_id ka ks spec, uv_modulus = spec_modulus spec\<rparr>" "[]" 0]
  note p = plain_adapter.impl_sum [OF assms(1), of specs session_id ka ks
      "\<lambda>vs m. SecAggVector_of_span vs m False"
      "\<lambda>spec. packed_of (spec_modulus spec) (mask_vector env session_id ka ks spec) \<lparr>branchless_codec := False\<rparr>" "[]" 0]
  note v3 = opt_adapter.impl_sum [OF assms(1), of specs session_id ka ks
      "\<lambda>vs m. SecAggVector_of_span vs m False"
      "\<lambda>spec. packed_of (spec_modulus spec) (mask_vector env session_id ka ks spec) \<lparr>branchless_codec := False\<rparr>" "[]" 0]
  show ?thesis
    using u p v3 assms(2,3) mask_vector_span
    by (simp add: UnpackedMapOfMasks_def MapOfMasks_def MapOfMasksV3_def)
qed

theorem map_of_masks_correct_witness:
  "let env = \<lparr>env_sha256 = \<lambda>_. replicate 32 0, env_aes_ctr = \<lambda>key i. of_nat (7 * i), env_fuel = 10\<rparr>;
       spec = \<lparr>spec_name = [1], spec_length = 2, spec_modulus = 8\<rparr>
   in UnpackedMapOfMasks env [[1]] [[2], [3]] [spec] [9] (\<lambda>_. False)
      = Inr (Some [([1], \<lparr>elements = mask_vector env [9] [[1]] [[2], [3]] spec, uv_modulus = 8\<rparr>)])"
proof -
  let ?env = "\<lparr>env_sha256 = \<lambda>_. replicate 32 0, env_aes_ctr = \<lambda>key i. of_nat (7 * i), env_fuel = 10\<rparr>"
  let ?spec = "\<lparr>spec_name = [1], spec_length = 2, spec_modulus = 8\<rparr>"
  have b: "GetBitWidth 8 = 3" by (simp add: GetBitWidth_def bit_width.simps)
  have "mask_env_ok ?env" by (simp add: mask_env_ok_def)
  moreover have "\<forall>spec\<in>set [?spec]. spec_ok spec \<and> keys_drawn ?env [9] spec ([[1]] @ [[2], [3]])"
    by (simp add: spec_ok_def modulus_ok_def kMaxModulus_def keys_drawn_def key_masks_def Let_def b)
  moreover have "distinct (map spec_name [?spec])" by simp
  ultimately show ?thesis
    using map_of_masks_correct [of ?env "[?spec]" "[9]" "[[1]]" "[[2], [3]]"] by (simp add: Let_def)
qed

text \<open>
  C34. \<open>AddVectors\<close> adds two packed vectors of the same shape: it passes its check, writes
  inside its buffer, and its result is a well-formed vector with the elementwise sums.
\<close>

theorem AddVectors_correct:
  assumes "packed_ok a" "packed_ok b" "sv_modulus a = sv_modulus b" "sv_num_elements a = sv_num_elements b"
  shows "\<exists>c. AddVectors a b = Inr c \<and> packed_ok c \<and> sv_num_elements c = sv_num_elements a
    \<and> (\<forall>i < sv_num_elements a. unat (packed_elements c ! i)
         = (unat (packed_elements a ! i) + unat (packed_elements b ! i)) mod unat (sv_modulus a))"
proof -
  let ?m = "sv_modulus a"
  let ?es = "map2 (\<lambda>v w. (v + w) mod ?m) (packed_elements a) (packed_elements b)"
  have len: "length ?es = sv_num_elements a"
    using packed_elements_ok(1) [OF assms(1)] packed_elements_ok(1) [OF assms(2)] assms(4) by simp
  have m: "modulus_ok ?m" "sv_num_elements a * GetBitWidth ?m \<le> 2147483647"
    using assms(1) by (auto simp: packed_ok_def)
  have "\<forall>e\<in>set ?es. e < ?m"
    using m(1) by (auto simp: word_less_nat_alt unat_mod_distrib modulus_ok_unat)
  note p = packed_of_elements [OF m(1) this]
  have "unat (?es ! i) = (unat (packed_elements a ! i) + unat (packed_elements b ! i)) mod unat ?m"
    if "i < sv_num_elements a" for i
  proof -
    have l: "length (packed_elements a) = sv_num_elements a" "length (packed_elements b) = sv_num_elements a"
      using packed_elements_ok(1) [OF assms(1)] packed_elements_ok(1) [OF assms(2)] assms(4) by simp_all
    then have "packed_elements a ! i < ?m" "packed_elements b ! i < ?m"
      using packed_elements_ok(2) [OF assms(1)] packed_elements_ok(2) [OF assms(2)] assms(3) that by auto
    then have "unat (packed_elements a ! i) + unat (packed_elements b ! i) < 18446744073709551616"
      using m(1) by (simp add: word_less_nat_alt modulus_ok_unat)
    then show ?thesis using that l by (simp add: unat_mod_distrib unat_add_small)
  qed
  then show ?thesis
    using AddVectors_eq [OF assms] p len m(2) by (auto simp: packed_of_def)
qed

theorem AddVectors_correct_witness:
  "\<exists>c. AddVectors (packed_of 5 [3, 4]) (packed_of 5 [4, 4]) = Inr c \<and> packed_ok c
    \<and> unat (packed_elements c ! 0) = 2 \<and> unat (packed_elements c ! 1) = 3"
proof -
  have b: "GetBitWidth 5 = 3" by (simp add: GetBitWidth_def bit_width.simps)
  have ok: "packed_ok (packed_of 5 [3, 4])" "packed_ok (packed_of 5 [4, 4])"
    by (intro packed_of_elements; simp add: modulus_ok_def kMaxModulus_def b)+
  have es: "packed_elements (packed_of 5 [3, 4]) = [3, 4]" "packed_elements (packed_of 5 [4, 4]) = [4, 4]"
    by (intro packed_of_elements; simp add: modulus_ok_def kMaxModulus_def b)+
  have shape: "sv_modulus (packed_of 5 [3, 4]) = 5" "sv_modulus (packed_of 5 [4, 4]) = 5"
    "sv_num_elements (packed_of 5 [3, 4]) = 2" "sv_num_elements (packed_of 5 [4, 4]) = 2"
    by (simp_all add: packed_of_def)
  obtain c where c: "AddVectors (packed_of 5 [3, 4]) (packed_of 5 [4, 4]) = Inr c" "packed_ok c"
      "\<forall>i<2. unat (packed_elements c ! i) = (unat ([3, 4 :: uint64] ! i) + unat ([4, 4 :: uint64] ! i)) mod unat (5 :: uint64)"
    using AddVectors_correct [OF ok] unfolding shape es by auto
  then have "unat (packed_elements c ! 0) = 2" "unat (packed_elements c ! 1) = 3" by simp_all
  then show ?thesis using c by blast
qed

end
