(* ===== verification/SecAgg_Messages.thy ===== *)
theory SecAgg_Messages
  imports SecAgg_Vector
begin

text \<open>
  The messages of \<open>fcp/secagg/shared/secagg_messages.proto\<close>. A \<open>oneof\<close> is a datatype, a
  repeated field a list, a map field an association list in iteration order. The
  \<open>extra_data\<close> fields are read by no code of the repository and left out.
\<close>

record PairOfPublicKeys =
  noise_pk :: bytes
  enc_pk :: bytes

record ShareKeysRequest =
  pairs_of_public_keys :: "PairOfPublicKeys list"
  sec_agg_execution_logging_id :: int
  request_session_id :: bytes

record AbortMessage =
  diagnostic_info :: string
  early_success :: bool

datatype NoiseOrPrfKeyShare = noise_sk_share bytes | prf_sk_share bytes | ONEOF_SHARES_NOT_SET

type_synonym encrypted_key_shares = "bytes list"
type_synonym MaskedInputCollectionResponse = "(bytes \<times> bytes) list"

datatype ServerToClientWrapperMessage =
  S2C_abort AbortMessage
| S2C_share_keys_request ShareKeysRequest
| S2C_masked_input_request encrypted_key_shares
| S2C_unmasking_request "uint32 list"
| S2C_NOT_SET

datatype ClientToServerWrapperMessage =
  C2S_abort AbortMessage
| C2S_advertise_keys PairOfPublicKeys
| C2S_share_keys_response encrypted_key_shares
| C2S_masked_input_response MaskedInputCollectionResponse
| C2S_unmasking_response "NoiseOrPrfKeyShare list"
| C2S_NOT_SET

end
