(* ===== verification/SecAgg_Keys.thy ===== *)
theory SecAgg_Keys
  imports Shamir Map_Of_Masks SecAgg_Messages
begin

text \<open>
  \<open>key.h\<close>, \<open>aes_key\<close>, \<open>ecdh_keys.h\<close>, \<open>ecdh_key_agreement\<close>, \<open>aes_gcm_encryption\<close> and
  \<open>compute_session_id\<close> of \<open>fcp/secagg/shared\<close>. A key is its byte string, as in the class
  \<open>Key\<close>. The curve arithmetic, AES-GCM and the generated protobuf code are not part of the
  repository: they are the fields of the record \<open>crypto\<close>, and \<open>ecdh_law\<close>, \<open>gcm_law\<close> and
  \<open>proto_law\<close> state what their documentation promises. Big numbers and curve points are
  handled by those functions only; naturals stand for them.
\<close>

section \<open>The libraries\<close>

type_synonym BIGNUM = nat
type_synonym EC_POINT = nat

record crypto = mask_env +
  BN_bin2bn :: "bytes \<Rightarrow> BIGNUM"
  BN_bn2bin_padded :: "nat \<Rightarrow> BIGNUM \<Rightarrow> bytes option"
  EC_KEY_set_private_key :: "BIGNUM \<Rightarrow> bool"
  EC_POINT_oct2point :: "bytes \<Rightarrow> EC_POINT option"
  EC_POINT_point2oct :: "EC_POINT \<Rightarrow> bytes"
  EC_KEY_check_key :: "BIGNUM \<Rightarrow> EC_POINT \<Rightarrow> bool"
  ECDH_compute_key :: "EC_POINT \<Rightarrow> BIGNUM \<Rightarrow> bytes"
  EVP_AEAD_CTX_seal :: "bytes \<Rightarrow> bytes \<Rightarrow> bytes \<Rightarrow> bytes option"
  EVP_AEAD_CTX_open :: "bytes \<Rightarrow> bytes \<Rightarrow> bytes \<Rightarrow> bytes option"
  SerializePair :: "bytes \<Rightarrow> bytes \<Rightarrow> bytes"
  ParsePair :: "bytes \<Rightarrow> (bytes \<times> bytes) option"

section \<open>AES keys\<close>

definition kLegacyKeySize :: nat where "kLegacyKeySize = 17"

definition new_AesKey :: "bytes \<Rightarrow> int \<Rightarrow> bytes status_or" where
  "new_AesKey data key_size =
     fcp_check (key_size > 0 \<and> key_size \<le> 17 \<or> key_size = 32) (Inr (take (nat key_size) data))"

fun share_key_length :: "ShamirShare list \<Rightarrow> nat status_or" where
  "share_key_length [] = Inr 0"
| "share_key_length (share # shares) =
     (if length (share_data share) = 36 then Inr AesKey_kSize
      else if length (share_data share) = 20 then Inr kLegacyKeySize
      else fcp_check (share_data share = []) (share_key_length shares))"

text \<open>The loop that skips the leading zero bytes a Java \<open>BigInteger\<close> does not need.\<close>

function legacy_index :: "bytes \<Rightarrow> nat \<Rightarrow> nat" where
  "legacy_index key index =
     (if index < kLegacyKeySize - 1 \<and> key ! index = 0 \<and> key ! (index + 1) \<le> 127
      then legacy_index key (index + 1) else index)"
  by pat_completeness auto
termination
  by (relation "measure (\<lambda>(key, index). kLegacyKeySize - index)") auto

declare legacy_index.simps [simp del]

definition CreateFromShares :: "ShamirShare list \<Rightarrow> int \<Rightarrow> bytes status_or" where
  "CreateFromShares shares threshold =
     and_then (share_key_length shares) (\<lambda>key_length.
     fcp_check (key_length \<noteq> 0)
    (and_then (Reconstruct new_ShamirSecretSharing threshold shares (int key_length)) (\<lambda>(reconstructed, _).
       if key_length = kLegacyKeySize then
         let index = legacy_index reconstructed 0
         in new_AesKey (drop index reconstructed) (int key_length - int index)
       else new_AesKey reconstructed (int key_length))))"

section \<open>Key agreement\<close>

definition EcdhPrivateKey_kSize :: nat where "EcdhPrivateKey_kSize = 32"
definition EcdhPublicKey_kSize :: nat where "EcdhPublicKey_kSize = 33"
definition EcdhPublicKey_kUncompressedSize :: nat where "EcdhPublicKey_kUncompressedSize = 65"

record EcdhKeyAgreement =
  ec_private :: BIGNUM
  ec_public :: "EC_POINT option"

definition CreateFromRandomKeys :: "crypto \<Rightarrow> BIGNUM \<times> EC_POINT \<Rightarrow> EcdhKeyAgreement status_or" where
  "CreateFromRandomKeys c generated =
     (if EC_KEY_check_key c (fst generated) (snd generated)
      then Inr \<lparr>ec_private = fst generated, ec_public = Some (snd generated)\<rparr>
      else Inl (Status INTERNAL ''''))"

definition CreateFromPrivateKey :: "crypto \<Rightarrow> bytes \<Rightarrow> EcdhKeyAgreement status_or" where
  "CreateFromPrivateKey c private_key =
     (if length private_key \<noteq> EcdhPrivateKey_kSize
      then Inl (Status INVALID_ARGUMENT ''Private key must be of length 32'')
      else
        let private_key_bn = BN_bin2bn c private_key
        in if \<not> EC_KEY_set_private_key c private_key_bn
           then Inl (Status INVALID_ARGUMENT ''Invalid private key.'')
           else Inr \<lparr>ec_private = private_key_bn, ec_public = None\<rparr>)"

definition public_key_size_ok :: "bytes \<Rightarrow> bool" where
  "public_key_size_ok pk \<longleftrightarrow>
     length pk = EcdhPublicKey_kSize \<or> length pk = EcdhPublicKey_kUncompressedSize"

text \<open>\<open>EC_KEY_set_public_key\<close> fails with the error of \<open>EC_POINT_oct2point\<close>; the parameter \<open>EC_POINT_oct2point\<close> stands for both.\<close>

definition CreateFromKeypair :: "crypto \<Rightarrow> bytes \<Rightarrow> bytes \<Rightarrow> EcdhKeyAgreement status_or" where
  "CreateFromKeypair c private_key public_key =
     (if \<not> public_key_size_ok public_key
      then Inl (Status INVALID_ARGUMENT ''Public key must be of length 33 or 65'')
      else
        and_then (CreateFromPrivateKey c private_key) (\<lambda>ecdh.
          case EC_POINT_oct2point c public_key of
            None \<Rightarrow> Inl (Status INVALID_ARGUMENT ''Invalid public key.'')
          | Some point \<Rightarrow>
              if EC_KEY_check_key c (ec_private ecdh) point
              then Inr (ecdh\<lparr>ec_public := Some point\<rparr>)
              else Inl (Status INVALID_ARGUMENT ''Invalid keypair.'')))"

definition PrivateKey :: "crypto \<Rightarrow> EcdhKeyAgreement \<Rightarrow> bytes status_or" where
  "PrivateKey c ecdh =
     (case BN_bn2bin_padded c EcdhPrivateKey_kSize (ec_private ecdh) of
        None \<Rightarrow> Inl CheckFailed | Some private_key \<Rightarrow> Inr private_key)"

definition PublicKey :: "crypto \<Rightarrow> EcdhKeyAgreement \<Rightarrow> bytes status_or" where
  "PublicKey c ecdh =
     (case ec_public ecdh of
        None \<Rightarrow> Inr []
      | Some point \<Rightarrow>
          let public_key = EC_POINT_point2oct c point
          in fcp_check (length public_key = EcdhPublicKey_kSize) (Inr public_key))"

definition ComputeSharedSecret :: "crypto \<Rightarrow> EcdhKeyAgreement \<Rightarrow> bytes \<Rightarrow> bytes status_or" where
  "ComputeSharedSecret c ecdh other_key =
     (if \<not> public_key_size_ok other_key
      then Inl (Status INVALID_ARGUMENT ''Public key must be of length 33 or 65'')
      else case EC_POINT_oct2point c other_key of
          None \<Rightarrow> Inl (Status INVALID_ARGUMENT ''Invalid ECDH public key.'')
        | Some other_point \<Rightarrow>
            new_AesKey (ECDH_compute_key c other_point (ec_private ecdh)) (int AesKey_kSize))"

section \<open>Encryption of key shares\<close>

definition kIvSize :: nat where "kIvSize = 12"
definition kTagSize :: nat where "kTagSize = 16"

text \<open>\<open>iv\<close> is what \<open>RAND_bytes\<close> writes.\<close>

definition Encrypt :: "crypto \<Rightarrow> bytes \<Rightarrow> bytes \<Rightarrow> bytes \<Rightarrow> bytes status_or" where
  "Encrypt c iv key plaintext =
     fcp_check (length key \<noteq> 0) (fcp_check (length key = AesKey_kSize)
       (case EVP_AEAD_CTX_seal c key iv plaintext of
          None \<Rightarrow> Inl CheckFailed | Some sealed \<Rightarrow> Inr (iv @ sealed)))"

definition Decrypt :: "crypto \<Rightarrow> bytes \<Rightarrow> bytes \<Rightarrow> bytes status_or" where
  "Decrypt c key ciphertext =
     fcp_check (length key \<noteq> 0) (fcp_check (length key = AesKey_kSize)
       (if length ciphertext < kIvSize + kTagSize
        then Inl (Status DATA_LOSS ''Ciphertext is too short.'')
        else case EVP_AEAD_CTX_open c key (take kIvSize ciphertext) (drop kIvSize ciphertext) of
            None \<Rightarrow> Inl (Status DATA_LOSS ''Verification of ciphertext failed.'')
          | Some plaintext \<Rightarrow> Inr plaintext))"

section \<open>Session id\<close>

definition kSha256Length :: nat where "kSha256Length = 32"

definition session_id_chunk :: "PairOfPublicKeys \<Rightarrow> bytes" where
  "session_id_chunk keys =
     (let noise_pk_size_data = IntToByteString (of_nat (length (noise_pk keys)));
          enc_pk_size_data = IntToByteString (of_nat (length (noise_pk keys)))
      in noise_pk_size_data @ noise_pk keys @ enc_pk_size_data @ enc_pk keys)"

definition ComputeSessionId :: "sha256 \<Rightarrow> ShareKeysRequest \<Rightarrow> bytes status_or" where
  "ComputeSessionId sha256 request =
     (let digest = sha256 (concat (map session_id_chunk (pairs_of_public_keys request)))
      in fcp_check (length digest = kSha256Length) (Inr digest))"

section \<open>What the libraries promise\<close>

text \<open>
  \<open>ecdh_law\<close>: valid key pairs survive their byte representations, and both sides of an
  exchange compute the same 32 bytes. \<open>gcm_law\<close>: a sealed text is 16 bytes longer and opens
  to itself. \<open>proto_law\<close>: a serialised pair of shares parses back.
\<close>

definition ecdh_law :: "crypto \<Rightarrow> bool" where
  "ecdh_law c \<longleftrightarrow> (\<forall>a A. EC_KEY_check_key c a A \<longrightarrow>
     length (EC_POINT_point2oct c A) = 33
     \<and> EC_POINT_oct2point c (EC_POINT_point2oct c A) = Some A
     \<and> (\<exists>bs. BN_bn2bin_padded c 32 a = Some bs \<and> length bs = 32 \<and> BN_bin2bn c bs = a)
     \<and> EC_KEY_set_private_key c a
     \<and> (\<forall>b B. EC_KEY_check_key c b B \<longrightarrow>
          ECDH_compute_key c B a = ECDH_compute_key c A b \<and> length (ECDH_compute_key c B a) = 32))"

definition gcm_law :: "crypto \<Rightarrow> bool" where
  "gcm_law c \<longleftrightarrow> (\<forall>key iv p. length key = 32 \<longrightarrow> length iv = 12 \<longrightarrow>
     (\<exists>s. EVP_AEAD_CTX_seal c key iv p = Some s \<and> length s = length p + 16
        \<and> EVP_AEAD_CTX_open c key iv s = Some p))"

definition proto_law :: "crypto \<Rightarrow> bool" where
  "proto_law c \<longleftrightarrow> (\<forall>a b. ParsePair c (SerializePair c a b) = Some (a, b))"

lemmas size_defs = AesKey_kSize_def kLegacyKeySize_def EcdhPrivateKey_kSize_def EcdhPublicKey_kSize_def
  EcdhPublicKey_kUncompressedSize_def kIvSize_def kTagSize_def kSha256Length_def

lemma new_AesKey_32 [simp]: "length key = 32 \<Longrightarrow> new_AesKey key 32 = Inr key"
  by (simp add: new_AesKey_def)

text \<open>A participant that holds a valid key pair.\<close>

definition agreement_ok :: "crypto \<Rightarrow> EcdhKeyAgreement \<Rightarrow> bool" where
  "agreement_ok c ecdh \<longleftrightarrow>
     (\<exists>A. ec_public ecdh = Some A \<and> EC_KEY_check_key c (ec_private ecdh) A)"

lemma CreateFromRandomKeys_ok: "CreateFromRandomKeys c g = Inr ecdh \<Longrightarrow> agreement_ok c ecdh"
  by (auto simp: CreateFromRandomKeys_def agreement_ok_def split: if_splits)

lemma ecdh_lawD:
  assumes "ecdh_law c" "EC_KEY_check_key c a A"
  shows "length (EC_POINT_point2oct c A) = 33" "EC_POINT_oct2point c (EC_POINT_point2oct c A) = Some A"
    "\<exists>bs. BN_bn2bin_padded c 32 a = Some bs \<and> length bs = 32 \<and> BN_bin2bn c bs = a"
    "EC_KEY_set_private_key c a"
    "EC_KEY_check_key c b B \<Longrightarrow> ECDH_compute_key c B a = ECDH_compute_key c A b"
    "EC_KEY_check_key c b B \<Longrightarrow> length (ECDH_compute_key c B a) = 32"
  using assms(1) [unfolded ecdh_law_def, THEN spec, THEN spec, THEN mp, OF assms(2)] by blast+

lemma PublicKey_ok:
  assumes "ecdh_law c" "agreement_ok c ecdh"
  obtains A where "PublicKey c ecdh = Inr (EC_POINT_point2oct c A)" "length (EC_POINT_point2oct c A) = 33"
    "EC_KEY_check_key c (ec_private ecdh) A" "EC_POINT_oct2point c (EC_POINT_point2oct c A) = Some A"
    "ec_public ecdh = Some A"
proof -
  obtain A where A: "ec_public ecdh = Some A" "EC_KEY_check_key c (ec_private ecdh) A"
    using assms(2) by (auto simp: agreement_ok_def)
  then show thesis
    using that ecdh_lawD(1,2) [OF assms(1) A(2)] by (simp add: PublicKey_def size_defs Let_def)
qed

lemma ComputeSharedSecret_valid:
  assumes "ecdh_law c" "agreement_ok c ecdh" "EC_KEY_check_key c b B"
  shows "ComputeSharedSecret c ecdh (EC_POINT_point2oct c B) = Inr (ECDH_compute_key c B (ec_private ecdh))"
    and "length (ECDH_compute_key c B (ec_private ecdh)) = 32"
proof -
  obtain A where A: "EC_KEY_check_key c (ec_private ecdh) A"
    using assms(2) by (auto simp: agreement_ok_def)
  show len: "length (ECDH_compute_key c B (ec_private ecdh)) = 32"
    by (rule ecdh_lawD(6) [OF assms(1) A assms(3)])
  show "ComputeSharedSecret c ecdh (EC_POINT_point2oct c B) = Inr (ECDH_compute_key c B (ec_private ecdh))"
    using len ecdh_lawD(1,2) [OF assms(1,3)] by (simp add: ComputeSharedSecret_def public_key_size_ok_def size_defs)
qed

lemma ComputeSharedSecret_sym:
  assumes "ecdh_law c" "agreement_ok c x" "agreement_ok c y" "PublicKey c x = Inr pk_x" "PublicKey c y = Inr pk_y"
  shows "\<exists>k. ComputeSharedSecret c x pk_y = Inr k \<and> ComputeSharedSecret c y pk_x = Inr k \<and> length k = 32"
proof -
  obtain A where A: "pk_x = EC_POINT_point2oct c A" "EC_KEY_check_key c (ec_private x) A"
    using PublicKey_ok [OF assms(1,2)] assms(4) by auto
  obtain B where B: "pk_y = EC_POINT_point2oct c B" "EC_KEY_check_key c (ec_private y) B"
    using PublicKey_ok [OF assms(1,3)] assms(5) by auto
  have "ECDH_compute_key c B (ec_private x) = ECDH_compute_key c A (ec_private y)"
    by (rule ecdh_lawD(5) [OF assms(1) A(2) B(2)])
  then show ?thesis
    using ComputeSharedSecret_valid [OF assms(1,2) B(2)] ComputeSharedSecret_valid [OF assms(1,3) A(2)] A B by simp
qed

lemma CreateFromKeypair_own:
  assumes "ecdh_law c" "agreement_ok c x" "PrivateKey c x = Inr sk" "PublicKey c x = Inr pk"
  shows "CreateFromKeypair c sk pk = Inr x"
proof -
  obtain A where A: "pk = EC_POINT_point2oct c A" "length pk = 33" "EC_KEY_check_key c (ec_private x) A"
      "EC_POINT_oct2point c pk = Some A" "ec_public x = Some A"
    using PublicKey_ok [OF assms(1,2)] assms(4) by auto
  obtain bs where "BN_bn2bin_padded c 32 (ec_private x) = Some bs" "length bs = 32"
      "BN_bin2bn c bs = ec_private x" "EC_KEY_set_private_key c (ec_private x)"
    using ecdh_lawD(3,4) [OF assms(1) A(3)] by blast
  then show ?thesis
    using A assms(3) by (simp add: CreateFromKeypair_def public_key_size_ok_def size_defs
        CreateFromPrivateKey_def PrivateKey_def)
qed

lemma Decrypt_Encrypt:
  assumes "gcm_law c" "length key = 32" "length iv = 12"
  shows "\<exists>e. Encrypt c iv key plaintext = Inr e \<and> length e = length plaintext + 28
    \<and> Decrypt c key e = Inr plaintext"
proof -
  obtain s where "EVP_AEAD_CTX_seal c key iv plaintext = Some s" "length s = length plaintext + 16"
      "EVP_AEAD_CTX_open c key iv s = Some plaintext"
    using assms unfolding gcm_law_def by blast
  then show ?thesis using assms by (simp add: Encrypt_def Decrypt_def size_defs)
qed

section \<open>A model of the libraries\<close>

text \<open>
  An instance of \<open>crypto\<close> that satisfies the three laws, with multiplication for the group:
  the witnesses of the properties are evaluated on it.
\<close>

fun parse_sample :: "bytes \<Rightarrow> (bytes \<times> bytes) option" where
  "parse_sample (x # y # bs) =
     (if x = 0 then Some ([], y # bs) else map_option (\<lambda>(a, b). (y # a, b)) (parse_sample bs))"
| "parse_sample [x] = (if x = 0 then Some ([], []) else None)"
| "parse_sample [] = None"

definition sample_crypto :: crypto where
  "sample_crypto = \<lparr>env_sha256 = \<lambda>_. replicate 32 0, env_aes_ctr = \<lambda>key i. hd (key @ [0]) + of_nat (7 * i),
     env_fuel = 100,
     BN_bin2bn = \<lambda>bs. be_val bs, BN_bn2bin_padded = \<lambda>n v. if v < 256 ^ n then Some (rev (le_bytes n v)) else None,
     EC_KEY_set_private_key = \<lambda>v. v < 256 ^ 32,
     EC_POINT_oct2point = \<lambda>bs. if length bs = 33 \<and> hd bs = 2 then Some (be_val (tl bs)) else None,
     EC_POINT_point2oct = \<lambda>A. 2 # rev (le_bytes 32 A),
     EC_KEY_check_key = \<lambda>a A. A = a \<and> a < 256 ^ 32,
     ECDH_compute_key = \<lambda>B a. rev (le_bytes 32 (a * B)),
     EVP_AEAD_CTX_seal = \<lambda>key iv p. Some (p @ replicate 16 0),
     EVP_AEAD_CTX_open = \<lambda>key iv s. if drop (length s - 16) s = replicate 16 0
       then Some (take (length s - 16) s) else None,
     SerializePair = \<lambda>a b. concat (map (\<lambda>x. [1, x]) a) @ 0 # b,
     ParsePair = parse_sample\<rparr>"

lemma parse_sample_serialize: "parse_sample (concat (map (\<lambda>x. [1, x]) a) @ 0 # b) = Some (a, b)"
  by (induction a) (cases b; simp)+

lemma sample_crypto_laws: "ecdh_law sample_crypto" "gcm_law sample_crypto" "proto_law sample_crypto"
proof -
  show "ecdh_law sample_crypto"
    by (auto simp: ecdh_law_def sample_crypto_def be_val_def le_val_le_bytes mult.commute)
  show "gcm_law sample_crypto" by (simp add: gcm_law_def sample_crypto_def)
  show "proto_law sample_crypto" by (simp add: proto_law_def sample_crypto_def parse_sample_serialize)
qed

section \<open>Legacy keys\<close>



section \<open>Properties\<close>

text \<open>
  Two participants with key pairs from \<open>CreateFromRandomKeys\<close> compute the same 32-byte
  shared secret, and whoever rebuilds one participant from its exported private and public
  key (as the server does for a client that dropped out) gets that participant back.
\<close>

lemma shared_secret_agreement:
  assumes "ecdh_law c" "CreateFromRandomKeys c g1 = Inr x" "CreateFromRandomKeys c g2 = Inr y"
  shows "\<exists>k pk_x pk_y sk_x. PublicKey c x = Inr pk_x \<and> PublicKey c y = Inr pk_y \<and> PrivateKey c x = Inr sk_x
    \<and> ComputeSharedSecret c x pk_y = Inr k \<and> ComputeSharedSecret c y pk_x = Inr k \<and> length k = 32
    \<and> CreateFromKeypair c sk_x pk_x = Inr x"
proof -
  note x = CreateFromRandomKeys_ok [OF assms(2)] and y = CreateFromRandomKeys_ok [OF assms(3)]
  obtain pk_x pk_y where pk: "PublicKey c x = Inr pk_x" "PublicKey c y = Inr pk_y"
    using PublicKey_ok [OF assms(1) x] PublicKey_ok [OF assms(1) y] by metis
  obtain A where A: "EC_KEY_check_key c (ec_private x) A" using PublicKey_ok [OF assms(1) x] by metis
  obtain sk where sk: "PrivateKey c x = Inr sk"
    using ecdh_lawD(3) [OF assms(1) A] by (auto simp: PrivateKey_def size_defs)
  show ?thesis
    using ComputeSharedSecret_sym [OF assms(1) x y pk] CreateFromKeypair_own [OF assms(1) x sk pk(1)] pk sk by blast
qed

lemma shared_secret_agreement_sample:
  "\<exists>k pk_x pk_y. PublicKey sample_crypto \<lparr>ec_private = 3, ec_public = Some 3\<rparr> = Inr pk_x
    \<and> PublicKey sample_crypto \<lparr>ec_private = 5, ec_public = Some 5\<rparr> = Inr pk_y
    \<and> ComputeSharedSecret sample_crypto \<lparr>ec_private = 3, ec_public = Some 3\<rparr> pk_y = Inr k
    \<and> ComputeSharedSecret sample_crypto \<lparr>ec_private = 5, ec_public = Some 5\<rparr> pk_x = Inr k"
proof -
  have "CreateFromRandomKeys sample_crypto (3, 3) = Inr \<lparr>ec_private = 3, ec_public = Some 3\<rparr>"
    "CreateFromRandomKeys sample_crypto (5, 5) = Inr \<lparr>ec_private = 5, ec_public = Some 5\<rparr>"
    by (simp_all add: CreateFromRandomKeys_def sample_crypto_def)
  from shared_secret_agreement [OF sample_crypto_laws(1) this] show ?thesis by blast
qed

text \<open>
  A ciphertext is the nonce, the sealed text and the tag, 28 bytes longer than the text,
  and \<open>Decrypt\<close> under the same key returns the text. A ciphertext shorter than 28 bytes is
  refused with \<open>DATA_LOSS\<close>, and a key that is not 32 bytes long stops the process.
\<close>

lemma encryption_roundtrip:
  assumes "gcm_law c" "length iv = 12"
  shows "if length key = 32
    then (\<exists>e. Encrypt c iv key plaintext = Inr e \<and> length e = length plaintext + 28 \<and> Decrypt c key e = Inr plaintext)
      \<and> (length short < 28 \<longrightarrow> Decrypt c key short = Inl (Status DATA_LOSS ''Ciphertext is too short.''))
    else Encrypt c iv key plaintext = Inl CheckFailed \<and> Decrypt c key short = Inl CheckFailed"
proof (cases "length key = 32")
  case True
  then show ?thesis
    using Decrypt_Encrypt [OF assms(1) True assms(2)] by (simp add: Decrypt_def size_defs)
next
  case False
  then show ?thesis by (simp add: Encrypt_def Decrypt_def size_defs fcp_check_def)
qed

lemma encryption_roundtrip_sample:
  "(\<exists>e. Encrypt sample_crypto (replicate 12 9) (replicate 32 1) [1, 2, 3] = Inr e \<and> length e = 3 + 28
      \<and> Decrypt sample_crypto (replicate 32 1) e = Inr [1, 2, 3])
    \<and> Decrypt sample_crypto (replicate 32 1) [5] = Inl (Status DATA_LOSS ''Ciphertext is too short.'')"
  using encryption_roundtrip [OF sample_crypto_laws(2), of "replicate 12 9" "replicate 32 1" "[1, 2, 3]" "[5]"]
  by simp

lemma CreateFromShares_recovers:
  assumes "Share draws t n key = Inr (shares, draws')" "length key = 32" "n < 2147483648"
    and "subset_of_shares recv shares" "t \<le> int (length (filter (\<lambda>s. share_data s \<noteq> []) recv))"
    and "reconstruct_fits new_ShamirSecretSharing t recv"
  shows "CreateFromShares recv t = Inr key"
proof -
  have lens: "length (share_data s) = 36" if "s \<in> set shares" for s
  proof -
    obtain ps polys where p: "list_all2 (poly_ok (nat t)) ps polys" "length ps = (8 * length key + 30) div 31"
      "\<forall>i<length shares. share_data (shares ! i) = share_bytes polys i"
      using Share_polys [OF assms(1)] assms(2) by auto
    then have "length polys = 9" using assms(2) by (auto dest: list_all2_lengthD)
    then show ?thesis using p(3) that by (auto simp: in_set_conv_nth)
  qed
  have recv: "\<forall>s\<in>set recv. length (share_data s) = 36 \<or> share_data s = []"
    using assms(4) lens unfolding subset_of_shares_def by (fastforce simp: list_all2_conv_all_nth in_set_conv_nth)
  have t: "2 \<le> t" using Share_polys [OF assms(1)] assms(2) by auto
  then have "filter (\<lambda>s. share_data s \<noteq> []) recv \<noteq> []" using assms(5) by auto
  with recv have kl: "share_key_length recv = Inr 32"
    by (induction recv) (auto simp: size_defs split: if_splits)
  obtain st where "Reconstruct new_ShamirSecretSharing t recv (int (length key)) = Inr (key, st)"
    using Reconstruct_of_Share [OF assms(1) _ assms(3-5) shamir_inv_new assms(6)] assms(2) by auto
  then show ?thesis using kl assms(2) by (simp add: CreateFromShares_def size_defs)
qed

text \<open>
  C38. A 32-byte key that was shared is recovered by \<open>CreateFromShares\<close> from any threshold of
  its shares (with the no-wrap condition of \<open>Reconstruct\<close>).
\<close>

theorem CreateFromShares_of_Share:
  assumes "Share draws t n key = Inr (shares, draws')" "length key = 32" "n < 2147483648"
    and "subset_of_shares recv shares" "t \<le> int (length (filter (\<lambda>s. share_data s \<noteq> []) recv))"
    and "reconstruct_fits new_ShamirSecretSharing t recv"
  shows "CreateFromShares recv t = Inr key"
  by (rule CreateFromShares_recovers [OF assms])

text \<open>The shares of the key \<open>1, 2, \<dots>, 32\<close> with the linear coefficients \<open>1, \<dots>, 9\<close>.\<close>

theorem CreateFromShares_of_Share_witness:
  "\<exists>shares. Share [1, 2, 3, 4, 5, 6, 7, 8, 9] 2 2 (map of_nat [1..<33]) = Inr (shares, [])
    \<and> CreateFromShares shares 2 = Inr (map of_nat [1..<33])"
proof -
  let ?key = "map of_nat [1..<33] :: bytes"
  define r where "r = Share [1, 2, 3, 4, 5, 6, 7, 8, 9] 2 2 ?key"
  have r: "(case r of Inl _ \<Rightarrow> False | Inr (shares, draws) \<Rightarrow> draws = [] \<and> length shares = 2
      \<and> list_all (\<lambda>s. share_data s \<noteq> []) shares \<and> reconstruct_fits new_ShamirSecretSharing 2 shares)"
    unfolding r_def by code_simp
  then obtain shares where s: "r = Inr (shares, [])" "length shares = 2"
      "list_all (\<lambda>s. share_data s \<noteq> []) shares" "reconstruct_fits new_ShamirSecretSharing 2 shares"
    by (cases r) auto
  have "subset_of_shares shares shares" by (simp add: subset_of_shares_def list_all2_same)
  moreover have "filter (\<lambda>s. share_data s \<noteq> []) shares = shares" using s(3) by (simp add: list_all_iff)
  ultimately have "CreateFromShares shares 2 = Inr ?key"
    using CreateFromShares_of_Share [OF s(1) [unfolded r_def]] s(2,4) by simp
  then show ?thesis using s(1) unfolding r_def by (intro exI [of _ shares] conjI)
qed



text \<open>
  The digest input of \<open>ComputeSessionId\<close> is ambiguous: the length written before an
  encryption key is that of the noise key, and two different requests have the same session
  id whatever the hash function is.
\<close>

lemma ComputeSessionId_ambiguous:
  "\<exists>r1 r2. pairs_of_public_keys r1 \<noteq> pairs_of_public_keys r2
     \<and> (\<forall>sha256. ComputeSessionId sha256 r1 = ComputeSessionId sha256 r2)"
proof -
  let ?p = "\<lambda>ps. \<lparr>pairs_of_public_keys = ps, sec_agg_execution_logging_id = 0, request_session_id = []\<rparr>"
  let ?r1 = "?p [\<lparr>noise_pk = [7], enc_pk = [8] @ IntToByteString 1 @ [9] @ IntToByteString 1 @ [10]\<rparr>]"
  let ?r2 = "?p [\<lparr>noise_pk = [7], enc_pk = [8]\<rparr>, \<lparr>noise_pk = [9], enc_pk = [10]\<rparr>]"
  have "ComputeSessionId sha256 ?r1 = ComputeSessionId sha256 ?r2" for sha256
    by (simp add: ComputeSessionId_def session_id_chunk_def Let_def)
  then show ?thesis by (intro exI [of _ ?r1] exI [of _ ?r2]) simp
qed

definition protocol_keys :: "PairOfPublicKeys \<Rightarrow> bool" where
  "protocol_keys p \<longleftrightarrow> length (noise_pk p) = 33 \<and> length (enc_pk p) = 33 \<or> noise_pk p = [] \<and> enc_pk p = []"

lemma session_id_chunk_cancel:
  assumes "session_id_chunk p @ xs = session_id_chunk q @ ys" "protocol_keys p" "protocol_keys q"
  shows "p = q \<and> xs = ys"
proof -
  have "IntToByteString (of_nat (length (noise_pk p))) = IntToByteString (of_nat (length (noise_pk q)))"
    using assms(1) by (simp add: session_id_chunk_def Let_def append_eq_append_conv)
  then have "length (noise_pk p) = length (noise_pk q)"
    using assms(2,3) by (auto simp: protocol_keys_def IntToByteString_def)
  moreover then have "length (enc_pk p) = length (enc_pk q)" using assms(2,3) by (auto simp: protocol_keys_def)
  ultimately show ?thesis using assms(1) by (cases p; cases q) (simp add: session_id_chunk_def Let_def)
qed

lemma session_id_input_inj:
  assumes "concat (map session_id_chunk ps) = concat (map session_id_chunk qs)"
    and "list_all protocol_keys ps" "list_all protocol_keys qs"
  shows "ps = qs"
  using assms
proof (induction ps arbitrary: qs)
  case Nil
  then show ?case by (cases qs) (auto simp: session_id_chunk_def Let_def IntToByteString_def)
next
  case (Cons p ps)
  then obtain q qs' where qs: "qs = q # qs'"
    by (cases qs) (auto simp: session_id_chunk_def Let_def IntToByteString_def)
  then have "p = q \<and> concat (map session_id_chunk ps) = concat (map session_id_chunk qs')"
    using Cons.prems by (intro session_id_chunk_cancel) simp_all
  then show ?case using Cons qs by simp
qed

text \<open>
  C33. When all keys have the size the protocol prescribes, or both keys of a pair are absent,
  the digest input determines the list of key pairs.
\<close>

theorem ComputeSessionId_collision:
  assumes "ComputeSessionId sha256 r1 = Inr sid" "ComputeSessionId sha256 r2 = Inr sid"
    and "list_all protocol_keys (pairs_of_public_keys r1)" "list_all protocol_keys (pairs_of_public_keys r2)"
  shows "pairs_of_public_keys r1 = pairs_of_public_keys r2
    \<or> (\<exists>x y. x \<noteq> y \<and> sha256 x = sha256 y \<and> sha256 x = sid)"
proof -
  let ?x = "concat (map session_id_chunk (pairs_of_public_keys r1))"
  let ?y = "concat (map session_id_chunk (pairs_of_public_keys r2))"
  have "sha256 ?x = sid" "sha256 ?y = sid"
    using assms(1,2) by (simp_all add: ComputeSessionId_def Let_def fcp_check_Inr_iff)
  then show ?thesis using session_id_input_inj [OF _ assms(3,4)] by metis
qed

theorem ComputeSessionId_collision_witness:
  "\<exists>x y :: bytes. x \<noteq> y \<and> replicate 32 (of_nat (length x)) = (replicate 32 (of_nat (length y)) :: bytes)
    \<and> replicate 32 (of_nat (length x)) = replicate 32 (74 :: uint8)"
proof -
  let ?r = "\<lambda>b. \<lparr>pairs_of_public_keys = [\<lparr>noise_pk = replicate 33 1, enc_pk = replicate 33 b\<rparr>],
        sec_agg_execution_logging_id = 0, request_session_id = []\<rparr>"
  have s: "ComputeSessionId (\<lambda>x. replicate 32 (of_nat (length x))) (?r b) = Inr (replicate 32 74)" for b
    by (simp add: ComputeSessionId_def session_id_chunk_def Let_def kSha256Length_def)
  have p: "list_all protocol_keys (pairs_of_public_keys (?r b))" for b by (simp add: protocol_keys_def)
  have "pairs_of_public_keys (?r 2) \<noteq> pairs_of_public_keys (?r 3)" by simp
  with ComputeSessionId_collision [OF s s p p, of 2 3] show ?thesis by simp
qed

end
