(* ===== verification/SecAgg_Client.thy ===== *)
theory SecAgg_Client
  imports SecAgg_Keys
begin

text \<open>
  The client of \<open>fcp/secagg/client\<close>: the state classes of the four rounds, their common base
  classes and \<open>SecAggClient\<close>. A state object is a value of the datatype \<open>SecAggClientState\<close>,
  its members a record. A handler returns the next state together with the log of what the
  client did: the messages given to the sender and the calls to the transition listener.
  A failure of the sum type \<open>status_or\<close> leaves the client where it was.

  Randomness is an argument (\<open>client_entropy\<close>). The abort signal may be raised by another
  thread at any time: \<open>AsyncAbort\<close> says what the \<open>p\<close>-th poll of a call sees.
\<close>

section \<open>Environment of a client\<close>

datatype ClientState = INITIAL | R0_ADVERTISE_KEYS | R1_SHARE_KEYS | R2_MASKED_INPUT | R3_UNMASKING
  | COMPLETED | ABORTED

datatype OtherClientState = kAlive | kDeadAtRound1 | kDeadAtRound2 | kDeadAtRound3

record AsyncAbort =
  Signalled :: "nat \<Rightarrow> bool"
  Message :: string

record client_entropy =
  enc_keypair :: "BIGNUM \<times> EC_POINT"
  prng_keypair :: "BIGNUM \<times> EC_POINT"
  rand8 :: "nat \<Rightarrow> uint8"
  share_draws :: "uint32 list"
  nonce :: "nat \<Rightarrow> bytes"

record client_log =
  sent :: "ClientToServerWrapperMessage list"
  transitions :: "ClientState list"
  execution_session_id :: int

definition Send :: "ClientToServerWrapperMessage \<Rightarrow> client_log \<Rightarrow> client_log" where
  "Send m l = l\<lparr>sent := sent l @ [m]\<rparr>"

definition Transition :: "ClientState \<Rightarrow> client_log \<Rightarrow> client_log" where
  "Transition s l = l\<lparr>transitions := transitions l @ [s]\<rparr>"

section \<open>State objects\<close>

record R0State =
  max_neighbors_expected :: uint32
  minimum_surviving_neighbors :: uint32
  input_vector_specs :: "InputVectorSpecification list"

record R1State = R0State +
  enc_key_agreement :: EcdhKeyAgreement
  prng_key_agreement :: EcdhKeyAgreement
  self_prng_key_shares :: "ShamirShare list"
  pairwise_prng_key_shares :: "ShamirShare list"

record R2State =
  r2_client_id :: uint32
  r2_minimum_surviving :: uint32
  r2_number_of_alive_neighbors :: uint32
  r2_number_of_neighbors :: uint32
  r2_input_vector_specs :: "InputVectorSpecification list"
  r2_other_client_states :: "OtherClientState list"
  other_client_enc_keys :: "bytes list"
  other_client_prng_keys :: "bytes list"
  own_self_key_share :: ShamirShare
  self_prng_key :: bytes
  session_id :: bytes

record R3State =
  client_id :: uint32
  number_of_alive_neighbors :: uint32
  minimum_surviving :: uint32
  number_of_neighbors :: uint32
  other_client_states :: "OtherClientState list"
  pairwise_key_shares :: "ShamirShare list"
  self_key_shares :: "ShamirShare list"

record WaitingState = R3State +
  waiting_specs :: "InputVectorSpecification list"
  map_of_masks :: SecAggVectorMap

datatype SecAggClientState =
  R0InputNotSet R0State
| R0InputSet R0State SecAggVectorMap
| R1InputNotSet R1State
| R1InputSet R1State SecAggVectorMap
| R2InputNotSet R2State
| R2InputSet R2State SecAggVectorMap
| R2WaitingForInput WaitingState
| R3Unmasking R3State
| ClientCompleted
| ClientAborted string

type_synonym handler_result = "(SecAggClientState \<times> client_log) status_or"

fun state_of :: "SecAggClientState \<Rightarrow> ClientState" where
  "state_of (R0InputNotSet _) = R0_ADVERTISE_KEYS"
| "state_of (R0InputSet _ _) = R0_ADVERTISE_KEYS"
| "state_of (R1InputNotSet _) = R1_SHARE_KEYS"
| "state_of (R1InputSet _ _) = R1_SHARE_KEYS"
| "state_of (R2InputNotSet _) = R2_MASKED_INPUT"
| "state_of (R2InputSet _ _) = R2_MASKED_INPUT"
| "state_of (R2WaitingForInput _) = R2_MASKED_INPUT"
| "state_of (R3Unmasking _) = R3_UNMASKING"
| "state_of ClientCompleted = COMPLETED"
| "state_of (ClientAborted _) = ABORTED"

text \<open>\<open>std::make_unique<State>\<close>: the constructor of the base class reports the transition.\<close>

definition make_state :: "SecAggClientState \<Rightarrow> client_log \<Rightarrow> handler_result" where
  "make_state s l = Inr (s, Transition (state_of s) l)"

fun StateName :: "SecAggClientState \<Rightarrow> string" where
  "StateName (R0InputNotSet _) = ''R0_ADVERTISE_KEYS_INPUT_NOT_SET''"
| "StateName (R0InputSet _ _) = ''R0_ADVERTISE_KEYS_INPUT_SET''"
| "StateName (R1InputNotSet _) = ''R1_SHARE_KEYS_INPUT_NOT_SET''"
| "StateName (R1InputSet _ _) = ''R1_SHARE_KEYS_INPUT_SET''"
| "StateName (R2InputNotSet _) = ''R2_MASKED_INPUT_COLL_INPUT_NOT_SET''"
| "StateName (R2InputSet _ _) = ''R2_MASKED_INPUT_COLL_INPUT_SET''"
| "StateName (R2WaitingForInput _) = ''R2_MASKED_INPUT_COLL_WAITING_FOR_INPUT''"
| "StateName (R3Unmasking _) = ''R3_UNMASKING''"
| "StateName ClientCompleted = ''COMPLETED''"
| "StateName (ClientAborted _) = ''ABORTED''"

section \<open>Base classes\<close>

fun message_content_case :: "ServerToClientWrapperMessage \<Rightarrow> string" where
  "message_content_case (S2C_abort _) = ''1''"
| "message_content_case (S2C_share_keys_request _) = ''2''"
| "message_content_case (S2C_masked_input_request _) = ''3''"
| "message_content_case (S2C_unmasking_request _) = ''4''"
| "message_content_case S2C_NOT_SET = ''0''"

definition base_Start :: "SecAggClientState \<Rightarrow> handler_result" where
  "base_Start s = Inl (Status FAILED_PRECONDITION
     (''An illegal start transition was attempted from state '' @ StateName s))"

definition base_HandleMessage ::
  "SecAggClientState \<Rightarrow> ServerToClientWrapperMessage \<Rightarrow> handler_result" where
  "base_HandleMessage s message =
     (if message = S2C_NOT_SET
      then Inl (Status FAILED_PRECONDITION
        (''Client received a message of unknown type but was in state '' @ StateName s))
      else Inl (Status FAILED_PRECONDITION
        (''Client received a message of type '' @ message_content_case message
           @ '' but was in state '' @ StateName s)))"

definition base_SetInput :: "SecAggClientState \<Rightarrow> handler_result" where
  "base_SetInput s = Inl (Status FAILED_PRECONDITION
     (''An illegal input transition was attempted from state '' @ StateName s))"

definition base_Abort :: "SecAggClientState \<Rightarrow> string \<Rightarrow> handler_result" where
  "base_Abort s reason = Inl (Status FAILED_PRECONDITION
     (''The client was already in terminal state '' @ StateName s
        @ '' but received an abort with message: '' @ reason))"

fun ValidateInput_loop :: "SecAggVectorMap \<Rightarrow> InputVectorSpecification list \<Rightarrow> bool" where
  "ValidateInput_loop input_map [] = True"
| "ValidateInput_loop input_map (vector_spec # specs) =
     (case map_of input_map (spec_name vector_spec) of
        None \<Rightarrow> False
      | Some input_vec \<Rightarrow>
          if sv_modulus input_vec \<noteq> spec_modulus vector_spec \<or> sv_num_elements input_vec \<noteq> spec_length vector_spec
          then False else ValidateInput_loop input_map specs)"

definition ValidateInput :: "SecAggVectorMap \<Rightarrow> InputVectorSpecification list \<Rightarrow> bool" where
  "ValidateInput input_map specs =
     (if length input_map \<noteq> length specs then False else ValidateInput_loop input_map specs)"

definition AbortAndNotifyServer :: "string \<Rightarrow> client_log \<Rightarrow> handler_result" where
  "AbortAndNotifyServer reason l =
     make_state (ClientAborted reason) (Send (C2S_abort \<lparr>diagnostic_info = reason, early_success = False\<rparr>) l)"

definition alive_Abort :: "string \<Rightarrow> client_log \<Rightarrow> handler_result" where
  "alive_Abort reason l =
     AbortAndNotifyServer (''Abort upon external request for reason <'' @ reason @ ''>.'') l"

text \<open>The branch for \<open>message.has_abort()\<close>, the same in every round.\<close>

definition handle_server_abort :: "AbortMessage \<Rightarrow> client_log \<Rightarrow> handler_result" where
  "handle_server_abort m l =
     (if early_success m then make_state ClientCompleted l
      else make_state (ClientAborted ''Aborting because of abort message from the server.'') l)"

definition set_input_error :: handler_result where
  "set_input_error = Inl (Status INVALID_ARGUMENT
     ''The input to SetInput does not match the InputVectorSpecification.'')"

text \<open>\<open>StatusOr<T>::ok()\<close> of a call whose error is handled, and \<open>value()\<close>, which dies on an error.\<close>

fun ok_value :: "'a status_or \<Rightarrow> 'a option status_or" where
  "ok_value (Inr a) = Inr (Some a)"
| "ok_value (Inl (Status _ _)) = Inr None"
| "ok_value (Inl e) = Inl e"

fun status_value :: "'a status_or \<Rightarrow> 'a status_or" where
  "status_value (Inr a) = Inr a"
| "status_value (Inl _) = Inl CheckFailed"

section \<open>Round 0\<close>

definition R0_advertise ::
  "crypto \<Rightarrow> client_entropy \<Rightarrow> (EcdhKeyAgreement \<Rightarrow> EcdhKeyAgreement \<Rightarrow> SecAggClientState)
    \<Rightarrow> client_log \<Rightarrow> handler_result" where
  "R0_advertise c ent next_state l =
     and_then (status_value (CreateFromRandomKeys c (enc_keypair ent))) (\<lambda>enc_agreement.
     and_then (status_value (CreateFromRandomKeys c (prng_keypair ent))) (\<lambda>prng_agreement.
     and_then (PublicKey c enc_agreement) (\<lambda>enc_public.
     and_then (PublicKey c prng_agreement) (\<lambda>noise_public.
       make_state (next_state enc_agreement prng_agreement)
         (Send (C2S_advertise_keys \<lparr>noise_pk = noise_public, enc_pk = enc_public\<rparr>) l)))))"

definition R1_of_R0 :: "R0State \<Rightarrow> EcdhKeyAgreement \<Rightarrow> EcdhKeyAgreement \<Rightarrow> R1State" where
  "R1_of_R0 st enc_agreement prng_agreement =
     R0State.extend st \<lparr>enc_key_agreement = enc_agreement, prng_key_agreement = prng_agreement,
       self_prng_key_shares = [], pairwise_prng_key_shares = []\<rparr>"

definition R0NotSet_Start :: "crypto \<Rightarrow> client_entropy \<Rightarrow> R0State \<Rightarrow> client_log \<Rightarrow> handler_result" where
  "R0NotSet_Start c ent st = R0_advertise c ent (\<lambda>enc prng. R1InputNotSet (R1_of_R0 st enc prng))"

definition R0Set_Start ::
  "crypto \<Rightarrow> client_entropy \<Rightarrow> R0State \<Rightarrow> SecAggVectorMap \<Rightarrow> client_log \<Rightarrow> handler_result" where
  "R0Set_Start c ent st input_map =
     R0_advertise c ent (\<lambda>enc prng. R1InputSet (R1_of_R0 st enc prng) input_map)"

definition R0_HandleMessage ::
  "SecAggClientState \<Rightarrow> ServerToClientWrapperMessage \<Rightarrow> client_log \<Rightarrow> handler_result" where
  "R0_HandleMessage this message l =
     (case message of S2C_abort m \<Rightarrow> handle_server_abort m l | _ \<Rightarrow> base_HandleMessage this message)"

definition R0NotSet_SetInput :: "R0State \<Rightarrow> SecAggVectorMap \<Rightarrow> client_log \<Rightarrow> handler_result" where
  "R0NotSet_SetInput st input_map l =
     (if \<not> ValidateInput input_map (input_vector_specs st) then set_input_error
      else make_state (R0InputSet st input_map) l)"

section \<open>Round 1\<close>

definition SetUpShares ::
  "uint32 list \<Rightarrow> int \<Rightarrow> int \<Rightarrow> bytes \<Rightarrow> bytes \<Rightarrow> ShamirShare list \<Rightarrow> ShamirShare list
    \<Rightarrow> (ShamirShare list \<times> ShamirShare list) status_or" where
  "SetUpShares draws threshold n agreement_key self_key self_shares pairwise_shares =
     (if pairwise_shares = [] \<and> self_shares = [] then
        and_then (Share draws threshold n agreement_key) (\<lambda>(pairwise, draws).
        and_then (Share draws threshold n self_key) (\<lambda>(self, draws). Inr (self, pairwise)))
      else Inr (self_shares, pairwise_shares))"

text \<open>The variables that the loop over the public keys writes.\<close>

record share_keys_vars =
  v_client_id :: "uint32 option"
  v_alive :: uint32
  v_states :: "OtherClientState list"
  v_enc_keys :: "bytes list"
  v_prng_keys :: "bytes list"

definition push_keys :: "bytes \<Rightarrow> bytes \<Rightarrow> share_keys_vars \<Rightarrow> share_keys_vars" where
  "push_keys enc_key prng_key v =
     v\<lparr>v_enc_keys := v_enc_keys v @ [enc_key], v_prng_keys := v_prng_keys v @ [prng_key]\<rparr>"

definition invalid_public_key :: string where
  "invalid_public_key = ''Invalid public key in request from server.''"

definition share_keys_step ::
  "crypto \<Rightarrow> R1State \<Rightarrow> bytes \<Rightarrow> bytes \<Rightarrow> nat \<Rightarrow> PairOfPublicKeys \<Rightarrow> share_keys_vars
    \<Rightarrow> (string + share_keys_vars) status_or" where
  "share_keys_step c st self_enc_pk self_prng_pk i keys v =
     (if enc_pk keys = [] \<or> noise_pk keys = [] then
        Inr (Inr (push_keys [] [] (v\<lparr>v_states := (v_states v)[i := kDeadAtRound1], v_alive := v_alive v - 1\<rparr>)))
      else if length (enc_pk keys) \<noteq> EcdhPublicKey_kSize \<or> length (noise_pk keys) \<noteq> EcdhPublicKey_kSize then
        Inr (Inl invalid_public_key)
      else if enc_pk keys = self_enc_pk \<and> noise_pk keys = self_prng_pk then
        (if v_client_id v \<noteq> None
         then Inr (Inl ''Found this client's keys in the ShareKeysRequest twice somehow.'')
         else Inr (Inr (push_keys [] [] (v\<lparr>v_client_id := Some (of_nat i)\<rparr>))))
      else
        and_then (ok_value (ComputeSharedSecret c (enc_key_agreement st) (enc_pk keys))) (\<lambda>shared_enc_key.
        and_then (ok_value (ComputeSharedSecret c (prng_key_agreement st) (noise_pk keys))) (\<lambda>shared_prng_key.
          case (shared_enc_key, shared_prng_key) of
            (Some enc_key, Some prng_key) \<Rightarrow> Inr (Inr (push_keys enc_key prng_key v))
          | _ \<Rightarrow> Inr (Inl invalid_public_key))))"

fun share_keys_loop ::
  "crypto \<Rightarrow> AsyncAbort \<Rightarrow> R1State \<Rightarrow> bytes \<Rightarrow> bytes \<Rightarrow> nat \<Rightarrow> PairOfPublicKeys list \<Rightarrow> share_keys_vars \<Rightarrow> nat
    \<Rightarrow> ((string + share_keys_vars) \<times> nat) status_or" where
  "share_keys_loop c a st self_enc_pk self_prng_pk i [] v p = Inr (Inr v, p)"
| "share_keys_loop c a st self_enc_pk self_prng_pk i (keys # pairs) v p =
     (if Signalled a p then Inr (Inl (Message a), p + 1)
      else and_then (share_keys_step c st self_enc_pk self_prng_pk i keys v) (\<lambda>r.
        case r of Inl error_message \<Rightarrow> Inr (Inl error_message, p + 1)
        | Inr v \<Rightarrow> share_keys_loop c a st self_enc_pk self_prng_pk (i + 1) pairs v (p + 1)))"

record share_keys_result =
  k_client_id :: uint32
  k_alive :: uint32
  k_number_of_clients :: uint32
  k_states :: "OtherClientState list"
  k_enc_keys :: "bytes list"
  k_prng_keys :: "bytes list"
  k_self_shares :: "ShamirShare list"
  k_pairwise_shares :: "ShamirShare list"
  k_session_id :: bytes

definition not_enough_clients :: string where
  "not_enough_clients = ''There are not enough clients to complete this protocol session. Aborting.''"

definition HandleShareKeysRequest ::
  "crypto \<Rightarrow> AsyncAbort \<Rightarrow> uint32 list \<Rightarrow> R1State \<Rightarrow> bytes \<Rightarrow> ShareKeysRequest
    \<Rightarrow> ((string + share_keys_result) \<times> nat) status_or" where
  "HandleShareKeysRequest c a draws st self_key request =
     (let pairs = pairs_of_public_keys request; minimum = minimum_surviving_neighbors st in
      if int (length pairs) < sint minimum then
        Inr (Inl ''The ShareKeysRequest received does not contain enough participants.'', 0)
      else if int (length pairs) > sint (max_neighbors_expected st) then
        Inr (Inl ''The ShareKeysRequest received contains too many participants.'', 0)
      else
        and_then (PrivateKey c (prng_key_agreement st)) (\<lambda>private_key.
        and_then (SetUpShares draws (sint minimum) (int (length pairs)) private_key self_key
                    (self_prng_key_shares st) (pairwise_prng_key_shares st)) (\<lambda>(self_shares, pairwise_shares).
          if length (request_session_id request) \<noteq> kSha256Length then
            Inr (Inl ''Session ID is absent in ShareKeysRequest or has an unexpected length.'', 0)
          else
            and_then (PublicKey c (enc_key_agreement st)) (\<lambda>self_enc_pk.
            and_then (PublicKey c (prng_key_agreement st)) (\<lambda>self_prng_pk.
            and_then (share_keys_loop c a st self_enc_pk self_prng_pk 0 pairs
                \<lparr>v_client_id = None, v_alive = of_nat (length pairs), v_states = replicate (length pairs) kAlive,
                 v_enc_keys = [], v_prng_keys = []\<rparr> 0) (\<lambda>(r, p).
              case r of Inl error_message \<Rightarrow> Inr (Inl error_message, p)
              | Inr v \<Rightarrow>
                  Inr (if v_alive v < minimum then Inl not_enough_clients
                       else case v_client_id v of
                           None \<Rightarrow> Inl ''The ShareKeysRequest sent by the server doesn't contain this client's public keys.''
                         | Some cid \<Rightarrow> Inr \<lparr>k_client_id = cid, k_alive = v_alive v,
                             k_number_of_clients = of_nat (length pairs), k_states = v_states v,
                             k_enc_keys = v_enc_keys v, k_prng_keys = v_prng_keys v,
                             k_self_shares = self_shares, k_pairwise_shares = pairwise_shares,
                             k_session_id = request_session_id request\<rparr>, p)))))))"

text \<open>\<open>EncryptAndSendResponse\<close>: \<open>None\<close> is the result \<open>false\<close> of an aborted run.\<close>

fun encrypt_loop ::
  "crypto \<Rightarrow> AsyncAbort \<Rightarrow> (nat \<Rightarrow> bytes) \<Rightarrow> ShamirShare list \<Rightarrow> ShamirShare list \<Rightarrow> nat \<Rightarrow> bytes list \<Rightarrow> nat
    \<Rightarrow> bytes list option status_or" where
  "encrypt_loop c a iv pairwise_shares self_shares i [] p = Inr (Some [])"
| "encrypt_loop c a iv pairwise_shares self_shares i (key # keys) p =
     (if Signalled a p then Inr None
      else
        and_then
          (if length key = 0 then Inr []
           else and_then (at_index pairwise_shares i) (\<lambda>noise_share. and_then (at_index self_shares i) (\<lambda>prf_share.
                  Encrypt c (iv i) key (SerializePair c (share_data noise_share) (share_data prf_share)))))
          (\<lambda>e. and_then (encrypt_loop c a iv pairwise_shares self_shares (i + 1) keys (p + 1)) (\<lambda>es.
             Inr (map_option ((#) e) es))))"

definition EncryptAndSendResponse ::
  "crypto \<Rightarrow> AsyncAbort \<Rightarrow> (nat \<Rightarrow> bytes) \<Rightarrow> bytes list \<Rightarrow> ShamirShare list \<Rightarrow> ShamirShare list \<Rightarrow> nat
    \<Rightarrow> client_log \<Rightarrow> client_log option status_or" where
  "EncryptAndSendResponse c a iv enc_keys pairwise_shares self_shares p l =
     and_then (encrypt_loop c a iv pairwise_shares self_shares 0 enc_keys p) (\<lambda>es.
       Inr (map_option (\<lambda>es. Send (C2S_share_keys_response es) l) es))"

definition R2_of_R1 :: "R1State \<Rightarrow> bytes \<Rightarrow> share_keys_result \<Rightarrow> ShamirShare \<Rightarrow> R2State" where
  "R2_of_R1 st self_key r own_share =
     \<lparr>r2_client_id = k_client_id r, r2_minimum_surviving = minimum_surviving_neighbors st,
      r2_number_of_alive_neighbors = k_alive r, r2_number_of_neighbors = k_number_of_clients r,
      r2_input_vector_specs = input_vector_specs st, r2_other_client_states = k_states r,
      other_client_enc_keys = k_enc_keys r, other_client_prng_keys = k_prng_keys r,
      own_self_key_share = own_share, self_prng_key = self_key, session_id = k_session_id r\<rparr>"

definition draw_self_prng_key :: "client_entropy \<Rightarrow> bytes status_or" where
  "draw_self_prng_key ent = new_AesKey (map (rand8 ent) [0..<AesKey_kSize]) (int AesKey_kSize)"

definition R1NotSet_HandleMessage ::
  "crypto \<Rightarrow> AsyncAbort \<Rightarrow> client_entropy \<Rightarrow> R1State \<Rightarrow> ServerToClientWrapperMessage \<Rightarrow> client_log
    \<Rightarrow> handler_result" where
  "R1NotSet_HandleMessage c a ent st message l =
     (case message of
        S2C_abort m \<Rightarrow> handle_server_abort m l
      | S2C_share_keys_request request \<Rightarrow>
          and_then (draw_self_prng_key ent) (\<lambda>self_key.
          and_then (HandleShareKeysRequest c a (share_draws ent) st self_key request) (\<lambda>(r, p).
            let l = l\<lparr>execution_session_id := sec_agg_execution_logging_id request\<rparr> in
            case r of Inl error_message \<Rightarrow> AbortAndNotifyServer error_message l
            | Inr r \<Rightarrow>
                and_then (EncryptAndSendResponse c a (nonce ent) (k_enc_keys r) (k_pairwise_shares r)
                    (k_self_shares r) p l) (\<lambda>sent_log.
                  case sent_log of None \<Rightarrow> AbortAndNotifyServer (Message a) l
                  | Some l \<Rightarrow>
                      and_then (at_index (k_self_shares r) (unat (k_client_id r))) (\<lambda>own_share.
                        make_state (R2InputNotSet (R2_of_R1 st self_key r own_share)) l))))
      | _ \<Rightarrow> base_HandleMessage (R1InputNotSet st) message)"

definition R1NotSet_SetInput :: "R1State \<Rightarrow> SecAggVectorMap \<Rightarrow> client_log \<Rightarrow> handler_result" where
  "R1NotSet_SetInput st input_map l =
     (if \<not> ValidateInput input_map (input_vector_specs st) then set_input_error
      else make_state (R1InputSet (st\<lparr>self_prng_key_shares := [], pairwise_prng_key_shares := []\<rparr>) input_map) l)"

definition R1Set_HandleMessage ::
  "crypto \<Rightarrow> AsyncAbort \<Rightarrow> client_entropy \<Rightarrow> R1State \<Rightarrow> SecAggVectorMap \<Rightarrow> ServerToClientWrapperMessage
    \<Rightarrow> client_log \<Rightarrow> handler_result" where
  "R1Set_HandleMessage c a ent st input_map message l =
     (case message of
        S2C_abort m \<Rightarrow> handle_server_abort m l
      | S2C_share_keys_request request \<Rightarrow>
          and_then (draw_self_prng_key ent) (\<lambda>self_key.
          and_then (HandleShareKeysRequest c a (share_draws ent) st self_key request) (\<lambda>(r, p).
            let l = l\<lparr>execution_session_id := sec_agg_execution_logging_id request\<rparr> in
            case r of Inl error_message \<Rightarrow> AbortAndNotifyServer error_message l
            | Inr r \<Rightarrow>
                if Signalled a p then AbortAndNotifyServer (Message a) l
                else
                  and_then (EncryptAndSendResponse c a (nonce ent) (k_enc_keys r) (k_pairwise_shares r)
                      (k_self_shares r) (p + 1) l) (\<lambda>sent_log.
                    case sent_log of None \<Rightarrow> AbortAndNotifyServer (Message a) l
                    | Some l \<Rightarrow>
                        and_then (at_index (k_self_shares r) (unat (k_client_id r))) (\<lambda>own_share.
                          make_state (R2InputSet (R2_of_R1 st self_key r own_share) input_map) l))))
      | _ \<Rightarrow> base_HandleMessage (R1InputSet st input_map) message)"

section \<open>Round 2\<close>

record masked_input_vars =
  m_states :: "OtherClientState list"
  m_alive :: uint32
  m_pairwise :: "ShamirShare list"
  m_self :: "ShamirShare list"

definition push_shares :: "bytes \<Rightarrow> bytes \<Rightarrow> masked_input_vars \<Rightarrow> masked_input_vars" where
  "push_shares noise_share prf_share v =
     v\<lparr>m_pairwise := m_pairwise v @ [\<lparr>share_data = noise_share\<rparr>], m_self := m_self v @ [\<lparr>share_data = prf_share\<rparr>]\<rparr>"

definition masked_input_step ::
  "crypto \<Rightarrow> R2State \<Rightarrow> nat \<Rightarrow> bytes \<Rightarrow> masked_input_vars \<Rightarrow> (string + masked_input_vars) status_or" where
  "masked_input_step c st i encrypted v =
     (if int i = sint (r2_client_id st) then
        Inr (Inr (push_shares [] (share_data (own_self_key_share st)) v))
      else
        and_then (at_index (m_states v) i) (\<lambda>other_state.
          if other_state \<noteq> kAlive then
            (if encrypted \<noteq> [] then Inr (Inl ''Received encrypted key shares from an aborted client.'')
             else Inr (Inr (push_shares [] [] v)))
          else if encrypted = [] then
            Inr (Inr (push_shares [] [] (v\<lparr>m_states := (m_states v)[i := kDeadAtRound2], m_alive := m_alive v - 1\<rparr>)))
          else
            and_then (at_index (other_client_enc_keys st) i) (\<lambda>key.
            and_then (ok_value (Decrypt c key encrypted)) (\<lambda>decrypted.
              case decrypted of None \<Rightarrow> Inr (Inl ''Authentication of encrypted data failed.'')
              | Some plaintext \<Rightarrow>
                  (case ParsePair c plaintext of
                     None \<Rightarrow> Inr (Inl ''Unable to parse decrypted pair of key shares.'')
                   | Some (noise_share, prf_share) \<Rightarrow> Inr (Inr (push_shares noise_share prf_share v)))))))"

fun masked_input_loop ::
  "crypto \<Rightarrow> AsyncAbort \<Rightarrow> R2State \<Rightarrow> nat \<Rightarrow> bytes list \<Rightarrow> masked_input_vars \<Rightarrow> nat
    \<Rightarrow> ((string + masked_input_vars) \<times> nat) status_or" where
  "masked_input_loop c a st i [] v p = Inr (Inr v, p)"
| "masked_input_loop c a st i (encrypted # rest) v p =
     (if Signalled a p then Inr (Inl (Message a), p + 1)
      else and_then (masked_input_step c st i encrypted v) (\<lambda>r.
        case r of Inl error_message \<Rightarrow> Inr (Inl error_message, p + 1)
        | Inr v \<Rightarrow> masked_input_loop c a st (i + 1) rest v (p + 1)))"

text \<open>
  The loop that collects the keys of the alive neighbours: those before the client are added,
  those after it subtracted. \<open>None\<close>: the abort signal was seen.
\<close>

fun prng_keys_loop ::
  "AsyncAbort \<Rightarrow> R2State \<Rightarrow> OtherClientState list \<Rightarrow> nat list \<Rightarrow> bytes list \<Rightarrow> bytes list \<Rightarrow> nat
    \<Rightarrow> ((bytes list \<times> bytes list) option \<times> nat) status_or" where
  "prng_keys_loop a st states [] to_add to_subtract p = Inr (Some (to_add, to_subtract), p)"
| "prng_keys_loop a st states (i # is) to_add to_subtract p =
     (if Signalled a p then Inr (None, p + 1)
      else if int i = sint (r2_client_id st) then prng_keys_loop a st states is to_add to_subtract (p + 1)
      else and_then (at_index states i) (\<lambda>other_state.
        if other_state \<noteq> kAlive then prng_keys_loop a st states is to_add to_subtract (p + 1)
        else and_then (at_index (other_client_prng_keys st) i) (\<lambda>key.
          if int i < sint (r2_client_id st)
          then prng_keys_loop a st states is (to_add @ [key]) to_subtract (p + 1)
          else prng_keys_loop a st states is to_add (to_subtract @ [key]) (p + 1))))"

definition HandleMaskedInputCollectionRequest ::
  "crypto \<Rightarrow> AsyncAbort \<Rightarrow> R2State \<Rightarrow> encrypted_key_shares
    \<Rightarrow> (string + SecAggVectorMap \<times> masked_input_vars) status_or" where
  "HandleMaskedInputCollectionRequest c a st encrypted =
     (if int (length encrypted) \<noteq> sint (r2_number_of_neighbors st) then
        Inr (Inl ''The number of encrypted shares sent by the server does not match the number of clients.'')
      else
        and_then (masked_input_loop c a st 0 encrypted
            \<lparr>m_states = r2_other_client_states st, m_alive = r2_number_of_alive_neighbors st,
             m_pairwise = [], m_self = []\<rparr> 0) (\<lambda>(r, p).
          case r of Inl error_message \<Rightarrow> Inr (Inl error_message)
          | Inr v \<Rightarrow>
              if m_alive v < r2_minimum_surviving st then Inr (Inl not_enough_clients)
              else
                and_then (prng_keys_loop a st (m_states v) [0..<length encrypted] [self_prng_key st] [] p)
                  (\<lambda>(keys, p).
                    case keys of None \<Rightarrow> Inr (Inl (Message a))
                    | Some (to_add, to_subtract) \<Rightarrow>
                        and_then (MapOfMasks (mask_env.truncate c) to_add to_subtract (r2_input_vector_specs st)
                            (session_id st) (\<lambda>q. Signalled a (p + q))) (\<lambda>masks.
                          case masks of None \<Rightarrow> Inr (Inl (Message a)) | Some masks \<Rightarrow> Inr (Inr (masks, v))))))"

definition AddSecAggVectors :: "SecAggVector \<Rightarrow> SecAggVector \<Rightarrow> SecAggVector status_or" where
  "AddSecAggVectors v1 v2 =
     fcp_check (sv_modulus v1 = sv_modulus v2)
       (and_then (GetAsUint64Vector v1) (\<lambda>vec1. and_then (GetAsUint64Vector v2) (\<lambda>vec2.
          fcp_check (length vec1 = length vec2)
            (SecAggVector_of_span (map2 (\<lambda>x y. (x + y) mod sv_modulus v1) vec1 vec2) (sv_modulus v1) False))))"

definition SendMaskedInput :: "SecAggVectorMap \<Rightarrow> SecAggVectorMap \<Rightarrow> client_log \<Rightarrow> client_log status_or" where
  "SendMaskedInput input_map masks l =
     and_then (map_status (\<lambda>(name, vector). case map_of masks name of
          None \<Rightarrow> Inl CheckFailed
        | Some msk \<Rightarrow> and_then (AddSecAggVectors vector msk) (\<lambda>sum.
            and_then (TakePackedBytes sum) (\<lambda>encoded_vector. Inr (name, encoded_vector)))) input_map)
       (\<lambda>vectors. Inr (Send (C2S_masked_input_response vectors) l))"

definition R3_of_R2 :: "R2State \<Rightarrow> masked_input_vars \<Rightarrow> R3State" where
  "R3_of_R2 st v =
     \<lparr>client_id = r2_client_id st, number_of_alive_neighbors = m_alive v,
      minimum_surviving = r2_minimum_surviving st, number_of_neighbors = r2_number_of_neighbors st,
      other_client_states = m_states v, pairwise_key_shares = m_pairwise v, self_key_shares = m_self v\<rparr>"

definition Waiting_of_R2 :: "R2State \<Rightarrow> masked_input_vars \<Rightarrow> SecAggVectorMap \<Rightarrow> WaitingState" where
  "Waiting_of_R2 st v masks =
     R3State.extend (R3_of_R2 st v) \<lparr>waiting_specs = r2_input_vector_specs st, map_of_masks = masks\<rparr>"

definition R2NotSet_HandleMessage ::
  "crypto \<Rightarrow> AsyncAbort \<Rightarrow> R2State \<Rightarrow> ServerToClientWrapperMessage \<Rightarrow> client_log \<Rightarrow> handler_result" where
  "R2NotSet_HandleMessage c a st message l =
     (case message of
        S2C_abort m \<Rightarrow> handle_server_abort m l
      | S2C_masked_input_request encrypted \<Rightarrow>
          and_then (HandleMaskedInputCollectionRequest c a st encrypted) (\<lambda>r.
            case r of Inl error_message \<Rightarrow> AbortAndNotifyServer error_message l
            | Inr (masks, v) \<Rightarrow> make_state (R2WaitingForInput (Waiting_of_R2 st v masks)) l)
      | _ \<Rightarrow> base_HandleMessage (R2InputNotSet st) message)"

definition R2NotSet_SetInput :: "R2State \<Rightarrow> SecAggVectorMap \<Rightarrow> client_log \<Rightarrow> handler_result" where
  "R2NotSet_SetInput st input_map l =
     (if \<not> ValidateInput input_map (r2_input_vector_specs st) then set_input_error
      else make_state (R2InputSet st input_map) l)"

definition R2Set_HandleMessage ::
  "crypto \<Rightarrow> AsyncAbort \<Rightarrow> R2State \<Rightarrow> SecAggVectorMap \<Rightarrow> ServerToClientWrapperMessage \<Rightarrow> client_log
    \<Rightarrow> handler_result" where
  "R2Set_HandleMessage c a st input_map message l =
     (case message of
        S2C_abort m \<Rightarrow> handle_server_abort m l
      | S2C_masked_input_request encrypted \<Rightarrow>
          and_then (HandleMaskedInputCollectionRequest c a st encrypted) (\<lambda>r.
            case r of Inl error_message \<Rightarrow> AbortAndNotifyServer error_message l
            | Inr (masks, v) \<Rightarrow>
                and_then (SendMaskedInput input_map masks l) (\<lambda>l.
                  make_state (R3Unmasking (R3_of_R2 st v)) l))
      | _ \<Rightarrow> base_HandleMessage (R2InputSet st input_map) message)"

definition R2Waiting_HandleMessage ::
  "WaitingState \<Rightarrow> ServerToClientWrapperMessage \<Rightarrow> client_log \<Rightarrow> handler_result" where
  "R2Waiting_HandleMessage st message l =
     (case message of S2C_abort m \<Rightarrow> handle_server_abort m l
      | _ \<Rightarrow> base_HandleMessage (R2WaitingForInput st) message)"

definition R2Waiting_SetInput :: "WaitingState \<Rightarrow> SecAggVectorMap \<Rightarrow> client_log \<Rightarrow> handler_result" where
  "R2Waiting_SetInput st input_map l =
     (if \<not> ValidateInput input_map (waiting_specs st) then set_input_error
      else and_then (SendMaskedInput input_map (map_of_masks st) l) (\<lambda>l.
        make_state (R3Unmasking (R3State.truncate st)) l))"

section \<open>Round 3\<close>

text \<open>The loop over the clients the server declares dead.\<close>

fun dead_clients_loop :: "R3State \<Rightarrow> uint32 list \<Rightarrow> (string + R3State) status_or" where
  "dead_clients_loop st [] = Inr (Inr st)"
| "dead_clients_loop st (i # is) =
     (let id = i - 1 in
      if id = client_id st then
        Inr (Inl ''The received UnmaskingRequest states this client has aborted, but this client had not yet aborted.'')
      else if id \<ge> number_of_neighbors st then
        Inr (Inl ''The received UnmaskingRequest contains a client id that does not correspond to any client.'')
      else
        and_then (at_index (other_client_states st) (unat id)) (\<lambda>other_state.
          case other_state of
            kAlive \<Rightarrow> dead_clients_loop (st\<lparr>other_client_states := (other_client_states st)[unat id := kDeadAtRound3],
                number_of_alive_neighbors := number_of_alive_neighbors st - 1\<rparr>) is
          | kDeadAtRound3 \<Rightarrow>
              Inr (Inl ''The received UnmaskingRequest repeated a client more than once as a dead client.'')
          | _ \<Rightarrow>
              Inr (Inl ''The received UnmaskingRequest considers a client dead in round 3 that was already considered dead.'')))"

fun unmasking_loop ::
  "AsyncAbort \<Rightarrow> R3State \<Rightarrow> nat list \<Rightarrow> nat \<Rightarrow> NoiseOrPrfKeyShare list option status_or" where
  "unmasking_loop a st [] p = Inr (Some [])"
| "unmasking_loop a st (i # is) p =
     (if Signalled a p then Inr None
      else
        and_then (at_index (other_client_states st) i) (\<lambda>other_state.
        and_then
          (case other_state of
             kAlive \<Rightarrow> and_then (at_index (self_key_shares st) i) (\<lambda>s. Inr (prf_sk_share (share_data s)))
           | kDeadAtRound3 \<Rightarrow> and_then (at_index (pairwise_key_shares st) i) (\<lambda>s. Inr (noise_sk_share (share_data s)))
           | _ \<Rightarrow> Inr ONEOF_SHARES_NOT_SET)
          (\<lambda>share. and_then (unmasking_loop a st is (p + 1)) (\<lambda>shares. Inr (map_option ((#) share) shares)))))"

definition R3_HandleMessage ::
  "AsyncAbort \<Rightarrow> R3State \<Rightarrow> ServerToClientWrapperMessage \<Rightarrow> client_log \<Rightarrow> handler_result" where
  "R3_HandleMessage a st message l =
     (case message of
        S2C_abort m \<Rightarrow> handle_server_abort m l
      | S2C_unmasking_request dead_3_client_ids \<Rightarrow>
          if Signalled a 0 then AbortAndNotifyServer (Message a) l
          else
            and_then (dead_clients_loop st dead_3_client_ids) (\<lambda>r.
              case r of Inl error_message \<Rightarrow> AbortAndNotifyServer error_message l
              | Inr st \<Rightarrow>
                  if number_of_alive_neighbors st < minimum_surviving st then
                    AbortAndNotifyServer
                      ''Not enough clients survived. The server should not have sent this UnmaskingRequest.'' l
                  else
                    and_then (unmasking_loop a st [0..<unat (number_of_neighbors st)] 1) (\<lambda>shares.
                      case shares of None \<Rightarrow> AbortAndNotifyServer (Message a) l
                      | Some shares \<Rightarrow> make_state ClientCompleted (Send (C2S_unmasking_response shares) l)))
      | _ \<Rightarrow> base_HandleMessage (R3Unmasking st) message)"

section \<open>Virtual calls\<close>

fun state_Start ::
  "crypto \<Rightarrow> client_entropy \<Rightarrow> SecAggClientState \<Rightarrow> client_log \<Rightarrow> handler_result" where
  "state_Start c ent (R0InputNotSet st) l = R0NotSet_Start c ent st l"
| "state_Start c ent (R0InputSet st input_map) l = R0Set_Start c ent st input_map l"
| "state_Start c ent s l = base_Start s"

fun state_HandleMessage ::
  "crypto \<Rightarrow> AsyncAbort \<Rightarrow> client_entropy \<Rightarrow> SecAggClientState \<Rightarrow> ServerToClientWrapperMessage
    \<Rightarrow> client_log \<Rightarrow> handler_result" where
  "state_HandleMessage c a ent (R0InputNotSet st) m l = R0_HandleMessage (R0InputNotSet st) m l"
| "state_HandleMessage c a ent (R0InputSet st i) m l = R0_HandleMessage (R0InputSet st i) m l"
| "state_HandleMessage c a ent (R1InputNotSet st) m l = R1NotSet_HandleMessage c a ent st m l"
| "state_HandleMessage c a ent (R1InputSet st i) m l = R1Set_HandleMessage c a ent st i m l"
| "state_HandleMessage c a ent (R2InputNotSet st) m l = R2NotSet_HandleMessage c a st m l"
| "state_HandleMessage c a ent (R2InputSet st i) m l = R2Set_HandleMessage c a st i m l"
| "state_HandleMessage c a ent (R2WaitingForInput st) m l = R2Waiting_HandleMessage st m l"
| "state_HandleMessage c a ent (R3Unmasking st) m l = R3_HandleMessage a st m l"
| "state_HandleMessage c a ent s m l = base_HandleMessage s m"

fun state_SetInput :: "SecAggClientState \<Rightarrow> SecAggVectorMap \<Rightarrow> client_log \<Rightarrow> handler_result" where
  "state_SetInput (R0InputNotSet st) input_map l = R0NotSet_SetInput st input_map l"
| "state_SetInput (R1InputNotSet st) input_map l = R1NotSet_SetInput st input_map l"
| "state_SetInput (R2InputNotSet st) input_map l = R2NotSet_SetInput st input_map l"
| "state_SetInput (R2WaitingForInput st) input_map l = R2Waiting_SetInput st input_map l"
| "state_SetInput s input_map l = base_SetInput s"

fun state_IsAborted :: "SecAggClientState \<Rightarrow> bool" where
  "state_IsAborted (ClientAborted _) = True"
| "state_IsAborted _ = False"

fun state_IsCompletedSuccessfully :: "SecAggClientState \<Rightarrow> bool" where
  "state_IsCompletedSuccessfully ClientCompleted = True"
| "state_IsCompletedSuccessfully _ = False"

fun state_ErrorMessage :: "SecAggClientState \<Rightarrow> string status_or" where
  "state_ErrorMessage (ClientAborted reason) = Inr reason"
| "state_ErrorMessage s = Inl (Status FAILED_PRECONDITION
     (''Error message requested, but client is in state '' @ StateName s))"

definition state_Abort :: "SecAggClientState \<Rightarrow> string \<Rightarrow> client_log \<Rightarrow> handler_result" where
  "state_Abort s reason l =
     (if state_IsAborted s \<or> state_IsCompletedSuccessfully s then base_Abort s reason else alive_Abort reason l)"

section \<open>SecAggClient\<close>

record SecAggClient =
  cl_state :: SecAggClientState
  cl_log :: client_log

definition new_SecAggClient ::
  "uint32 \<Rightarrow> uint32 \<Rightarrow> InputVectorSpecification list \<Rightarrow> SecAggClient" where
  "new_SecAggClient max_neighbors minimum specs =
     \<lparr>cl_state = R0InputNotSet \<lparr>max_neighbors_expected = max_neighbors,
        minimum_surviving_neighbors = minimum, input_vector_specs = specs\<rparr>,
      cl_log = Transition R0_ADVERTISE_KEYS \<lparr>sent = [], transitions = [], execution_session_id = 0\<rparr>\<rparr>"

text \<open>The common end of the calls: a new state replaces the old one, an error leaves it.\<close>

definition commit :: "handler_result \<Rightarrow> SecAggClient \<Rightarrow> unit status_or \<times> SecAggClient" where
  "commit state_or_error client =
     (case state_or_error of
        Inr (s, l) \<Rightarrow> (Inr (), \<lparr>cl_state = s, cl_log = l\<rparr>)
      | Inl e \<Rightarrow> (Inl e, client))"

definition Client_Start :: "crypto \<Rightarrow> client_entropy \<Rightarrow> SecAggClient \<Rightarrow> unit status_or \<times> SecAggClient" where
  "Client_Start c ent client = commit (state_Start c ent (cl_state client) (cl_log client)) client"

definition IsAborted :: "SecAggClient \<Rightarrow> bool" where
  "IsAborted client = state_IsAborted (cl_state client)"

definition IsCompletedSuccessfully :: "SecAggClient \<Rightarrow> bool" where
  "IsCompletedSuccessfully client = state_IsCompletedSuccessfully (cl_state client)"

definition Client_Abort :: "string \<Rightarrow> SecAggClient \<Rightarrow> unit status_or \<times> SecAggClient" where
  "Client_Abort reason client =
     (if IsAborted client \<or> IsCompletedSuccessfully client then (Inr (), client)
      else commit (state_Abort (cl_state client) reason (cl_log client)) client)"

definition Client_SetInput :: "SecAggVectorMap \<Rightarrow> SecAggClient \<Rightarrow> unit status_or \<times> SecAggClient" where
  "Client_SetInput input_map client = commit (state_SetInput (cl_state client) input_map (cl_log client)) client"

definition ReceiveMessage ::
  "crypto \<Rightarrow> AsyncAbort \<Rightarrow> client_entropy \<Rightarrow> ServerToClientWrapperMessage \<Rightarrow> SecAggClient
    \<Rightarrow> bool status_or \<times> SecAggClient" where
  "ReceiveMessage c a ent incoming client =
     (case commit (state_HandleMessage c a ent (cl_state client) incoming (cl_log client)) client of
        (Inr _, client) \<Rightarrow> (Inr (\<not> (IsAborted client \<or> IsCompletedSuccessfully client)), client)
      | (Inl e, client) \<Rightarrow> (Inl e, client))"

definition ErrorMessage :: "SecAggClient \<Rightarrow> string status_or" where
  "ErrorMessage client = state_ErrorMessage (cl_state client)"

definition State :: "SecAggClient \<Rightarrow> string" where
  "State client = StateName (cl_state client)"

section \<open>Runs of a client\<close>

datatype client_call =
  CallStart client_entropy
| CallAbort string
| CallSetInput SecAggVectorMap
| CallReceive AsyncAbort client_entropy ServerToClientWrapperMessage

fun call :: "crypto \<Rightarrow> client_call \<Rightarrow> SecAggClient \<Rightarrow> SecAggClient" where
  "call c (CallStart ent) client = snd (Client_Start c ent client)"
| "call c (CallAbort reason) client = snd (Client_Abort reason client)"
| "call c (CallSetInput input_map) client = snd (Client_SetInput input_map client)"
| "call c (CallReceive a ent m) client = snd (ReceiveMessage c a ent m client)"

inductive client_reachable :: "crypto \<Rightarrow> SecAggClient \<Rightarrow> SecAggClient \<Rightarrow> bool" for c start where
  initially: "client_reachable c start start"
| later: "client_reachable c start client \<Longrightarrow> client_reachable c start (call c e client)"

end
