(* ===== verification/Client_Protocol.thy ===== *)
theory Client_Protocol
  imports SecAgg_Client
begin

text \<open>
  What the client promises as a protocol participant. \<open>client_spec\<close> is the abstract automaton
  of the four rounds: its state is the round, the kinds of the messages sent and the rounds
  reported to the listener. \<open>call_refines\<close> shows that every call of the client's interface is a
  step of the automaton or changes nothing; what may be sent in a whole run follows from the
  automaton alone.
\<close>

section \<open>The automaton\<close>

datatype message_kind = AdvertiseKind | ShareKind | MaskedKind | UnmaskKind | AbortKind | NoKind

fun kind_of :: "ClientToServerWrapperMessage \<Rightarrow> message_kind" where
  "kind_of (C2S_abort _) = AbortKind"
| "kind_of (C2S_advertise_keys _) = AdvertiseKind"
| "kind_of (C2S_share_keys_response _) = ShareKind"
| "kind_of (C2S_masked_input_response _) = MaskedKind"
| "kind_of (C2S_unmasking_response _) = UnmaskKind"
| "kind_of C2S_NOT_SET = NoKind"

definition terminal :: "ClientState \<Rightarrow> bool" where
  "terminal s \<longleftrightarrow> s = COMPLETED \<or> s = ABORTED"

type_synonym client_view = "ClientState \<times> message_kind list \<times> ClientState list"

inductive client_spec :: "client_view \<Rightarrow> client_view \<Rightarrow> bool" where
  advertise: "client_spec (R0_ADVERTISE_KEYS, ks, ts) (R1_SHARE_KEYS, ks @ [AdvertiseKind], ts @ [R1_SHARE_KEYS])"
| share: "client_spec (R1_SHARE_KEYS, ks, ts) (R2_MASKED_INPUT, ks @ [ShareKind], ts @ [R2_MASKED_INPUT])"
| masked: "client_spec (R2_MASKED_INPUT, ks, ts) (R3_UNMASKING, ks @ [MaskedKind], ts @ [R3_UNMASKING])"
| unmask: "client_spec (R3_UNMASKING, ks, ts) (COMPLETED, ks @ [UnmaskKind], ts @ [COMPLETED])"
| same_round: "s \<in> {R0_ADVERTISE_KEYS, R1_SHARE_KEYS, R2_MASKED_INPUT} \<Longrightarrow> client_spec (s, ks, ts) (s, ks, ts @ [s])"
| give_up: "\<not> terminal s \<Longrightarrow> client_spec (s, ks, ts) (ABORTED, ks @ [AbortKind], ts @ [ABORTED])"
| told_to_abort: "\<not> terminal s \<Longrightarrow> client_spec (s, ks, ts) (ABORTED, ks, ts @ [ABORTED])"
| told_to_stop: "\<not> terminal s \<Longrightarrow> client_spec (s, ks, ts) (COMPLETED, ks, ts @ [COMPLETED])"

inductive_cases client_specE: "client_spec (s, ks, ts) (s', ks', ts')"

definition view :: "SecAggClientState \<Rightarrow> client_log \<Rightarrow> client_view" where
  "view s l = (state_of s, map kind_of (sent l), transitions l)"

section \<open>Every handler is a step of the automaton\<close>

lemmas views = view_def Transition_def Send_def

lemma step_abort:
  assumes "AbortAndNotifyServer r l = Inr (s', l')" "\<not> terminal (state_of s)"
  shows "client_spec (view s l) (view s' l')"
  using assms client_spec.give_up
  by (auto simp: AbortAndNotifyServer_def views make_state_def)

lemma step_server_abort:
  assumes "handle_server_abort m l = Inr (s', l')" "\<not> terminal (state_of s)"
  shows "client_spec (view s l) (view s' l')"
  using assms client_spec.told_to_abort client_spec.told_to_stop
  by (auto simp: handle_server_abort_def views make_state_def split: if_splits)

lemma view_execution_id [simp]: "view s (l\<lparr>execution_session_id := x\<rparr>) = view s l"
  by (simp add: view_def)

lemma make_state_Inr_iff: "make_state s l = Inr x \<longleftrightarrow> x = (s, Transition (state_of s) l)"
  by (auto simp: make_state_def)

lemma base_HandleMessage_no_Inr [simp]: "base_HandleMessage s m \<noteq> Inr x"
  by (simp add: base_HandleMessage_def)

lemma Start_refines:
  assumes "state_Start c ent s l = Inr (s', l')"
  shows "client_spec (view s l) (view s' l')"
  using assms
  by (cases s) (auto simp: R0NotSet_Start_def R0Set_Start_def R0_advertise_def base_Start_def views
      make_state_Inr_iff and_then_Inr_iff intro: client_spec.intros)

lemma SetInput_refines:
  assumes "state_SetInput s input_map l = Inr (s', l')"
  shows "client_spec (view s l) (view s' l')"
  using assms
  by (cases s) (auto simp: R0NotSet_SetInput_def R1NotSet_SetInput_def R2NotSet_SetInput_def R2Waiting_SetInput_def
      base_SetInput_def set_input_error_def SendMaskedInput_def views
      make_state_Inr_iff and_then_Inr_iff split: if_splits intro: client_spec.intros)

lemma Abort_refines:
  assumes "state_Abort s reason l = Inr (s', l')"
  shows "client_spec (view s l) (view s' l')"
proof -
  have "alive_Abort reason l = Inr (s', l')" "\<not> terminal (state_of s)"
    using assms by (cases s; simp add: state_Abort_def base_Abort_def terminal_def)+
  then show ?thesis unfolding alive_Abort_def by (rule step_abort)
qed

lemma R1NotSet_refines:
  assumes "R1NotSet_HandleMessage c a ent st m l = Inr (s', l')" "s = R1InputNotSet st"
  shows "client_spec (view s l) (view s' l')"
proof (cases m)
  case (S2C_abort x)
  then show ?thesis using assms by (intro step_server_abort [of x]) (simp_all add: R1NotSet_HandleMessage_def terminal_def)
next
  case (S2C_share_keys_request request)
  let ?l = "l\<lparr>execution_session_id := sec_agg_execution_logging_id request\<rparr>"
  obtain key r p where r: "HandleShareKeysRequest c a (share_draws ent) st key request = Inr (r, p)"
      and rest: "(case r of Inl e \<Rightarrow> AbortAndNotifyServer e ?l
        | Inr r \<Rightarrow> and_then (EncryptAndSendResponse c a (nonce ent) (k_enc_keys r) (k_pairwise_shares r)
            (k_self_shares r) p ?l) (\<lambda>sent_log. case sent_log of None \<Rightarrow> AbortAndNotifyServer (Message a) ?l
            | Some l \<Rightarrow> and_then (at_index (k_self_shares r) (unat (k_client_id r))) (\<lambda>own_share.
                make_state (R2InputNotSet (R2_of_R1 st key r own_share)) l))) = Inr (s', l')"
    using assms(1) S2C_share_keys_request
    by (auto simp: R1NotSet_HandleMessage_def and_then_Inr_iff Let_def)
  have abort: "client_spec (view s l) (view s' l')" if "AbortAndNotifyServer e ?l = Inr (s', l')" for e
    using step_abort [OF that, of s] assms(2) by (simp add: terminal_def)
  show ?thesis
  proof (cases r)
    case (Inl e)
    then show ?thesis using rest abort by simp
  next
    case (Inr k)
    then show ?thesis
      using rest abort assms(2) client_spec.share
      by (auto simp: and_then_Inr_iff EncryptAndSendResponse_def views make_state_def split: option.splits)
  qed
qed (use assms in \<open>simp_all add: R1NotSet_HandleMessage_def\<close>)

lemma R1Set_refines:
  assumes "R1Set_HandleMessage c a ent st i m l = Inr (s', l')" "s = R1InputSet st i"
  shows "client_spec (view s l) (view s' l')"
proof (cases m)
  case (S2C_abort x)
  then show ?thesis using assms by (intro step_server_abort [of x]) (simp_all add: R1Set_HandleMessage_def terminal_def)
next
  case (S2C_share_keys_request request)
  let ?l = "l\<lparr>execution_session_id := sec_agg_execution_logging_id request\<rparr>"
  obtain key r p where r: "HandleShareKeysRequest c a (share_draws ent) st key request = Inr (r, p)"
      and rest: "(case r of Inl e \<Rightarrow> AbortAndNotifyServer e ?l
        | Inr r \<Rightarrow> if Signalled a p then AbortAndNotifyServer (Message a) ?l else
            and_then (EncryptAndSendResponse c a (nonce ent) (k_enc_keys r) (k_pairwise_shares r)
            (k_self_shares r) (p + 1) ?l) (\<lambda>sent_log. case sent_log of None \<Rightarrow> AbortAndNotifyServer (Message a) ?l
            | Some l \<Rightarrow> and_then (at_index (k_self_shares r) (unat (k_client_id r))) (\<lambda>own_share.
                make_state (R2InputSet (R2_of_R1 st key r own_share) i) l))) = Inr (s', l')"
    using assms(1) S2C_share_keys_request
    by (auto simp: R1Set_HandleMessage_def and_then_Inr_iff Let_def)
  have abort: "client_spec (view s l) (view s' l')" if "AbortAndNotifyServer e ?l = Inr (s', l')" for e
    using step_abort [OF that, of s] assms(2) by (simp add: terminal_def)
  show ?thesis
  proof (cases r)
    case (Inl e)
    then show ?thesis using rest abort by simp
  next
    case (Inr k)
    then show ?thesis
      using rest abort assms(2) client_spec.share
      by (auto simp: and_then_Inr_iff EncryptAndSendResponse_def views make_state_def split: option.splits if_splits)
  qed
qed (use assms in \<open>simp_all add: R1Set_HandleMessage_def\<close>)

lemma R2_refines:
  assumes "state_HandleMessage c a ent s m l = Inr (s', l')" "state_of s = R2_MASKED_INPUT"
  shows "client_spec (view s l) (view s' l')"
proof -
  have t: "\<not> terminal (state_of s)" using assms(2) by (simp add: terminal_def)
  show ?thesis
    using assms step_abort [OF _ t] step_server_abort [OF _ t] client_spec.masked client_spec.same_round
    by (cases s; cases m) (auto simp: R2NotSet_HandleMessage_def R2Set_HandleMessage_def R2Waiting_HandleMessage_def
        SendMaskedInput_def views make_state_def result_iffs split_beta)
qed

lemma R3_refines:
  assumes "R3_HandleMessage a st m l = Inr (s', l')" "s = R3Unmasking st"
  shows "client_spec (view s l) (view s' l')"
proof -
  have t: "\<not> terminal (state_of s)" using assms(2) by (simp add: terminal_def)
  show ?thesis
    using assms step_abort [OF _ t] step_server_abort [OF _ t] client_spec.unmask
    by (cases m) (auto simp: R3_HandleMessage_def views make_state_def result_iffs)
qed

lemma HandleMessage_refines:
  assumes "state_HandleMessage c a ent s m l = Inr (s', l')"
  shows "client_spec (view s l) (view s' l')"
proof -
  have "client_spec (view s l) (view s' l')" if "R0_HandleMessage s m l = Inr (s', l')" "\<not> terminal (state_of s)"
    using that step_server_abort by (auto simp: R0_HandleMessage_def split: ServerToClientWrapperMessage.splits)
  then show ?thesis
    using assms R1NotSet_refines R1Set_refines R2_refines [OF assms] R3_refines
    by (cases s) (auto simp: terminal_def)
qed

lemma call_step:
  "call c e client = client
    \<or> client_spec (view (cl_state client) (cl_log client)) (view (cl_state (call c e client)) (cl_log (call c e client)))"
  by (cases e) (auto simp: Client_Start_def Client_Abort_def Client_SetInput_def ReceiveMessage_def commit_def
      split: sum.splits dest: Start_refines SetInput_refines Abort_refines HandleMessage_refines)

section \<open>Runs of the automaton\<close>

fun round_no :: "ClientState \<Rightarrow> nat" where
  "round_no INITIAL = 0"
| "round_no R0_ADVERTISE_KEYS = 0"
| "round_no R1_SHARE_KEYS = 1"
| "round_no R2_MASKED_INPUT = 2"
| "round_no R3_UNMASKING = 3"
| "round_no COMPLETED = 4"
| "round_no ABORTED = 5"

definition round_messages :: "message_kind list" where
  "round_messages = [AdvertiseKind, ShareKind, MaskedKind, UnmaskKind]"

text \<open>
  What may have been sent: exactly the messages of the rounds passed, also when the protocol is over, where the last running
  round is the one reported before the end. A client that completed has sent its unmasking answer as well, or was told to stop;
  one that aborted may have told the server, as its last message.
\<close>

definition disciplined :: "client_view \<Rightarrow> bool" where
  "disciplined v = (case v of (s, ks, ts) \<Rightarrow>
     s \<noteq> INITIAL \<and> ts \<noteq> [] \<and> last ts = s \<and> sorted (map round_no ts)
     \<and> (if terminal s
        then butlast ts \<noteq> [] \<and> \<not> terminal (last (butlast ts))
          \<and> (let sent_so_far = take (round_no (last (butlast ts))) round_messages
             in ks = sent_so_far
               \<or> s = COMPLETED \<and> last (butlast ts) = R3_UNMASKING \<and> ks = round_messages
               \<or> s = ABORTED \<and> ks = sent_so_far @ [AbortKind])
        else ks = take (round_no s) round_messages))"

lemma sorted_snoc: "sorted (xs @ [x :: nat]) \<longleftrightarrow> sorted xs \<and> (xs \<noteq> [] \<longrightarrow> last xs \<le> x)"
proof (induction xs)
  case (Cons y ys)
  then show ?case by (cases "ys = []") (auto intro: order_trans dest: last_in_set)
qed simp

lemma last_map_round: "ts \<noteq> [] \<Longrightarrow> last (map round_no ts) = round_no (last ts)"
  by (simp add: last_map)

lemma disciplined_running:
  assumes "disciplined (s, ks, ts)" "\<not> terminal s"
  shows "ks = take (round_no s) round_messages" "round_no s \<le> 3" "ts \<noteq> []" "last ts = s" "sorted (map round_no ts)"
  using assms by (cases s; simp add: disciplined_def terminal_def)+

lemma disciplined_step:
  assumes "client_spec v v'" "disciplined v"
  shows "disciplined v'"
  using assms
proof (induction rule: client_spec.induct)
  case (give_up s ks ts)
  note d = disciplined_running [OF give_up(2,1)]
  show ?case using d give_up(1) by (simp add: disciplined_def sorted_snoc last_map_round terminal_def Let_def)
next
  case (told_to_abort s ks ts)
  note d = disciplined_running [OF told_to_abort(2,1)]
  show ?case using d told_to_abort(1) by (simp add: disciplined_def sorted_snoc last_map_round terminal_def Let_def)
next
  case (told_to_stop s ks ts)
  note d = disciplined_running [OF told_to_stop(2,1)]
  show ?case using d told_to_stop(1) by (simp add: disciplined_def sorted_snoc last_map_round terminal_def Let_def)
qed (auto simp: disciplined_def sorted_snoc last_map_round round_messages_def numeral_eq_Suc terminal_def)

lemma reachable_view:
  assumes "client_reachable c start client"
  shows "client_spec\<^sup>*\<^sup>* (view (cl_state start) (cl_log start)) (view (cl_state client) (cl_log client))"
  using assms
proof induction
  case (later client e)
  then show ?case using call_step [of c e client] by (auto intro: rtranclp.rtrancl_into_rtrancl)
qed simp

lemma reachable_disciplined:
  assumes "client_spec\<^sup>*\<^sup>* v v'" "disciplined v"
  shows "disciplined v'"
  using assms by (induction rule: rtranclp_induct) (auto intro: disciplined_step)

lemma new_client_view [simp]:
  "view (cl_state (new_SecAggClient mx mn specs)) (cl_log (new_SecAggClient mx mn specs))
    = (R0_ADVERTISE_KEYS, [], [R0_ADVERTISE_KEYS])"
  by (simp add: new_SecAggClient_def views)

lemma new_client_disciplined: "disciplined (R0_ADVERTISE_KEYS, [], [R0_ADVERTISE_KEYS])"
  by (simp add: disciplined_def terminal_def)

text \<open>The end states take part in nothing.\<close>

lemma call_after_end: "IsAborted client \<or> IsCompletedSuccessfully client \<Longrightarrow> call c e client = client"
  by (cases e; cases "cl_state client")
    (auto simp: IsAborted_def IsCompletedSuccessfully_def Client_Abort_def Client_Start_def Client_SetInput_def
      ReceiveMessage_def commit_def base_Start_def base_SetInput_def base_HandleMessage_def)

lemma calls_after_end: "IsAborted client \<or> IsCompletedSuccessfully client \<Longrightarrow> fold (call c) calls client = client"
  by (induction calls) (simp_all add: call_after_end)

section \<open>A sample client\<close>

text \<open>The first call of a client with toy cryptography, for the witnesses here and of \<open>Client_Shares\<close>.\<close>

definition demo_draws :: "uint32 list" where
  "demo_draws = map of_nat [1..<40]"

definition demo_entropy :: client_entropy where
  "demo_entropy = \<lparr>enc_keypair = (3, 3), prng_keypair = (5, 5), rand8 = \<lambda>i. of_nat i, share_draws = demo_draws,
     nonce = \<lambda>_. replicate 12 9\<rparr>"

definition demo_abort :: AsyncAbort where
  "demo_abort = \<lparr>Signalled = \<lambda>_. False, Message = []\<rparr>"

definition demo_key :: "nat \<Rightarrow> bytes" where
  "demo_key k = EC_POINT_point2oct sample_crypto k"

definition demo_r1 :: R1State where
  "demo_r1 = R1_of_R0 \<lparr>max_neighbors_expected = 5, minimum_surviving_neighbors = 2, input_vector_specs = []\<rparr>
     \<lparr>ec_private = 3, ec_public = Some 3\<rparr> \<lparr>ec_private = 5, ec_public = Some 5\<rparr>"

lemma demo_key_facts:
  assumes "k < 256"
  shows "length (demo_key k) = 33" "demo_key k \<noteq> []" "EC_POINT_oct2point sample_crypto (demo_key k) = Some k"
    "PublicKey sample_crypto \<lparr>ec_private = k, ec_public = Some k\<rparr> = Inr (demo_key k)"
    "ComputeSharedSecret sample_crypto \<lparr>ec_private = a, ec_public = Some a\<rparr> (demo_key k) = Inr (rev (le_bytes 32 (a * k)))"
proof -
  have "k < 256 ^ 32" using assms by (rule less_le_trans) simp
  then show o: "EC_POINT_oct2point sample_crypto (demo_key k) = Some k"
    by (simp add: demo_key_def sample_crypto_def be_val_def le_val_le_bytes)
  show l: "length (demo_key k) = 33" by (simp add: demo_key_def sample_crypto_def)
  then show "demo_key k \<noteq> []" by auto
  show "PublicKey sample_crypto \<lparr>ec_private = k, ec_public = Some k\<rparr> = Inr (demo_key k)"
    using l by (simp add: PublicKey_def demo_key_def size_defs Let_def)
  show "ComputeSharedSecret sample_crypto \<lparr>ec_private = a, ec_public = Some a\<rparr> (demo_key k) = Inr (rev (le_bytes 32 (a * k)))"
    using l o by (simp add: ComputeSharedSecret_def public_key_size_ok_def size_defs) (simp add: sample_crypto_def)
qed

lemma demo_key_inject: "i < 256 \<Longrightarrow> j < 256 \<Longrightarrow> demo_key i = demo_key j \<longleftrightarrow> i = j"
  using demo_key_facts(3) [of i] demo_key_facts(3) [of j] by (metis option.inject)

lemma demo_start: "\<exists>key. call sample_crypto (CallStart demo_entropy) (new_SecAggClient 5 2 []) = \<lparr>cl_state = R1InputNotSet demo_r1,
     cl_log = \<lparr>sent = [C2S_advertise_keys key], transitions = [R0_ADVERTISE_KEYS, R1_SHARE_KEYS], execution_session_id = 0\<rparr>\<rparr>"
proof -
  have "CreateFromRandomKeys sample_crypto (k, k) = Inr \<lparr>ec_private = k, ec_public = Some k\<rparr>" if "k < 256 ^ 32" for k
    using that by (simp add: CreateFromRandomKeys_def sample_crypto_def)
  then show ?thesis
    using demo_key_facts(4) [of 3] demo_key_facts(4) [of 5]
    by (simp add: Client_Start_def new_SecAggClient_def R0NotSet_Start_def R0_advertise_def demo_entropy_def commit_def make_state_def demo_r1_def
        Transition_def Send_def)
qed

section \<open>Properties\<close>

text \<open>
  C7. The client implements the abstract automaton: whatever sequence of calls is made (start,
  input, messages with any content, aborts, with any randomness and any timing of the abort
  signal), what the client has done is a run of \<open>client_spec\<close> from its initial state.
\<close>

theorem client_refines_spec:
  assumes "client_reachable c (new_SecAggClient mx mn specs) client"
  shows "client_spec\<^sup>*\<^sup>* (R0_ADVERTISE_KEYS, [], [R0_ADVERTISE_KEYS])
    (state_of (cl_state client), map kind_of (sent (cl_log client)), transitions (cl_log client))"
  using reachable_view [OF assms] by (simp add: view_def [of "cl_state client"])

theorem client_refines_spec_witness:
  "client_spec\<^sup>*\<^sup>* (R0_ADVERTISE_KEYS, [], [R0_ADVERTISE_KEYS]) (ABORTED, [AbortKind], [R0_ADVERTISE_KEYS, ABORTED])"
proof -
  let ?cl = "call sample_crypto (CallAbort ''x'') (new_SecAggClient 5 2 [])"
  have "client_reachable sample_crypto (new_SecAggClient 5 2 []) ?cl" by (intro client_reachable.intros)
  from client_refines_spec [OF this] show ?thesis
    by (simp add: Client_Abort_def IsAborted_def IsCompletedSuccessfully_def new_SecAggClient_def state_Abort_def
        alive_Abort_def AbortAndNotifyServer_def commit_def make_state_def Transition_def Send_def)
qed

text \<open>
  C31. In every run a client sends each of its four round messages once and in the order of the rounds: while it runs exactly the
  messages of the rounds it has passed, and when it has ended those of the rounds it had passed when it ended, with its
  unmasking answer if it completed the last round and an abort notice as the last message if it gave up. The rounds it reports
  never go back. And the end is final: no sequence of further calls changes a client that has aborted or completed, so nothing
  is sent, reported or computed after it.
\<close>

theorem client_sends_in_order:
  assumes "client_reachable c (new_SecAggClient mx mn specs) client"
  shows "disciplined (state_of (cl_state client), map kind_of (sent (cl_log client)), transitions (cl_log client))
    \<and> (IsAborted client \<or> IsCompletedSuccessfully client \<longrightarrow> fold (call c) calls client = client)"
proof -
  have "disciplined (view (cl_state client) (cl_log client))"
    using reachable_disciplined [OF reachable_view [OF assms]] by (simp add: new_client_disciplined)
  then show ?thesis using calls_after_end by (simp add: view_def)
qed

text \<open>A client that advertises its keys and is told by the server that the sum is complete without it.\<close>

definition demo_stopped :: SecAggClient where
  "demo_stopped = fold (call sample_crypto)
     [CallStart demo_entropy, CallReceive demo_abort demo_entropy (S2C_abort \<lparr>diagnostic_info = [], early_success = True\<rparr>)]
     (new_SecAggClient 5 2 [])"

theorem client_sends_in_order_witness:
  "IsCompletedSuccessfully demo_stopped \<and> map kind_of (sent (cl_log demo_stopped)) = [AdvertiseKind]
    \<and> disciplined (COMPLETED, [AdvertiseKind], [R0_ADVERTISE_KEYS, R1_SHARE_KEYS, COMPLETED])
    \<and> fold (call sample_crypto) [CallStart demo_entropy, CallSetInput [], CallAbort ''late''] demo_stopped = demo_stopped"
proof -
  have reach: "client_reachable sample_crypto (new_SecAggClient 5 2 []) demo_stopped"
    unfolding demo_stopped_def fold.simps comp_def id_def by (intro client_reachable.intros)
  have "cl_state demo_stopped = ClientCompleted" "map kind_of (sent (cl_log demo_stopped)) = [AdvertiseKind]"
      "transitions (cl_log demo_stopped) = [R0_ADVERTISE_KEYS, R1_SHARE_KEYS, COMPLETED]"
    using demo_start
    by (auto simp: demo_stopped_def ReceiveMessage_def R1NotSet_HandleMessage_def handle_server_abort_def make_state_def commit_def
        Transition_def split: sum.splits)
  then show ?thesis
    using client_sends_in_order [OF reach, of "[CallStart demo_entropy, CallSetInput [], CallAbort ''late'']"]
    by (simp add: IsCompletedSuccessfully_def)
qed

end
