(* ===== verification/Client_Shares.thy ===== *)
theory Client_Shares
  imports Client_Protocol
begin

text \<open>
  The data a client carries from round to round: the invariant of its state objects, kept by
  every call (\<open>client_inv_reachable\<close>), and what the answer to an unmasking request reveals.
\<close>

section \<open>Counting alive clients\<close>

definition count_alive :: "OtherClientState list \<Rightarrow> nat" where
  "count_alive states = length (filter (\<lambda>s. s = kAlive) states)"

lemma count_alive_le: "count_alive states \<le> length states"
  by (simp add: count_alive_def)

lemma count_alive_replicate [simp]: "count_alive (replicate n kAlive) = n"
  by (simp add: count_alive_def)

lemma length_filter_nth: "length (filter P xs) = length (filter (\<lambda>i. P (xs ! i)) [0..<length xs])"
proof -
  have "filter P xs = filter P (map ((!) xs) [0..<length xs])" by (simp add: map_nth)
  also have "length \<dots> = length (filter (\<lambda>i. P (xs ! i)) [0..<length xs])" by (simp add: filter_map comp_def)
  finally show ?thesis .
qed

lemma count_alive_append: "count_alive (xs @ ys) = count_alive xs + count_alive ys"
  by (simp add: count_alive_def)

lemma count_alive_kill:
  assumes "i < length states" "states ! i = kAlive" "s \<noteq> kAlive"
  shows "count_alive states = count_alive (states[i := s]) + 1"
proof -
  have "states = take i states @ [kAlive] @ drop (i + 1) states"
    using id_take_nth_drop [OF assms(1)] assms(2) by simp
  then have "count_alive states = count_alive (take i states @ [kAlive] @ drop (i + 1) states)"
    by (rule arg_cong)
  moreover have "states[i := s] = take i states @ [s] @ drop (i + 1) states"
    using assms(1) by (simp add: upd_conv_take_nth_drop)
  ultimately show ?thesis using assms(3) by (simp add: count_alive_append count_alive_def)
qed

lemma unat_count_kill:
  assumes "unat (k :: uint32) = count_alive states" "i < length states" "states ! i = kAlive" "s \<noteq> kAlive"
  shows "unat (k - 1) = count_alive (states[i := s])"
proof -
  have c: "unat k = count_alive (states[i := s]) + 1" using count_alive_kill [OF assms(2-4)] assms(1) by simp
  then have "(1 :: uint32) \<le> k" by (simp add: word_le_nat_alt)
  then show ?thesis using c by (simp add: unat_sub)
qed

section \<open>Invariants\<close>

definition r2_ok :: "R2State \<Rightarrow> bool" where
  "r2_ok st \<longleftrightarrow>
     (let n = length (r2_other_client_states st); cid = unat (r2_client_id st) in
      n < 2 ^ 31 \<and> unat (r2_number_of_neighbors st) = n \<and> length (other_client_enc_keys st) = n
      \<and> length (other_client_prng_keys st) = n \<and> cid < n \<and> r2_other_client_states st ! cid = kAlive
      \<and> set (r2_other_client_states st) \<subseteq> {kAlive, kDeadAtRound1}
      \<and> unat (r2_number_of_alive_neighbors st) = count_alive (r2_other_client_states st)
      \<and> r2_minimum_surviving st \<le> r2_number_of_alive_neighbors st)"

definition r3_ok :: "('a) R3State_scheme \<Rightarrow> bool" where
  "r3_ok st \<longleftrightarrow>
     (let n = length (other_client_states st); cid = unat (client_id st) in
      n < 2 ^ 31 \<and> unat (number_of_neighbors st) = n \<and> length (pairwise_key_shares st) = n
      \<and> length (self_key_shares st) = n \<and> cid < n \<and> other_client_states st ! cid = kAlive
      \<and> share_data (pairwise_key_shares st ! cid) = []
      \<and> set (other_client_states st) \<subseteq> {kAlive, kDeadAtRound1, kDeadAtRound2}
      \<and> (\<forall>i<n. other_client_states st ! i \<noteq> kAlive \<longrightarrow>
           share_data (pairwise_key_shares st ! i) = [] \<and> share_data (self_key_shares st ! i) = [])
      \<and> unat (number_of_alive_neighbors st) = count_alive (other_client_states st)
      \<and> minimum_surviving st \<le> number_of_alive_neighbors st)"

fun client_inv :: "SecAggClientState \<Rightarrow> bool" where
  "client_inv (R2InputNotSet st) = r2_ok st"
| "client_inv (R2InputSet st _) = r2_ok st"
| "client_inv (R2WaitingForInput st) = r3_ok st"
| "client_inv (R3Unmasking st) = r3_ok st"
| "client_inv _ = True"

subsection \<open>Round 1\<close>

definition vars_ok :: "nat \<Rightarrow> nat \<Rightarrow> share_keys_vars \<Rightarrow> bool" where
  "vars_ok n i v \<longleftrightarrow> length (v_states v) = n \<and> length (v_enc_keys v) = i \<and> length (v_prng_keys v) = i
     \<and> (\<forall>j. i \<le> j \<and> j < n \<longrightarrow> v_states v ! j = kAlive) \<and> set (v_states v) \<subseteq> {kAlive, kDeadAtRound1}
     \<and> unat (v_alive v) = count_alive (v_states v)
     \<and> (\<forall>cid. v_client_id v = Some cid \<longrightarrow> unat cid < i \<and> v_states v ! unat cid = kAlive)"

lemma share_keys_step_ok:
  assumes "share_keys_step c st se sp i keys v = Inr (Inr v')" "vars_ok n i v" "i < n" "n < 2 ^ 32"
  shows "vars_ok n (i + 1) v'"
proof -
  have v: "length (v_states v) = n" "v_states v ! i = kAlive" "set (v_states v) \<subseteq> {kAlive, kDeadAtRound1}"
      "unat (v_alive v) = count_alive (v_states v)"
    using assms(2,3) by (auto simp: vars_ok_def)
  consider (dead) "v' = push_keys [] [] (v\<lparr>v_states := (v_states v)[i := kDeadAtRound1], v_alive := v_alive v - 1\<rparr>)"
    | (self) "v' = push_keys [] [] (v\<lparr>v_client_id := Some (of_nat i)\<rparr>)"
    | (other) e p where "v' = push_keys e p v"
    using assms(1) by (auto simp: share_keys_step_def result_iffs split: prod.splits option.splits if_splits)
  then show ?thesis
  proof cases
    case dead
    have "set ((v_states v)[i := kDeadAtRound1]) \<subseteq> {kAlive, kDeadAtRound1}"
      using v(3) set_update_subset_insert [of "v_states v" i kDeadAtRound1] by blast
    moreover have "unat (v_alive v - 1) = count_alive ((v_states v)[i := kDeadAtRound1])"
      using unat_count_kill [OF v(4), of i kDeadAtRound1] v(1,2) assms(3) by simp
    ultimately show ?thesis
      using dead assms(2,3) unfolding vars_ok_def push_keys_def by (auto simp: nth_list_update)
  next
    case self
    have "unat (of_nat i :: uint32) = i" using assms(3,4) by (intro unat_of_nat_u32) simp
    then show ?thesis using self assms(2,3) v(2) by (auto simp: vars_ok_def push_keys_def)
  next
    case other
    then show ?thesis using assms(2,3) by (auto simp: vars_ok_def push_keys_def less_Suc_eq)
  qed
qed

lemma share_keys_loop_ok:
  assumes "share_keys_loop c a st se sp i pairs v p = Inr (Inr v', p')" "vars_ok n i v"
    and "i + length pairs = n" "n < 2 ^ 32"
  shows "vars_ok n n v'"
  using assms
proof (induction pairs arbitrary: i v p)
  case (Cons keys pairs)
  then obtain v1 where "share_keys_step c st se sp i keys v = Inr (Inr v1)"
      "share_keys_loop c a st se sp (i + 1) pairs v1 (p + 1) = Inr (Inr v', p')"
    by (auto simp: result_iffs)
  then show ?case using Cons.IH [of "i + 1" v1 "p + 1"] share_keys_step_ok [of c st se sp i keys v v1 n] Cons.prems
    by simp
qed simp

lemma HandleShareKeysRequest_ok:
  assumes "HandleShareKeysRequest c a draws st self_key request = Inr (Inr r, p)"
  shows "r2_ok (R2_of_R1 st self_key r own_share)"
proof -
  let ?n = "length (pairs_of_public_keys request)"
  have n: "int ?n \<le> sint (max_neighbors_expected st)"
    using assms by (auto simp: HandleShareKeysRequest_def Let_def result_iffs split: if_splits)
  have "sint (max_neighbors_expected st) < 2 ^ 31"
    using sint_less [of "max_neighbors_expected st"] by simp
  then have "int ?n < 2147483648" using n by simp
  then have n31: "?n < 2 ^ 31" by simp
  obtain se sp v q where v: "share_keys_loop c a st se sp 0 (pairs_of_public_keys request)
        \<lparr>v_client_id = None, v_alive = of_nat ?n, v_states = replicate ?n kAlive, v_enc_keys = [], v_prng_keys = []\<rparr> 0
        = Inr (Inr v, q)"
      and r: "\<not> v_alive v < minimum_surviving_neighbors st" "v_client_id v = Some (k_client_id r)"
        "k_alive r = v_alive v" "k_number_of_clients r = of_nat ?n" "k_states r = v_states v"
        "k_enc_keys r = v_enc_keys v" "k_prng_keys r = v_prng_keys v"
    using assms
    by (auto simp: HandleShareKeysRequest_def Let_def result_iffs split: if_splits option.splits)
  have "vars_ok ?n 0 \<lparr>v_client_id = None, v_alive = of_nat ?n, v_states = replicate ?n kAlive, v_enc_keys = [], v_prng_keys = []\<rparr>"
    using n31 by (auto simp: vars_ok_def unat_of_nat_u32)
  from share_keys_loop_ok [OF v this] have "vars_ok ?n ?n v" using n31 by simp
  then show "r2_ok (R2_of_R1 st self_key r own_share)"
    using r n31 by (auto simp: vars_ok_def r2_ok_def R2_of_R1_def Let_def unat_of_nat_u32 not_less)
qed

subsection \<open>Round 2\<close>

lemma sint_small:
  assumes "unat (w :: uint32) < 2147483648"
  shows "sint w = int (unat w)"
proof -
  have "int (unat w) < 2147483648" using assms by (simp del: of_nat_unat)
  then have "uint w < 2 ^ 31" by simp
  moreover have "- (2 ^ 31) \<le> uint w" by (rule order_trans [OF _ uint_ge_0]) simp
  ultimately have "signed_take_bit 31 (uint w) = uint w" by (intro signed_take_bit_int_eq_self)
  then show ?thesis by (simp add: sint_uint)
qed

definition mvars_ok :: "nat \<Rightarrow> nat \<Rightarrow> nat \<Rightarrow> masked_input_vars \<Rightarrow> bool" where
  "mvars_ok n cid i v \<longleftrightarrow> length (m_states v) = n \<and> length (m_pairwise v) = i \<and> length (m_self v) = i
     \<and> m_states v ! cid = kAlive \<and> set (m_states v) \<subseteq> {kAlive, kDeadAtRound1, kDeadAtRound2}
     \<and> unat (m_alive v) = count_alive (m_states v) \<and> (cid < i \<longrightarrow> share_data (m_pairwise v ! cid) = [])
     \<and> (\<forall>j<i. m_states v ! j \<noteq> kAlive \<longrightarrow> share_data (m_pairwise v ! j) = [] \<and> share_data (m_self v ! j) = [])"

lemma mvars_ok_push:
  assumes "mvars_ok n cid i v" "i < n" "i = cid \<or> m_states v ! i \<noteq> kAlive \<Longrightarrow> noise = []"
    and "m_states v ! i \<noteq> kAlive \<Longrightarrow> prf = []"
  shows "mvars_ok n cid (i + 1) (push_shares noise prf v)"
  using assms by (auto simp: mvars_ok_def push_shares_def nth_append less_Suc_eq)

lemma mvars_ok_kill:
  assumes "mvars_ok n cid i v" "i < n" "i \<noteq> cid" "m_states v ! i = kAlive"
  shows "mvars_ok n cid i (v\<lparr>m_states := (m_states v)[i := kDeadAtRound2], m_alive := m_alive v - 1\<rparr>)"
proof -
  have "unat (m_alive v - 1) = count_alive ((m_states v)[i := kDeadAtRound2])"
    using assms by (intro unat_count_kill) (auto simp: mvars_ok_def)
  moreover have "set ((m_states v)[i := kDeadAtRound2]) \<subseteq> {kAlive, kDeadAtRound1, kDeadAtRound2}"
    using assms(1) set_update_subset_insert [of "m_states v" i kDeadAtRound2] unfolding mvars_ok_def by blast
  ultimately show ?thesis using assms by (auto simp: mvars_ok_def)
qed

lemma masked_input_step_ok:
  assumes "masked_input_step c st i enc v = Inr (Inr v')" "mvars_ok n cid i v" "i < n"
    and cid: "sint (r2_client_id st) = int cid"
  shows "mvars_ok n cid (i + 1) v'"
proof -
  have len: "length (m_states v) = n" and self: "m_states v ! cid = kAlive" using assms(2) by (auto simp: mvars_ok_def)
  consider (self) "i = cid" "v' = push_shares [] (share_data (own_self_key_share st)) v"
    | (dead) "i \<noteq> cid" "v' = push_shares [] [] v"
    | (dies) "i \<noteq> cid" "m_states v ! i = kAlive"
        "v' = push_shares [] [] (v\<lparr>m_states := (m_states v)[i := kDeadAtRound2], m_alive := m_alive v - 1\<rparr>)"
    | (alive) noise own where "i \<noteq> cid" "m_states v ! i = kAlive" "v' = push_shares noise own v"
    using assms(1,3) cid len
    by (auto simp: masked_input_step_def result_iffs split: if_splits option.splits)
  then show ?thesis
  proof cases
    case dies
    show ?thesis unfolding dies(3)
      by (rule mvars_ok_push [OF mvars_ok_kill [OF assms(2,3) dies(1,2)] assms(3)]) simp_all
  qed (use mvars_ok_push [OF assms(2,3)] self in auto)
qed

lemma masked_input_loop_ok:
  assumes "masked_input_loop c a st i encs v p = Inr (Inr v', p')" "mvars_ok n cid i v" "i + length encs = n"
    and "sint (r2_client_id st) = int cid"
  shows "mvars_ok n cid n v'"
  using assms
proof (induction encs arbitrary: i v p)
  case (Cons enc encs)
  then obtain v1 where "masked_input_step c st i enc v = Inr (Inr v1)"
      "masked_input_loop c a st (i + 1) encs v1 (p + 1) = Inr (Inr v', p')"
    by (auto simp: result_iffs)
  then show ?case using Cons.IH [of "i + 1" v1 "p + 1"] masked_input_step_ok [of c st i enc v v1 n cid] Cons.prems
    by simp
qed simp

lemma HandleMaskedInput_ok:
  assumes "HandleMaskedInputCollectionRequest c a st encs = Inr (Inr (masks, v))" "r2_ok st"
  shows "r3_ok (R3_of_R2 st v)" "r3_ok (Waiting_of_R2 st v masks)"
proof -
  let ?n = "length (r2_other_client_states st)" and ?cid = "unat (r2_client_id st)"
  have st: "?n < 2147483648" "?cid < ?n" "unat (r2_number_of_neighbors st) = ?n" using assms(2) by (auto simp: r2_ok_def Let_def)
  have cid: "sint (r2_client_id st) = int ?cid" using st by (intro sint_small) simp
  have n: "sint (r2_number_of_neighbors st) = int ?n" using st by (simp add: sint_small)
  obtain p where len: "length encs = ?n" and v: "masked_input_loop c a st 0 encs
        \<lparr>m_states = r2_other_client_states st, m_alive = r2_number_of_alive_neighbors st, m_pairwise = [], m_self = []\<rparr> 0
        = Inr (Inr v, p)" and alive: "\<not> m_alive v < r2_minimum_surviving st"
    using assms(1) n by (auto simp: HandleMaskedInputCollectionRequest_def result_iffs split: if_splits)
  have "mvars_ok ?n ?cid 0 \<lparr>m_states = r2_other_client_states st, m_alive = r2_number_of_alive_neighbors st,
      m_pairwise = [], m_self = []\<rparr>"
    using assms(2) by (auto simp: mvars_ok_def r2_ok_def Let_def)
  from masked_input_loop_ok [OF v this _ cid] have "mvars_ok ?n ?cid ?n v" using len by simp
  then show "r3_ok (R3_of_R2 st v)" "r3_ok (Waiting_of_R2 st v masks)"
    using st alive by (simp_all add: mvars_ok_def r3_ok_def R3_of_R2_def Waiting_of_R2_def R3State.defs Let_def not_less)
qed

subsection \<open>All calls\<close>

lemma r3_ok_truncate: "r3_ok (R3State.truncate st) = r3_ok st"
  by (simp add: r3_ok_def R3State.defs)

lemma trivial_ends [simp]:
  "AbortAndNotifyServer r l = Inr (s', l') \<Longrightarrow> client_inv s'"
  "handle_server_abort m l = Inr (s', l') \<Longrightarrow> client_inv s'"
  by (auto simp: AbortAndNotifyServer_def handle_server_abort_def make_state_def split: if_splits)

lemma Start_inv: "state_Start c ent s l = Inr (s', l') \<Longrightarrow> client_inv s'"
  by (cases s) (auto simp: R0NotSet_Start_def R0Set_Start_def R0_advertise_def base_Start_def make_state_def result_iffs)

lemma SetInput_inv: "state_SetInput s input_map l = Inr (s', l') \<Longrightarrow> client_inv s \<Longrightarrow> client_inv s'"
  by (cases s) (auto simp: R0NotSet_SetInput_def R1NotSet_SetInput_def R2NotSet_SetInput_def R2Waiting_SetInput_def
      base_SetInput_def set_input_error_def make_state_def result_iffs r3_ok_truncate)

lemma HandleMessage_inv:
  assumes "state_HandleMessage c a ent s m l = Inr (s', l')" "client_inv s"
  shows "client_inv s'"
proof (cases s)
  case (R1InputNotSet st)
  then show ?thesis using assms HandleShareKeysRequest_ok
    by (cases m) (auto simp: R1NotSet_HandleMessage_def result_iffs make_state_def Let_def)
next
  case (R1InputSet st i)
  then show ?thesis using assms HandleShareKeysRequest_ok
    by (cases m) (auto simp: R1Set_HandleMessage_def result_iffs make_state_def Let_def)
next
  case (R2InputNotSet st)
  then show ?thesis using assms HandleMaskedInput_ok
    by (cases m) (auto simp: R2NotSet_HandleMessage_def result_iffs make_state_def)
next
  case (R2InputSet st i)
  then show ?thesis using assms HandleMaskedInput_ok
    by (cases m) (auto simp: R2Set_HandleMessage_def result_iffs make_state_def)
next
  case (R3Unmasking st)
  then show ?thesis using assms
    by (cases m) (auto simp: R3_HandleMessage_def result_iffs make_state_def)
qed (use assms in \<open>auto simp: R0_HandleMessage_def R2Waiting_HandleMessage_def split: ServerToClientWrapperMessage.splits\<close>)

lemma Abort_inv: "state_Abort s r l = Inr (s', l') \<Longrightarrow> client_inv s'"
  by (auto simp: state_Abort_def base_Abort_def alive_Abort_def split: if_splits)

lemma call_inv:
  assumes "client_inv (cl_state client)"
  shows "client_inv (cl_state (call c e client))"
  using assms
  by (cases e) (auto simp: Client_Start_def Client_Abort_def Client_SetInput_def ReceiveMessage_def commit_def
      split: sum.splits dest: Start_inv SetInput_inv HandleMessage_inv Abort_inv)

lemma reachable_inv:
  assumes "client_reachable c (new_SecAggClient mx mn specs) client"
  shows "client_inv (cl_state client)"
  using assms by induction (simp_all add: call_inv new_SecAggClient_def)

section \<open>Round 3\<close>

text \<open>The server numbers clients from 1; \<open>named ids i\<close> says that it declares client \<open>i\<close> dead.\<close>

definition named :: "uint32 list \<Rightarrow> nat \<Rightarrow> bool" where
  "named ids i \<longleftrightarrow> of_nat (i + 1) \<in> set ids"

definition dead_list_ok :: "R3State \<Rightarrow> uint32 list \<Rightarrow> R3State \<Rightarrow> bool" where
  "dead_list_ok st ids st' \<longleftrightarrow>
     (\<exists>states k. st' = st\<lparr>other_client_states := states, number_of_alive_neighbors := k\<rparr>
       \<and> length states = length (other_client_states st) \<and> unat k = count_alive states
       \<and> (\<forall>i<length states. states ! i = (if named ids i then kDeadAtRound3 else other_client_states st ! i)
            \<and> (named ids i \<longrightarrow> other_client_states st ! i = kAlive \<and> i \<noteq> unat (client_id st))))"

lemma named_index:
  assumes "n < 2 ^ 31" "i < n"
  shows "named (x # ids) i \<longleftrightarrow> i = unat (x - 1) \<or> named ids i"
proof -
  have u: "unat (of_nat i :: uint32) = i" using assms by (intro unat_of_nat_u32) simp
  have "of_nat (i + 1) = x \<longleftrightarrow> (of_nat i :: uint32) = x - 1" by (auto simp: algebra_simps)
  also have "\<dots> \<longleftrightarrow> i = unat (x - 1)" unfolding word_unat_eq_iff u ..
  finally have "of_nat (i + 1) = x \<longleftrightarrow> i = unat (x - 1)" .
  then show ?thesis by (auto simp: named_def)
qed

lemma dead_clients_loop_ok:
  assumes "dead_clients_loop st ids = Inr (Inr st')" "length (other_client_states st) = n" "n < 2 ^ 31"
    and "unat (number_of_neighbors st) = n" "unat (number_of_alive_neighbors st) = count_alive (other_client_states st)"
  shows "dead_list_ok st ids st'"
  using assms
proof (induction ids arbitrary: st)
  case Nil
  then show ?case by (auto simp: dead_list_ok_def named_def intro!: exI [of _ "other_client_states st"]
      exI [of _ "number_of_alive_neighbors st"])
next
  case (Cons x ids)
  define i where "i = unat (x - 1)"
  define st1 where "st1 = st\<lparr>other_client_states := (other_client_states st)[i := kDeadAtRound3],
      number_of_alive_neighbors := number_of_alive_neighbors st - 1\<rparr>"
  have i: "i < n" "x - 1 \<noteq> client_id st" "other_client_states st ! i = kAlive"
      and rest: "dead_clients_loop st1 ids = Inr (Inr st')"
    using Cons.prems(1,2,4)
    by (auto simp: Let_def result_iffs i_def st1_def at_index_def not_le word_less_nat_alt
        split: OtherClientState.splits if_splits)
  have k: "unat (number_of_alive_neighbors st - 1) = count_alive ((other_client_states st)[i := kDeadAtRound3])"
    using i Cons.prems(2,5) by (intro unat_count_kill) auto
  have "dead_list_ok st1 ids st'"
    using Cons.IH [OF rest] Cons.prems k by (simp add: st1_def)
  then obtain states m where s: "st' = st1\<lparr>other_client_states := states, number_of_alive_neighbors := m\<rparr>"
      "length states = n" "unat m = count_alive states"
      "\<forall>j<n. states ! j = (if named ids j then kDeadAtRound3 else other_client_states st1 ! j)
            \<and> (named ids j \<longrightarrow> other_client_states st1 ! j = kAlive \<and> j \<noteq> unat (client_id st))"
    using Cons.prems(2) by (auto simp: dead_list_ok_def st1_def)
  have c: "i \<noteq> unat (client_id st)" using i(2) by (simp add: i_def word_unat_eq_iff)
  have "states ! j = (if named (x # ids) j then kDeadAtRound3 else other_client_states st ! j)
      \<and> (named (x # ids) j \<longrightarrow> other_client_states st ! j = kAlive \<and> j \<noteq> unat (client_id st))" if "j < n" for j
  proof (cases "j = i")
    case True
    then show ?thesis using s(4) that i c named_index [OF Cons.prems(3) that, of x ids] Cons.prems(2)
      by (auto simp: i_def st1_def)
  next
    case False
    then show ?thesis using s(4) that i c named_index [OF Cons.prems(3) that, of x ids] Cons.prems(2)
      by (auto simp: i_def st1_def)
  qed
  then show ?case using s(1-3) Cons.prems(2)
    by (auto simp: dead_list_ok_def st1_def intro!: exI [of _ states] exI [of _ m])
qed

definition revealed :: "R3State \<Rightarrow> nat \<Rightarrow> NoiseOrPrfKeyShare" where
  "revealed st i =
     (case other_client_states st ! i of
        kAlive \<Rightarrow> prf_sk_share (share_data (self_key_shares st ! i))
      | kDeadAtRound3 \<Rightarrow> noise_sk_share (share_data (pairwise_key_shares st ! i))
      | _ \<Rightarrow> ONEOF_SHARES_NOT_SET)"

lemma unmasking_loop_ok:
  assumes "unmasking_loop a st is p = Inr (Some shares)"
    and "\<forall>i\<in>set is. i < length (other_client_states st) \<and> i < length (self_key_shares st) \<and> i < length (pairwise_key_shares st)"
  shows "shares = map (revealed st) is"
  using assms
proof (induction "is" arbitrary: p shares)
  case (Cons i "is")
  then obtain rest share where r: "unmasking_loop a st is (p + 1) = Inr (Some rest)" "shares = share # rest"
      and share: "(case other_client_states st ! i of
             kAlive \<Rightarrow> and_then (at_index (self_key_shares st) i) (\<lambda>s. Inr (prf_sk_share (share_data s)))
           | kDeadAtRound3 \<Rightarrow> and_then (at_index (pairwise_key_shares st) i) (\<lambda>s. Inr (noise_sk_share (share_data s)))
           | _ \<Rightarrow> Inr ONEOF_SHARES_NOT_SET) = Inr share"
    by (auto simp: result_iffs)
  then show ?case using Cons.IH [OF r(1)] Cons.prems(2) r(2)
    by (auto simp: revealed_def split: OtherClientState.splits)
qed simp

section \<open>Properties\<close>

text \<open>
  C12. In every reachable state the client's data agree with each other: all per-neighbour lists
  have one entry per client, the client's own entry is alive and never carries its own pairwise
  share, the alive counter equals the number of alive entries and is at least the minimum, and
  there are no shares of neighbours that dropped out.
\<close>

theorem client_data_invariant:
  assumes "client_reachable c (new_SecAggClient mx mn specs) client"
  shows "case cl_state client of
      R2InputNotSet st \<Rightarrow> r2_ok st | R2InputSet st _ \<Rightarrow> r2_ok st
    | R2WaitingForInput st \<Rightarrow> r3_ok st | R3Unmasking st \<Rightarrow> r3_ok st | _ \<Rightarrow> True"
  using reachable_inv [OF assms] by (cases "cl_state client") auto

text \<open>
  A client among three, of which one is dead from the start, after each of its rounds: it starts, receives the keys, then the
  encrypted shares of its one alive neighbour, and gets its (empty) input.
\<close>

definition demo_request :: ShareKeysRequest where
  "demo_request = \<lparr>pairs_of_public_keys = [\<lparr>noise_pk = demo_key 7, enc_pk = demo_key 11\<rparr>, \<lparr>noise_pk = demo_key 5, enc_pk = demo_key 3\<rparr>,
       \<lparr>noise_pk = [], enc_pk = []\<rparr>],
     sec_agg_execution_logging_id = 0, request_session_id = replicate 32 1\<rparr>"

definition demo_round2 :: SecAggClient where
  "demo_round2 = fold (call sample_crypto)
     [CallStart demo_entropy, CallReceive demo_abort demo_entropy (S2C_share_keys_request demo_request)] (new_SecAggClient 5 2 [])"

definition demo_round3 :: SecAggClient where
  "demo_round3 = fold (call sample_crypto)
     [CallReceive demo_abort demo_entropy (S2C_masked_input_request [replicate 12 9 @ [1, 42, 0, 43] @ replicate 16 0, [], []]),
      CallSetInput []] demo_round2"

definition demo_r2 :: "ShamirShare \<Rightarrow> R2State" where
  "demo_r2 own = \<lparr>r2_client_id = 1, r2_minimum_surviving = 2, r2_number_of_alive_neighbors = 2,
      r2_number_of_neighbors = 3, r2_input_vector_specs = [], r2_other_client_states = [kAlive, kAlive, kDeadAtRound1],
      other_client_enc_keys = [rev (le_bytes 32 33), [], []], other_client_prng_keys = [rev (le_bytes 32 35), [], []],
      own_self_key_share = own, self_prng_key = map of_nat [0..<32], session_id = replicate 32 1\<rparr>"

lemma demo_shares:
  "\<exists>self pairwise. SetUpShares demo_draws 2 3 (rev (le_bytes 32 5)) (map of_nat [0..<32]) [] [] = Inr (self, pairwise)
    \<and> length self = 3 \<and> length pairwise = 3"
proof -
  have "accepted demo_draws = 39"
    by (simp add: accepted_def upt_rec kPrime_def demo_draws_def)
  then obtain pairwise d where p: "Share demo_draws 2 3 (rev (le_bytes 32 5)) = Inr (pairwise, d)" "accepted d = 30"
    using Share_total [of "rev (le_bytes 32 5)" 2 3 demo_draws] by (auto simp flip: length_0_conv)
  then obtain self d' where s: "Share d 2 3 (map of_nat [0..<32]) = Inr (self, d')"
    using Share_total [of "map of_nat [0..<32]" 2 3 d] by auto
  have "length pairwise = 3" using Share_polys [OF p(1)] by auto
  moreover have "length self = 3" using Share_polys [OF s] by auto
  ultimately show ?thesis using p s by (simp add: SetUpShares_def)
qed

lemma demo_keys_received:
  assumes "length self = 3" "length others = 3"
    and "SetUpShares demo_draws 2 3 (rev (le_bytes 32 5)) (map of_nat [0..<32]) [] [] = Inr (self, others)"
  shows "HandleShareKeysRequest sample_crypto demo_abort demo_draws demo_r1 (map of_nat [0..<32]) demo_request
    = Inr (Inr \<lparr>k_client_id = 1, k_alive = 2, k_number_of_clients = 3, k_states = [kAlive, kAlive, kDeadAtRound1],
        k_enc_keys = [rev (le_bytes 32 33), [], []], k_prng_keys = [rev (le_bytes 32 35), [], []],
        k_self_shares = self, k_pairwise_shares = others, k_session_id = replicate 32 1\<rparr>, 3)"
proof -
  have "PrivateKey sample_crypto \<lparr>ec_private = 5, ec_public = Some 5\<rparr> = Inr (rev (le_bytes 32 5))"
    by (simp add: PrivateKey_def sample_crypto_def size_defs)
  moreover have "demo_key 11 \<noteq> demo_key 3" by (simp add: demo_key_inject)
  ultimately show ?thesis
    using assms
    by (simp add: HandleShareKeysRequest_def demo_request_def demo_r1_def R1_of_R0_def R0State.defs R1State.defs demo_abort_def Let_def
        share_keys_step_def demo_key_facts push_keys_def size_defs numeral_3_eq_3)
qed

lemma demo_encrypts:
  assumes "length self = 3" "length others = 3"
  shows "\<exists>l'. EncryptAndSendResponse sample_crypto demo_abort (\<lambda>_. replicate 12 9) [rev (le_bytes 32 33), [], []] others self p l = Inr (Some l')"
proof -
  have "\<exists>e. Encrypt sample_crypto (replicate 12 9) (rev (le_bytes 32 33)) plain = Inr e" for plain
    using Decrypt_Encrypt [OF sample_crypto_laws(2), of "rev (le_bytes 32 33)" "replicate 12 9" plain] by auto
  then obtain e where "Encrypt sample_crypto (replicate 12 9) (rev (le_bytes 32 33))
      (SerializePair sample_crypto (share_data (others ! 0)) (share_data (self ! 0))) = Inr e" by blast
  then show ?thesis using assms by (simp add: EncryptAndSendResponse_def demo_abort_def)
qed

lemma demo_round2_state:
  "\<exists>own. cl_state demo_round2 = R2InputNotSet (demo_r2 own)"
proof -
  obtain l where start: "call sample_crypto (CallStart demo_entropy) (new_SecAggClient 5 2 []) = \<lparr>cl_state = R1InputNotSet demo_r1, cl_log = l\<rparr>"
    using demo_start by blast
  obtain self others where shares: "length self = 3" "length others = 3"
      "SetUpShares demo_draws 2 3 (rev (le_bytes 32 5)) (map of_nat [0..<32]) [] [] = Inr (self, others)"
    using demo_shares by blast
  note received = demo_keys_received [OF shares]
  obtain l' where sent: "EncryptAndSendResponse sample_crypto demo_abort (\<lambda>_. replicate 12 9) [rev (le_bytes 32 33), [], []] others self 3
      (l\<lparr>execution_session_id := 0\<rparr>) = Inr (Some l')"
    using demo_encrypts [OF shares(1,2)] by blast
  have ent: "draw_self_prng_key demo_entropy = Inr (map of_nat [0..<32])" "share_draws demo_entropy = demo_draws"
      "nonce demo_entropy = (\<lambda>_. replicate 12 9)"
    by (simp_all add: draw_self_prng_key_def demo_entropy_def size_defs)
  have logged: "sec_agg_execution_logging_id demo_request = 0" by (simp add: demo_request_def)
  have st: "minimum_surviving_neighbors demo_r1 = 2" "input_vector_specs demo_r1 = []" by (simp_all add: demo_r1_def R1_of_R0_def R0State.defs)
  show ?thesis
    unfolding demo_round2_def fold.simps comp_def id_def start
    using shares(1) by (simp add: ReceiveMessage_def R1NotSet_HandleMessage_def ent received sent logged Let_def commit_def make_state_def
        R2_of_R1_def demo_r2_def st)
qed

lemma demo_round3_state:
  "\<exists>st. cl_state demo_round3 = R3Unmasking st \<and> other_client_states st = [kAlive, kAlive, kDeadAtRound1]
     \<and> pairwise_key_shares st = [\<lparr>share_data = [42]\<rparr>, \<lparr>share_data = []\<rparr>, \<lparr>share_data = []\<rparr>]"
proof -
  have "Decrypt sample_crypto (rev (le_bytes 32 33)) (replicate 12 9 @ [1, 42, 0, 43] @ replicate 16 0) = Inr [1, 42, 0, 43]"
    by (simp add: Decrypt_def sample_crypto_def size_defs)
  moreover have "ParsePair sample_crypto [1, 42, 0, 43] = Some ([42], [43])" by (simp add: sample_crypto_def)
  moreover obtain own where r2: "cl_state demo_round2 = R2InputNotSet (demo_r2 own)"
    using demo_round2_state by blast
  ultimately show ?thesis
    using r2 unfolding demo_round3_def fold.simps comp_def id_def
    by (simp add: ReceiveMessage_def Client_SetInput_def R2NotSet_HandleMessage_def HandleMaskedInputCollectionRequest_def
        masked_input_step_def push_shares_def demo_abort_def commit_def make_state_def R2Waiting_SetInput_def Waiting_of_R2_def R3_of_R2_def
        R3State.defs ValidateInput_def SendMaskedInput_def MapOfMasks_def upt_rec demo_r2_def)
qed

theorem client_data_invariant_witness:
  "(\<exists>st. cl_state demo_round2 = R2InputNotSet st \<and> r2_ok st \<and> r2_other_client_states st = [kAlive, kAlive, kDeadAtRound1])
    \<and> (\<exists>st. cl_state demo_round3 = R3Unmasking st \<and> r3_ok st \<and> other_client_states st = [kAlive, kAlive, kDeadAtRound1]
         \<and> pairwise_key_shares st = [\<lparr>share_data = [42]\<rparr>, \<lparr>share_data = []\<rparr>, \<lparr>share_data = []\<rparr>])"
proof -
  have reach: "client_reachable sample_crypto (new_SecAggClient 5 2 []) demo_round2"
      "client_reachable sample_crypto (new_SecAggClient 5 2 []) demo_round3"
    unfolding demo_round3_def demo_round2_def fold.simps comp_def id_def by (intro client_reachable.intros)+
  have "\<exists>st. cl_state demo_round2 = R2InputNotSet st \<and> r2_other_client_states st = [kAlive, kAlive, kDeadAtRound1]"
    using demo_round2_state by (elim exE) (simp add: demo_r2_def)
  then show ?thesis using demo_round3_state client_data_invariant [OF reach(1)] client_data_invariant [OF reach(2)] by auto
qed

text \<open>
  C8. The answer to an unmasking request: exactly one entry per client, the pairwise-key share for
  a client that the server declares dead (only possible for one that was alive and is not the
  client itself), the self-key share for a client that stays alive, nothing for one that was
  dead before. So never both shares of one client; and the self-key shares revealed are at
  least the minimum number of survivors.
\<close>

theorem unmasking_reveals_one_share:
  assumes "r3_ok st" "R3_HandleMessage a st (S2C_unmasking_request ids) l = Inr (s', l')"
    and "sent l' = sent l @ [C2S_unmasking_response shares]"
  shows "s' = ClientCompleted \<and> length shares = length (other_client_states st)
    \<and> (\<forall>i<length shares.
         shares ! i = (if named ids i then noise_sk_share (share_data (pairwise_key_shares st ! i))
                       else if other_client_states st ! i = kAlive then prf_sk_share (share_data (self_key_shares st ! i))
                       else ONEOF_SHARES_NOT_SET)
         \<and> (named ids i \<longrightarrow> other_client_states st ! i = kAlive \<and> i \<noteq> unat (client_id st)))
    \<and> unat (minimum_surviving st) \<le> length (filter (\<lambda>i. other_client_states st ! i = kAlive \<and> \<not> named ids i) [0..<length shares])"
proof -
  let ?n = "length (other_client_states st)"
  have st: "?n < 2 ^ 31" "unat (number_of_neighbors st) = ?n" "length (pairwise_key_shares st) = ?n"
      "length (self_key_shares st) = ?n" "unat (number_of_alive_neighbors st) = count_alive (other_client_states st)"
      "set (other_client_states st) \<subseteq> {kAlive, kDeadAtRound1, kDeadAtRound2}"
    using assms(1) by (auto simp: r3_ok_def Let_def)
  have no_abort: "\<not> AbortAndNotifyServer r l = Inr (s', l')" for r
    using assms(3) by (auto simp: AbortAndNotifyServer_def make_state_def Send_def Transition_def)
  obtain st' where d: "dead_clients_loop st ids = Inr (Inr st')"
      and min: "\<not> number_of_alive_neighbors st' < minimum_surviving st'"
      and loop: "unmasking_loop a st' [0..<unat (number_of_neighbors st')] 1 = Inr (Some shares)"
      and s': "s' = ClientCompleted"
    using assms(2,3) no_abort by (auto simp: R3_HandleMessage_def result_iffs make_state_def Send_def Transition_def)
  obtain states k where u: "st' = st\<lparr>other_client_states := states, number_of_alive_neighbors := k\<rparr>" "length states = ?n"
      "unat k = count_alive states"
      and states: "\<And>i. i < ?n \<Longrightarrow> states ! i = (if named ids i then kDeadAtRound3 else other_client_states st ! i)
        \<and> (named ids i \<longrightarrow> other_client_states st ! i = kAlive \<and> i \<noteq> unat (client_id st))"
    using dead_clients_loop_ok [OF d refl st(1,2,5)] by (auto simp: dead_list_ok_def)
  have shares: "shares = map (revealed st') [0..<?n]"
    using unmasking_loop_ok [OF loop] u st by simp
  have entry: "shares ! i = (if named ids i then noise_sk_share (share_data (pairwise_key_shares st ! i))
                       else if other_client_states st ! i = kAlive then prf_sk_share (share_data (self_key_shares st ! i))
                       else ONEOF_SHARES_NOT_SET)" if "i < ?n" for i
  proof -
    have "other_client_states st ! i \<noteq> kDeadAtRound3" using st(6) nth_mem [OF that] by force
    then show ?thesis using states [OF that] that shares u(1)
      by (auto simp: revealed_def split: OtherClientState.splits)
  qed
  have "count_alive states = length (filter (\<lambda>i. states ! i = kAlive) [0..<?n])"
    unfolding count_alive_def u(2) [symmetric] by (rule length_filter_nth)
  also have "filter (\<lambda>i. states ! i = kAlive) [0..<?n]
      = filter (\<lambda>i. other_client_states st ! i = kAlive \<and> \<not> named ids i) [0..<?n]"
    using states by (intro filter_cong) auto
  finally have "unat (minimum_surviving st) \<le> length (filter (\<lambda>i. other_client_states st ! i = kAlive \<and> \<not> named ids i) [0..<?n])"
    using min u(1,3) by (simp add: not_less word_le_nat_alt)
  then show ?thesis using s' shares entry states by simp
qed

theorem unmasking_reveals_one_share_witness:
  "let st = \<lparr>client_id = 1, number_of_alive_neighbors = 3, minimum_surviving = 2, number_of_neighbors = 4,
        other_client_states = [kAlive, kAlive, kDeadAtRound2, kAlive],
        pairwise_key_shares = [\<lparr>share_data = [10]\<rparr>, \<lparr>share_data = []\<rparr>, \<lparr>share_data = []\<rparr>, \<lparr>share_data = [13]\<rparr>],
        self_key_shares = [\<lparr>share_data = [20]\<rparr>, \<lparr>share_data = [21]\<rparr>, \<lparr>share_data = []\<rparr>, \<lparr>share_data = [23]\<rparr>]\<rparr>;
       shares = [noise_sk_share [10], prf_sk_share [21], ONEOF_SHARES_NOT_SET, prf_sk_share [23]]
   in r3_ok st \<and> unat (minimum_surviving st)
        \<le> length (filter (\<lambda>i. other_client_states st ! i = kAlive \<and> \<not> named [1] i) [0..<length shares])"
proof -
  let ?st = "\<lparr>client_id = 1, number_of_alive_neighbors = 3, minimum_surviving = 2, number_of_neighbors = 4,
        other_client_states = [kAlive, kAlive, kDeadAtRound2, kAlive],
        pairwise_key_shares = [\<lparr>share_data = [10]\<rparr>, \<lparr>share_data = []\<rparr>, \<lparr>share_data = []\<rparr>, \<lparr>share_data = [13]\<rparr>],
        self_key_shares = [\<lparr>share_data = [20]\<rparr>, \<lparr>share_data = [21]\<rparr>, \<lparr>share_data = []\<rparr>, \<lparr>share_data = [23]\<rparr>]\<rparr>"
  let ?a = "\<lparr>Signalled = \<lambda>_. False, Message = []\<rparr>" and ?l = "\<lparr>sent = [], transitions = [], execution_session_id = 0\<rparr>"
  let ?shares = "[noise_sk_share [10], prf_sk_share [21], ONEOF_SHARES_NOT_SET, prf_sk_share [23]]"
  have n4: "[0..<4] = [0, 1, 2, 3 :: nat]" by (simp add: upt_rec)
  have ok: "r3_ok ?st" by (auto simp: r3_ok_def count_alive_def Let_def less_Suc_eq)
  have h: "R3_HandleMessage ?a ?st (S2C_unmasking_request [1]) ?l
      = Inr (ClientCompleted, Transition COMPLETED (Send (C2S_unmasking_response ?shares) ?l))"
    by (simp add: R3_HandleMessage_def make_state_def n4)
  have "sent (Transition COMPLETED (Send (C2S_unmasking_response ?shares) ?l)) = sent ?l @ [C2S_unmasking_response ?shares]"
    by (simp add: Send_def Transition_def)
  from unmasking_reveals_one_share [OF ok h this] ok show ?thesis unfolding Let_def by blast
qed

end
