(* ===== verification/Sharing_Graph.thy ===== *)
theory Sharing_Graph
  imports FCP_Prelude
begin

text \<open>
  The graphs of \<open>fcp/secagg/server\<close> that say which clients share keys with which:
  \<open>secret_sharing_graph.h\<close> (the interface), \<open>secret_sharing_complete_graph.h\<close>,
  \<open>secret_sharing_harary_graph.{h,cc}\<close> and \<open>secret_sharing_graph_factory.h\<close>. The class is the
  datatype \<open>SecretSharingGraph\<close>, a virtual call its case distinction. The locale
  \<open>sharing_graph\<close> states the contract of the interface; both subclasses and the dispatching
  class are interpretations of it. \<open>std::shuffle\<close> is a parameter of the factory.
\<close>

section \<open>Definitions\<close>

record SecretSharingCompleteGraph =
  cg_num_nodes :: int
  cg_threshold :: int

record SecretSharingHararyGraph =
  number_of_nodes :: int
  hg_degree :: int
  hg_threshold :: int
  permutation :: "int list"
  inverse_permutation :: "int list"

subsection \<open>Complete graph\<close>

definition complete_IsValidNode :: "SecretSharingCompleteGraph \<Rightarrow> int \<Rightarrow> bool" where
  "complete_IsValidNode g node \<longleftrightarrow> 0 \<le> node \<and> node < cg_num_nodes g"

definition complete_GetNeighbor :: "SecretSharingCompleteGraph \<Rightarrow> int \<Rightarrow> int \<Rightarrow> int status_or" where
  "complete_GetNeighbor g curr_node i =
     fcp_check (complete_IsValidNode g curr_node) (fcp_check (complete_IsValidNode g i) (Inr i))"

definition complete_GetNeighborIndex ::
  "SecretSharingCompleteGraph \<Rightarrow> int \<Rightarrow> int \<Rightarrow> int option status_or" where
  "complete_GetNeighborIndex g node_1 node_2 =
     fcp_check (complete_IsValidNode g node_1) (fcp_check (complete_IsValidNode g node_2) (Inr (Some node_2)))"

definition complete_AreNeighbors :: "SecretSharingCompleteGraph \<Rightarrow> int \<Rightarrow> int \<Rightarrow> bool status_or" where
  "complete_AreNeighbors g node_1 node_2 =
     fcp_check (complete_IsValidNode g node_1) (fcp_check (complete_IsValidNode g node_2) (Inr True))"

definition complete_IsOutgoingNeighbor :: "SecretSharingCompleteGraph \<Rightarrow> int \<Rightarrow> int \<Rightarrow> bool status_or" where
  "complete_IsOutgoingNeighbor g node_1 node_2 =
     fcp_check (complete_IsValidNode g node_1)
       (fcp_check (complete_IsValidNode g node_2) (Inr (node_2 \<ge> node_1)))"

subsection \<open>Harary graph\<close>

definition new_SecretSharingHararyGraph :: "int \<Rightarrow> int \<Rightarrow> int list \<Rightarrow> SecretSharingHararyGraph" where
  "new_SecretSharingHararyGraph degree threshold perm =
     \<lparr>number_of_nodes = int (length perm), hg_degree = degree, hg_threshold = threshold, permutation = perm,
      inverse_permutation = foldl (\<lambda>arr i. arr[nat (perm ! i) := int i]) (replicate (length perm) 0)
        [0..<length perm]\<rparr>"

definition harary_IsValidNode :: "SecretSharingHararyGraph \<Rightarrow> int \<Rightarrow> bool" where
  "harary_IsValidNode g node \<longleftrightarrow> 0 \<le> node \<and> node < number_of_nodes g"

definition IsValidNeighborIndex :: "SecretSharingHararyGraph \<Rightarrow> int \<Rightarrow> bool" where
  "IsValidNeighborIndex g index \<longleftrightarrow> 0 \<le> index \<and> index < hg_degree g"

definition harary_GetNeighbor :: "SecretSharingHararyGraph \<Rightarrow> int \<Rightarrow> int \<Rightarrow> int status_or" where
  "harary_GetNeighbor g curr_node neighbor_index =
     fcp_check (harary_IsValidNode g curr_node) (fcp_check (IsValidNeighborIndex g neighbor_index)
       (and_then (at_index (inverse_permutation g) (nat curr_node)) (\<lambda>curr_node_before_renaming.
          let zeroth_neighbor_before_renaming = curr_node_before_renaming - hg_degree g div 2
          in at_index (permutation g)
               (nat ((zeroth_neighbor_before_renaming + neighbor_index + number_of_nodes g) mod number_of_nodes g)))))"

definition harary_GetNeighborIndex ::
  "SecretSharingHararyGraph \<Rightarrow> int \<Rightarrow> int \<Rightarrow> int option status_or" where
  "harary_GetNeighborIndex g node_1 node_2 =
     fcp_check (harary_IsValidNode g node_1) (fcp_check (harary_IsValidNode g node_2)
       (and_then (at_index (inverse_permutation g) (nat node_1)) (\<lambda>inv_1.
        and_then (at_index (inverse_permutation g) (nat node_2)) (\<lambda>inv_2.
          let sub_before_renaming = abs (inv_1 - inv_2);
              mod_dist_before_renaming = min sub_before_renaming (number_of_nodes g - sub_before_renaming)
          in Inr (if mod_dist_before_renaming > hg_degree g div 2 then None
                  else if (inv_1 - mod_dist_before_renaming + number_of_nodes g) mod number_of_nodes g = inv_2
                  then Some (hg_degree g div 2 - mod_dist_before_renaming)
                  else Some (hg_degree g div 2 + mod_dist_before_renaming))))))"

definition value_or :: "'a option \<Rightarrow> 'a \<Rightarrow> 'a" where
  "value_or x d = (case x of None \<Rightarrow> d | Some y \<Rightarrow> y)"

definition harary_AreNeighbors :: "SecretSharingHararyGraph \<Rightarrow> int \<Rightarrow> int \<Rightarrow> bool status_or" where
  "harary_AreNeighbors g node_1 node_2 =
     fcp_check (harary_IsValidNode g node_1) (fcp_check (harary_IsValidNode g node_2)
       (and_then (harary_GetNeighborIndex g node_1 node_2) (\<lambda>k. Inr (value_or k (-1) \<ge> 0))))"

definition harary_IsOutgoingNeighbor :: "SecretSharingHararyGraph \<Rightarrow> int \<Rightarrow> int \<Rightarrow> bool status_or" where
  "harary_IsOutgoingNeighbor g node_1 node_2 =
     fcp_check (harary_IsValidNode g node_1) (fcp_check (harary_IsValidNode g node_2)
       (and_then (harary_GetNeighborIndex g node_1 node_2) (\<lambda>k. Inr (value_or k (-1) \<ge> hg_degree g div 2))))"

subsection \<open>Factory and dispatch\<close>

datatype SecretSharingGraph = Complete SecretSharingCompleteGraph | Harary SecretSharingHararyGraph

definition CreateCompleteGraph :: "int \<Rightarrow> int \<Rightarrow> SecretSharingGraph status_or" where
  "CreateCompleteGraph num_nodes threshold =
     fcp_check (num_nodes \<ge> 1) (fcp_check (threshold \<ge> 1) (fcp_check (threshold \<le> num_nodes)
       (Inr (Complete \<lparr>cg_num_nodes = num_nodes, cg_threshold = threshold\<rparr>))))"

definition CreateHararyGraph ::
  "(int list \<Rightarrow> int list) \<Rightarrow> int \<Rightarrow> int \<Rightarrow> int \<Rightarrow> bool \<Rightarrow> SecretSharingGraph status_or" where
  "CreateHararyGraph shuffle num_nodes degree threshold is_random =
     fcp_check (num_nodes \<ge> 1) (fcp_check (degree \<le> num_nodes) (fcp_check (degree mod 2 = 1)
    (fcp_check (threshold \<ge> 1) (fcp_check (threshold \<le> degree)
       (let perm = map int [0..<nat num_nodes];
            perm = (if is_random then shuffle perm else perm)
        in Inr (Harary (new_SecretSharingHararyGraph degree threshold perm)))))))"

fun GetNumNodes :: "SecretSharingGraph \<Rightarrow> int" where
  "GetNumNodes (Complete g) = cg_num_nodes g"
| "GetNumNodes (Harary g) = number_of_nodes g"

fun GetDegree :: "SecretSharingGraph \<Rightarrow> int" where
  "GetDegree (Complete g) = cg_num_nodes g"
| "GetDegree (Harary g) = hg_degree g"

fun GetThreshold :: "SecretSharingGraph \<Rightarrow> int" where
  "GetThreshold (Complete g) = cg_threshold g"
| "GetThreshold (Harary g) = hg_threshold g"

fun GetNeighbor :: "SecretSharingGraph \<Rightarrow> int \<Rightarrow> int \<Rightarrow> int status_or" where
  "GetNeighbor (Complete g) = complete_GetNeighbor g"
| "GetNeighbor (Harary g) = harary_GetNeighbor g"

fun GetNeighborIndex :: "SecretSharingGraph \<Rightarrow> int \<Rightarrow> int \<Rightarrow> int option status_or" where
  "GetNeighborIndex (Complete g) = complete_GetNeighborIndex g"
| "GetNeighborIndex (Harary g) = harary_GetNeighborIndex g"

fun AreNeighbors :: "SecretSharingGraph \<Rightarrow> int \<Rightarrow> int \<Rightarrow> bool status_or" where
  "AreNeighbors (Complete g) = complete_AreNeighbors g"
| "AreNeighbors (Harary g) = harary_AreNeighbors g"

fun IsOutgoingNeighbor :: "SecretSharingGraph \<Rightarrow> int \<Rightarrow> int \<Rightarrow> bool status_or" where
  "IsOutgoingNeighbor (Complete g) = complete_IsOutgoingNeighbor g"
| "IsOutgoingNeighbor (Harary g) = harary_IsOutgoingNeighbor g"

section \<open>The contract\<close>

text \<open>
  On a graph in its invariant, for valid nodes: indices and neighbours correspond one to one;
  being neighbours is symmetric and reflexive; a neighbour is outgoing when it does not come
  before the node itself; and of two different neighbours exactly one is outgoing for the other.
\<close>

locale sharing_graph =
  fixes ok :: "'g \<Rightarrow> bool" and nodes degree :: "'g \<Rightarrow> int"
    and neighbor :: "'g \<Rightarrow> int \<Rightarrow> int \<Rightarrow> int status_or"
    and index :: "'g \<Rightarrow> int \<Rightarrow> int \<Rightarrow> int option status_or"
    and are outgoing :: "'g \<Rightarrow> int \<Rightarrow> int \<Rightarrow> bool status_or"
  assumes index_total: "ok g \<Longrightarrow> u \<in> {0..<nodes g} \<Longrightarrow> v \<in> {0..<nodes g} \<Longrightarrow> \<exists>k. index g u v = Inr k"
    and index_neighbor: "ok g \<Longrightarrow> u \<in> {0..<nodes g} \<Longrightarrow> k \<in> {0..<degree g} \<Longrightarrow>
      \<exists>v \<in> {0..<nodes g}. neighbor g u k = Inr v \<and> index g u v = Inr (Some k)"
    and neighbor_index: "ok g \<Longrightarrow> u \<in> {0..<nodes g} \<Longrightarrow> v \<in> {0..<nodes g} \<Longrightarrow> index g u v = Inr (Some k) \<Longrightarrow>
      k \<in> {0..<degree g} \<and> neighbor g u k = Inr v"
    and index_self: "ok g \<Longrightarrow> u \<in> {0..<nodes g} \<Longrightarrow> \<exists>k. index g u u = Inr (Some k)"
    and index_sym: "ok g \<Longrightarrow> u \<in> {0..<nodes g} \<Longrightarrow> v \<in> {0..<nodes g} \<Longrightarrow> index g u v = Inr None \<Longrightarrow>
      index g v u = Inr None"
    and are_index: "ok g \<Longrightarrow> u \<in> {0..<nodes g} \<Longrightarrow> v \<in> {0..<nodes g} \<Longrightarrow> index g u v = Inr r \<Longrightarrow>
      are g u v = Inr (r \<noteq> None)"
    and outgoing_index: "ok g \<Longrightarrow> u \<in> {0..<nodes g} \<Longrightarrow> v \<in> {0..<nodes g} \<Longrightarrow>
      index g u v = Inr (Some k) \<Longrightarrow> index g u u = Inr (Some s) \<Longrightarrow> outgoing g u v = Inr (s \<le> k)"
    and outgoing_flip: "ok g \<Longrightarrow> u \<in> {0..<nodes g} \<Longrightarrow> v \<in> {0..<nodes g} \<Longrightarrow> u \<noteq> v \<Longrightarrow>
      index g u v = Inr (Some k) \<Longrightarrow> outgoing g u v = Inr b \<Longrightarrow> outgoing g v u = Inr (\<not> b)"
begin

lemma are_sym:
  assumes "ok g" "u \<in> {0..<nodes g}" "v \<in> {0..<nodes g}"
  shows "are g u v = are g v u"
proof -
  obtain r s where r: "index g u v = Inr r" and s: "index g v u = Inr s"
    using index_total [OF assms] index_total [OF assms(1,3,2)] by auto
  have "r = None \<longleftrightarrow> s = None"
    using index_sym [OF assms] index_sym [OF assms(1,3,2)] r s by auto
  then show ?thesis using are_index [OF assms r] are_index [OF assms(1,3,2) s] by simp
qed

lemma neighbor_inj:
  assumes "ok g" "u \<in> {0..<nodes g}" "k \<in> {0..<degree g}" "l \<in> {0..<degree g}"
    and "neighbor g u k = neighbor g u l"
  shows "k = l"
  using index_neighbor [OF assms(1,2,3)] index_neighbor [OF assms(1,2,4)] assms(5) by auto

lemma outgoing_total:
  assumes "ok g" "u \<in> {0..<nodes g}" "v \<in> {0..<nodes g}" "index g u v = Inr (Some k)"
  obtains b where "outgoing g u v = Inr b"
  using outgoing_index [OF assms] index_self [OF assms(1,2)] by metis

text \<open>
  The signs of a pair of masks: a client adds the mask of a neighbour that stands before it in
  its own list and subtracts the others, so of two neighbours one adds and one subtracts.
\<close>

lemma signs_cancel:
  assumes "ok g" "u \<in> {0..<nodes g}" "v \<in> {0..<nodes g}" "u \<noteq> v"
    and "index g u v = Inr (Some k)" "index g u u = Inr (Some s)"
    and "index g v u = Inr (Some l)" "index g v v = Inr (Some t)"
  shows "k < s \<longleftrightarrow> t < l"
proof -
  have "outgoing g u v = Inr (s \<le> k)" "outgoing g v u = Inr (t \<le> l)"
    using outgoing_index [OF assms(1,2,3,5,6)] outgoing_index [OF assms(1,3,2,7,8)] by auto
  then have "(t \<le> l) = (\<not> s \<le> k)" using outgoing_flip [OF assms(1-5)] by auto
  moreover have "l \<noteq> t"
  proof
    assume "l = t"
    then have "neighbor g v t = Inr u" "neighbor g v t = Inr v"
      using neighbor_index [OF assms(1,3,2,7)] neighbor_index [OF assms(1,3,3,8)] by auto
    then show False using assms(4) by simp
  qed
  ultimately show ?thesis by auto
qed

end

section \<open>Both graphs satisfy it\<close>

definition complete_ok :: "SecretSharingCompleteGraph \<Rightarrow> bool" where
  "complete_ok g \<longleftrightarrow> 1 \<le> cg_threshold g \<and> cg_threshold g \<le> cg_num_nodes g"

lemmas complete_defs = complete_IsValidNode_def complete_GetNeighbor_def complete_GetNeighborIndex_def
  complete_AreNeighbors_def complete_IsOutgoingNeighbor_def

interpretation complete: sharing_graph complete_ok cg_num_nodes cg_num_nodes complete_GetNeighbor
  complete_GetNeighborIndex complete_AreNeighbors complete_IsOutgoingNeighbor
  by unfold_locales (auto simp: complete_defs)

definition harary_ok :: "SecretSharingHararyGraph \<Rightarrow> bool" where
  "harary_ok g \<longleftrightarrow>
     (let n = length (permutation g) in
      number_of_nodes g = int n \<and> odd (hg_degree g) \<and> 1 \<le> hg_threshold g
      \<and> hg_threshold g \<le> hg_degree g \<and> hg_degree g \<le> int n \<and> length (inverse_permutation g) = n
      \<and> (\<forall>i<n. 0 \<le> permutation g ! i \<and> permutation g ! i < int n
          \<and> inverse_permutation g ! nat (permutation g ! i) = int i)
      \<and> (\<forall>u<n. 0 \<le> inverse_permutation g ! u \<and> inverse_permutation g ! u < int n
          \<and> permutation g ! nat (inverse_permutation g ! u) = int u))"

lemma harary_okD:
  assumes "harary_ok g"
  shows "number_of_nodes g = int (length (permutation g))"
    "hg_degree g = 2 * (hg_degree g div 2) + 1" "0 \<le> hg_degree g div 2" "hg_degree g \<le> number_of_nodes g"
    "length (inverse_permutation g) = length (permutation g)"
    "i < length (permutation g) \<Longrightarrow> 0 \<le> permutation g ! i \<and> permutation g ! i < number_of_nodes g
      \<and> inverse_permutation g ! nat (permutation g ! i) = int i"
    "u \<in> {0..<number_of_nodes g} \<Longrightarrow> 0 \<le> inverse_permutation g ! nat u
      \<and> inverse_permutation g ! nat u < number_of_nodes g
      \<and> permutation g ! nat (inverse_permutation g ! nat u) = u"
proof -
  show "number_of_nodes g = int (length (permutation g))" "hg_degree g \<le> number_of_nodes g"
    "length (inverse_permutation g) = length (permutation g)"
    using assms by (simp_all add: harary_ok_def Let_def)
  have "odd (hg_degree g)" "1 \<le> hg_degree g" using assms by (simp_all add: harary_ok_def Let_def)
  then show "hg_degree g = 2 * (hg_degree g div 2) + 1" "0 \<le> hg_degree g div 2" by presburger+
  show "i < length (permutation g) \<Longrightarrow> 0 \<le> permutation g ! i \<and> permutation g ! i < number_of_nodes g
      \<and> inverse_permutation g ! nat (permutation g ! i) = int i"
    using assms by (simp add: harary_ok_def Let_def)
  show "u \<in> {0..<number_of_nodes g} \<Longrightarrow> 0 \<le> inverse_permutation g ! nat u
      \<and> inverse_permutation g ! nat u < number_of_nodes g
      \<and> permutation g ! nat (inverse_permutation g ! nat u) = u"
    using assms by (auto simp: harary_ok_def Let_def)
qed

text \<open>Positions on the circle: \<open>p\<close> and \<open>q\<close> of two nodes, \<open>h\<close> half the degree.\<close>

definition circle_index :: "int \<Rightarrow> int \<Rightarrow> int \<Rightarrow> int \<Rightarrow> int option" where
  "circle_index n h p q =
     (let d = min (abs (p - q)) (n - abs (p - q))
      in if d > h then None else if (p - d + n) mod n = q then Some (h - d) else Some (h + d))"

lemma mod_circle:
  fixes p e n :: int
  assumes "0 \<le> p" "p < n" "-n \<le> e" "e \<le> n"
  shows "(p + e + n) mod n = (if p + e < 0 then p + e + n else if p + e < n then p + e else if p + e < 2 * n then p + e - n else 0)"
proof -
  consider "p + e < 0" | "0 \<le> p + e" "p + e < n" | "n \<le> p + e" by linarith
  then show ?thesis
  proof cases
    case 1
    then have "(p + e + n) mod n = p + e + n" using assms by (intro mod_pos_pos_trivial) auto
    then show ?thesis using 1 by simp
  next
    case 2
    have "(p + e + n) mod n = (p + e) mod n" by simp
    then show ?thesis using 2 by (simp add: mod_pos_pos_trivial)
  next
    case 3
    have "(p + e + n) mod n = (p + e - n + n * 2) mod n" by (simp add: algebra_simps)
    also have "\<dots> = (p + e - n) mod n" by (rule mod_mult_self2)
    also have "\<dots> = p + e - n" using 3 assms by (intro mod_pos_pos_trivial) auto
    finally show ?thesis using 3 assms by simp
  qed
qed

lemma circle_index_of_neighbor:
  assumes "0 \<le> p" "p < n" "0 \<le> h" "2 * h + 1 \<le> n" "0 \<le> k" "k < 2 * h + 1"
  shows "circle_index n h p ((p - h + k + n) mod n) = Some k"
proof -
  define q where "q = (p - h + k + n) mod n"
  have "q = (p + (k - h) + n) mod n" by (simp add: q_def algebra_simps)
  also have "\<dots> = (if p + (k - h) < 0 then p + (k - h) + n else if p + (k - h) < n then p + (k - h)
      else if p + (k - h) < 2 * n then p + (k - h) - n else 0)"
    using assms by (intro mod_circle) auto
  finally have q: "q = (if p + (k - h) < 0 then p + (k - h) + n else if p + (k - h) < n then p + (k - h)
      else p + (k - h) - n)" using assms by (auto split: if_splits)
  have d: "min (abs (p - q)) (n - abs (p - q)) = abs (k - h)"
    using q assms by (auto simp: min_def abs_if split: if_splits)
  have r: "(p - abs (k - h) + n) mod n = (if p - abs (k - h) < 0 then p - abs (k - h) + n else p - abs (k - h))"
    using mod_circle [of p n "- abs (k - h)"] assms by (auto simp: abs_if)
  show ?thesis
    unfolding q_def [symmetric] circle_index_def Let_def d r
    using q assms by (auto simp: abs_if split: if_splits)
qed

lemma neighbor_of_circle_index:
  assumes "0 \<le> p" "p < n" "0 \<le> q" "q < n" "0 \<le> h" "2 * h + 1 \<le> n" "circle_index n h p q = Some k"
  shows "0 \<le> k \<and> k < 2 * h + 1 \<and> (p - h + k + n) mod n = q"
proof -
  define d where "d = min (abs (p - q)) (n - abs (p - q))"
  have d: "0 \<le> d" "d \<le> h" using assms by (auto simp: d_def circle_index_def Let_def split: if_splits)
  have m: "(p + d + n) mod n = (if p + d < n then p + d else p + d - n)"
    "(p + (- d) + n) mod n = (if p - d < 0 then p - d + n else p - d)"
    using mod_circle [of p n d] mod_circle [of p n "- d"] d assms by auto
  have k: "k = (if (p - d + n) mod n = q then h - d else h + d)"
    using assms(7) unfolding circle_index_def Let_def d_def [symmetric] by (auto split: if_splits)
  show ?thesis
  proof (cases "(p - d + n) mod n = q")
    case True
    then show ?thesis using k d by (auto simp: algebra_simps)
  next
    case False
    then have "(p + d + n) mod n = q"
      using m assms(1-4) by (auto simp: d_def min_def abs_if split: if_splits)
    moreover have "p - h + k + n = p + d + n" using k False by simp
    ultimately show ?thesis using k False d by simp
  qed
qed

lemma circle_index_self:
  assumes "0 \<le> p" "p < n" "0 \<le> h"
  shows "circle_index n h p p = Some h"
  using assms mod_circle [of p n 0] by (simp add: circle_index_def)

lemma circle_index_sym: "circle_index n h p q = None \<longleftrightarrow> circle_index n h q p = None"
  by (simp add: circle_index_def Let_def abs_minus_commute)

lemma circle_index_flip:
  assumes "0 \<le> p" "p < n" "0 \<le> q" "q < n" "0 \<le> h" "2 * h + 1 \<le> n" "p \<noteq> q"
    and "circle_index n h p q = Some k" "circle_index n h q p = Some l"
  shows "h \<le> k \<longleftrightarrow> \<not> h \<le> l"
proof -
  define d where "d = min (abs (p - q)) (n - abs (p - q))"
  have d': "d = min (abs (q - p)) (n - abs (q - p))" by (simp add: d_def abs_minus_commute)
  have dh: "d \<le> h"
    using assms(8) unfolding circle_index_def Let_def d_def [symmetric] by (auto split: if_splits)
  then have "d \<le> n" using assms(5,6) by linarith
  have d: "0 < d" using assms(1-4,7) by (auto simp: d_def min_def)
  have k: "k = (if (p + (- d) + n) mod n = q then h - d else h + d)"
    using assms(8) unfolding circle_index_def Let_def d_def [symmetric] by (auto split: if_splits)
  have l: "l = (if (q + (- d) + n) mod n = p then h - d else h + d)"
    using assms(9) unfolding circle_index_def Let_def d' [symmetric] by (auto split: if_splits)
  have m: "(x + (- d) + n) mod n = (if x - d < 0 then x - d + n else x - d)" if "0 \<le> x" "x < n" for x
    using mod_circle [of x n "- d"] d \<open>d \<le> n\<close> that by auto
  have "(h \<le> k) = (q \<noteq> (if p - d < 0 then p - d + n else p - d))"
    "(h \<le> l) = (p \<noteq> (if q - d < 0 then q - d + n else q - d))"
    unfolding k l m [OF assms(1,2)] m [OF assms(3,4)] using d by auto
  moreover have "d < n - d" using dh assms(6) by linarith
  ultimately show ?thesis
    using d assms(1-4,7) by (auto simp: d_def min_def abs_if split: if_splits)
qed

text \<open>The two operations in terms of the positions.\<close>

definition pos :: "SecretSharingHararyGraph \<Rightarrow> int \<Rightarrow> int" where
  "pos g u = inverse_permutation g ! nat u"

lemma harary_index_eq:
  assumes "harary_ok g" "u \<in> {0..<number_of_nodes g}" "v \<in> {0..<number_of_nodes g}"
  shows "harary_GetNeighborIndex g u v
    = Inr (circle_index (number_of_nodes g) (hg_degree g div 2) (pos g u) (pos g v))"
  using assms harary_okD(1,5) [OF assms(1)]
  by (simp add: harary_GetNeighborIndex_def harary_IsValidNode_def circle_index_def pos_def Let_def nat_less_iff)

lemma harary_neighbor_eq:
  assumes "harary_ok g" "u \<in> {0..<number_of_nodes g}" "k \<in> {0..<hg_degree g}"
  shows "harary_GetNeighbor g u k = Inr (permutation g !
    nat ((pos g u - hg_degree g div 2 + k + number_of_nodes g) mod number_of_nodes g))"
proof -
  have "0 < number_of_nodes g" using assms(2) by auto
  then have "nat ((x :: int) mod number_of_nodes g) < length (permutation g)" for x
    using harary_okD(1) [OF assms(1)] by (metis nat_less_iff pos_mod_bound pos_mod_sign)
  then show ?thesis
    using assms harary_okD(1,5) [OF assms(1)]
    by (simp add: harary_GetNeighbor_def harary_IsValidNode_def IsValidNeighborIndex_def pos_def Let_def nat_less_iff)
qed

lemma pos_bounds:
  assumes "harary_ok g" "u \<in> {0..<number_of_nodes g}"
  shows "0 \<le> pos g u" "pos g u < number_of_nodes g" "permutation g ! nat (pos g u) = u"
  using harary_okD(7) [OF assms] by (simp_all add: pos_def)

lemma pos_permutation:
  assumes "harary_ok g" "0 \<le> q" "q < number_of_nodes g"
  shows "pos g (permutation g ! nat q) = q" "permutation g ! nat q \<in> {0..<number_of_nodes g}"
  using harary_okD(1) [OF assms(1)] harary_okD(6) [OF assms(1), of "nat q"] assms(2,3) by (auto simp: pos_def)

interpretation harary: sharing_graph harary_ok number_of_nodes hg_degree harary_GetNeighbor
  harary_GetNeighborIndex harary_AreNeighbors harary_IsOutgoingNeighbor
proof
  fix g u v k r s b
  assume g: "harary_ok g" and u: "u \<in> {0..<number_of_nodes g}"
  let ?n = "number_of_nodes g" and ?h = "hg_degree g div 2"
  note d = harary_okD(1-5) [OF g]
  have h: "2 * ?h + 1 \<le> ?n" "0 \<le> ?h" and n: "0 < ?n" using d by linarith+
  note pu = pos_bounds [OF g u]
  have out: "harary_IsOutgoingNeighbor g x y = Inr (?h \<le> k)"
    if "x \<in> {0..<?n}" "y \<in> {0..<?n}" "circle_index ?n ?h (pos g x) (pos g y) = Some k" for x y k
    using that harary_index_eq [OF g that(1,2)]
    by (simp add: harary_IsOutgoingNeighbor_def harary_IsValidNode_def value_or_def)
  show "\<exists>v\<in>{0..<?n}. harary_GetNeighbor g u k = Inr v \<and> harary_GetNeighborIndex g u v = Inr (Some k)"
    if k: "k \<in> {0..<hg_degree g}"
  proof -
    let ?q = "(pos g u - ?h + k + ?n) mod ?n"
    have q: "0 \<le> ?q" "?q < ?n" using n by (simp_all only: pos_mod_bound pos_mod_sign)
    have "circle_index ?n ?h (pos g u) ?q = Some k"
      using k d(2) by (intro circle_index_of_neighbor pu(1,2) h) auto
    then show ?thesis
      using harary_neighbor_eq [OF g u k] pos_permutation [OF g q] harary_index_eq [OF g u, of "permutation g ! nat ?q"]
      by auto
  qed
  show "\<exists>k. harary_GetNeighborIndex g u u = Inr (Some k)"
    using harary_index_eq [OF g u u] circle_index_self [OF pu(1,2) h(2)] by simp
  assume v: "v \<in> {0..<?n}"
  note pv = pos_bounds [OF g v]
  note iuv = harary_index_eq [OF g u v] and ivu = harary_index_eq [OF g v u]
  show "\<exists>k. harary_GetNeighborIndex g u v = Inr k" using iuv by simp
  show "k \<in> {0..<hg_degree g} \<and> harary_GetNeighbor g u k = Inr v"
    if "harary_GetNeighborIndex g u v = Inr (Some k)"
  proof -
    have "0 \<le> k \<and> k < 2 * ?h + 1 \<and> (pos g u - ?h + k + ?n) mod ?n = pos g v"
      using that iuv by (intro neighbor_of_circle_index pu pv h) simp
    moreover then have "k \<in> {0..<hg_degree g}" using d(2) by auto
    ultimately show ?thesis using harary_neighbor_eq [OF g u, of k] pv(3) by simp
  qed
  show "harary_GetNeighborIndex g v u = Inr None" if "harary_GetNeighborIndex g u v = Inr None"
    using that iuv ivu circle_index_sym [of ?n ?h "pos g u"] by simp
  show "harary_AreNeighbors g u v = Inr (r \<noteq> None)" if r: "harary_GetNeighborIndex g u v = Inr r"
  proof (cases r)
    case None
    then show ?thesis using u v r by (simp add: harary_AreNeighbors_def harary_IsValidNode_def value_or_def)
  next
    case (Some k)
    have "0 \<le> k \<and> k < 2 * ?h + 1 \<and> (pos g u - ?h + k + ?n) mod ?n = pos g v"
      using Some r iuv by (intro neighbor_of_circle_index pu pv h) simp
    then show ?thesis using u v r Some by (simp add: harary_AreNeighbors_def harary_IsValidNode_def value_or_def)
  qed
  show "harary_IsOutgoingNeighbor g u v = Inr (s \<le> k)"
    if "harary_GetNeighborIndex g u v = Inr (Some k)" "harary_GetNeighborIndex g u u = Inr (Some s)"
    using that iuv out [OF u v] harary_index_eq [OF g u u] circle_index_self [OF pu(1,2) h(2)] by simp
  show "harary_IsOutgoingNeighbor g v u = Inr (\<not> b)"
    if ne: "u \<noteq> v" and k: "harary_GetNeighborIndex g u v = Inr (Some k)"
      and b: "harary_IsOutgoingNeighbor g u v = Inr b"
  proof -
    obtain l where l: "circle_index ?n ?h (pos g v) (pos g u) = Some l"
      using k iuv circle_index_sym [of ?n ?h "pos g u" "pos g v"] by (cases "circle_index ?n ?h (pos g v) (pos g u)") auto
    have "pos g u \<noteq> pos g v" using ne pu(3) pv(3) by metis
    then have "?h \<le> k \<longleftrightarrow> \<not> ?h \<le> l" using k iuv circle_index_flip [OF pu(1,2) pv(1,2) h(2,1) _ _ l, of k] by simp
    then show ?thesis using out [OF u v] out [OF v u] l k b iuv by auto
  qed
qed

section \<open>The factory establishes the invariant\<close>

fun graph_ok :: "SecretSharingGraph \<Rightarrow> bool" where
  "graph_ok (Complete g) = complete_ok g"
| "graph_ok (Harary g) = harary_ok g"

text \<open>What \<open>std::shuffle\<close> promises: the same elements in some order.\<close>

definition is_shuffle :: "(int list \<Rightarrow> int list) \<Rightarrow> bool" where
  "is_shuffle shuffle \<longleftrightarrow> (\<forall>xs. distinct xs \<longrightarrow> distinct (shuffle xs) \<and> set (shuffle xs) = set xs)"

lemma inverse_loop:
  assumes "distinct perm" "set perm = int ` {..<length perm}" "k \<le> length perm"
  defines "arr \<equiv> foldl (\<lambda>arr i. arr[nat (perm ! i) := int i]) (replicate (length perm) 0) [0..<k]"
  shows "length arr = length perm \<and> (\<forall>i<k. arr ! nat (perm ! i) = int i)"
  using assms(3) unfolding arr_def
proof (induction k)
  case (Suc k)
  have b: "0 \<le> perm ! i \<and> nat (perm ! i) < length perm" if "i < length perm" for i
    using assms(2) nth_mem [OF that] by auto
  have "nat (perm ! i) \<noteq> nat (perm ! k)" if "i < k" for i
    using that Suc.prems b [of i] b [of k] assms(1) by (auto simp: nat_eq_iff nth_eq_iff_index_eq)
  then show ?case using Suc b [of k] by (auto simp: less_Suc_eq nth_list_update_neq [OF not_sym])
qed simp

lemma new_harary_ok:
  assumes "distinct perm" "set perm = int ` {..<length perm}"
    and "odd degree" "1 \<le> threshold" "threshold \<le> degree" "degree \<le> int (length perm)"
  shows "harary_ok (new_SecretSharingHararyGraph degree threshold perm)"
proof -
  let ?inv = "foldl (\<lambda>arr i. arr[nat (perm ! i) := int i]) (replicate (length perm) 0) [0..<length perm]"
  note inv = inverse_loop [OF assms(1,2) order_refl]
  have b: "0 \<le> perm ! i \<and> perm ! i < int (length perm)" if "i < length perm" for i
    using assms(2) nth_mem [OF that] by auto
  have "0 \<le> ?inv ! u \<and> ?inv ! u < int (length perm) \<and> perm ! nat (?inv ! u) = int u" if u: "u < length perm" for u
  proof -
    have "int u \<in> set perm" using assms(2) u by simp
    then obtain i where i: "i < length perm" "perm ! i = int u" by (auto simp: in_set_conv_nth)
    moreover have "?inv ! nat (perm ! i) = int i" using inv i(1) by blast
    ultimately have "?inv ! u = int i" by simp
    then show ?thesis using i by simp
  qed
  then show ?thesis using assms(3-6) inv b by (simp add: harary_ok_def new_SecretSharingHararyGraph_def)
qed

lemma CreateCompleteGraph_ok: "CreateCompleteGraph n t = Inr g \<Longrightarrow> graph_ok g \<and> GetNumNodes g = n \<and> GetDegree g = n \<and> GetThreshold g = t"
  by (auto simp: CreateCompleteGraph_def complete_ok_def fcp_check_Inr_iff)

lemma CreateHararyGraph_ok:
  assumes "CreateHararyGraph shuffle n d t r = Inr g" "is_shuffle shuffle"
  shows "graph_ok g \<and> GetNumNodes g = n \<and> GetDegree g = d \<and> GetThreshold g = t"
proof -
  let ?id = "map int [0..<nat n]"
  define perm where "perm = (if r then shuffle ?id else ?id)"
  have c: "1 \<le> n" "d \<le> n" "d mod 2 = 1" "1 \<le> t" "t \<le> d" and g: "g = Harary (new_SecretSharingHararyGraph d t perm)"
    using assms(1) by (auto simp: CreateHararyGraph_def fcp_check_Inr_iff perm_def Let_def)
  have "distinct ?id" by (simp add: distinct_map)
  then have p: "distinct perm" "set perm = set ?id" using assms(2) by (auto simp: is_shuffle_def perm_def)
  then have "length perm = nat n" using distinct_card [of perm] distinct_card [OF \<open>distinct ?id\<close>] by simp
  moreover from this have "set perm = int ` {..<length perm}" using p(2) by (auto simp: lessThan_atLeast0)
  ultimately show ?thesis
    using new_harary_ok [OF p(1), of d t] c g by (auto simp: odd_iff_mod_2_eq_one new_SecretSharingHararyGraph_def)
qed

lemmas graph_dispatch = graph_ok.simps GetNumNodes.simps GetDegree.simps GetNeighbor.simps GetNeighborIndex.simps
  AreNeighbors.simps IsOutgoingNeighbor.simps

interpretation graph: sharing_graph graph_ok GetNumNodes GetDegree GetNeighbor GetNeighborIndex AreNeighbors
  IsOutgoingNeighbor
proof
  fix g u v k r s b
  assume g: "graph_ok g" and u: "u \<in> {0..<GetNumNodes g}"
  show "\<exists>v\<in>{0..<GetNumNodes g}. GetNeighbor g u k = Inr v \<and> GetNeighborIndex g u v = Inr (Some k)"
    if "k \<in> {0..<GetDegree g}"
    by (insert g u that, (cases g; simp only: graph_dispatch; rule complete.index_neighbor harary.index_neighbor; assumption))
  show "\<exists>k. GetNeighborIndex g u u = Inr (Some k)"
    by (insert g u, (cases g; simp only: graph_dispatch; rule complete.index_self harary.index_self; assumption))
  assume v: "v \<in> {0..<GetNumNodes g}"
  show "\<exists>k. GetNeighborIndex g u v = Inr k"
    by (insert g u v, (cases g; simp only: graph_dispatch; rule complete.index_total harary.index_total; assumption))
  show "k \<in> {0..<GetDegree g} \<and> GetNeighbor g u k = Inr v" if "GetNeighborIndex g u v = Inr (Some k)"
    by (insert g u v that, (cases g; simp only: graph_dispatch; rule complete.neighbor_index harary.neighbor_index; assumption))
  show "GetNeighborIndex g v u = Inr None" if "GetNeighborIndex g u v = Inr None"
    by (insert g u v that, (cases g; simp only: graph_dispatch; rule complete.index_sym harary.index_sym; assumption))
  show "AreNeighbors g u v = Inr (r \<noteq> None)" if "GetNeighborIndex g u v = Inr r"
    by (insert g u v that, (cases g; simp only: graph_dispatch; rule complete.are_index harary.are_index; assumption))
  show "IsOutgoingNeighbor g u v = Inr (s \<le> k)"
    if "GetNeighborIndex g u v = Inr (Some k)" "GetNeighborIndex g u u = Inr (Some s)"
    by (insert g u v that, (cases g; simp only: graph_dispatch; rule complete.outgoing_index harary.outgoing_index; assumption))
  show "IsOutgoingNeighbor g v u = Inr (\<not> b)"
    if "u \<noteq> v" "GetNeighborIndex g u v = Inr (Some k)" "IsOutgoingNeighbor g u v = Inr b"
    by (insert g u v that, (cases g; simp only: graph_dispatch; rule complete.outgoing_flip harary.outgoing_flip; assumption))
qed

section \<open>Properties\<close>

text \<open>
  C32. On every graph that the factory makes, for every valid node: \<open>GetNeighbor\<close> and
  \<open>GetNeighborIndex\<close> are inverse to each other over the indices below the degree, the node
  itself has a place in its list, and \<open>AreNeighbors\<close> is symmetric.
\<close>

theorem neighbors_roundtrip:
  assumes "CreateHararyGraph shuffle n d t r = Inr g \<and> is_shuffle shuffle \<or> CreateCompleteGraph n t = Inr g \<and> d = n"
    and "0 \<le> u" "u < n" "0 \<le> v" "v < n" "0 \<le> k" "k < d"
  shows "(\<exists>w. 0 \<le> w \<and> w < n \<and> GetNeighbor g u k = Inr w \<and> GetNeighborIndex g u w = Inr (Some k))
    \<and> (\<exists>i. GetNeighborIndex g u v = Inr i \<and> AreNeighbors g u v = Inr (i \<noteq> None)
        \<and> (i \<noteq> None \<longrightarrow> the i \<in> {0..<d} \<and> GetNeighbor g u (the i) = Inr v))
    \<and> (\<exists>s. GetNeighborIndex g u u = Inr (Some s)) \<and> AreNeighbors g u v = AreNeighbors g v u"
proof -
  have g: "graph_ok g" "GetNumNodes g = n" "GetDegree g = d"
    using assms(1) CreateHararyGraph_ok CreateCompleteGraph_ok by auto
  then have u: "u \<in> {0..<GetNumNodes g}" and v: "v \<in> {0..<GetNumNodes g}" and k: "k \<in> {0..<GetDegree g}"
    using assms by auto
  obtain i where i: "GetNeighborIndex g u v = Inr i" using graph.index_total [OF g(1) u v] by auto
  have "i \<noteq> None \<longrightarrow> the i \<in> {0..<d} \<and> GetNeighbor g u (the i) = Inr v"
    using graph.neighbor_index [OF g(1) u v] i g(3) by (cases i) auto
  then show ?thesis
    using graph.index_neighbor [OF g(1) u k] graph.are_index [OF g(1) u v i] graph.index_self [OF g(1) u]
      graph.are_sym [OF g(1) u v] i g(2) by auto
qed

theorem neighbors_roundtrip_witness:
  "\<exists>g w. CreateHararyGraph rev 5 3 2 True = Inr g \<and> GetNeighbor g 1 2 = Inr w
    \<and> GetNeighborIndex g 1 w = Inr (Some 2)"
proof -
  obtain g where g: "CreateHararyGraph rev 5 3 2 True = Inr g"
    by (simp add: CreateHararyGraph_def Let_def)
  have "is_shuffle rev" by (simp add: is_shuffle_def)
  then show ?thesis using neighbors_roundtrip [of rev 5 3 2 True g 1 1 2] g by auto
qed



end
