(* ===== verification/Server_Impl.thy ===== *)
theory Server_Impl
  imports SecAgg_Keys Sharing_Graph
begin

text \<open>
  \<open>secagg_server_protocol_impl.{h,cc}\<close> and \<open>aes/aes_secagg_server_protocol_impl.{h,cc}\<close> of
  \<open>fcp/secagg/server\<close>: what the server keeps through the protocol and what it does with the
  messages of each round. The object is the record \<open>SecAggServerProtocolImpl\<close>; \<open>sender\<close> is the
  list of messages given to \<open>SendToClientsInterface\<close>. A hash map is an association list in
  insertion order. The asynchronous tasks of round 2 are in the record too: \<open>scheduled_tasks\<close>
  counts those that wait for a thread, \<open>taken_queues\<close> holds the queues of those that have taken
  theirs and not yet added it to the sum. The tasks of the PRNG stage are the list that
  \<open>StartPrng\<close> returns.
\<close>

section \<open>State\<close>

datatype ClientStatus =
  READY_TO_START
| DEAD_BEFORE_SENDING_ANYTHING
| ADVERTISE_KEYS_RECEIVED
| DEAD_AFTER_ADVERTISE_KEYS_RECEIVED
| SHARE_KEYS_RECEIVED
| DEAD_AFTER_SHARE_KEYS_RECEIVED
| MASKED_INPUT_RESPONSE_RECEIVED
| DEAD_AFTER_MASKED_INPUT_RESPONSE_RECEIVED
| UNMASKING_RESPONSE_RECEIVED
| DEAD_AFTER_UNMASKING_RESPONSE_RECEIVED

type_synonym share_table = "(nat \<times> ShamirShare list) list"

record SecAggServerProtocolImpl =
  secret_sharing_graph :: SecretSharingGraph
  minimum_number_of_clients_to_proceed :: int
  client_statuses :: "ClientStatus list"
  impl_input_vector_specs :: "InputVectorSpecification list"
  async_round_2 :: bool
  pairwise_public_keys :: "bytes list"
  impl_pairs_of_public_keys :: "PairOfPublicKeys list"
  impl_session_id :: "bytes option"
  encrypted_shares :: "bytes list list"
  pairwise_shamir_share_table :: "share_table option"
  self_shamir_share_table :: "share_table option"
  masked_input :: "SecAggUnpackedVectorMap option"
  masked_input_queue :: "SecAggVectorMap list"
  scheduled_tasks :: nat
  taken_queues :: "SecAggVectorMap list list"
  impl_result :: "SecAggVectorMap option"
  sender :: "(nat \<times> ServerToClientWrapperMessage) list"

definition update_at :: "nat \<Rightarrow> 'a \<Rightarrow> 'a list \<Rightarrow> 'a list status_or" where
  "update_at i v xs = (if i < length xs then Inr (xs[i := v]) else Inl Undefined)"

definition no_public_keys :: PairOfPublicKeys where
  "no_public_keys = \<lparr>noise_pk = [], enc_pk = []\<rparr>"

definition new_AesSecAggServerProtocolImpl ::
  "SecretSharingGraph \<Rightarrow> int \<Rightarrow> InputVectorSpecification list \<Rightarrow> ClientStatus list \<Rightarrow> bool
    \<Rightarrow> SecAggServerProtocolImpl" where
  "new_AesSecAggServerProtocolImpl graph minimum specs statuses async =
     \<lparr>secret_sharing_graph = graph, minimum_number_of_clients_to_proceed = minimum,
      client_statuses = statuses, impl_input_vector_specs = specs, async_round_2 = async,
      pairwise_public_keys = replicate (length statuses) [],
      impl_pairs_of_public_keys = replicate (length statuses) no_public_keys,
      impl_session_id = None,
      encrypted_shares = replicate (length statuses) (replicate (nat (GetDegree graph)) []),
      pairwise_shamir_share_table = None, self_shamir_share_table = None,
      masked_input = None, masked_input_queue = [], scheduled_tasks = 0,
      taken_queues = [], impl_result = None, sender = []\<rparr>"

definition total_number_of_clients :: "SecAggServerProtocolImpl \<Rightarrow> nat" where
  "total_number_of_clients impl = length (client_statuses impl)"

definition impl_number_of_neighbors :: "SecAggServerProtocolImpl \<Rightarrow> nat" where
  "impl_number_of_neighbors impl = nat (GetDegree (secret_sharing_graph impl))"

definition client_status :: "SecAggServerProtocolImpl \<Rightarrow> nat \<Rightarrow> ClientStatus status_or" where
  "client_status impl client_id = at_index (client_statuses impl) client_id"

definition set_client_status :: "nat \<Rightarrow> ClientStatus \<Rightarrow> SecAggServerProtocolImpl \<Rightarrow> SecAggServerProtocolImpl status_or" where
  "set_client_status client_id status impl =
     and_then (update_at client_id status (client_statuses impl)) (\<lambda>s. Inr (impl\<lparr>client_statuses := s\<rparr>))"

definition impl_GetNeighbor :: "SecAggServerProtocolImpl \<Rightarrow> nat \<Rightarrow> nat \<Rightarrow> nat status_or" where
  "impl_GetNeighbor impl client_id i =
     and_then (GetNeighbor (secret_sharing_graph impl) (int client_id) (int i)) (\<lambda>v. Inr (nat v))"

definition GetNeighborIndexOrDie :: "SecAggServerProtocolImpl \<Rightarrow> nat \<Rightarrow> nat \<Rightarrow> nat status_or" where
  "GetNeighborIndexOrDie impl client_id_1 client_id_2 =
     and_then (GetNeighborIndex (secret_sharing_graph impl) (int client_id_1) (int client_id_2)) (\<lambda>index.
       case index of None \<Rightarrow> Inl CheckFailed | Some k \<Rightarrow> Inr (nat k))"

definition SetResult :: "SecAggVectorMap \<Rightarrow> SecAggServerProtocolImpl \<Rightarrow> SecAggServerProtocolImpl status_or" where
  "SetResult result impl = fcp_check (impl_result impl = None) (Inr (impl\<lparr>impl_result := Some result\<rparr>))"

definition TakeResult :: "SecAggServerProtocolImpl \<Rightarrow> SecAggVectorMap option \<times> SecAggServerProtocolImpl" where
  "TakeResult impl = (impl_result impl, impl\<lparr>impl_result := None\<rparr>)"

section \<open>Round 0\<close>

definition HandleAdvertiseKeys ::
  "nat \<Rightarrow> PairOfPublicKeys \<Rightarrow> SecAggServerProtocolImpl \<Rightarrow> SecAggServerProtocolImpl status_or" where
  "HandleAdvertiseKeys client_id keys impl =
     (if (length (enc_pk keys) \<noteq> EcdhPublicKey_kSize
            \<and> (length (enc_pk keys) < EcdhPublicKey_kUncompressedSize
               \<or> length (noise_pk keys) < EcdhPublicKey_kUncompressedSize))
          \<or> length (enc_pk keys) \<noteq> length (noise_pk keys)
      then Inl (Status INVALID_ARGUMENT ''A public key sent by the client was not the correct size.'')
      else
        let pairwise_key =
              (if length (noise_pk keys) = EcdhPublicKey_kSize then noise_pk keys
               else drop (length (noise_pk keys) - EcdhPublicKey_kUncompressedSize) (noise_pk keys))
        in and_then (update_at client_id pairwise_key (pairwise_public_keys impl)) (\<lambda>pairwise.
           and_then (update_at client_id keys (impl_pairs_of_public_keys impl)) (\<lambda>pairs.
             Inr (impl\<lparr>pairwise_public_keys := pairwise, impl_pairs_of_public_keys := pairs\<rparr>))))"

definition ErasePublicKeysForClient ::
  "nat \<Rightarrow> SecAggServerProtocolImpl \<Rightarrow> SecAggServerProtocolImpl status_or" where
  "ErasePublicKeysForClient client_id impl =
     and_then (update_at client_id [] (pairwise_public_keys impl)) (\<lambda>pairwise.
     and_then (update_at client_id no_public_keys (impl_pairs_of_public_keys impl)) (\<lambda>pairs.
       Inr (impl\<lparr>pairwise_public_keys := pairwise, impl_pairs_of_public_keys := pairs\<rparr>)))"

definition impl_ComputeSessionId ::
  "sha256 \<Rightarrow> SecAggServerProtocolImpl \<Rightarrow> SecAggServerProtocolImpl status_or" where
  "impl_ComputeSessionId sha256 impl =
     and_then (map_status (at_index (impl_pairs_of_public_keys impl)) [0..<total_number_of_clients impl]) (\<lambda>pairs.
     and_then (ComputeSessionId sha256 \<lparr>pairs_of_public_keys = pairs, sec_agg_execution_logging_id = 0,
         request_session_id = []\<rparr>) (\<lambda>sid. Inr (impl\<lparr>impl_session_id := Some sid\<rparr>)))"

definition PrepareShareKeysRequestForClient ::
  "SecAggServerProtocolImpl \<Rightarrow> nat \<Rightarrow> PairOfPublicKeys list status_or" where
  "PrepareShareKeysRequestForClient impl client_id =
     map_status (\<lambda>j. and_then (impl_GetNeighbor impl client_id j) (at_index (impl_pairs_of_public_keys impl)))
       [0..<impl_number_of_neighbors impl]"

definition ClearPairsOfPublicKeys :: "SecAggServerProtocolImpl \<Rightarrow> SecAggServerProtocolImpl" where
  "ClearPairsOfPublicKeys impl = impl\<lparr>impl_pairs_of_public_keys := []\<rparr>"

section \<open>Round 1\<close>

definition check_encrypted_share ::
  "SecAggServerProtocolImpl \<Rightarrow> nat \<Rightarrow> encrypted_key_shares \<Rightarrow> nat \<Rightarrow> unit status_or" where
  "check_encrypted_share impl client_id shares i =
     and_then (at_index shares i) (\<lambda>share.
     and_then (impl_GetNeighbor impl client_id i) (\<lambda>neighbor_id.
     and_then (if neighbor_id = client_id then Inr True
               else and_then (client_status impl neighbor_id) (\<lambda>s. Inr (s = DEAD_BEFORE_SENDING_ANYTHING)))
       (\<lambda>i_should_be_empty.
          if share = [] \<and> \<not> i_should_be_empty
          then Inl (Status INVALID_ARGUMENT ''Client omitted a key share that was expected.'')
          else if i_should_be_empty \<and> share \<noteq> []
          then Inl (Status INVALID_ARGUMENT ''Client sent a key share that was not expected.'')
          else Inr ())))"

definition set_encrypted_share ::
  "nat \<Rightarrow> nat \<Rightarrow> bytes \<Rightarrow> SecAggServerProtocolImpl \<Rightarrow> SecAggServerProtocolImpl status_or" where
  "set_encrypted_share client_id i share impl =
     and_then (impl_GetNeighbor impl client_id i) (\<lambda>neighbor_id.
     and_then (GetNeighborIndexOrDie impl neighbor_id client_id) (\<lambda>index_in_neighbor.
     and_then (at_index (encrypted_shares impl) neighbor_id) (\<lambda>row.
     and_then (update_at index_in_neighbor share row) (\<lambda>row.
       Inr (impl\<lparr>encrypted_shares := (encrypted_shares impl)[neighbor_id := row]\<rparr>)))))"

definition HandleShareKeysResponse ::
  "nat \<Rightarrow> encrypted_key_shares \<Rightarrow> SecAggServerProtocolImpl \<Rightarrow> SecAggServerProtocolImpl status_or" where
  "HandleShareKeysResponse client_id shares impl =
     (if length shares \<noteq> impl_number_of_neighbors impl
      then Inl (Status INVALID_ARGUMENT
        ''The ShareKeysResponse does not contain the expected number of encrypted pairs of key shares.'')
      else
        and_then (map_status (check_encrypted_share impl client_id shares) [0..<impl_number_of_neighbors impl]) (\<lambda>_.
          fold_status (\<lambda>i impl. set_encrypted_share client_id i (shares ! i) impl)
            [0..<impl_number_of_neighbors impl] impl))"

definition EraseShareKeysForClient ::
  "nat \<Rightarrow> SecAggServerProtocolImpl \<Rightarrow> SecAggServerProtocolImpl status_or" where
  "EraseShareKeysForClient client_id impl =
     fold_status (\<lambda>i impl. set_encrypted_share client_id i [] impl) [0..<impl_number_of_neighbors impl] impl"

definition PrepareMaskedInputCollectionRequestForClient ::
  "SecAggServerProtocolImpl \<Rightarrow> nat \<Rightarrow> encrypted_key_shares status_or" where
  "PrepareMaskedInputCollectionRequestForClient impl client_id =
     and_then (at_index (encrypted_shares impl) client_id) (\<lambda>row.
       map_status (at_index row) [0..<impl_number_of_neighbors impl])"

definition ClearShareKeys :: "SecAggServerProtocolImpl \<Rightarrow> SecAggServerProtocolImpl" where
  "ClearShareKeys impl = impl\<lparr>encrypted_shares := []\<rparr>"

section \<open>Round 2\<close>

definition InitializeVectorMap :: "InputVectorSpecification list \<Rightarrow> SecAggUnpackedVectorMap" where
  "InitializeVectorMap specs =
     foldl (\<lambda>m spec. emplace (spec_name spec)
        (SecAggUnpackedVector_zero (spec_length spec) (spec_modulus spec)) m) [] specs"

text \<open>\<open>AesSecAggServerProtocolImpl\<close>, the only implementation, has nothing to add to the request and never fails.\<close>

definition InitializeShareKeysRequest :: "SecAggServerProtocolImpl \<Rightarrow> unit status_or" where
  "InitializeShareKeysRequest impl = Inr ()"

definition SetupMaskedInputCollection :: "SecAggServerProtocolImpl \<Rightarrow> SecAggServerProtocolImpl" where
  "SetupMaskedInputCollection impl =
     impl\<lparr>masked_input := Some (InitializeVectorMap (impl_input_vector_specs impl))\<rparr>"

definition check_masked_vector ::
  "MaskedInputCollectionResponse \<Rightarrow> InputVectorSpecification \<Rightarrow> SecAggVectorMap \<Rightarrow> SecAggVectorMap status_or" where
  "check_masked_vector vectors spec checked =
     (case map_of vectors (spec_name spec) of
        None \<Rightarrow> Inl (Status INVALID_ARGUMENT
          ''Masked input does not match input vector specification - wrong vector names.'')
      | Some encoded_vector \<Rightarrow>
          if spec_length spec * GetBitWidth (spec_modulus spec) > 2147483647 then Inl Undefined
          else if length encoded_vector \<noteq> unat (DivideRoundUp (of_nat (spec_length spec * GetBitWidth (spec_modulus spec))) 8)
          then Inl (Status INVALID_ARGUMENT
            ''Masked input does not match input vector specification - vector is wrong size.'')
          else and_then (SecAggVector_of_packed encoded_vector (spec_modulus spec) (spec_length spec) False)
            (\<lambda>v. Inr (emplace (spec_name spec) v checked)))"

definition check_masked_input ::
  "InputVectorSpecification list \<Rightarrow> MaskedInputCollectionResponse \<Rightarrow> SecAggVectorMap status_or" where
  "check_masked_input specs vectors =
     (if length vectors \<noteq> length specs
      then Inl (Status INVALID_ARGUMENT
        ''Masked input does not match input vector specification - wrong number of vectors.'')
      else fold_status (check_masked_vector vectors) specs [])"

text \<open>
  With \<open>async_round_2\<close> the checked vectors are queued, and a task is scheduled when the queue was
  empty: the queue before it has been taken.
\<close>

definition HandleMaskedInputCollectionResponse ::
  "MaskedInputCollectionResponse \<Rightarrow> SecAggServerProtocolImpl \<Rightarrow> SecAggServerProtocolImpl status_or" where
  "HandleMaskedInputCollectionResponse vectors impl =
     and_then (check_masked_input (impl_input_vector_specs impl) vectors) (\<lambda>checked.
       if async_round_2 impl then
         let is_queue_empty = (masked_input_queue impl = []);
             impl = impl\<lparr>masked_input_queue := masked_input_queue impl @ [checked]\<rparr>
         in Inr (if is_queue_empty then impl\<lparr>scheduled_tasks := scheduled_tasks impl + 1\<rparr> else impl)
       else case masked_input impl of
           None \<Rightarrow> Inl CheckFailed
         | Some so_far \<Rightarrow> and_then (Map_Add_packed so_far checked) (\<lambda>so_far.
             Inr (impl\<lparr>masked_input := Some so_far\<rparr>)))"

definition TakeMaskedInputQueue ::
  "SecAggServerProtocolImpl \<Rightarrow> SecAggVectorMap list \<times> SecAggServerProtocolImpl" where
  "TakeMaskedInputQueue impl = (masked_input_queue impl, impl\<lparr>masked_input_queue := []\<rparr>)"

definition AddReduce ::
  "SecAggVectorMap list \<Rightarrow> SecAggUnpackedVectorMap \<Rightarrow> SecAggUnpackedVectorMap status_or" where
  "AddReduce vector_of_maps sum_of_maps =
     (case vector_of_maps of
        [] \<Rightarrow> Inl CheckFailed
      | m # ms \<Rightarrow>
          and_then (fold_status (\<lambda>m partial_sum. Map_Add_packed partial_sum m) ms (SecAggUnpackedVectorMap_of m))
            (Map_Add_unpacked sum_of_maps))"

text \<open>
  The two critical sections of a scheduled task: it takes the queue, and later adds what it has
  taken to the sum. Between the two, messages arrive and other tasks run.
\<close>

definition task_takes_queue :: "SecAggServerProtocolImpl \<Rightarrow> SecAggServerProtocolImpl" where
  "task_takes_queue impl =
     (let (queue, impl) = TakeMaskedInputQueue impl
      in impl\<lparr>scheduled_tasks := scheduled_tasks impl - 1, taken_queues := queue # taken_queues impl\<rparr>)"

definition task_adds_queue :: "nat \<Rightarrow> SecAggServerProtocolImpl \<Rightarrow> SecAggServerProtocolImpl status_or" where
  "task_adds_queue k impl =
     and_then (at_index (taken_queues impl) k) (\<lambda>queue.
       case masked_input impl of
         None \<Rightarrow> Inl Undefined
       | Some so_far \<Rightarrow> and_then (AddReduce queue so_far) (\<lambda>so_far.
           Inr (impl\<lparr>masked_input := Some so_far,
                 taken_queues := take k (taken_queues impl) @ drop (Suc k) (taken_queues impl)\<rparr>)))"

definition FinalizeMaskedInputCollection :: "SecAggServerProtocolImpl \<Rightarrow> SecAggServerProtocolImpl status_or" where
  "FinalizeMaskedInputCollection impl =
     (if async_round_2 impl
      then fcp_check (scheduled_tasks impl = 0 \<and> taken_queues impl = []) (Inr impl) else Inr impl)"

section \<open>Round 3\<close>

datatype ClientMask = kPairwiseMask | kSelfMask | kNoMask

fun ClientMaskType :: "ClientStatus \<Rightarrow> ClientMask" where
  "ClientMaskType SHARE_KEYS_RECEIVED = kPairwiseMask"
| "ClientMaskType DEAD_AFTER_SHARE_KEYS_RECEIVED = kPairwiseMask"
| "ClientMaskType MASKED_INPUT_RESPONSE_RECEIVED = kSelfMask"
| "ClientMaskType DEAD_AFTER_MASKED_INPUT_RESPONSE_RECEIVED = kSelfMask"
| "ClientMaskType UNMASKING_RESPONSE_RECEIVED = kSelfMask"
| "ClientMaskType DEAD_AFTER_UNMASKING_RESPONSE_RECEIVED = kSelfMask"
| "ClientMaskType READY_TO_START = kNoMask"
| "ClientMaskType DEAD_BEFORE_SENDING_ANYTHING = kNoMask"
| "ClientMaskType ADVERTISE_KEYS_RECEIVED = kNoMask"
| "ClientMaskType DEAD_AFTER_ADVERTISE_KEYS_RECEIVED = kNoMask"

text \<open>The rows of a table: one per client whose status calls for that mask, all shares empty.\<close>

definition share_table_for :: "ClientMask \<Rightarrow> SecAggServerProtocolImpl \<Rightarrow> share_table" where
  "share_table_for msk impl =
     map (\<lambda>i. (i, replicate (impl_number_of_neighbors impl) \<lparr>share_data = []\<rparr>))
       (filter (\<lambda>i. ClientMaskType (client_statuses impl ! i) = msk) [0..<total_number_of_clients impl])"

definition SetUpShamirSharesTables :: "SecAggServerProtocolImpl \<Rightarrow> SecAggServerProtocolImpl" where
  "SetUpShamirSharesTables impl =
     impl\<lparr>pairwise_shamir_share_table := Some (share_table_for kPairwiseMask impl),
          self_shamir_share_table := Some (share_table_for kSelfMask impl)\<rparr>"

definition expected_share :: "ClientMask \<Rightarrow> NoiseOrPrfKeyShare \<Rightarrow> bool" where
  "expected_share msk share =
     (case msk of
        kPairwiseMask \<Rightarrow> (case share of noise_sk_share _ \<Rightarrow> True | _ \<Rightarrow> False)
      | kSelfMask \<Rightarrow> (case share of prf_sk_share _ \<Rightarrow> True | _ \<Rightarrow> False)
      | kNoMask \<Rightarrow> share = ONEOF_SHARES_NOT_SET)"

definition check_unmasking_share ::
  "SecAggServerProtocolImpl \<Rightarrow> nat \<Rightarrow> NoiseOrPrfKeyShare list \<Rightarrow> nat \<Rightarrow> unit status_or" where
  "check_unmasking_share impl client_id shares i =
     and_then (impl_GetNeighbor impl client_id i) (\<lambda>ith_neighbor.
     and_then (client_status impl ith_neighbor) (\<lambda>status.
     and_then (at_index shares i) (\<lambda>share.
       if expected_share (ClientMaskType status) share then Inr ()
       else if ClientMaskType status = kNoMask
       then Inl (Status INVALID_ARGUMENT ''Client included a key share for which none was expected.'')
       else Inl (Status INVALID_ARGUMENT ''Client did not include the correct type of key share.''))))"

text \<open>
  \<open>table[client][index].data = data\<close>: \<open>operator[]\<close> of the map inserts an empty row for a missing
  client, which has no element \<open>index\<close>.
\<close>

fun set_share :: "nat \<Rightarrow> nat \<Rightarrow> bytes \<Rightarrow> share_table \<Rightarrow> share_table status_or" where
  "set_share client index d [] = Inl Undefined"
| "set_share client index d ((k, row) # table) =
     (if k = client
      then and_then (update_at index \<lparr>share_data = d\<rparr> row) (\<lambda>row. Inr ((k, row) # table))
      else and_then (set_share client index d table) (\<lambda>table. Inr ((k, row) # table)))"

definition store_unmasking_share ::
  "SecAggServerProtocolImpl \<Rightarrow> nat \<Rightarrow> NoiseOrPrfKeyShare list \<Rightarrow> nat \<Rightarrow> share_table \<times> share_table
    \<Rightarrow> (share_table \<times> share_table) status_or" where
  "store_unmasking_share impl client_id shares i tables =
     and_then (impl_GetNeighbor impl client_id i) (\<lambda>ith_neighbor.
     and_then (GetNeighborIndexOrDie impl ith_neighbor client_id) (\<lambda>index.
     and_then (at_index shares i) (\<lambda>share.
       case share of
         noise_sk_share d \<Rightarrow> and_then (set_share ith_neighbor index d (fst tables)) (\<lambda>t. Inr (t, snd tables))
       | prf_sk_share d \<Rightarrow> and_then (set_share ith_neighbor index d (snd tables)) (\<lambda>t. Inr (fst tables, t))
       | ONEOF_SHARES_NOT_SET \<Rightarrow> Inr tables)))"

definition HandleUnmaskingResponse ::
  "nat \<Rightarrow> NoiseOrPrfKeyShare list \<Rightarrow> SecAggServerProtocolImpl \<Rightarrow> SecAggServerProtocolImpl status_or" where
  "HandleUnmaskingResponse client_id shares impl =
     (case (pairwise_shamir_share_table impl, self_shamir_share_table impl) of
        (Some pairwise_table, Some self_table) \<Rightarrow>
          and_then (map_status (check_unmasking_share impl client_id shares) [0..<impl_number_of_neighbors impl]) (\<lambda>_.
          and_then (fold_status (store_unmasking_share impl client_id shares)
              [0..<impl_number_of_neighbors impl] (pairwise_table, self_table)) (\<lambda>(pairwise_table, self_table).
            Inr (impl\<lparr>pairwise_shamir_share_table := Some pairwise_table,
                      self_shamir_share_table := Some self_table\<rparr>)))
      | _ \<Rightarrow> Inl CheckFailed)"

section \<open>PRNG stage\<close>

record ShamirReconstructionResult =
  aborted_client_key_agreements :: "(nat \<times> EcdhKeyAgreement) list"
  self_keys :: "(nat \<times> bytes) list"

definition minimum_surviving_neighbors_for_reconstruction :: "SecAggServerProtocolImpl \<Rightarrow> int" where
  "minimum_surviving_neighbors_for_reconstruction impl = GetThreshold (secret_sharing_graph impl)"

text \<open>The two loops of \<open>HandleShamirReconstruction\<close>; one \<open>reconstructor\<close>, with its caches, serves the first.\<close>

definition reconstruct_pairwise ::
  "crypto \<Rightarrow> int \<Rightarrow> nat \<times> ShamirShare list \<Rightarrow> ShamirSecretSharing \<times> (nat \<times> EcdhKeyAgreement) list
    \<Rightarrow> (ShamirSecretSharing \<times> (nat \<times> EcdhKeyAgreement) list) status_or" where
  "reconstruct_pairwise c threshold item acc =
     and_then (Reconstruct (fst acc) threshold (snd item) (int EcdhPrivateKey_kSize))
       (\<lambda>(reconstructed_key, reconstructor).
          case CreateFromPrivateKey c reconstructed_key of
            Inl _ \<Rightarrow> Inl (Status INVALID_ARGUMENT
              ''Unable to reconstruct aborted client's private key from shares'')
          | Inr key_agreement \<Rightarrow> Inr (reconstructor, snd acc @ [(fst item, key_agreement)]))"

definition reconstruct_self :: "int \<Rightarrow> nat \<times> ShamirShare list \<Rightarrow> (nat \<times> bytes) status_or" where
  "reconstruct_self threshold item =
     and_then (CreateFromShares (snd item) threshold) (\<lambda>reconstructed. Inr (fst item, reconstructed))"

definition HandleShamirReconstruction ::
  "crypto \<Rightarrow> SecAggServerProtocolImpl \<Rightarrow> ShamirReconstructionResult status_or" where
  "HandleShamirReconstruction c impl =
     (case (pairwise_shamir_share_table impl, self_shamir_share_table impl) of
        (Some pairwise_table, Some self_table) \<Rightarrow>
          and_then (fold_status (reconstruct_pairwise c (minimum_surviving_neighbors_for_reconstruction impl))
              pairwise_table (new_ShamirSecretSharing, [])) (\<lambda>(_, key_agreements).
          and_then (map_status (reconstruct_self (minimum_surviving_neighbors_for_reconstruction impl)) self_table)
            (\<lambda>keys. Inr \<lparr>aborted_client_key_agreements = key_agreements, self_keys = keys\<rparr>))
      | _ \<Rightarrow> Inl CheckFailed)"

record PrngWorkItems =
  prng_keys_to_add :: "bytes list"
  prng_keys_to_subtract :: "bytes list"

definition pairwise_work ::
  "crypto \<Rightarrow> SecAggServerProtocolImpl \<Rightarrow> nat \<Rightarrow> nat \<times> EcdhKeyAgreement \<Rightarrow> PrngWorkItems \<Rightarrow> PrngWorkItems status_or" where
  "pairwise_work c impl i item work_items =
     and_then (AreNeighbors (secret_sharing_graph impl) (int i) (int (fst item))) (\<lambda>are_neighbors.
       if \<not> are_neighbors then Inr work_items
       else and_then (at_index (pairwise_public_keys impl) i) (\<lambda>public_key.
         case ComputeSharedSecret c (snd item) public_key of
           Inl (Status _ _) \<Rightarrow> Inl (Status INVALID_ARGUMENT ''Invalid public key from client detected'')
         | Inl e \<Rightarrow> Inl e
         | Inr shared_key \<Rightarrow>
             and_then (IsOutgoingNeighbor (secret_sharing_graph impl) (int i) (int (fst item))) (\<lambda>outgoing.
               Inr (if outgoing
                    then work_items\<lparr>prng_keys_to_add := prng_keys_to_add work_items @ [shared_key]\<rparr>
                    else work_items\<lparr>prng_keys_to_subtract := prng_keys_to_subtract work_items @ [shared_key]\<rparr>))))"

definition client_work ::
  "crypto \<Rightarrow> SecAggServerProtocolImpl \<Rightarrow> ShamirReconstructionResult \<Rightarrow> nat \<Rightarrow> PrngWorkItems \<Rightarrow> PrngWorkItems status_or" where
  "client_work c impl reconstructed i work_items =
     and_then (client_status impl i) (\<lambda>status.
       if status \<noteq> UNMASKING_RESPONSE_RECEIVED \<and> status \<noteq> DEAD_AFTER_UNMASKING_RESPONSE_RECEIVED
          \<and> status \<noteq> DEAD_AFTER_MASKED_INPUT_RESPONSE_RECEIVED
       then Inr work_items
       else case map_of (self_keys reconstructed) i of
           None \<Rightarrow> Inl CheckFailed
         | Some key \<Rightarrow> fold_status (pairwise_work c impl i) (aborted_client_key_agreements reconstructed)
             (work_items\<lparr>prng_keys_to_subtract := prng_keys_to_subtract work_items @ [key]\<rparr>))"

definition InitializePrng ::
  "crypto \<Rightarrow> ShamirReconstructionResult \<Rightarrow> SecAggServerProtocolImpl \<Rightarrow> PrngWorkItems status_or" where
  "InitializePrng c reconstructed impl =
     fold_status (client_work c impl reconstructed) [0..<total_number_of_clients impl]
       \<lparr>prng_keys_to_add = [], prng_keys_to_subtract = []\<rparr>"

definition kPrngBatchSize :: nat where "kPrngBatchSize = 32"

function batches :: "bytes list \<Rightarrow> bytes list list" where
  "batches keys = (if keys = [] then [] else take kPrngBatchSize keys # batches (drop kPrngBatchSize keys))"
  by pat_completeness auto
termination
  by (relation "measure length") (auto simp: kPrngBatchSize_def)

declare batches.simps [simp del]

text \<open>
  \<open>StartPrng\<close> gives the initial value of the accumulator, which is moved out of the object, and
  the keys to add and to subtract of each task. \<open>prng_generator\<close> is the body of a task,
  \<open>prng_observer\<close> the observer of the accumulator up to \<open>done_callback\<close>.
\<close>

type_synonym prng_task = "bytes list \<times> bytes list"

definition StartPrng ::
  "PrngWorkItems \<Rightarrow> SecAggServerProtocolImpl
    \<Rightarrow> (SecAggUnpackedVectorMap \<times> prng_task list \<times> SecAggServerProtocolImpl) status_or" where
  "StartPrng work_items impl =
     (case masked_input impl of
        None \<Rightarrow> Inl CheckFailed
      | Some initial_value \<Rightarrow>
          Inr (initial_value,
               map (\<lambda>batch. (batch, [])) (batches (prng_keys_to_add work_items))
                 @ map (\<lambda>batch. ([], batch)) (batches (prng_keys_to_subtract work_items)),
               impl\<lparr>masked_input := None\<rparr>))"

definition prng_generator ::
  "mask_env \<Rightarrow> SecAggServerProtocolImpl \<Rightarrow> prng_task \<Rightarrow> SecAggUnpackedVectorMap status_or" where
  "prng_generator env impl task =
     (case impl_session_id impl of
        None \<Rightarrow> Inl CheckFailed
      | Some session_id \<Rightarrow>
          and_then (UnpackedMapOfMasks env (fst task) (snd task) (impl_input_vector_specs impl) session_id (\<lambda>_. False))
            (\<lambda>partial. case partial of None \<Rightarrow> Inl CheckFailed | Some masks \<Rightarrow> Inr masks))"

definition prng_observer ::
  "SecAggUnpackedVectorMap \<Rightarrow> SecAggServerProtocolImpl \<Rightarrow> SecAggServerProtocolImpl status_or" where
  "prng_observer unpacked_map impl =
     and_then (fold_status (\<lambda>(name, v) packed_map.
         and_then (SecAggVector_of_span (elements v) (uv_modulus v) False) (\<lambda>packed.
           Inr (emplace name packed packed_map))) unpacked_map []) (\<lambda>packed_map.
       SetResult packed_map impl)"

end
