(* ===== verification/Server_States.thy ===== *)
theory Server_States
  imports Server_Impl
begin

text \<open>
  \<open>secagg_server_state.{h,cc}\<close>, the state classes \<open>secagg_server_*_state.{h,cc}\<close> and
  \<open>secagg_server.{h,cc}\<close> of \<open>fcp/secagg/server\<close>. A state object is the record
  \<open>SecAggServerState\<close> with the fields of all subclasses, the virtual methods dispatch on
  \<open>state_kind\<close>. \<open>Inl (Status _ _)\<close> is an error that the method returns without having changed the
  state; metrics, traces and spans are left out. The tasks of the PRNG stage that the
  accumulator holds are \<open>prng_tasks\<close>.
\<close>

section \<open>State\<close>

datatype SecAggServerStateKind =
  R0_ADVERTISE_KEYS | R1_SHARE_KEYS | R2_MASKED_INPUT_COLLECTION | R3_UNMASKING
| PRNG_RUNNING | COMPLETED | ABORTED

datatype ClientDropReason =
  SENT_ABORT_MESSAGE | UNEXPECTED_MESSAGE_TYPE | ADVERTISE_KEYS_UNEXPECTED | NO_ADVERTISE_KEYS
| SHARE_KEYS_UNEXPECTED | NO_SHARE_KEYS | MASKED_INPUT_UNEXPECTED | INVALID_MASKED_INPUT | NO_MASKED_INPUT
| UNMASKING_RESPONSE_UNEXPECTED | INVALID_UNMASKING_RESPONSE | INVALID_PUBLIC_KEY
| SERVER_PROTOCOL_ABORT_CLIENT | EARLY_SUCCESS | CONNECTION_CLOSED | INVALID_SHARE_KEYS_RESPONSE

datatype ClientAbortReason = INVALID_MESSAGE | NOT_CHECKED_IN | CONNECTION_DROPPED | OBSOLETE_VERSION

record SecAggServerState =
  state_kind :: SecAggServerStateKind
  needs_to_abort :: bool
  number_of_clients_failed_after_sending_masked_input :: int
  number_of_clients_failed_before_sending_masked_input :: int
  number_of_clients_ready_for_next_round :: int
  number_of_clients_terminated_without_unmasking :: int
  number_of_messages_received_in_this_round :: int
  clients_aborted_at_round_2 :: "nat list"
  completion_status :: "unit status_or option"
  error_message :: string
  prng_tasks :: "(SecAggUnpackedVectorMap \<times> prng_task list) option"
  impl :: SecAggServerProtocolImpl

definition new_SecAggServerState ::
  "int \<Rightarrow> int \<Rightarrow> int \<Rightarrow> SecAggServerStateKind \<Rightarrow> SecAggServerProtocolImpl \<Rightarrow> SecAggServerState" where
  "new_SecAggServerState failed_after failed_before terminated kind i =
     \<lparr>state_kind = kind, needs_to_abort = False,
      number_of_clients_failed_after_sending_masked_input = failed_after,
      number_of_clients_failed_before_sending_masked_input = failed_before,
      number_of_clients_ready_for_next_round = 0,
      number_of_clients_terminated_without_unmasking = terminated,
      number_of_messages_received_in_this_round = 0,
      clients_aborted_at_round_2 = [], completion_status = None, error_message = [],
      prng_tasks = None, impl = i\<rparr>"

definition next_state ::
  "SecAggServerStateKind \<Rightarrow> SecAggServerState \<Rightarrow> SecAggServerState" where
  "next_state kind st =
     new_SecAggServerState (number_of_clients_failed_after_sending_masked_input st)
       (number_of_clients_failed_before_sending_masked_input st)
       (number_of_clients_terminated_without_unmasking st) kind (impl st)"

text \<open>The constructors of the states; those of rounds 2 and 3 set up the protocol data.\<close>

definition new_SecAggServerR0AdvertiseKeysState :: "SecAggServerProtocolImpl \<Rightarrow> SecAggServerState" where
  "new_SecAggServerR0AdvertiseKeysState i = new_SecAggServerState 0 0 0 R0_ADVERTISE_KEYS i"

definition new_SecAggServerR1ShareKeysState :: "SecAggServerState \<Rightarrow> SecAggServerState" where
  "new_SecAggServerR1ShareKeysState st = next_state R1_SHARE_KEYS st"

definition new_SecAggServerR2MaskedInputCollState :: "SecAggServerState \<Rightarrow> SecAggServerState" where
  "new_SecAggServerR2MaskedInputCollState st =
     (next_state R2_MASKED_INPUT_COLLECTION st)\<lparr>impl := SetupMaskedInputCollection (impl st)\<rparr>"

definition new_SecAggServerR3UnmaskingState :: "SecAggServerState \<Rightarrow> SecAggServerState" where
  "new_SecAggServerR3UnmaskingState st =
     (next_state R3_UNMASKING st)\<lparr>impl := SetUpShamirSharesTables (impl st)\<rparr>"

definition new_SecAggServerPrngRunningState :: "SecAggServerState \<Rightarrow> SecAggServerState" where
  "new_SecAggServerPrngRunningState st = next_state PRNG_RUNNING st"

definition new_SecAggServerCompletedState :: "SecAggServerState \<Rightarrow> SecAggServerState" where
  "new_SecAggServerCompletedState st = next_state COMPLETED st"

definition new_SecAggServerAbortedState :: "string \<Rightarrow> SecAggServerState \<Rightarrow> SecAggServerState" where
  "new_SecAggServerAbortedState reason st = (next_state ABORTED st)\<lparr>error_message := reason\<rparr>"

section \<open>What a state reports\<close>

definition server_IsAborted :: "SecAggServerState \<Rightarrow> bool" where
  "server_IsAborted st \<longleftrightarrow> state_kind st = ABORTED"

definition server_IsCompletedSuccessfully :: "SecAggServerState \<Rightarrow> bool" where
  "server_IsCompletedSuccessfully st \<longleftrightarrow> state_kind st = COMPLETED"

fun server_StateName :: "SecAggServerStateKind \<Rightarrow> string" where
  "server_StateName ABORTED = ''Aborted''"
| "server_StateName COMPLETED = ''Completed''"
| "server_StateName PRNG_RUNNING = ''PrngRunning''"
| "server_StateName R0_ADVERTISE_KEYS = ''R0AdvertiseKeys''"
| "server_StateName R1_SHARE_KEYS = ''R1ShareKeys''"
| "server_StateName R2_MASKED_INPUT_COLLECTION = ''R2MaskedInputCollection''"
| "server_StateName R3_UNMASKING = ''R3Unmasking''"

definition server_ErrorMessage :: "SecAggServerState \<Rightarrow> string status_or" where
  "server_ErrorMessage st =
     (if state_kind st = ABORTED then Inr (error_message st)
      else Inl (Status FAILED_PRECONDITION
        (''Error message requested, but server is in state '' @ server_StateName (state_kind st))))"

definition minimum_to_proceed :: "SecAggServerState \<Rightarrow> int" where
  "minimum_to_proceed st = minimum_number_of_clients_to_proceed (impl st)"

definition NumberOfAliveClients :: "SecAggServerState \<Rightarrow> int" where
  "NumberOfAliveClients st =
     int (total_number_of_clients (impl st)) - number_of_clients_failed_before_sending_masked_input st
       - number_of_clients_failed_after_sending_masked_input st
       - number_of_clients_terminated_without_unmasking st"

fun NumberOfPendingClients_in :: "SecAggServerStateKind \<Rightarrow> SecAggServerState \<Rightarrow> int" where
  "NumberOfPendingClients_in PRNG_RUNNING st = 0"
| "NumberOfPendingClients_in COMPLETED st = 0"
| "NumberOfPendingClients_in ABORTED st = 0"
| "NumberOfPendingClients_in _ st = NumberOfAliveClients st - number_of_clients_ready_for_next_round st"

definition NumberOfPendingClients :: "SecAggServerState \<Rightarrow> int" where
  "NumberOfPendingClients st = NumberOfPendingClients_in (state_kind st) st"

definition NumberOfIncludedInputs :: "SecAggServerState \<Rightarrow> int" where
  "NumberOfIncludedInputs st =
     (case state_kind st of
        R2_MASKED_INPUT_COLLECTION \<Rightarrow> number_of_messages_received_in_this_round st
      | R3_UNMASKING \<Rightarrow>
          int (total_number_of_clients (impl st)) - number_of_clients_failed_before_sending_masked_input st
      | PRNG_RUNNING \<Rightarrow>
          int (total_number_of_clients (impl st)) - number_of_clients_failed_before_sending_masked_input st
      | COMPLETED \<Rightarrow>
          int (total_number_of_clients (impl st)) - number_of_clients_failed_before_sending_masked_input st
      | _ \<Rightarrow> 0)"

definition IsNumberOfIncludedInputsCommitted :: "SecAggServerState \<Rightarrow> bool" where
  "IsNumberOfIncludedInputsCommitted st \<longleftrightarrow>
     state_kind st \<noteq> R0_ADVERTISE_KEYS \<and> state_kind st \<noteq> R1_SHARE_KEYS
       \<and> state_kind st \<noteq> R2_MASKED_INPUT_COLLECTION"

definition MinimumMessagesNeededForNextRound :: "SecAggServerState \<Rightarrow> int" where
  "MinimumMessagesNeededForNextRound st =
     (case state_kind st of
        R0_ADVERTISE_KEYS \<Rightarrow> max 0 (minimum_to_proceed st - number_of_clients_ready_for_next_round st)
      | R1_SHARE_KEYS \<Rightarrow> max 0 (minimum_to_proceed st - number_of_clients_ready_for_next_round st)
      | R2_MASKED_INPUT_COLLECTION \<Rightarrow> max 0 (minimum_to_proceed st - number_of_clients_ready_for_next_round st)
      | R3_UNMASKING \<Rightarrow> max 0 (minimum_to_proceed st - number_of_messages_received_in_this_round st)
      | _ \<Rightarrow> 0)"

text \<open>
  \<open>is_idle\<close> is \<open>accumulator_->IsIdle()\<close> seen from the queue: no task is scheduled or holds a part of it. The accumulator is still busy
  for the moment in which the result of the last task has been added and is not counted yet (theory \<open>Accumulator\<close>), in which a call
  of \<open>ProceedToNextRound\<close> is refused; here the task has then ended, so that every call the code accepts is accepted.
\<close>

definition is_idle :: "SecAggServerProtocolImpl \<Rightarrow> bool" where
  "is_idle i \<longleftrightarrow> \<not> async_round_2 i \<or> (scheduled_tasks i = 0 \<and> taken_queues i = [])"

definition ReadyForNextRound :: "SecAggServerState \<Rightarrow> bool" where
  "ReadyForNextRound st =
     (case state_kind st of
        R0_ADVERTISE_KEYS \<Rightarrow>
          number_of_clients_ready_for_next_round st \<ge> minimum_to_proceed st \<or> needs_to_abort st
      | R1_SHARE_KEYS \<Rightarrow>
          number_of_clients_ready_for_next_round st \<ge> minimum_to_proceed st \<or> needs_to_abort st
      | R2_MASKED_INPUT_COLLECTION \<Rightarrow>
          is_idle (impl st)
            \<and> (number_of_clients_ready_for_next_round st \<ge> minimum_to_proceed st \<or> needs_to_abort st)
      | R3_UNMASKING \<Rightarrow>
          number_of_messages_received_in_this_round st \<ge> minimum_to_proceed st \<or> needs_to_abort st
      | PRNG_RUNNING \<Rightarrow> completion_status st \<noteq> None
      | _ \<Rightarrow> False)"

fun is_dead :: "ClientStatus \<Rightarrow> bool" where
  "is_dead DEAD_BEFORE_SENDING_ANYTHING = True"
| "is_dead DEAD_AFTER_ADVERTISE_KEYS_RECEIVED = True"
| "is_dead DEAD_AFTER_SHARE_KEYS_RECEIVED = True"
| "is_dead DEAD_AFTER_MASKED_INPUT_RESPONSE_RECEIVED = True"
| "is_dead DEAD_AFTER_UNMASKING_RESPONSE_RECEIVED = True"
| "is_dead _ = False"

definition IsClientDead :: "SecAggServerState \<Rightarrow> nat \<Rightarrow> bool status_or" where
  "IsClientDead st client_id = and_then (client_status (impl st) client_id) (\<lambda>s. Inr (is_dead s))"

definition AbortedClientIds :: "SecAggServerState \<Rightarrow> nat list" where
  "AbortedClientIds st =
     filter (\<lambda>i. is_dead (client_statuses (impl st) ! i)) [0..<total_number_of_clients (impl st)]"

section \<open>Sending\<close>

definition server_Send :: "nat \<Rightarrow> ServerToClientWrapperMessage \<Rightarrow> SecAggServerState \<Rightarrow> SecAggServerState status_or" where
  "server_Send recipient_id message st =
     fcp_check (message \<noteq> S2C_NOT_SET)
       (Inr (st\<lparr>impl := (impl st)\<lparr>sender := sender (impl st) @ [(recipient_id, message)]\<rparr>\<rparr>))"

definition BroadcastMessage :: "ServerToClientWrapperMessage \<Rightarrow> SecAggServerState \<Rightarrow> SecAggServerState status_or" where
  "BroadcastMessage message st =
     fcp_check (message \<noteq> S2C_NOT_SET)
       (fold_status (\<lambda>i st. and_then (IsClientDead st i) (\<lambda>dead. if dead then Inr st else server_Send i message st))
          [0..<total_number_of_clients (impl st)] st)"

section \<open>Aborting\<close>

definition set_status :: "nat \<Rightarrow> ClientStatus \<Rightarrow> SecAggServerState \<Rightarrow> SecAggServerState status_or" where
  "set_status client_id status st =
     and_then (set_client_status client_id status (impl st)) (\<lambda>i. Inr (st\<lparr>impl := i\<rparr>))"

definition abort_if_too_few :: "SecAggServerState \<Rightarrow> SecAggServerState" where
  "abort_if_too_few st =
     (if NumberOfAliveClients st < minimum_to_proceed st then st\<lparr>needs_to_abort := True\<rparr> else st)"

definition R0_HandleAbortClient :: "nat \<Rightarrow> SecAggServerState \<Rightarrow> SecAggServerState status_or" where
  "R0_HandleAbortClient client_id st =
     (let st = st\<lparr>number_of_clients_failed_before_sending_masked_input :=
                   number_of_clients_failed_before_sending_masked_input st + 1\<rparr>
      in and_then (client_status (impl st) client_id) (\<lambda>status.
         and_then (if status = ADVERTISE_KEYS_RECEIVED
                   then and_then (ErasePublicKeysForClient client_id (impl st)) (\<lambda>i.
                     Inr (st\<lparr>number_of_clients_ready_for_next_round :=
                                number_of_clients_ready_for_next_round st - 1, impl := i\<rparr>))
                   else Inr st) (\<lambda>st.
         and_then (set_status client_id DEAD_BEFORE_SENDING_ANYTHING st) (\<lambda>st. Inr (abort_if_too_few st)))))"

definition R1_HandleAbortClient :: "nat \<Rightarrow> SecAggServerState \<Rightarrow> SecAggServerState status_or" where
  "R1_HandleAbortClient client_id st =
     (let st = st\<lparr>number_of_clients_failed_before_sending_masked_input :=
                   number_of_clients_failed_before_sending_masked_input st + 1\<rparr>
      in and_then (client_status (impl st) client_id) (\<lambda>status.
         and_then (if status = SHARE_KEYS_RECEIVED
                   then and_then (EraseShareKeysForClient client_id (impl st)) (\<lambda>i.
                     Inr (st\<lparr>number_of_clients_ready_for_next_round :=
                                number_of_clients_ready_for_next_round st - 1, impl := i\<rparr>))
                   else Inr st) (\<lambda>st.
         and_then (set_status client_id DEAD_AFTER_ADVERTISE_KEYS_RECEIVED st) (\<lambda>st. Inr (abort_if_too_few st)))))"

definition R2_HandleAbortClient :: "nat \<Rightarrow> SecAggServerState \<Rightarrow> SecAggServerState status_or" where
  "R2_HandleAbortClient client_id st =
     and_then (client_status (impl st) client_id) (\<lambda>status.
     and_then
       (if status = MASKED_INPUT_RESPONSE_RECEIVED
        then set_status client_id DEAD_AFTER_MASKED_INPUT_RESPONSE_RECEIVED
          (st\<lparr>number_of_clients_ready_for_next_round := number_of_clients_ready_for_next_round st - 1,
              number_of_clients_failed_after_sending_masked_input :=
                number_of_clients_failed_after_sending_masked_input st + 1\<rparr>)
        else set_status client_id DEAD_AFTER_SHARE_KEYS_RECEIVED
          (st\<lparr>number_of_clients_failed_before_sending_masked_input :=
                number_of_clients_failed_before_sending_masked_input st + 1,
              clients_aborted_at_round_2 := clients_aborted_at_round_2 st @ [client_id]\<rparr>))
       (\<lambda>st. Inr (abort_if_too_few st)))"

definition R3_HandleAbortClient ::
  "nat \<Rightarrow> ClientDropReason \<Rightarrow> SecAggServerState \<Rightarrow> SecAggServerState status_or" where
  "R3_HandleAbortClient client_id reason_code st =
     and_then (client_status (impl st) client_id) (\<lambda>status.
       if status = UNMASKING_RESPONSE_RECEIVED
       then set_status client_id DEAD_AFTER_UNMASKING_RESPONSE_RECEIVED st
       else
         let st = (if reason_code = EARLY_SUCCESS
                   then st\<lparr>number_of_clients_terminated_without_unmasking :=
                            number_of_clients_terminated_without_unmasking st + 1\<rparr>
                   else st\<lparr>number_of_clients_failed_after_sending_masked_input :=
                            number_of_clients_failed_after_sending_masked_input st + 1\<rparr>)
         in and_then (set_status client_id DEAD_AFTER_MASKED_INPUT_RESPONSE_RECEIVED st) (\<lambda>st.
              Inr (if NumberOfPendingClients st + number_of_messages_received_in_this_round st
                        < minimum_to_proceed st
                   then st\<lparr>needs_to_abort := True\<rparr> else st)))"

definition HandleAbortClient ::
  "nat \<Rightarrow> ClientDropReason \<Rightarrow> SecAggServerState \<Rightarrow> SecAggServerState status_or" where
  "HandleAbortClient client_id reason_code st =
     (case state_kind st of
        R0_ADVERTISE_KEYS \<Rightarrow> R0_HandleAbortClient client_id st
      | R1_SHARE_KEYS \<Rightarrow> R1_HandleAbortClient client_id st
      | R2_MASKED_INPUT_COLLECTION \<Rightarrow> R2_HandleAbortClient client_id st
      | R3_UNMASKING \<Rightarrow> R3_HandleAbortClient client_id reason_code st
      | PRNG_RUNNING \<Rightarrow> set_status client_id DEAD_AFTER_UNMASKING_RESPONSE_RECEIVED st
      | _ \<Rightarrow> Inr st)"

definition abort_message :: "string \<Rightarrow> bool \<Rightarrow> ServerToClientWrapperMessage" where
  "abort_message reason success = S2C_abort \<lparr>diagnostic_info = reason, early_success = success\<rparr>"

definition AbortClient ::
  "nat \<Rightarrow> string \<Rightarrow> ClientDropReason \<Rightarrow> bool \<Rightarrow> SecAggServerState \<Rightarrow> SecAggServerState status_or" where
  "AbortClient client_id reason reason_code notify st =
     fcp_check (\<not> (server_IsAborted st \<or> server_IsCompletedSuccessfully st))
       (and_then (IsClientDead st client_id) (\<lambda>dead.
          if dead then Inr st
          else and_then (HandleAbortClient client_id reason_code st) (\<lambda>st.
            if notify then server_Send client_id (abort_message reason (reason_code = EARLY_SUCCESS)) st
            else Inr st)))"

text \<open>
  \<open>Cancel\<close> of the round 2 accumulator: tasks that wait are skipped, and the call blocks until the
  ones that run have ended.
\<close>

definition Cancel_masked_input :: "SecAggServerProtocolImpl \<Rightarrow> SecAggServerProtocolImpl status_or" where
  "Cancel_masked_input i =
     and_then (fold_status (\<lambda>_. task_adds_queue 0) (taken_queues i) i) (\<lambda>i. Inr (i\<lparr>scheduled_tasks := 0\<rparr>))"

definition HandleAbort :: "SecAggServerState \<Rightarrow> SecAggServerState status_or" where
  "HandleAbort st =
     (case state_kind st of
        R2_MASKED_INPUT_COLLECTION \<Rightarrow>
          if async_round_2 (impl st) then and_then (Cancel_masked_input (impl st)) (\<lambda>i. Inr (st\<lparr>impl := i\<rparr>))
          else Inr st
      | PRNG_RUNNING \<Rightarrow> Inr (st\<lparr>prng_tasks := None\<rparr>)
      | _ \<Rightarrow> Inr st)"

definition AbortState :: "string \<Rightarrow> SecAggServerState \<Rightarrow> SecAggServerState" where
  "AbortState reason st = new_SecAggServerAbortedState reason st"

definition Abort :: "string \<Rightarrow> SecAggServerState \<Rightarrow> SecAggServerState status_or" where
  "Abort reason st =
     fcp_check (\<not> (server_IsAborted st \<or> server_IsCompletedSuccessfully st))
       (and_then (HandleAbort st) (\<lambda>st.
        and_then (BroadcastMessage (abort_message reason False) st) (\<lambda>st. Inr (AbortState reason st))))"

section \<open>Messages\<close>

text \<open>\<open>absl::StrCat\<close> of a number.\<close>

fun decimal :: "nat \<Rightarrow> string" where
  "decimal n = (if n < 10 then [char_of (48 + n)] else decimal (n div 10) @ [char_of (48 + n mod 10)])"

declare decimal.simps [simp del]

fun server_message_content_case :: "ClientToServerWrapperMessage \<Rightarrow> nat" where
  "server_message_content_case (C2S_abort _) = 1"
| "server_message_content_case (C2S_advertise_keys _) = 2"
| "server_message_content_case (C2S_share_keys_response _) = 3"
| "server_message_content_case (C2S_masked_input_response _) = 4"
| "server_message_content_case (C2S_unmasking_response _) = 5"
| "server_message_content_case C2S_NOT_SET = 0"

definition server_base_HandleMessage ::
  "nat \<Rightarrow> ClientToServerWrapperMessage \<Rightarrow> SecAggServerState \<Rightarrow> SecAggServerState status_or" where
  "server_base_HandleMessage client_id message st =
     (if message = C2S_NOT_SET
      then Inl (Status FAILED_PRECONDITION
        (''Server received a message of unknown type from client '' @ decimal client_id
           @ '' but was in state '' @ server_StateName (state_kind st)))
      else Inl (Status FAILED_PRECONDITION
        (''Server received a message of type '' @ decimal (server_message_content_case message)
           @ '' from client '' @ decimal client_id @ '' but was in state '' @ server_StateName (state_kind st))))"

text \<open>
  The four rounds check a message in the same order: an abort, a client that is not expected to
  send, a message of the wrong type, a payload that the protocol object refuses. What they do
  with the verdict of the protocol object is \<open>accept_response\<close>.
\<close>

definition accept_response ::
  "nat \<Rightarrow> ClientStatus \<Rightarrow> ClientDropReason \<Rightarrow> SecAggServerProtocolImpl status_or \<Rightarrow> SecAggServerState
    \<Rightarrow> SecAggServerState status_or" where
  "accept_response client_id status reason_code handled st =
     (case handled of
        Inl (Status _ msg) \<Rightarrow> AbortClient client_id msg reason_code True st
      | Inl e \<Rightarrow> Inl e
      | Inr i \<Rightarrow> and_then (set_status client_id status (st\<lparr>impl := i\<rparr>)) (\<lambda>st.
          Inr (st\<lparr>number_of_clients_ready_for_next_round := number_of_clients_ready_for_next_round st + 1,
                  number_of_messages_received_in_this_round := number_of_messages_received_in_this_round st + 1\<rparr>)))"

definition ServerR0_HandleMessage ::
  "nat \<Rightarrow> ClientToServerWrapperMessage \<Rightarrow> SecAggServerState \<Rightarrow> SecAggServerState status_or" where
  "ServerR0_HandleMessage client_id message st =
     (case message of
        C2S_abort _ \<Rightarrow> AbortClient client_id '''' SENT_ABORT_MESSAGE False st
      | _ \<Rightarrow> and_then (client_status (impl st) client_id) (\<lambda>status.
          if status \<noteq> READY_TO_START
          then AbortClient client_id
            ''Not expecting an AdvertiseKeys message from this client - either the client already aborted or one such message was already received.''
            ADVERTISE_KEYS_UNEXPECTED True st
          else case message of
              C2S_advertise_keys keys \<Rightarrow>
                accept_response client_id ADVERTISE_KEYS_RECEIVED INVALID_PUBLIC_KEY
                  (HandleAdvertiseKeys client_id keys (impl st)) st
            | _ \<Rightarrow> AbortClient client_id ''Message type received is different from what was expected.''
                UNEXPECTED_MESSAGE_TYPE True st))"

definition ServerR1_HandleMessage ::
  "nat \<Rightarrow> ClientToServerWrapperMessage \<Rightarrow> SecAggServerState \<Rightarrow> SecAggServerState status_or" where
  "ServerR1_HandleMessage client_id message st =
     (case message of
        C2S_abort _ \<Rightarrow> AbortClient client_id '''' SENT_ABORT_MESSAGE False st
      | _ \<Rightarrow> and_then (client_status (impl st) client_id) (\<lambda>status.
          if status \<noteq> ADVERTISE_KEYS_RECEIVED
          then AbortClient client_id
            ''Not expecting an ShareKeysResponse from this client - either the client already aborted or one such message was already received.''
            SHARE_KEYS_UNEXPECTED True st
          else case message of
              C2S_share_keys_response shares \<Rightarrow>
                accept_response client_id SHARE_KEYS_RECEIVED INVALID_SHARE_KEYS_RESPONSE
                  (HandleShareKeysResponse client_id shares (impl st)) st
            | _ \<Rightarrow> AbortClient client_id ''Message type received is different from what was expected.''
                UNEXPECTED_MESSAGE_TYPE True st))"

definition ServerR2_HandleMessage ::
  "nat \<Rightarrow> ClientToServerWrapperMessage \<Rightarrow> SecAggServerState \<Rightarrow> SecAggServerState status_or" where
  "ServerR2_HandleMessage client_id message st =
     (case message of
        C2S_abort _ \<Rightarrow> AbortClient client_id '''' SENT_ABORT_MESSAGE False st
      | _ \<Rightarrow> and_then (client_status (impl st) client_id) (\<lambda>status.
          if status \<noteq> SHARE_KEYS_RECEIVED
          then AbortClient client_id
            ''Not expecting an MaskedInputCollectionResponse from this client - either the client already aborted or one such message was already received.''
            MASKED_INPUT_UNEXPECTED True st
          else case message of
              C2S_masked_input_response vectors \<Rightarrow>
                accept_response client_id MASKED_INPUT_RESPONSE_RECEIVED INVALID_MASKED_INPUT
                  (HandleMaskedInputCollectionResponse vectors (impl st)) st
            | _ \<Rightarrow> AbortClient client_id ''Message type received is different from what was expected.''
                UNEXPECTED_MESSAGE_TYPE True st))"

definition ServerR3_HandleMessage ::
  "nat \<Rightarrow> ClientToServerWrapperMessage \<Rightarrow> SecAggServerState \<Rightarrow> SecAggServerState status_or" where
  "ServerR3_HandleMessage client_id message st =
     (case message of
        C2S_abort _ \<Rightarrow> AbortClient client_id ''Client sent abort message.'' SENT_ABORT_MESSAGE False st
      | _ \<Rightarrow> and_then (client_status (impl st) client_id) (\<lambda>status.
          if status \<noteq> MASKED_INPUT_RESPONSE_RECEIVED
          then AbortClient client_id
            ''Not expecting an UnmaskingResponse from this client - either the client already aborted or one such message was already received.''
            UNMASKING_RESPONSE_UNEXPECTED True st
          else case message of
              C2S_unmasking_response shares \<Rightarrow>
                accept_response client_id UNMASKING_RESPONSE_RECEIVED INVALID_UNMASKING_RESPONSE
                  (HandleUnmaskingResponse client_id shares (impl st)) st
            | _ \<Rightarrow> AbortClient client_id ''Message type received is different from what was expected.''
                UNEXPECTED_MESSAGE_TYPE True st))"

definition PrngRunning_HandleMessage ::
  "nat \<Rightarrow> ClientToServerWrapperMessage \<Rightarrow> SecAggServerState \<Rightarrow> SecAggServerState status_or" where
  "PrngRunning_HandleMessage client_id message st =
     (case message of
        C2S_abort _ \<Rightarrow> AbortClient client_id '''' SENT_ABORT_MESSAGE False st
      | _ \<Rightarrow> AbortClient client_id ''Non-abort message sent during PrngUnmasking step.''
          UNEXPECTED_MESSAGE_TYPE True st)"

definition server_HandleMessage ::
  "nat \<Rightarrow> ClientToServerWrapperMessage \<Rightarrow> SecAggServerState \<Rightarrow> SecAggServerState status_or" where
  "server_HandleMessage client_id message st =
     (case state_kind st of
        R0_ADVERTISE_KEYS \<Rightarrow> ServerR0_HandleMessage client_id message st
      | R1_SHARE_KEYS \<Rightarrow> ServerR1_HandleMessage client_id message st
      | R2_MASKED_INPUT_COLLECTION \<Rightarrow> ServerR2_HandleMessage client_id message st
      | R3_UNMASKING \<Rightarrow> ServerR3_HandleMessage client_id message st
      | PRNG_RUNNING \<Rightarrow> PrngRunning_HandleMessage client_id message st
      | _ \<Rightarrow> server_base_HandleMessage client_id message st)"

section \<open>Round transitions\<close>

definition too_many_aborted :: "SecAggServerState \<Rightarrow> SecAggServerState status_or" where
  "too_many_aborted st =
     (let error_string = ''Too many clients aborted.''
      in and_then (BroadcastMessage (abort_message error_string False) st) (\<lambda>st.
         and_then (if state_kind st = R2_MASKED_INPUT_COLLECTION then HandleAbort st else Inr st) (\<lambda>st.
           Inr (AbortState error_string st))))"

text \<open>The loop that aborts every living client whose status is not the given one.\<close>

definition abort_late ::
  "ClientStatus \<Rightarrow> string \<Rightarrow> ClientDropReason \<Rightarrow> nat \<Rightarrow> SecAggServerState \<Rightarrow> SecAggServerState status_or" where
  "abort_late expected reason reason_code i st =
     and_then (IsClientDead st i) (\<lambda>dead.
     and_then (client_status (impl st) i) (\<lambda>status.
       if \<not> dead \<and> status \<noteq> expected then AbortClient i reason reason_code True st else Inr st))"

definition send_share_keys_request :: "bytes \<Rightarrow> nat \<Rightarrow> SecAggServerState \<Rightarrow> SecAggServerState status_or" where
  "send_share_keys_request session_id i st =
     and_then (IsClientDead st i) (\<lambda>dead.
       if dead then Inr st
       else and_then (PrepareShareKeysRequestForClient (impl st) i) (\<lambda>pairs.
         server_Send i (S2C_share_keys_request \<lparr>pairs_of_public_keys = pairs, sec_agg_execution_logging_id = 0,
            request_session_id = session_id\<rparr>) st))"

definition R0_ProceedToNextRound :: "sha256 \<Rightarrow> SecAggServerState \<Rightarrow> SecAggServerState status_or" where
  "R0_ProceedToNextRound sha256 st =
     (if \<not> ReadyForNextRound st then Inl (Status UNAVAILABLE '''')
      else if needs_to_abort st then too_many_aborted st
      else
        and_then (fold_status (abort_late ADVERTISE_KEYS_RECEIVED
            ''Client did not send AdvertiseKeys message before round transition.'' NO_ADVERTISE_KEYS)
          [0..<total_number_of_clients (impl st)] st) (\<lambda>st.
        and_then (impl_ComputeSessionId sha256 (impl st)) (\<lambda>i.
        and_then (case impl_session_id i of None \<Rightarrow> Inl CheckFailed | Some sid \<Rightarrow> Inr sid) (\<lambda>sid.
        and_then (InitializeShareKeysRequest i) (\<lambda>_.
        and_then (fold_status (send_share_keys_request sid) [0..<total_number_of_clients i] (st\<lparr>impl := i\<rparr>)) (\<lambda>st.
          Inr (new_SecAggServerR1ShareKeysState (st\<lparr>impl := ClearPairsOfPublicKeys (impl st)\<rparr>))))))))"

definition R1_transition :: "nat \<Rightarrow> SecAggServerState \<Rightarrow> SecAggServerState status_or" where
  "R1_transition i st =
     and_then (IsClientDead st i) (\<lambda>dead.
     and_then (client_status (impl st) i) (\<lambda>status.
       if \<not> dead \<and> status \<noteq> SHARE_KEYS_RECEIVED
       then AbortClient i ''Client did not send ShareKeysResponse before round transition.'' NO_SHARE_KEYS True st
       else if status = SHARE_KEYS_RECEIVED
       then and_then (PrepareMaskedInputCollectionRequestForClient (impl st) i) (\<lambda>shares.
         server_Send i (S2C_masked_input_request shares) st)
       else Inr st))"

definition R1_ProceedToNextRound :: "SecAggServerState \<Rightarrow> SecAggServerState status_or" where
  "R1_ProceedToNextRound st =
     (if \<not> ReadyForNextRound st then Inl (Status UNAVAILABLE '''')
      else if needs_to_abort st then too_many_aborted st
      else
        and_then (fold_status R1_transition [0..<total_number_of_clients (impl st)] st) (\<lambda>st.
          Inr (new_SecAggServerR2MaskedInputCollState (st\<lparr>impl := ClearShareKeys (impl st)\<rparr>))))"

text \<open>The aborted neighbors of client \<open>i\<close>, as the client numbers them: from 1.\<close>

fun dead_3_client_ids :: "SecAggServerProtocolImpl \<Rightarrow> nat \<Rightarrow> nat list \<Rightarrow> uint32 list status_or" where
  "dead_3_client_ids im i [] = Inr []"
| "dead_3_client_ids im i (aborted_client # rest) =
     and_then (GetNeighborIndex (secret_sharing_graph im) (int i) (int aborted_client)) (\<lambda>neighbor_index.
     and_then (dead_3_client_ids im i rest) (\<lambda>ids.
       Inr (case neighbor_index of None \<Rightarrow> ids | Some k \<Rightarrow> of_int (k + 1) # ids)))"

definition send_unmasking_request :: "nat \<Rightarrow> SecAggServerState \<Rightarrow> SecAggServerState status_or" where
  "send_unmasking_request i st =
     and_then (IsClientDead st i) (\<lambda>dead.
       if dead then Inr st
       else and_then (dead_3_client_ids (impl st) i (clients_aborted_at_round_2 st)) (\<lambda>ids.
         server_Send i (S2C_unmasking_request ids) st))"

definition R2_ProceedToNextRound :: "SecAggServerState \<Rightarrow> SecAggServerState status_or" where
  "R2_ProceedToNextRound st =
     (if \<not> ReadyForNextRound st then Inl (Status UNAVAILABLE '''')
      else if needs_to_abort st then too_many_aborted st
      else
        and_then (fold_status (abort_late MASKED_INPUT_RESPONSE_RECEIVED
            ''Client did not send MaskedInputCollectionResponse before round transition.'' NO_MASKED_INPUT)
          [0..<total_number_of_clients (impl st)] st) (\<lambda>st.
        and_then (fold_status send_unmasking_request [0..<total_number_of_clients (impl st)] st) (\<lambda>st.
        and_then (FinalizeMaskedInputCollection (impl st)) (\<lambda>i.
          Inr (new_SecAggServerR3UnmaskingState (st\<lparr>impl := i\<rparr>))))))"

definition abort_without_unmasking :: "nat \<Rightarrow> SecAggServerState \<Rightarrow> SecAggServerState status_or" where
  "abort_without_unmasking i st =
     and_then (client_status (impl st) i) (\<lambda>status.
       if status \<noteq> UNMASKING_RESPONSE_RECEIVED
       then AbortClient i ''Client did not send unmasking response but protocol completed successfully.''
         EARLY_SUCCESS True st
       else Inr st)"

definition R3_ProceedToNextRound :: "SecAggServerState \<Rightarrow> SecAggServerState status_or" where
  "R3_ProceedToNextRound st =
     (if \<not> ReadyForNextRound st then Inl (Status UNAVAILABLE '''')
      else if needs_to_abort st then too_many_aborted st
      else and_then (fold_status abort_without_unmasking [0..<total_number_of_clients (impl st)] st) (\<lambda>st.
        Inr (new_SecAggServerPrngRunningState st)))"

definition PrngRunning_ProceedToNextRound :: "SecAggServerState \<Rightarrow> SecAggServerState status_or" where
  "PrngRunning_ProceedToNextRound st =
     (case completion_status st of
        None \<Rightarrow> Inl (Status UNAVAILABLE '''')
      | Some (Inr _) \<Rightarrow> Inr (new_SecAggServerCompletedState st)
      | Some (Inl (Status _ msg)) \<Rightarrow> Inr (AbortState msg st)
      | Some (Inl e) \<Rightarrow> Inl e)"

definition base_ProceedToNextRound :: "SecAggServerState \<Rightarrow> SecAggServerState status_or" where
  "base_ProceedToNextRound st =
     Inl (Status FAILED_PRECONDITION
       (''The server cannot proceed to next round from state '' @ server_StateName (state_kind st)))"

definition state_ProceedToNextRound :: "sha256 \<Rightarrow> SecAggServerState \<Rightarrow> SecAggServerState status_or" where
  "state_ProceedToNextRound sha256 st =
     (case state_kind st of
        R0_ADVERTISE_KEYS \<Rightarrow> R0_ProceedToNextRound sha256 st
      | R1_SHARE_KEYS \<Rightarrow> R1_ProceedToNextRound st
      | R2_MASKED_INPUT_COLLECTION \<Rightarrow> R2_ProceedToNextRound st
      | R3_UNMASKING \<Rightarrow> R3_ProceedToNextRound st
      | PRNG_RUNNING \<Rightarrow> PrngRunning_ProceedToNextRound st
      | _ \<Rightarrow> base_ProceedToNextRound st)"

section \<open>PRNG stage\<close>

definition Initialize :: "crypto \<Rightarrow> SecAggServerState \<Rightarrow> PrngWorkItems status_or" where
  "Initialize c st =
     and_then (HandleShamirReconstruction c (impl st)) (\<lambda>reconstructed. InitializePrng c reconstructed (impl st))"

definition EnterState :: "crypto \<Rightarrow> SecAggServerState \<Rightarrow> SecAggServerState status_or" where
  "EnterState c st =
     (if state_kind st \<noteq> PRNG_RUNNING then Inr st
      else case Initialize c st of
          Inl (Status code msg) \<Rightarrow> Inr (st\<lparr>completion_status := Some (Inl (Status code msg))\<rparr>)
        | Inl e \<Rightarrow> Inl e
        | Inr work_items \<Rightarrow> and_then (StartPrng work_items (impl st)) (\<lambda>(initial_value, tasks, i).
            Inr (st\<lparr>prng_tasks := Some (initial_value, tasks), impl := i\<rparr>)))"

definition PrngRunnerFinished :: "unit status_or \<Rightarrow> SecAggServerState \<Rightarrow> SecAggServerState" where
  "PrngRunnerFinished final_status st = st\<lparr>completion_status := Some final_status\<rparr>"

text \<open>
  The accumulator of \<open>StartPrng\<close> runs all its tasks, adds their results in the order
  in which they come to the sequential scheduler, and calls the observer.
\<close>

definition prng_accumulate ::
  "mask_env \<Rightarrow> SecAggServerProtocolImpl \<Rightarrow> SecAggUnpackedVectorMap \<Rightarrow> prng_task list
    \<Rightarrow> SecAggUnpackedVectorMap status_or" where
  "prng_accumulate env im initial_value order =
     fold_status (\<lambda>task so_far. and_then (prng_generator env im task) (Map_AddMaps so_far)) order initial_value"

definition prng_done :: "mask_env \<Rightarrow> prng_task list \<Rightarrow> SecAggServerState \<Rightarrow> SecAggServerState status_or" where
  "prng_done env order st =
     (case prng_tasks st of
        None \<Rightarrow> Inl Undefined
      | Some (initial_value, _) \<Rightarrow>
          and_then (prng_accumulate env (impl st) initial_value order) (\<lambda>accumulated.
          and_then (prng_observer accumulated (impl st)) (\<lambda>i.
            Inr (PrngRunnerFinished (Inr ()) (st\<lparr>prng_tasks := None, impl := i\<rparr>)))))"

section \<open>\<open>SecAggServer\<close>\<close>

definition ErrorIfAbortedOrCompleted :: "SecAggServerState \<Rightarrow> unit status_or" where
  "ErrorIfAbortedOrCompleted st =
     (if server_IsAborted st then Inl (Status FAILED_PRECONDITION
        ''The server has already aborted. The request cannot be satisfied.'')
      else if server_IsCompletedSuccessfully st then Inl (Status FAILED_PRECONDITION
        ''The server has already completed the protocol. Call getOutput() to retrieve the output.'')
      else Inr ())"

definition ValidateClientId :: "nat \<Rightarrow> SecAggServerState \<Rightarrow> unit status_or" where
  "ValidateClientId client_id st =
     (if client_id \<ge> total_number_of_clients (impl st)
      then Inl (Status FAILED_PRECONDITION
        (''Client Id '' @ decimal client_id @ '' is outside of the expected bounds - 0 to ''
           @ decimal (total_number_of_clients (impl st))))
      else Inr ())"

definition TransitionState :: "crypto \<Rightarrow> SecAggServerState \<Rightarrow> SecAggServerState status_or" where
  "TransitionState c new_state = EnterState c new_state"

definition Server_Abort :: "crypto \<Rightarrow> SecAggServerState \<Rightarrow> SecAggServerState status_or" where
  "Server_Abort c st =
     and_then (ErrorIfAbortedOrCompleted st) (\<lambda>_.
     and_then (Abort ''Abort upon external request.'' st) (TransitionState c))"

definition Server_Abort_reason :: "crypto \<Rightarrow> string \<Rightarrow> SecAggServerState \<Rightarrow> SecAggServerState status_or" where
  "Server_Abort_reason c reason st =
     and_then (ErrorIfAbortedOrCompleted st) (\<lambda>_.
     and_then (Abort (''Abort upon external request for reason <'' @ reason @ ''>.'') st) (TransitionState c))"

fun ClientAbortReason_Name :: "ClientAbortReason \<Rightarrow> string" where
  "ClientAbortReason_Name INVALID_MESSAGE = ''INVALID_MESSAGE''"
| "ClientAbortReason_Name NOT_CHECKED_IN = ''NOT_CHECKED_IN''"
| "ClientAbortReason_Name CONNECTION_DROPPED = ''CONNECTION_DROPPED''"
| "ClientAbortReason_Name OBSOLETE_VERSION = ''OBSOLETE_VERSION''"

definition MakeClientAbortMessage :: "ClientAbortReason \<Rightarrow> string" where
  "MakeClientAbortMessage reason =
     ''The protocol is closing client with ClientAbortReason <'' @ ClientAbortReason_Name reason @ ''>.''"

definition Server_AbortClient ::
  "nat \<Rightarrow> ClientAbortReason \<Rightarrow> SecAggServerState \<Rightarrow> SecAggServerState status_or" where
  "Server_AbortClient client_id reason st =
     and_then (ErrorIfAbortedOrCompleted st) (\<lambda>_.
     and_then (ValidateClientId client_id st) (\<lambda>_.
       case reason of
         INVALID_MESSAGE \<Rightarrow>
           AbortClient client_id (MakeClientAbortMessage reason) SERVER_PROTOCOL_ABORT_CLIENT True st
       | CONNECTION_DROPPED \<Rightarrow> AbortClient client_id '''' CONNECTION_CLOSED False st
       | _ \<Rightarrow> AbortClient client_id (MakeClientAbortMessage reason) SERVER_PROTOCOL_ABORT_CLIENT False st))"

definition Server_ProceedToNextRound :: "crypto \<Rightarrow> SecAggServerState \<Rightarrow> SecAggServerState status_or" where
  "Server_ProceedToNextRound c st =
     and_then (ErrorIfAbortedOrCompleted st) (\<lambda>_.
     and_then (state_ProceedToNextRound (env_sha256 c) st) (TransitionState c))"

definition Server_ReceiveMessage ::
  "nat \<Rightarrow> ClientToServerWrapperMessage \<Rightarrow> SecAggServerState \<Rightarrow> (bool \<times> SecAggServerState) status_or" where
  "Server_ReceiveMessage client_id message st =
     and_then (ErrorIfAbortedOrCompleted st) (\<lambda>_.
     and_then (ValidateClientId client_id st) (\<lambda>_.
     and_then (server_HandleMessage client_id message st) (\<lambda>st.
     and_then (ErrorIfAbortedOrCompleted st) (\<lambda>_. Inr (ReadyForNextRound st, st)))))"

definition Result :: "SecAggServerState \<Rightarrow> (SecAggVectorMap \<times> SecAggServerState) status_or" where
  "Result st =
     (if state_kind st \<noteq> COMPLETED
      then Inl (Status UNAVAILABLE (''Result requested, but server is in state '' @ server_StateName (state_kind st)))
      else let (result, i) = TakeResult (impl st)
           in case result of
                None \<Rightarrow> Inl (Status UNAVAILABLE ''Result is uninitialized or requested more than once'')
              | Some r \<Rightarrow> Inr (r, st\<lparr>impl := i\<rparr>))"

text \<open>
  \<open>SecAggServer::Create\<close>. What \<open>ComputeHararyGraphParameters\<close> finds (degree and threshold) and
  the verdict of \<open>CheckFullGraphParameters\<close>, both computed with floating point numbers, are
  arguments, as are \<open>ceil(total * (1 - dropout rate))\<close> and \<open>std::shuffle\<close>.
\<close>

record graph_choice =
  is_fullgraph_experiment :: bool
  is_force_subgraph_experiment :: bool
  computed_params :: "(int \<times> int) option"
  dropout_minimum :: int
  full_graph_check :: "int \<Rightarrow> int \<Rightarrow> unit status_or"
  std_shuffle :: "int list \<Rightarrow> int list"

definition forced_degree :: "int \<Rightarrow> int" where
  "forced_degree total_clients =
     (let degree = total_clients div 2 in if degree mod 2 = 0 then degree + 1 else degree)"

definition choose_subgraph :: "graph_choice \<Rightarrow> int \<Rightarrow> (int \<times> int) option" where
  "choose_subgraph ch total_clients =
     (if is_fullgraph_experiment ch then None
      else if is_force_subgraph_experiment ch
      then Some (forced_degree total_clients, max 2 (forced_degree total_clients div 2))
      else case computed_params ch of None \<Rightarrow> None | Some (degree, threshold) \<Rightarrow> Some (degree + 1, threshold))"

definition Create ::
  "graph_choice \<Rightarrow> bool \<Rightarrow> int \<Rightarrow> int \<Rightarrow> InputVectorSpecification list \<Rightarrow> SecAggServerState status_or" where
  "Create ch async minimum total_clients specs =
     (let minimum = max minimum (dropout_minimum ch)
      in and_then
           (case choose_subgraph ch total_clients of
              None \<Rightarrow> and_then (full_graph_check ch total_clients minimum) (\<lambda>_.
                CreateCompleteGraph total_clients minimum)
            | Some (degree, threshold) \<Rightarrow> CreateHararyGraph (std_shuffle ch) total_clients degree threshold True)
           (\<lambda>graph. Inr (new_SecAggServerR0AdvertiseKeysState
              (new_AesSecAggServerProtocolImpl graph minimum specs
                 (replicate (nat total_clients) READY_TO_START) async))))"

end
