(* ===== verification/Server_Protocol.thy ===== *)
theory Server_Protocol
  imports Server_States "HOL-Library.Multiset"
begin

text \<open>
  What the server counts. \<open>counters_ok\<close> ties every counter of \<open>SecAggServerState\<close> to the
  statuses of the clients; every call a host makes keeps it, and so does every step of the
  background tasks. The properties at the end follow: the numbers reported, the threshold
  under which no sum is released, the clients named in the unmasking requests.
\<close>

section \<open>Counting statuses\<close>

definition cnt :: "('a \<Rightarrow> bool) \<Rightarrow> 'a list \<Rightarrow> int" where
  "cnt P xs = int (length (filter P xs))"

lemma cnt_update:
  "i < length xs \<Longrightarrow> cnt P (xs[i := v]) = cnt P xs - of_bool (P (xs ! i)) + of_bool (P v)"
proof (induction xs arbitrary: i)
  case (Cons x xs)
  then show ?case by (cases i) (auto simp: cnt_def)
qed simp

lemma cnt_nonneg: "0 \<le> cnt P xs"
  by (simp add: cnt_def)

lemma cnt_complement: "cnt P xs + cnt (\<lambda>x. \<not> P x) xs = int (length xs)"
  using sum_length_filter_compl [of P xs] by (simp add: cnt_def flip: of_nat_add)

lemma cnt_mono: "list_all (\<lambda>x. P x \<longrightarrow> Q x) xs \<Longrightarrow> cnt P xs \<le> cnt Q xs"
  by (induction xs) (auto simp: cnt_def)

lemma cnt_cong: "list_all (\<lambda>x. P x = Q x) xs \<Longrightarrow> cnt P xs = cnt Q xs"
  by (induction xs) (auto simp: cnt_def)

lemma cnt_replicate: "cnt P (replicate n x) = (if P x then int n else 0)"
  by (simp add: cnt_def)

fun failed_early :: "ClientStatus \<Rightarrow> bool" where
  "failed_early DEAD_BEFORE_SENDING_ANYTHING = True"
| "failed_early DEAD_AFTER_ADVERTISE_KEYS_RECEIVED = True"
| "failed_early DEAD_AFTER_SHARE_KEYS_RECEIVED = True"
| "failed_early _ = False"

definition failed_late :: "ClientStatus \<Rightarrow> bool" where
  "failed_late s \<longleftrightarrow> s = DEAD_AFTER_MASKED_INPUT_RESPONSE_RECEIVED"

definition included :: "ClientStatus \<Rightarrow> bool" where
  "included s \<longleftrightarrow> ClientMaskType s = kSelfMask"

text \<open>The statuses a client may have in each state of the server.\<close>

fun allowed :: "SecAggServerStateKind \<Rightarrow> ClientStatus \<Rightarrow> bool" where
  "allowed R0_ADVERTISE_KEYS s \<longleftrightarrow>
     s \<in> {READY_TO_START, ADVERTISE_KEYS_RECEIVED, DEAD_BEFORE_SENDING_ANYTHING}"
| "allowed R1_SHARE_KEYS s \<longleftrightarrow>
     s \<in> {ADVERTISE_KEYS_RECEIVED, SHARE_KEYS_RECEIVED, DEAD_BEFORE_SENDING_ANYTHING,
          DEAD_AFTER_ADVERTISE_KEYS_RECEIVED}"
| "allowed R2_MASKED_INPUT_COLLECTION s \<longleftrightarrow>
     s \<in> {SHARE_KEYS_RECEIVED, MASKED_INPUT_RESPONSE_RECEIVED, DEAD_AFTER_MASKED_INPUT_RESPONSE_RECEIVED}
       \<or> failed_early s"
| "allowed R3_UNMASKING s \<longleftrightarrow> included s \<or> failed_early s"
| "allowed PRNG_RUNNING s \<longleftrightarrow> included s \<and> s \<noteq> MASKED_INPUT_RESPONSE_RECEIVED \<or> failed_early s"
| "allowed COMPLETED s \<longleftrightarrow> included s \<and> s \<noteq> MASKED_INPUT_RESPONSE_RECEIVED \<or> failed_early s"
| "allowed ABORTED s \<longleftrightarrow> True"

fun received :: "SecAggServerStateKind \<Rightarrow> ClientStatus" where
  "received R0_ADVERTISE_KEYS = ADVERTISE_KEYS_RECEIVED"
| "received R1_SHARE_KEYS = SHARE_KEYS_RECEIVED"
| "received R2_MASKED_INPUT_COLLECTION = MASKED_INPUT_RESPONSE_RECEIVED"
| "received _ = UNMASKING_RESPONSE_RECEIVED"

fun counted_ready :: "SecAggServerStateKind \<Rightarrow> ClientStatus \<Rightarrow> bool" where
  "counted_ready R0_ADVERTISE_KEYS s \<longleftrightarrow> s = ADVERTISE_KEYS_RECEIVED"
| "counted_ready R1_SHARE_KEYS s \<longleftrightarrow> s = SHARE_KEYS_RECEIVED"
| "counted_ready R2_MASKED_INPUT_COLLECTION s \<longleftrightarrow> s = MASKED_INPUT_RESPONSE_RECEIVED"
| "counted_ready R3_UNMASKING s \<longleftrightarrow>
     s = UNMASKING_RESPONSE_RECEIVED \<or> s = DEAD_AFTER_UNMASKING_RESPONSE_RECEIVED"
| "counted_ready _ s \<longleftrightarrow> False"

text \<open>What dropping a client does to its status.\<close>

definition dropped :: "SecAggServerStateKind \<Rightarrow> ClientStatus \<Rightarrow> ClientStatus" where
  "dropped kind s =
     (if is_dead s then s
      else case kind of
          R0_ADVERTISE_KEYS \<Rightarrow> DEAD_BEFORE_SENDING_ANYTHING
        | R1_SHARE_KEYS \<Rightarrow> DEAD_AFTER_ADVERTISE_KEYS_RECEIVED
        | R2_MASKED_INPUT_COLLECTION \<Rightarrow>
            if s = MASKED_INPUT_RESPONSE_RECEIVED then DEAD_AFTER_MASKED_INPUT_RESPONSE_RECEIVED
            else DEAD_AFTER_SHARE_KEYS_RECEIVED
        | R3_UNMASKING \<Rightarrow>
            if s = UNMASKING_RESPONSE_RECEIVED then DEAD_AFTER_UNMASKING_RESPONSE_RECEIVED
            else DEAD_AFTER_MASKED_INPUT_RESPONSE_RECEIVED
        | _ \<Rightarrow> DEAD_AFTER_UNMASKING_RESPONSE_RECEIVED)"

definition statuses :: "SecAggServerState \<Rightarrow> ClientStatus list" where
  "statuses st = client_statuses (impl st)"

definition positions :: "('a \<Rightarrow> bool) \<Rightarrow> 'a list \<Rightarrow> nat set" where
  "positions P xs = {i. i < length xs \<and> P (xs ! i)}"

definition counters_ok :: "SecAggServerState \<Rightarrow> bool" where
  "counters_ok st \<longleftrightarrow>
     list_all (allowed (state_kind st)) (statuses st)
   \<and> number_of_clients_failed_before_sending_masked_input st = cnt failed_early (statuses st)
   \<and> number_of_clients_failed_after_sending_masked_input st
       + number_of_clients_terminated_without_unmasking st = cnt failed_late (statuses st)
   \<and> number_of_clients_ready_for_next_round st = cnt (counted_ready (state_kind st)) (statuses st)
   \<and> (state_kind st = R2_MASKED_INPUT_COLLECTION \<longrightarrow>
        number_of_messages_received_in_this_round st = cnt included (statuses st)
      \<and> distinct (clients_aborted_at_round_2 st)
      \<and> set (clients_aborted_at_round_2 st)
          = positions (\<lambda>s. s = DEAD_AFTER_SHARE_KEYS_RECEIVED) (statuses st))
   \<and> (state_kind st = R3_UNMASKING \<longrightarrow>
        number_of_messages_received_in_this_round st = number_of_clients_ready_for_next_round st)
   \<and> (state_kind st \<in> {R1_SHARE_KEYS, R2_MASKED_INPUT_COLLECTION} \<longrightarrow> \<not> needs_to_abort st \<longrightarrow>
        minimum_to_proceed st \<le> NumberOfAliveClients st)
   \<and> (state_kind st \<in> {R3_UNMASKING, PRNG_RUNNING, COMPLETED} \<longrightarrow>
        minimum_to_proceed st \<le> cnt included (statuses st))"

section \<open>What the protocol object keeps\<close>

definition same_frame :: "SecAggServerProtocolImpl \<Rightarrow> SecAggServerProtocolImpl \<Rightarrow> bool" where
  "same_frame i j \<longleftrightarrow>
     client_statuses j = client_statuses i \<and> secret_sharing_graph j = secret_sharing_graph i
   \<and> minimum_number_of_clients_to_proceed j = minimum_number_of_clients_to_proceed i
   \<and> impl_input_vector_specs j = impl_input_vector_specs i \<and> async_round_2 j = async_round_2 i"

lemma same_frame_trans: "same_frame i j \<Longrightarrow> same_frame j k \<Longrightarrow> same_frame i k"
  by (simp add: same_frame_def)

lemma same_frame_refl [simp]: "same_frame i i"
  by (simp add: same_frame_def)

lemma HandleAdvertiseKeys_frame: "HandleAdvertiseKeys c k i = Inr j \<Longrightarrow> same_frame i j"
  by (auto simp: HandleAdvertiseKeys_def Let_def result_iffs same_frame_def)

lemma ErasePublicKeysForClient_frame: "ErasePublicKeysForClient c i = Inr j \<Longrightarrow> same_frame i j"
  by (auto simp: ErasePublicKeysForClient_def result_iffs same_frame_def)

lemma set_encrypted_share_frame: "set_encrypted_share c n d i = Inr j \<Longrightarrow> same_frame i j"
  by (auto simp: set_encrypted_share_def result_iffs same_frame_def)

lemma shares_loop_frame:
  assumes "fold_status (\<lambda>n i. set_encrypted_share c n (f n) i) ns i = Inr j"
  shows "same_frame i j"
proof (rule fold_status_invariant [where I = "same_frame i", OF assms])
  show "\<And>n s t. same_frame i s \<Longrightarrow> set_encrypted_share c n (f n) s = Inr t \<Longrightarrow> same_frame i t"
    using set_encrypted_share_frame same_frame_trans by blast
qed simp

lemma HandleShareKeysResponse_frame: "HandleShareKeysResponse c s i = Inr j \<Longrightarrow> same_frame i j"
  by (auto simp: HandleShareKeysResponse_def result_iffs dest: shares_loop_frame)

lemma EraseShareKeysForClient_frame: "EraseShareKeysForClient c i = Inr j \<Longrightarrow> same_frame i j"
  unfolding EraseShareKeysForClient_def by (rule shares_loop_frame)

lemma HandleMaskedInputCollectionResponse_frame:
  "HandleMaskedInputCollectionResponse v i = Inr j \<Longrightarrow> same_frame i j"
  by (auto simp: HandleMaskedInputCollectionResponse_def Let_def result_iffs same_frame_def)

lemma task_adds_queue_frame: "task_adds_queue k i = Inr j \<Longrightarrow> same_frame i j"
  by (auto simp: task_adds_queue_def result_iffs same_frame_def)

lemma HandleUnmaskingResponse_frame: "HandleUnmaskingResponse c s i = Inr j \<Longrightarrow> same_frame i j"
  by (auto simp: HandleUnmaskingResponse_def result_iffs same_frame_def split: option.splits prod.splits)

lemma Cancel_masked_input_frame: "Cancel_masked_input i = Inr j \<Longrightarrow> same_frame i j"
proof -
  assume "Cancel_masked_input i = Inr j"
  then obtain k where k: "fold_status (\<lambda>_. task_adds_queue 0) (taken_queues i) i = Inr k"
      and j: "j = k\<lparr>scheduled_tasks := 0\<rparr>"
    by (auto simp: Cancel_masked_input_def result_iffs)
  have "same_frame i k"
    by (rule fold_status_invariant [where I = "same_frame i", OF k])
      (auto intro: same_frame_trans task_adds_queue_frame)
  then show ?thesis by (simp add: j same_frame_def)
qed

lemma StartPrng_frame: "StartPrng w i = Inr (v, ts, j) \<Longrightarrow> same_frame i j"
  by (auto simp: StartPrng_def result_iffs same_frame_def split: option.splits)

lemma prng_observer_frame: "prng_observer v i = Inr j \<Longrightarrow> same_frame i j"
  by (auto simp: prng_observer_def SetResult_def result_iffs same_frame_def)

lemma impl_ComputeSessionId_frame: "impl_ComputeSessionId h i = Inr j \<Longrightarrow> same_frame i j"
  by (auto simp: impl_ComputeSessionId_def result_iffs same_frame_def)

lemma FinalizeMaskedInputCollection_same: "FinalizeMaskedInputCollection i = Inr j \<Longrightarrow> j = i"
  by (auto simp: FinalizeMaskedInputCollection_def result_iffs split: if_splits)

section \<open>Dropping a client\<close>

lemma set_status_Inr:
  "set_status k s st = Inr st' \<longleftrightarrow>
     k < length (statuses st) \<and> st' = st\<lparr>impl := (impl st)\<lparr>client_statuses := (statuses st)[k := s]\<rparr>\<rparr>"
  by (auto simp: set_status_def set_client_status_def update_at_def statuses_def result_iffs)

lemma client_status_Inr:
  "client_status (impl st) k = Inr s \<longleftrightarrow> k < length (statuses st) \<and> s = statuses st ! k"
  by (auto simp: client_status_def at_index_def statuses_def)

lemma IsClientDead_Inr:
  "IsClientDead st k = Inr b \<longleftrightarrow> k < length (statuses st) \<and> b = is_dead (statuses st ! k)"
  by (auto simp: IsClientDead_def result_iffs client_status_Inr)

lemma Send_Inr:
  "server_Send k m st = Inr st' \<longleftrightarrow>
     m \<noteq> S2C_NOT_SET \<and> st' = st\<lparr>impl := (impl st)\<lparr>sender := sender (impl st) @ [(k, m)]\<rparr>\<rparr>"
  by (auto simp: server_Send_def result_iffs)

lemmas state_iffs = set_status_Inr client_status_Inr IsClientDead_Inr Send_Inr

lemma statuses_simps [simp]:
  "statuses (st\<lparr>impl := i\<rparr>) = client_statuses i"
  "statuses (st\<lparr>needs_to_abort := b\<rparr>) = statuses st"
  "statuses (st\<lparr>number_of_messages_received_in_this_round := n\<rparr>) = statuses st"
  "statuses (st\<lparr>number_of_clients_ready_for_next_round := n\<rparr>) = statuses st"
  "statuses (st\<lparr>number_of_clients_failed_after_sending_masked_input := n\<rparr>) = statuses st"
  "statuses (st\<lparr>number_of_clients_terminated_without_unmasking := n\<rparr>) = statuses st"
  "statuses (st\<lparr>completion_status := cs\<rparr>) = statuses st"
  "statuses (st\<lparr>prng_tasks := ts\<rparr>) = statuses st"
  by (simp_all add: statuses_def)

lemma positions_update:
  "i < length xs \<Longrightarrow>
     positions P (xs[i := v]) = (if P v then insert i (positions P xs) else positions P xs - {i})"
  by (auto simp: positions_def nth_list_update)

lemma counters_ok_impl:
  assumes "same_frame (impl st) i"
  shows "counters_ok (st\<lparr>impl := i\<rparr>) = counters_ok st"
  using assms
  by (simp add: counters_ok_def same_frame_def statuses_def minimum_to_proceed_def
      NumberOfAliveClients_def total_number_of_clients_def)

text \<open>The state changed by one client's status and the counters.\<close>

definition with_counts ::
  "SecAggServerProtocolImpl \<Rightarrow> nat \<Rightarrow> ClientStatus \<Rightarrow> int \<Rightarrow> int \<Rightarrow> int \<Rightarrow> int \<Rightarrow> nat list
    \<Rightarrow> SecAggServerState \<Rightarrow> SecAggServerState" where
  "with_counts i k s fb fa te re ab st =
     st\<lparr>number_of_clients_failed_before_sending_masked_input := number_of_clients_failed_before_sending_masked_input st + fb,
        number_of_clients_failed_after_sending_masked_input := number_of_clients_failed_after_sending_masked_input st + fa,
        number_of_clients_terminated_without_unmasking := number_of_clients_terminated_without_unmasking st + te,
        number_of_clients_ready_for_next_round := number_of_clients_ready_for_next_round st + re,
        clients_aborted_at_round_2 := clients_aborted_at_round_2 st @ ab,
        impl := i\<lparr>client_statuses := (client_statuses i)[k := s]\<rparr>\<rparr>"

lemma R0_HandleAbortClient_Inr:
  assumes "R0_HandleAbortClient k st = Inr st'"
  shows "\<exists>i. same_frame (impl st) i \<and> k < length (statuses st)
      \<and> st' = abort_if_too_few (with_counts i k DEAD_BEFORE_SENDING_ANYTHING 1 0 0
                (- of_bool (statuses st ! k = ADVERTISE_KEYS_RECEIVED)) [] st)"
proof (cases "statuses st ! k = ADVERTISE_KEYS_RECEIVED")
  case True
  with assms obtain i where i: "ErasePublicKeysForClient k (impl st) = Inr i" "k < length (statuses st)"
      "st' = abort_if_too_few (st\<lparr>number_of_clients_failed_before_sending_masked_input :=
           number_of_clients_failed_before_sending_masked_input st + 1,
         number_of_clients_ready_for_next_round := number_of_clients_ready_for_next_round st - 1,
         impl := i\<lparr>client_statuses := (client_statuses i)[k := DEAD_BEFORE_SENDING_ANYTHING]\<rparr>\<rparr>)"
    by (auto simp: R0_HandleAbortClient_def Let_def result_iffs state_iffs statuses_def client_status_def at_index_def)
  then show ?thesis using True ErasePublicKeysForClient_frame [OF i(1)]
    by (intro exI [of _ i]) (cases st, simp add: with_counts_def)
next
  case False
  with assms show ?thesis
    by (intro exI [of _ "impl st"], cases st)
      (auto simp: R0_HandleAbortClient_def Let_def result_iffs state_iffs statuses_def with_counts_def
        client_status_def at_index_def)
qed

lemma R1_HandleAbortClient_Inr:
  assumes "R1_HandleAbortClient k st = Inr st'"
  shows "\<exists>i. same_frame (impl st) i \<and> k < length (statuses st)
      \<and> st' = abort_if_too_few (with_counts i k DEAD_AFTER_ADVERTISE_KEYS_RECEIVED 1 0 0
                (- of_bool (statuses st ! k = SHARE_KEYS_RECEIVED)) [] st)"
proof (cases "statuses st ! k = SHARE_KEYS_RECEIVED")
  case True
  with assms obtain i where i: "EraseShareKeysForClient k (impl st) = Inr i" "k < length (statuses st)"
      "st' = abort_if_too_few (st\<lparr>number_of_clients_failed_before_sending_masked_input :=
           number_of_clients_failed_before_sending_masked_input st + 1,
         number_of_clients_ready_for_next_round := number_of_clients_ready_for_next_round st - 1,
         impl := i\<lparr>client_statuses := (client_statuses i)[k := DEAD_AFTER_ADVERTISE_KEYS_RECEIVED]\<rparr>\<rparr>)"
    by (auto simp: R1_HandleAbortClient_def Let_def result_iffs state_iffs statuses_def client_status_def at_index_def)
  then show ?thesis using True EraseShareKeysForClient_frame [OF i(1)]
    by (intro exI [of _ i]) (cases st, simp add: with_counts_def)
next
  case False
  with assms show ?thesis
    by (intro exI [of _ "impl st"], cases st)
      (auto simp: R1_HandleAbortClient_def Let_def result_iffs state_iffs statuses_def with_counts_def
        client_status_def at_index_def)
qed

lemma R2_HandleAbortClient_Inr:
  assumes "R2_HandleAbortClient k st = Inr st'"
  shows "k < length (statuses st)
      \<and> st' = abort_if_too_few
           (if statuses st ! k = MASKED_INPUT_RESPONSE_RECEIVED
            then with_counts (impl st) k DEAD_AFTER_MASKED_INPUT_RESPONSE_RECEIVED 0 1 0 (-1) [] st
            else with_counts (impl st) k DEAD_AFTER_SHARE_KEYS_RECEIVED 1 0 0 0 [k] st)"
  using assms
  by (cases st) (auto simp: R2_HandleAbortClient_def result_iffs set_status_Inr client_status_def at_index_def
      statuses_def with_counts_def split: if_splits)

lemma abort_if_too_few_simps [simp]:
  "state_kind (abort_if_too_few st) = state_kind st"
  "impl (abort_if_too_few st) = impl st"
  "statuses (abort_if_too_few st) = statuses st"
  by (simp_all add: abort_if_too_few_def statuses_def)

lemma with_counts_simps [simp]:
  "state_kind (with_counts i k s fb fa te re ab st) = state_kind st"
  "impl (with_counts i k s fb fa te re ab st) = i\<lparr>client_statuses := (client_statuses i)[k := s]\<rparr>"
  "statuses (with_counts i k s fb fa te re ab st) = (client_statuses i)[k := s]"
  by (simp_all add: with_counts_def)

lemma list_all_update: "list_all P xs \<Longrightarrow> P v \<Longrightarrow> list_all P (xs[i := v])"
  using set_update_subset_insert [of xs i v] by (auto simp: list_all_iff)

lemma abort_if_too_few_ok:
  assumes "state_kind st \<in> {R0_ADVERTISE_KEYS, R1_SHARE_KEYS, R2_MASKED_INPUT_COLLECTION}"
    and "counters_ok (st\<lparr>needs_to_abort := True\<rparr>)"
  shows "counters_ok (abort_if_too_few st)"
  using assms
  by (auto simp: counters_ok_def abort_if_too_few_def statuses_def minimum_to_proceed_def
      NumberOfAliveClients_def)

lemma frame_statuses: "same_frame (impl st) i \<Longrightarrow> client_statuses i = statuses st"
  by (simp add: same_frame_def statuses_def)

lemmas count_simps = cnt_update list_all_update positions_update frame_statuses failed_late_def included_def
  statuses_def [symmetric]

lemma drop_early_ok:
  assumes ok: "counters_ok st" and k: "k < length (statuses st)" "\<not> is_dead (statuses st ! k)"
    and frame: "same_frame (impl st) i"
  shows "state_kind st = R0_ADVERTISE_KEYS \<Longrightarrow>
      counters_ok (abort_if_too_few (with_counts i k DEAD_BEFORE_SENDING_ANYTHING 1 0 0
        (- of_bool (statuses st ! k = ADVERTISE_KEYS_RECEIVED)) [] st))"
    and "state_kind st = R1_SHARE_KEYS \<Longrightarrow>
      counters_ok (abort_if_too_few (with_counts i k DEAD_AFTER_ADVERTISE_KEYS_RECEIVED 1 0 0
        (- of_bool (statuses st ! k = SHARE_KEYS_RECEIVED)) [] st))"
proof -
  have a: "allowed (state_kind st) (statuses st ! k)"
    using ok k by (simp add: counters_ok_def list_all_length)
  show "state_kind st = R0_ADVERTISE_KEYS \<Longrightarrow>
      counters_ok (abort_if_too_few (with_counts i k DEAD_BEFORE_SENDING_ANYTHING 1 0 0
        (- of_bool (statuses st ! k = ADVERTISE_KEYS_RECEIVED)) [] st))"
    by (rule abort_if_too_few_ok) (use ok k frame a in \<open>auto simp: counters_ok_def with_counts_def count_simps\<close>)
  show "state_kind st = R1_SHARE_KEYS \<Longrightarrow>
      counters_ok (abort_if_too_few (with_counts i k DEAD_AFTER_ADVERTISE_KEYS_RECEIVED 1 0 0
        (- of_bool (statuses st ! k = SHARE_KEYS_RECEIVED)) [] st))"
    by (rule abort_if_too_few_ok) (use ok k frame a in \<open>auto simp: counters_ok_def with_counts_def count_simps\<close>)
qed

lemma drop_masked_ok:
  assumes ok: "counters_ok st" and k: "k < length (statuses st)" "\<not> is_dead (statuses st ! k)"
    and kind: "state_kind st = R2_MASKED_INPUT_COLLECTION"
  shows "statuses st ! k = MASKED_INPUT_RESPONSE_RECEIVED \<Longrightarrow> counters_ok (abort_if_too_few
      (with_counts (impl st) k DEAD_AFTER_MASKED_INPUT_RESPONSE_RECEIVED 0 1 0 (-1) [] st))"
    and "statuses st ! k \<noteq> MASKED_INPUT_RESPONSE_RECEIVED \<Longrightarrow> counters_ok (abort_if_too_few
      (with_counts (impl st) k DEAD_AFTER_SHARE_KEYS_RECEIVED 1 0 0 0 [k] st))"
proof -
  have a: "allowed (state_kind st) (statuses st ! k)"
    using ok k by (simp add: counters_ok_def list_all_length)
  have new: "k \<notin> positions (\<lambda>s. s = DEAD_AFTER_SHARE_KEYS_RECEIVED) (statuses st)"
    using k by (auto simp: positions_def)
  have shared: "statuses st ! k \<noteq> MASKED_INPUT_RESPONSE_RECEIVED \<Longrightarrow> statuses st ! k = SHARE_KEYS_RECEIVED"
    using a k kind by (cases "statuses st ! k") auto
  show "statuses st ! k = MASKED_INPUT_RESPONSE_RECEIVED \<Longrightarrow> counters_ok (abort_if_too_few
      (with_counts (impl st) k DEAD_AFTER_MASKED_INPUT_RESPONSE_RECEIVED 0 1 0 (-1) [] st))"
    by (rule abort_if_too_few_ok) (use ok k kind a new in \<open>simp_all add: counters_ok_def with_counts_def count_simps\<close>)
  show "statuses st ! k \<noteq> MASKED_INPUT_RESPONSE_RECEIVED \<Longrightarrow> counters_ok (abort_if_too_few
      (with_counts (impl st) k DEAD_AFTER_SHARE_KEYS_RECEIVED 1 0 0 0 [k] st))"
    by (rule abort_if_too_few_ok) (use ok k kind new shared in \<open>simp_all add: counters_ok_def with_counts_def count_simps\<close>)
qed

lemma R3_HandleAbortClient_ok:
  assumes run: "R3_HandleAbortClient k code st = Inr st'" and ok: "counters_ok st"
    and kind: "state_kind st = R3_UNMASKING" and alive: "\<not> is_dead (statuses st ! k)"
  shows "counters_ok st' \<and> k < length (statuses st)
      \<and> statuses st' = (statuses st)[k := dropped R3_UNMASKING (statuses st ! k)]
      \<and> impl st' = (impl st)\<lparr>client_statuses := statuses st'\<rparr> \<and> state_kind st' = R3_UNMASKING"
proof -
  have k: "k < length (statuses st)"
    using run by (auto simp: R3_HandleAbortClient_def result_iffs state_iffs)
  have a: "allowed R3_UNMASKING (statuses st ! k)"
    using ok k kind by (simp add: counters_ok_def list_all_length)
  show ?thesis
  proof (cases "statuses st ! k = UNMASKING_RESPONSE_RECEIVED")
    case True
    then have "st' = st\<lparr>impl := (impl st)\<lparr>client_statuses :=
        (statuses st)[k := DEAD_AFTER_UNMASKING_RESPONSE_RECEIVED]\<rparr>\<rparr>"
      using run by (auto simp: R3_HandleAbortClient_def result_iffs state_iffs)
    then show ?thesis using ok k kind True
      by (simp add: counters_ok_def count_simps dropped_def minimum_to_proceed_def)
  next
    case False
    then have m: "statuses st ! k = MASKED_INPUT_RESPONSE_RECEIVED"
      using a alive by (cases "statuses st ! k") (auto simp: included_def)
    obtain st1 where st1: "st1 = (if code = EARLY_SUCCESS
        then st\<lparr>number_of_clients_terminated_without_unmasking :=
                 number_of_clients_terminated_without_unmasking st + 1\<rparr>
        else st\<lparr>number_of_clients_failed_after_sending_masked_input :=
                 number_of_clients_failed_after_sending_masked_input st + 1\<rparr>)"
      by blast
    define st2 where "st2 = st1\<lparr>impl := (impl st)\<lparr>client_statuses :=
        (statuses st)[k := DEAD_AFTER_MASKED_INPUT_RESPONSE_RECEIVED]\<rparr>\<rparr>"
    have "st' = st2 \<or> st' = st2\<lparr>needs_to_abort := True\<rparr>"
      using run False
      by (auto simp: R3_HandleAbortClient_def Let_def result_iffs state_iffs st1 st2_def statuses_def split: if_splits)
    moreover have "counters_ok st2 \<and> counters_ok (st2\<lparr>needs_to_abort := True\<rparr>)"
      using ok k kind m unfolding st2_def st1
      by (simp add: counters_ok_def count_simps minimum_to_proceed_def)
    ultimately show ?thesis
      using k kind m by (auto simp: st2_def st1 dropped_def)
  qed
qed

definition same_setup :: "SecAggServerProtocolImpl \<Rightarrow> SecAggServerProtocolImpl \<Rightarrow> bool" where
  "same_setup i j \<longleftrightarrow>
     secret_sharing_graph j = secret_sharing_graph i
   \<and> minimum_number_of_clients_to_proceed j = minimum_number_of_clients_to_proceed i
   \<and> impl_input_vector_specs j = impl_input_vector_specs i \<and> async_round_2 j = async_round_2 i"

lemma same_setup_frame: "same_frame i j \<Longrightarrow> same_setup i j"
  by (simp add: same_frame_def same_setup_def)

lemma same_setup_trans: "same_setup i j \<Longrightarrow> same_setup j k \<Longrightarrow> same_setup i k"
  by (simp add: same_setup_def)

lemma same_setup_refl [simp]: "same_setup i i"
  by (simp add: same_setup_def)

lemma same_setup_statuses [simp]: "same_setup i (j\<lparr>client_statuses := s\<rparr>) = same_setup i j"
  by (simp add: same_setup_def)

text \<open>What a call does to the state, as far as the counters see it.\<close>

definition moves :: "SecAggServerState \<Rightarrow> (ClientStatus list \<Rightarrow> ClientStatus list) \<Rightarrow> SecAggServerState \<Rightarrow> bool" where
  "moves st f st' \<longleftrightarrow>
     counters_ok st' \<and> statuses st' = f (statuses st) \<and> state_kind st' = state_kind st
   \<and> same_setup (impl st) (impl st')"

definition drop_client :: "SecAggServerStateKind \<Rightarrow> nat \<Rightarrow> ClientStatus list \<Rightarrow> ClientStatus list" where
  "drop_client kind k ss = ss[k := dropped kind (ss ! k)]"

lemma HandleAbortClient_moves:
  assumes run: "HandleAbortClient k code st = Inr st'" and ok: "counters_ok st"
    and alive: "\<not> is_dead (statuses st ! k)"
    and live: "state_kind st \<noteq> ABORTED" "state_kind st \<noteq> COMPLETED"
  shows "moves st (drop_client (state_kind st) k) st' \<and> k < length (statuses st)"
proof (cases "state_kind st")
  case R0_ADVERTISE_KEYS
  with run have "R0_HandleAbortClient k st = Inr st'" by (simp add: HandleAbortClient_def)
  then obtain i where i: "same_frame (impl st) i" "k < length (statuses st)"
      "st' = abort_if_too_few (with_counts i k DEAD_BEFORE_SENDING_ANYTHING 1 0 0
                (- of_bool (statuses st ! k = ADVERTISE_KEYS_RECEIVED)) [] st)"
    using R0_HandleAbortClient_Inr by blast
  then show ?thesis
    using drop_early_ok(1) [OF ok i(2) alive i(1) R0_ADVERTISE_KEYS] alive R0_ADVERTISE_KEYS
    by (simp add: moves_def drop_client_def dropped_def same_setup_frame frame_statuses)
next
  case R1_SHARE_KEYS
  with run have "R1_HandleAbortClient k st = Inr st'" by (simp add: HandleAbortClient_def)
  then obtain i where i: "same_frame (impl st) i" "k < length (statuses st)"
      "st' = abort_if_too_few (with_counts i k DEAD_AFTER_ADVERTISE_KEYS_RECEIVED 1 0 0
                (- of_bool (statuses st ! k = SHARE_KEYS_RECEIVED)) [] st)"
    using R1_HandleAbortClient_Inr by blast
  then show ?thesis
    using drop_early_ok(2) [OF ok i(2) alive i(1) R1_SHARE_KEYS] alive R1_SHARE_KEYS
    by (simp add: moves_def drop_client_def dropped_def same_setup_frame frame_statuses)
next
  case R2_MASKED_INPUT_COLLECTION
  with run have "R2_HandleAbortClient k st = Inr st'" by (simp add: HandleAbortClient_def)
  note r = R2_HandleAbortClient_Inr [OF this]
  then show ?thesis
    using drop_masked_ok [OF ok _ alive R2_MASKED_INPUT_COLLECTION] alive R2_MASKED_INPUT_COLLECTION
    by (simp add: moves_def drop_client_def dropped_def flip: statuses_def)
next
  case R3_UNMASKING
  with run have "R3_HandleAbortClient k code st = Inr st'" by (simp add: HandleAbortClient_def)
  from R3_HandleAbortClient_ok [OF this ok R3_UNMASKING alive] show ?thesis
    using R3_UNMASKING by (simp add: moves_def drop_client_def)
next
  case PRNG_RUNNING
  have st': "k < length (statuses st)" "st' = st\<lparr>impl := (impl st)\<lparr>client_statuses :=
      (statuses st)[k := DEAD_AFTER_UNMASKING_RESPONSE_RECEIVED]\<rparr>\<rparr>"
    using run PRNG_RUNNING by (auto simp: HandleAbortClient_def state_iffs)
  have a: "allowed PRNG_RUNNING (statuses st ! k)"
    using ok st'(1) PRNG_RUNNING by (simp add: counters_ok_def list_all_length)
  then have "statuses st ! k = UNMASKING_RESPONSE_RECEIVED"
    using alive by (cases "statuses st ! k") (auto simp: included_def)
  then show ?thesis using ok st' PRNG_RUNNING
    by (simp add: moves_def drop_client_def dropped_def counters_ok_def count_simps minimum_to_proceed_def)
qed (use live in simp_all)

lemma moves_Send:
  assumes "server_Send k m st1 = Inr st2" and "moves st f st1"
  shows "moves st f st2"
  using assms
  by (auto simp: moves_def state_iffs same_setup_def statuses_def counters_ok_impl same_frame_def)

lemma AbortClient_moves:
  assumes run: "AbortClient k reason code notify st = Inr st'" and ok: "counters_ok st"
  shows "moves st (drop_client (state_kind st) k) st' \<and> k < length (statuses st)"
proof -
  have live: "state_kind st \<noteq> ABORTED" "state_kind st \<noteq> COMPLETED"
    using run by (auto simp: AbortClient_def result_iffs server_IsAborted_def server_IsCompletedSuccessfully_def)
  have k: "k < length (statuses st)"
    using run by (auto simp: AbortClient_def result_iffs state_iffs)
  show ?thesis
  proof (cases "is_dead (statuses st ! k)")
    case True
    then have "st' = st" using run by (auto simp: AbortClient_def result_iffs state_iffs)
    then show ?thesis using ok k True by (simp add: moves_def drop_client_def dropped_def)
  next
    case False
    then obtain st1 where st1: "HandleAbortClient k code st = Inr st1"
        "st' = st1 \<or> (\<exists>m. server_Send k m st1 = Inr st')"
      using run by (auto simp: AbortClient_def result_iffs state_iffs split: if_splits)
    have "moves st (drop_client (state_kind st) k) st1"
      using HandleAbortClient_moves [OF st1(1) ok False live] by simp
    then show ?thesis using st1(2) k moves_Send by blast
  qed
qed

section \<open>A message arrives\<close>

fun expected :: "SecAggServerStateKind \<Rightarrow> ClientStatus option" where
  "expected R0_ADVERTISE_KEYS = Some READY_TO_START"
| "expected R1_SHARE_KEYS = Some ADVERTISE_KEYS_RECEIVED"
| "expected R2_MASKED_INPUT_COLLECTION = Some SHARE_KEYS_RECEIVED"
| "expected R3_UNMASKING = Some MASKED_INPUT_RESPONSE_RECEIVED"
| "expected _ = None"

definition accept_client :: "SecAggServerStateKind \<Rightarrow> nat \<Rightarrow> ClientStatus list \<Rightarrow> ClientStatus list" where
  "accept_client kind k ss = ss[k := received kind]"

lemma received_ok:
  assumes ok: "counters_ok st" and k: "k < length (statuses st)"
    and e: "expected (state_kind st) = Some (statuses st ! k)"
    and frame: "same_frame (impl st) i"
  shows "counters_ok (st\<lparr>impl := i\<lparr>client_statuses := (statuses st)[k := received (state_kind st)]\<rparr>,
      number_of_clients_ready_for_next_round := number_of_clients_ready_for_next_round st + 1,
      number_of_messages_received_in_this_round := number_of_messages_received_in_this_round st + 1\<rparr>)"
proof -
  have same: "minimum_number_of_clients_to_proceed i = minimum_number_of_clients_to_proceed (impl st)"
    using frame by (simp add: same_frame_def)
  have new: "positions (\<lambda>s. s = DEAD_AFTER_SHARE_KEYS_RECEIVED) (statuses st) - {k}
      = positions (\<lambda>s. s = DEAD_AFTER_SHARE_KEYS_RECEIVED) (statuses st)"
    using e by (cases "state_kind st") (auto simp: positions_def)
  show ?thesis
    using ok k e same new
    by (cases "state_kind st")
      (simp_all add: counters_ok_def count_simps minimum_to_proceed_def NumberOfAliveClients_def
        total_number_of_clients_def, (intro impI, elim conjE, drule (1) mp, linarith)+)
qed

lemma accept_response_moves:
  assumes run: "accept_response k (received (state_kind st)) code handled st = Inr st'"
    and ok: "counters_ok st" and k: "k < length (statuses st)"
    and e: "expected (state_kind st) = Some (statuses st ! k)"
    and frame: "\<And>i. handled = Inr i \<Longrightarrow> same_frame (impl st) i"
  shows "moves st (drop_client (state_kind st) k) st' \<or> moves st (accept_client (state_kind st) k) st'"
proof (cases handled)
  case (Inl err)
  with run obtain msg where "AbortClient k msg code True st = Inr st'"
    by (cases err) (auto simp: accept_response_def)
  then show ?thesis using AbortClient_moves [OF _ ok] by blast
next
  case (Inr i)
  with frame have f: "same_frame (impl st) i" by blast
  have st': "st' = st\<lparr>impl := i\<lparr>client_statuses := (statuses st)[k := received (state_kind st)]\<rparr>,
      number_of_clients_ready_for_next_round := number_of_clients_ready_for_next_round st + 1,
      number_of_messages_received_in_this_round := number_of_messages_received_in_this_round st + 1\<rparr>"
    using run Inr f by (auto simp: accept_response_def result_iffs state_iffs frame_statuses)
  show ?thesis
    using received_ok [OF ok k e f] f
    unfolding st' by (simp add: moves_def accept_client_def same_setup_frame)
qed

text \<open>The outcome of a message: the client is dropped, or its response is accepted.\<close>

definition message_outcome :: "nat \<Rightarrow> SecAggServerState \<Rightarrow> SecAggServerState \<Rightarrow> bool" where
  "message_outcome k st st' \<longleftrightarrow>
     moves st (drop_client (state_kind st) k) st'
   \<or> expected (state_kind st) = Some (statuses st ! k) \<and> moves st (accept_client (state_kind st) k) st'"

lemma dropped_outcome:
  "AbortClient k reason code notify st = Inr st' \<Longrightarrow> counters_ok st \<Longrightarrow> message_outcome k st st'"
  using AbortClient_moves by (auto simp: message_outcome_def)

lemma R0_HandleMessage_outcome:
  assumes "ServerR0_HandleMessage k m st = Inr st'" "counters_ok st" "state_kind st = R0_ADVERTISE_KEYS"
  shows "message_outcome k st st'"
proof (cases "\<exists>keys. m = C2S_advertise_keys keys \<and> expected (state_kind st) = Some (statuses st ! k)")
  case True
  with assms obtain keys where "k < length (statuses st)"
      "accept_response k (received (state_kind st)) INVALID_PUBLIC_KEY (HandleAdvertiseKeys k keys (impl st)) st = Inr st'"
    by (auto simp: ServerR0_HandleMessage_def result_iffs state_iffs)
  with True assms(2) show ?thesis
    using accept_response_moves HandleAdvertiseKeys_frame by (auto simp: message_outcome_def)
next
  case False
  with assms have "\<exists>reason code notify. AbortClient k reason code notify st = Inr st'"
    by (auto simp: ServerR0_HandleMessage_def result_iffs state_iffs split: ClientToServerWrapperMessage.splits)
  then show ?thesis using assms(2) dropped_outcome by blast
qed

lemma R1_HandleMessage_outcome:
  assumes "ServerR1_HandleMessage k m st = Inr st'" "counters_ok st" "state_kind st = R1_SHARE_KEYS"
  shows "message_outcome k st st'"
proof (cases "\<exists>s. m = C2S_share_keys_response s \<and> expected (state_kind st) = Some (statuses st ! k)")
  case True
  with assms obtain s where "k < length (statuses st)"
      "accept_response k (received (state_kind st)) INVALID_SHARE_KEYS_RESPONSE
         (HandleShareKeysResponse k s (impl st)) st = Inr st'"
    by (auto simp: ServerR1_HandleMessage_def result_iffs state_iffs)
  with True assms(2) show ?thesis
    using accept_response_moves HandleShareKeysResponse_frame by (auto simp: message_outcome_def)
next
  case False
  with assms have "\<exists>reason code notify. AbortClient k reason code notify st = Inr st'"
    by (auto simp: ServerR1_HandleMessage_def result_iffs state_iffs split: ClientToServerWrapperMessage.splits)
  then show ?thesis using assms(2) dropped_outcome by blast
qed

lemma R2_HandleMessage_outcome:
  assumes "ServerR2_HandleMessage k m st = Inr st'" "counters_ok st" "state_kind st = R2_MASKED_INPUT_COLLECTION"
  shows "message_outcome k st st'"
proof (cases "\<exists>v. m = C2S_masked_input_response v \<and> expected (state_kind st) = Some (statuses st ! k)")
  case True
  with assms obtain v where "k < length (statuses st)"
      "accept_response k (received (state_kind st)) INVALID_MASKED_INPUT
         (HandleMaskedInputCollectionResponse v (impl st)) st = Inr st'"
    by (auto simp: ServerR2_HandleMessage_def result_iffs state_iffs)
  with True assms(2) show ?thesis
    using accept_response_moves HandleMaskedInputCollectionResponse_frame by (auto simp: message_outcome_def)
next
  case False
  with assms have "\<exists>reason code notify. AbortClient k reason code notify st = Inr st'"
    by (auto simp: ServerR2_HandleMessage_def result_iffs state_iffs split: ClientToServerWrapperMessage.splits)
  then show ?thesis using assms(2) dropped_outcome by blast
qed

lemma R3_HandleMessage_outcome:
  assumes "ServerR3_HandleMessage k m st = Inr st'" "counters_ok st" "state_kind st = R3_UNMASKING"
  shows "message_outcome k st st'"
proof (cases "\<exists>s. m = C2S_unmasking_response s \<and> expected (state_kind st) = Some (statuses st ! k)")
  case True
  with assms obtain s where "k < length (statuses st)"
      "accept_response k (received (state_kind st)) INVALID_UNMASKING_RESPONSE
         (HandleUnmaskingResponse k s (impl st)) st = Inr st'"
    by (auto simp: ServerR3_HandleMessage_def result_iffs state_iffs)
  with True assms(2) show ?thesis
    using accept_response_moves HandleUnmaskingResponse_frame by (auto simp: message_outcome_def)
next
  case False
  with assms have "\<exists>reason code notify. AbortClient k reason code notify st = Inr st'"
    by (auto simp: ServerR3_HandleMessage_def result_iffs state_iffs split: ClientToServerWrapperMessage.splits)
  then show ?thesis using assms(2) dropped_outcome by blast
qed

lemma HandleMessage_outcome:
  assumes "server_HandleMessage k m st = Inr st'" "counters_ok st"
  shows "message_outcome k st st'"
  using assms R0_HandleMessage_outcome R1_HandleMessage_outcome R2_HandleMessage_outcome R3_HandleMessage_outcome
    dropped_outcome
  by (cases "state_kind st")
    (auto simp: server_HandleMessage_def PrngRunning_HandleMessage_def server_base_HandleMessage_def
      split: ClientToServerWrapperMessage.splits if_splits)

section \<open>Round transitions\<close>

lemma moves_refl: "counters_ok st \<Longrightarrow> moves st (\<lambda>ss. ss) st"
  by (simp add: moves_def)

lemma moves_trans:
  "moves st f st1 \<Longrightarrow> moves st1 g st2 \<Longrightarrow> moves st (\<lambda>ss. g (f ss)) st2"
  by (auto simp: moves_def intro: same_setup_trans)

lemma fold_moves:
  assumes "fold_status step ks st = Inr st'" "counters_ok st"
    and "\<And>k s s'. k \<in> set ks \<Longrightarrow> step k s = Inr s' \<Longrightarrow> counters_ok s \<Longrightarrow> state_kind s = state_kind st
      \<Longrightarrow> moves s (\<lambda>ss. ss[k := g (ss ! k)]) s'"
  shows "moves st (\<lambda>ss. foldl (\<lambda>ss k. ss[k := g (ss ! k)]) ss ks) st'"
  using assms
proof (induction ks arbitrary: st)
  case Nil
  then show ?case by (simp add: moves_refl)
next
  case (Cons k ks)
  obtain s where s: "step k st = Inr s" "fold_status step ks s = Inr st'"
    using Cons.prems(1) by (auto simp: result_iffs)
  have m: "moves st (\<lambda>ss. ss[k := g (ss ! k)]) s"
    using Cons.prems(3) [OF _ s(1) Cons.prems(2)] by simp
  then have "counters_ok s" "state_kind s = state_kind st" by (auto simp: moves_def)
  then have "moves s (\<lambda>ss. foldl (\<lambda>ss k. ss[k := g (ss ! k)]) ss ks) st'"
    using Cons.IH [OF s(2)] Cons.prems(3) by simp
  from moves_trans [OF m this] show ?case by simp
qed

lemma foldl_update_map: "n \<le> length ss \<Longrightarrow>
    foldl (\<lambda>ss k. ss[k := g (ss ! k)]) ss [0..<n] = map g (take n ss) @ drop n ss"
proof (induction n)
  case (Suc n)
  then show ?case
    by (simp add: take_Suc_conv_app_nth list_update_append nth_append Cons_nth_drop_Suc [symmetric])
qed simp

lemma fold_all_clients:
  assumes "fold_status step [0..<total_number_of_clients (impl st)] st = Inr st'" "counters_ok st"
    and "\<And>k s s'. step k s = Inr s' \<Longrightarrow> counters_ok s \<Longrightarrow> state_kind s = state_kind st
      \<Longrightarrow> moves s (\<lambda>ss. ss[k := g (ss ! k)]) s'"
  shows "moves st (map g) st'"
  using fold_moves [OF assms(1,2), of g] assms(3)
  by (simp add: moves_def foldl_update_map total_number_of_clients_def statuses_def)

definition unless_is :: "ClientStatus \<Rightarrow> SecAggServerStateKind \<Rightarrow> ClientStatus \<Rightarrow> ClientStatus" where
  "unless_is e kind s = (if s = e then s else dropped kind s)"

lemma moves_kept:
  "moves st (\<lambda>ss. ss) st' \<Longrightarrow> g (statuses st ! k) = statuses st ! k \<Longrightarrow> moves st (\<lambda>ss. ss[k := g (ss ! k)]) st'"
  by (simp add: moves_def)

lemma unless_is_kept: "is_dead s \<or> s = e \<Longrightarrow> unless_is e kind s = s"
  by (auto simp: unless_is_def dropped_def)

lemma abort_late_moves:
  assumes "abort_late e reason code k st = Inr st'" "counters_ok st"
  shows "moves st (\<lambda>ss. ss[k := unless_is e (state_kind st) (ss ! k)]) st'"
proof (cases "is_dead (statuses st ! k) \<or> statuses st ! k = e")
  case True
  then have "st' = st" using assms by (auto simp: abort_late_def result_iffs state_iffs)
  with True assms(2) show ?thesis by (intro moves_kept) (simp_all add: moves_refl unless_is_kept)
next
  case False
  then have "AbortClient k reason code True st = Inr st'"
    using assms by (auto simp: abort_late_def result_iffs state_iffs)
  from AbortClient_moves [OF this assms(2)] False show ?thesis
    by (simp add: moves_def drop_client_def unless_is_def)
qed

lemma Send_moves_id: "server_Send k m st = Inr st' \<Longrightarrow> counters_ok st \<Longrightarrow> moves st (\<lambda>ss. ss) st'"
  by (rule moves_Send [OF _ moves_refl])

lemma update_same: "(\<lambda>ss. ss[k := ss ! k]) = (\<lambda>ss. ss)"
  by auto

lemma send_share_keys_request_moves:
  "send_share_keys_request sid k st = Inr st' \<Longrightarrow> counters_ok st \<Longrightarrow> moves st (\<lambda>ss. ss[k := ss ! k]) st'"
  unfolding update_same
  by (auto simp: send_share_keys_request_def result_iffs state_iffs(3) split: if_splits
      intro: moves_refl Send_moves_id)

lemma send_unmasking_request_moves:
  "send_unmasking_request k st = Inr st' \<Longrightarrow> counters_ok st \<Longrightarrow> moves st (\<lambda>ss. ss[k := ss ! k]) st'"
  unfolding update_same
  by (auto simp: send_unmasking_request_def result_iffs state_iffs(3) split: if_splits
      intro: moves_refl Send_moves_id)

lemma R1_transition_moves:
  assumes "R1_transition k st = Inr st'" "counters_ok st"
  shows "moves st (\<lambda>ss. ss[k := unless_is SHARE_KEYS_RECEIVED (state_kind st) (ss ! k)]) st'"
proof (cases "is_dead (statuses st ! k) \<or> statuses st ! k = SHARE_KEYS_RECEIVED")
  case True
  then have "moves st (\<lambda>ss. ss) st'" using assms
    by (auto simp: R1_transition_def result_iffs state_iffs(2,3) intro: moves_refl Send_moves_id)
  with True show ?thesis by (intro moves_kept) (simp_all add: unless_is_kept)
next
  case False
  then have "\<exists>reason code. AbortClient k reason code True st = Inr st'"
    using assms by (auto simp: R1_transition_def result_iffs state_iffs(2,3))
  then show ?thesis using AbortClient_moves [OF _ assms(2)] False
    by (auto simp: moves_def drop_client_def unless_is_def)
qed

lemma abort_without_unmasking_moves:
  assumes "abort_without_unmasking k st = Inr st'" "counters_ok st"
  shows "moves st (\<lambda>ss. ss[k := unless_is UNMASKING_RESPONSE_RECEIVED (state_kind st) (ss ! k)]) st'"
proof (cases "statuses st ! k = UNMASKING_RESPONSE_RECEIVED")
  case True
  then have "st' = st" using assms by (auto simp: abort_without_unmasking_def result_iffs state_iffs(2))
  with True assms(2) show ?thesis by (intro moves_kept) (simp_all add: moves_refl unless_is_kept)
next
  case False
  then have "\<exists>reason code. AbortClient k reason code True st = Inr st'"
    using assms by (auto simp: abort_without_unmasking_def result_iffs state_iffs(2))
  then show ?thesis using AbortClient_moves [OF _ assms(2)] False
    by (auto simp: moves_def drop_client_def unless_is_def)
qed

lemma BroadcastMessage_moves:
  assumes "BroadcastMessage m st = Inr st'" "counters_ok st"
  shows "moves st (\<lambda>ss. ss) st'"
proof -
  have run: "fold_status (\<lambda>i st. and_then (IsClientDead st i) (\<lambda>dead. if dead then Inr st else server_Send i m st))
      [0..<total_number_of_clients (impl st)] st = Inr st'"
    using assms(1) by (simp add: BroadcastMessage_def result_iffs)
  have "moves st (map (\<lambda>s. s)) st'"
    by (rule fold_all_clients [OF run assms(2)])
      (auto simp: update_same result_iffs state_iffs(3) split: if_splits intro: moves_refl Send_moves_id)
  then show ?thesis by simp
qed

lemma alive_clients:
  assumes "counters_ok st"
  shows "NumberOfAliveClients st = cnt (\<lambda>s. \<not> failed_early s \<and> \<not> failed_late s) (statuses st)"
proof -
  have "cnt failed_early ss + cnt failed_late ss + cnt (\<lambda>s. \<not> failed_early s \<and> \<not> failed_late s) ss
      = int (length ss)" for ss
  proof (induction ss)
    case (Cons s ss)
    then show ?case by (cases s) (simp_all add: cnt_def failed_late_def)
  qed (simp add: cnt_def)
  from this [of "statuses st"] show ?thesis using assms
    by (simp add: counters_ok_def NumberOfAliveClients_def total_number_of_clients_def flip: statuses_def)
qed

lemma next_state_simps [simp]:
  "state_kind (next_state kind st) = kind"
  "impl (next_state kind st) = impl st"
  "statuses (next_state kind st) = statuses st"
  "needs_to_abort (next_state kind st) = False"
  "minimum_to_proceed (next_state kind st) = minimum_to_proceed st"
  "NumberOfAliveClients (next_state kind st) = NumberOfAliveClients st"
  "completion_status (next_state kind st) = None"
  by (simp_all add: next_state_def new_SecAggServerState_def statuses_def minimum_to_proceed_def
      NumberOfAliveClients_def)

lemma next_state_ok:
  assumes "counters_ok st"
    and "list_all (\<lambda>s. allowed kind s \<and> \<not> counted_ready kind s) (statuses st)"
    and "kind = R2_MASKED_INPUT_COLLECTION \<Longrightarrow>
      list_all (\<lambda>s. \<not> included s \<and> s \<noteq> DEAD_AFTER_SHARE_KEYS_RECEIVED) (statuses st)"
    and "kind \<in> {R1_SHARE_KEYS, R2_MASKED_INPUT_COLLECTION} \<Longrightarrow> minimum_to_proceed st \<le> NumberOfAliveClients st"
    and "kind \<in> {R3_UNMASKING, PRNG_RUNNING, COMPLETED} \<Longrightarrow> minimum_to_proceed st \<le> cnt included (statuses st)"
  shows "counters_ok (next_state kind st)"
proof -
  have none: "list_all (\<lambda>s. \<not> P s) (statuses st) \<Longrightarrow> cnt P (statuses st) = 0" for P
    by (induction "statuses st") (auto simp: cnt_def list_all_iff)
  have "cnt (counted_ready kind) (statuses st) = 0"
    using assms(2) by (intro none) (simp add: list_all_iff)
  moreover have "kind = R2_MASKED_INPUT_COLLECTION \<Longrightarrow> cnt included (statuses st) = 0
      \<and> positions (\<lambda>s. s = DEAD_AFTER_SHARE_KEYS_RECEIVED) (statuses st) = {}"
    using assms(3) by (auto simp: none list_all_iff positions_def)
  ultimately show ?thesis
    using assms
    by (auto simp: counters_ok_def next_state_def new_SecAggServerState_def statuses_def list_all_iff
        minimum_to_proceed_def NumberOfAliveClients_def)
qed

lemma counters_ok_other [simp]:
  "counters_ok (st\<lparr>prng_tasks := ts\<rparr>) = counters_ok st"
  "counters_ok (st\<lparr>completion_status := cs\<rparr>) = counters_ok st"
  "counters_ok (st\<lparr>error_message := msg\<rparr>) = counters_ok st"
  by (simp_all add: counters_ok_def statuses_def minimum_to_proceed_def NumberOfAliveClients_def)

lemma HandleAbort_moves:
  assumes "HandleAbort st = Inr st'" "counters_ok st"
  shows "moves st (\<lambda>ss. ss) st'"
  using assms
  by (auto simp: moves_def HandleAbort_def counters_ok_impl result_iffs frame_statuses same_setup_frame
      split: SecAggServerStateKind.splits if_splits dest!: Cancel_masked_input_frame)

lemma AbortState_ok:
  assumes "counters_ok st"
  shows "counters_ok (AbortState reason st) \<and> statuses (AbortState reason st) = statuses st
      \<and> state_kind (AbortState reason st) = ABORTED \<and> impl (AbortState reason st) = impl st"
proof -
  have "counters_ok (next_state ABORTED st)"
    by (rule next_state_ok [OF assms]) (simp_all add: list_all_iff)
  then show ?thesis by (simp add: AbortState_def new_SecAggServerAbortedState_def statuses_def)
qed

lemma too_many_aborted_ok:
  assumes "too_many_aborted st = Inr st'" "counters_ok st"
  shows "counters_ok st' \<and> statuses st' = statuses st \<and> state_kind st' = ABORTED
      \<and> same_setup (impl st) (impl st')"
proof -
  obtain s1 s2 m reason where s: "BroadcastMessage m st = Inr s1" "s2 = s1 \<or> HandleAbort s1 = Inr s2"
      "st' = AbortState reason s2"
    using assms(1) by (auto simp: too_many_aborted_def Let_def result_iffs)
  have m1: "moves st (\<lambda>ss. ss) s1" by (rule BroadcastMessage_moves [OF s(1) assms(2)])
  then have "moves st (\<lambda>ss. ss) s2"
    using s(2) HandleAbort_moves moves_trans [OF m1, of "\<lambda>ss. ss"] by (auto simp: moves_def)
  then show ?thesis using AbortState_ok [of s2 reason] by (simp add: s(3) moves_def)
qed

lemma cnt_map_mono: "list_all (\<lambda>s. P s \<longrightarrow> Q (g s)) xs \<Longrightarrow> cnt P xs \<le> cnt Q (map g xs)"
  by (induction xs) (auto simp: cnt_def)

text \<open>A round ends well: every client has answered in time or is dropped.\<close>

lemma next_round_ok:
  assumes m: "moves st (map g) st'" and ok: "counters_ok st"
    and pw: "\<And>s. allowed (state_kind st) s \<Longrightarrow> allowed kind (g s) \<and> \<not> counted_ready kind (g s)"
    and r2: "\<And>s. kind = R2_MASKED_INPUT_COLLECTION \<Longrightarrow> allowed (state_kind st) s \<Longrightarrow>
      \<not> included (g s) \<and> g s \<noteq> DEAD_AFTER_SHARE_KEYS_RECEIVED"
    and alive: "\<And>s. kind \<in> {R1_SHARE_KEYS, R2_MASKED_INPUT_COLLECTION} \<Longrightarrow> counted_ready (state_kind st) s \<Longrightarrow>
      \<not> failed_early (g s) \<and> \<not> failed_late (g s)"
    and incl: "\<And>s. kind \<in> {R3_UNMASKING, PRNG_RUNNING, COMPLETED} \<Longrightarrow> counted_ready (state_kind st) s \<Longrightarrow>
      included (g s)"
    and enough: "minimum_to_proceed st \<le> number_of_clients_ready_for_next_round st"
  shows "counters_ok (next_state kind st')"
proof (rule next_state_ok)
  show ok': "counters_ok st'" using m by (simp add: moves_def)
  have ss: "statuses st' = map g (statuses st)" and all: "list_all (allowed (state_kind st)) (statuses st)"
    using m ok by (simp_all add: moves_def counters_ok_def)
  show "list_all (\<lambda>s. allowed kind s \<and> \<not> counted_ready kind s) (statuses st')"
    using all pw by (auto simp: ss list_all_iff)
  show "kind = R2_MASKED_INPUT_COLLECTION \<Longrightarrow>
      list_all (\<lambda>s. \<not> included s \<and> s \<noteq> DEAD_AFTER_SHARE_KEYS_RECEIVED) (statuses st')"
    using all r2 by (auto simp: ss list_all_iff)
  have ready: "minimum_to_proceed st' \<le> cnt (counted_ready (state_kind st)) (statuses st)"
    using enough ok m by (simp add: counters_ok_def moves_def same_setup_def minimum_to_proceed_def)
  show "kind \<in> {R1_SHARE_KEYS, R2_MASKED_INPUT_COLLECTION} \<Longrightarrow> minimum_to_proceed st' \<le> NumberOfAliveClients st'"
    unfolding alive_clients [OF ok'] ss
    by (rule order_trans [OF ready cnt_map_mono]) (use alive in \<open>simp add: list_all_iff\<close>)
  show "kind \<in> {R3_UNMASKING, PRNG_RUNNING, COMPLETED} \<Longrightarrow> minimum_to_proceed st' \<le> cnt included (statuses st')"
    unfolding ss by (rule order_trans [OF ready cnt_map_mono]) (use incl in \<open>simp add: list_all_iff\<close>)
qed

lemmas status_defs = unless_is_def dropped_def included_def failed_late_def

lemma R0_ProceedToNextRound_ok:
  assumes run: "R0_ProceedToNextRound h st = Inr st'" and ok: "counters_ok st"
    and kind: "state_kind st = R0_ADVERTISE_KEYS" and go: "\<not> needs_to_abort st"
  shows "counters_ok st' \<and> statuses st' = map (unless_is ADVERTISE_KEYS_RECEIVED R0_ADVERTISE_KEYS) (statuses st)
      \<and> state_kind st' = R1_SHARE_KEYS \<and> same_setup (impl st) (impl st')"
proof -
  obtain s1 i s2 reason sid where s: "fold_status (abort_late ADVERTISE_KEYS_RECEIVED reason NO_ADVERTISE_KEYS)
          [0..<total_number_of_clients (impl st)] st = Inr s1"
      "impl_ComputeSessionId h (impl s1) = Inr i"
      "fold_status (send_share_keys_request sid) [0..<total_number_of_clients i] (s1\<lparr>impl := i\<rparr>) = Inr s2"
      "st' = next_state R1_SHARE_KEYS (s2\<lparr>impl := ClearPairsOfPublicKeys (impl s2)\<rparr>)"
      "minimum_to_proceed st \<le> number_of_clients_ready_for_next_round st"
    using run go kind
    by (auto simp: R0_ProceedToNextRound_def InitializeShareKeysRequest_def ReadyForNextRound_def result_iffs new_SecAggServerR1ShareKeysState_def)
  have m1: "moves st (map (unless_is ADVERTISE_KEYS_RECEIVED R0_ADVERTISE_KEYS)) s1"
    by (rule fold_all_clients [OF s(1) ok]) (use kind abort_late_moves in force)
  have f: "same_frame (impl s1) i" by (rule impl_ComputeSessionId_frame [OF s(2)])
  have m2: "moves s1 (\<lambda>ss. ss) (s1\<lparr>impl := i\<rparr>)"
    using m1 f by (simp add: moves_def counters_ok_impl frame_statuses same_setup_frame)
  then have ok2: "counters_ok (s1\<lparr>impl := i\<rparr>)" by (simp add: moves_def)
  have m3: "moves (s1\<lparr>impl := i\<rparr>) (map (\<lambda>s. s)) s2"
    by (rule fold_all_clients [OF _ ok2]) (use s(3) send_share_keys_request_moves in auto)
  define s3 where "s3 = s2\<lparr>impl := ClearPairsOfPublicKeys (impl s2)\<rparr>"
  have m: "moves st (map (unless_is ADVERTISE_KEYS_RECEIVED R0_ADVERTISE_KEYS)) s3"
    using moves_trans [OF moves_trans [OF m1 m2] m3]
    by (simp add: moves_def s3_def counters_ok_impl same_frame_def ClearPairsOfPublicKeys_def same_setup_def
        flip: statuses_def)
  have "counters_ok (next_state R1_SHARE_KEYS s3)"
    by (rule next_round_ok [OF m ok _ _ _ _ s(5)]) (auto simp: kind status_defs)
  then show ?thesis using m kind by (simp add: s(4) s3_def [symmetric] moves_def)
qed

lemma R1_ProceedToNextRound_ok:
  assumes run: "R1_ProceedToNextRound st = Inr st'" and ok: "counters_ok st"
    and kind: "state_kind st = R1_SHARE_KEYS" and go: "\<not> needs_to_abort st"
  shows "counters_ok st' \<and> statuses st' = map (unless_is SHARE_KEYS_RECEIVED R1_SHARE_KEYS) (statuses st)
      \<and> state_kind st' = R2_MASKED_INPUT_COLLECTION \<and> same_setup (impl st) (impl st')"
proof -
  obtain s1 where s: "fold_status R1_transition [0..<total_number_of_clients (impl st)] st = Inr s1"
      "st' = new_SecAggServerR2MaskedInputCollState (s1\<lparr>impl := ClearShareKeys (impl s1)\<rparr>)"
      "minimum_to_proceed st \<le> number_of_clients_ready_for_next_round st"
    using run go kind by (auto simp: R1_ProceedToNextRound_def ReadyForNextRound_def result_iffs)
  have m1: "moves st (map (unless_is SHARE_KEYS_RECEIVED R1_SHARE_KEYS)) s1"
    by (rule fold_all_clients [OF s(1) ok]) (use kind R1_transition_moves in force)
  define s2 where "s2 = s1\<lparr>impl := SetupMaskedInputCollection (ClearShareKeys (impl s1))\<rparr>"
  have f: "same_frame (impl s1) (SetupMaskedInputCollection (ClearShareKeys (impl s1)))"
    by (simp add: same_frame_def SetupMaskedInputCollection_def ClearShareKeys_def)
  have m: "moves st (map (unless_is SHARE_KEYS_RECEIVED R1_SHARE_KEYS)) s2"
    using m1 f by (auto simp: moves_def s2_def counters_ok_impl frame_statuses intro: same_setup_trans same_setup_frame)
  have "counters_ok (next_state R2_MASKED_INPUT_COLLECTION s2)"
    by (rule next_round_ok [OF m ok _ _ _ _ s(3)]) (auto simp: kind status_defs)
  moreover have "st' = next_state R2_MASKED_INPUT_COLLECTION s2"
    by (simp add: s(2) s2_def new_SecAggServerR2MaskedInputCollState_def next_state_def new_SecAggServerState_def)
  ultimately show ?thesis using m kind by (simp add: moves_def)
qed

lemma R2_ProceedToNextRound_ok:
  assumes run: "R2_ProceedToNextRound st = Inr st'" and ok: "counters_ok st"
    and kind: "state_kind st = R2_MASKED_INPUT_COLLECTION" and go: "\<not> needs_to_abort st"
  shows "counters_ok st'
      \<and> statuses st' = map (unless_is MASKED_INPUT_RESPONSE_RECEIVED R2_MASKED_INPUT_COLLECTION) (statuses st)
      \<and> state_kind st' = R3_UNMASKING \<and> same_setup (impl st) (impl st')"
proof -
  obtain s1 s2 reason where s: "fold_status (abort_late MASKED_INPUT_RESPONSE_RECEIVED reason NO_MASKED_INPUT)
          [0..<total_number_of_clients (impl st)] st = Inr s1"
      "fold_status send_unmasking_request [0..<total_number_of_clients (impl s1)] s1 = Inr s2"
      "st' = new_SecAggServerR3UnmaskingState s2"
      "minimum_to_proceed st \<le> number_of_clients_ready_for_next_round st"
    using run go kind
    by (auto simp: R2_ProceedToNextRound_def ReadyForNextRound_def result_iffs dest: FinalizeMaskedInputCollection_same)
  let ?g = "unless_is MASKED_INPUT_RESPONSE_RECEIVED R2_MASKED_INPUT_COLLECTION"
  have m1: "moves st (map ?g) s1"
    by (rule fold_all_clients [OF s(1) ok]) (use kind abort_late_moves in force)
  then have ok1: "counters_ok s1" by (simp add: moves_def)
  have m2: "moves s1 (map (\<lambda>s. s)) s2"
    by (rule fold_all_clients [OF s(2) ok1]) (use send_unmasking_request_moves in auto)
  define s3 where "s3 = s2\<lparr>impl := SetUpShamirSharesTables (impl s2)\<rparr>"
  have f: "same_frame (impl s2) (SetUpShamirSharesTables (impl s2))"
    by (simp add: same_frame_def SetUpShamirSharesTables_def)
  have m: "moves st (map ?g) s3"
    using moves_trans [OF m1 m2] f
    by (auto simp: moves_def s3_def counters_ok_impl frame_statuses intro: same_setup_trans same_setup_frame)
  have "counters_ok (next_state R3_UNMASKING s3)"
    by (rule next_round_ok [OF m ok _ _ _ _ s(4)]) (auto simp: kind status_defs)
  moreover have "st' = next_state R3_UNMASKING s3"
    by (simp add: s(3) s3_def new_SecAggServerR3UnmaskingState_def next_state_def new_SecAggServerState_def)
  ultimately show ?thesis using m kind by (simp add: moves_def)
qed

lemma R3_ProceedToNextRound_ok:
  assumes run: "R3_ProceedToNextRound st = Inr st'" and ok: "counters_ok st"
    and kind: "state_kind st = R3_UNMASKING" and go: "\<not> needs_to_abort st"
  shows "counters_ok st'
      \<and> statuses st' = map (unless_is UNMASKING_RESPONSE_RECEIVED R3_UNMASKING) (statuses st)
      \<and> state_kind st' = PRNG_RUNNING \<and> same_setup (impl st) (impl st')"
proof -
  obtain s1 where s: "fold_status abort_without_unmasking [0..<total_number_of_clients (impl st)] st = Inr s1"
      "st' = next_state PRNG_RUNNING s1"
      "minimum_to_proceed st \<le> number_of_messages_received_in_this_round st"
    using run go kind
    by (auto simp: R3_ProceedToNextRound_def ReadyForNextRound_def result_iffs new_SecAggServerPrngRunningState_def)
  have m: "moves st (map (unless_is UNMASKING_RESPONSE_RECEIVED R3_UNMASKING)) s1"
    by (rule fold_all_clients [OF s(1) ok]) (use kind abort_without_unmasking_moves in force)
  have enough: "minimum_to_proceed st \<le> number_of_clients_ready_for_next_round st"
    using s(3) ok kind by (simp add: counters_ok_def)
  have "counters_ok (next_state PRNG_RUNNING s1)"
    by (rule next_round_ok [OF m ok _ _ _ _ enough]) (auto simp: kind status_defs)
  then show ?thesis using m kind by (simp add: s(2) moves_def)
qed

lemma EnterState_moves:
  assumes "EnterState c st = Inr st'" "counters_ok st"
  shows "moves st (\<lambda>ss. ss) st'"
proof (cases "state_kind st = PRNG_RUNNING")
  case True
  show ?thesis
  proof (cases "Initialize c st")
    case (Inl e)
    with True assms(1) have "\<exists>code msg. st' = st\<lparr>completion_status := Some (Inl (Status code msg))\<rparr>"
      by (cases e) (auto simp: EnterState_def)
    then show ?thesis using assms(2) by (auto simp: moves_def)
  next
    case (Inr w)
    with True assms(1) have "and_then (StartPrng w (impl st)) (\<lambda>(v, ts, i).
        Inr (st\<lparr>prng_tasks := Some (v, ts), impl := i\<rparr>)) = Inr st'"
      by (simp add: EnterState_def)
    then obtain v ts i where i: "StartPrng w (impl st) = Inr (v, ts, i)"
        "st' = (st\<lparr>prng_tasks := Some (v, ts)\<rparr>)\<lparr>impl := i\<rparr>"
      by (auto simp: and_then_Inr_iff)
    note f = StartPrng_frame [OF i(1)]
    have "counters_ok ((st\<lparr>prng_tasks := Some (v, ts)\<rparr>)\<lparr>impl := i\<rparr>)"
      using assms(2) f by (subst counters_ok_impl) simp_all
    then show ?thesis using f by (simp add: i(2) moves_def frame_statuses same_setup_frame)
  qed
next
  case False
  then show ?thesis using assms by (simp add: EnterState_def moves_refl)
qed

section \<open>The server as a transition system\<close>

text \<open>
  What can happen to a server: a call of the host, a critical section of a background task of
  round 2, the end of the PRNG stage with the tasks' results added in the order \<open>perm\<close>. A call
  that returns an error leaves the state as it is.
\<close>

datatype server_call =
  Receive nat ClientToServerWrapperMessage
| Proceed
| Drop nat ClientAbortReason
| AbortRequest
| AbortBecause string
| TaskTakesQueue
| TaskAddsQueue nat
| PrngDone "nat list"
| CollectResult

fun serve :: "crypto \<Rightarrow> server_call \<Rightarrow> SecAggServerState \<Rightarrow> SecAggServerState status_or" where
  "serve c (Receive k m) st = and_then (Server_ReceiveMessage k m st) (\<lambda>(_, st). Inr st)"
| "serve c Proceed st = Server_ProceedToNextRound c st"
| "serve c (Drop k reason) st = Server_AbortClient k reason st"
| "serve c AbortRequest st = Server_Abort c st"
| "serve c (AbortBecause reason) st = Server_Abort_reason c reason st"
| "serve c TaskTakesQueue st =
     (if state_kind st = R2_MASKED_INPUT_COLLECTION \<and> scheduled_tasks (impl st) > 0
      then Inr (st\<lparr>impl := task_takes_queue (impl st)\<rparr>) else Inl Undefined)"
| "serve c (TaskAddsQueue k) st =
     (if state_kind st = R2_MASKED_INPUT_COLLECTION
      then and_then (task_adds_queue k (impl st)) (\<lambda>i. Inr (st\<lparr>impl := i\<rparr>)) else Inl Undefined)"
| "serve c (PrngDone perm) st =
     (case prng_tasks st of
        Some (_, tasks) \<Rightarrow>
          if state_kind st = PRNG_RUNNING \<and> tasks \<noteq> [] \<and> sort perm = [0..<length tasks]
          then prng_done (mask_env.truncate c) (map ((!) tasks) perm) st else Inl Undefined
      | None \<Rightarrow> Inl Undefined)"
| "serve c CollectResult st = and_then (Result st) (\<lambda>(_, st). Inr st)"

inductive server_reachable :: "crypto \<Rightarrow> SecAggServerState \<Rightarrow> SecAggServerState \<Rightarrow> bool" for c st0 where
  initial: "server_reachable c st0 st0"
| step: "server_reachable c st0 st \<Longrightarrow> serve c call st = Inr st' \<Longrightarrow> server_reachable c st0 st'"

fun serve_all :: "crypto \<Rightarrow> server_call list \<Rightarrow> SecAggServerState \<Rightarrow> SecAggServerState status_or" where
  "serve_all c calls st = fold_status (serve c) calls st"

lemma serve_all_reachable:
  assumes "serve_all c calls st = Inr st'"
  shows "server_reachable c st st'"
  by (rule fold_status_invariant [where I = "server_reachable c st", OF assms [simplified]])
    (auto intro: server_reachable.intros)

text \<open>
  The specification: a state is the kind of the server's state and the statuses of the clients;
  \<open>minimum\<close> clients have to answer before a round may end.
\<close>

definition abs_server :: "SecAggServerState \<Rightarrow> SecAggServerStateKind \<times> ClientStatus list" where
  "abs_server st = (state_kind st, statuses st)"

fun live :: "SecAggServerStateKind \<Rightarrow> bool" where
  "live COMPLETED = False"
| "live ABORTED = False"
| "live _ = True"

fun successor :: "SecAggServerStateKind \<Rightarrow> SecAggServerStateKind option" where
  "successor R0_ADVERTISE_KEYS = Some R1_SHARE_KEYS"
| "successor R1_SHARE_KEYS = Some R2_MASKED_INPUT_COLLECTION"
| "successor R2_MASKED_INPUT_COLLECTION = Some R3_UNMASKING"
| "successor R3_UNMASKING = Some PRNG_RUNNING"
| "successor _ = None"

inductive spec_step ::
  "int \<Rightarrow> SecAggServerStateKind \<times> ClientStatus list \<Rightarrow> SecAggServerStateKind \<times> ClientStatus list \<Rightarrow> bool"
  for minimum where
  stutter: "spec_step minimum a a"
| drop: "live kind \<Longrightarrow> spec_step minimum (kind, ss) (kind, drop_client kind k ss)"
| accept: "expected kind = Some (ss ! k) \<Longrightarrow> spec_step minimum (kind, ss) (kind, accept_client kind k ss)"
| next_round: "successor kind = Some kind' \<Longrightarrow> minimum \<le> cnt (counted_ready kind) ss \<Longrightarrow>
    spec_step minimum (kind, ss) (kind', map (unless_is (received kind) kind) ss)"
| finish: "spec_step minimum (PRNG_RUNNING, ss) (COMPLETED, ss)"
| give_up: "live kind \<Longrightarrow> spec_step minimum (kind, ss) (ABORTED, ss)"

definition refines_step :: "SecAggServerState \<Rightarrow> SecAggServerState \<Rightarrow> bool" where
  "refines_step st st' \<longleftrightarrow>
     counters_ok st' \<and> same_setup (impl st) (impl st')
   \<and> spec_step (minimum_to_proceed st) (abs_server st) (abs_server st')"

lemma refines_stutter: "moves st (\<lambda>ss. ss) st' \<Longrightarrow> refines_step st st'"
  by (simp add: refines_step_def moves_def abs_server_def spec_step.stutter)

lemma refines_drop:
  "moves st (drop_client (state_kind st) k) st' \<Longrightarrow> live (state_kind st) \<Longrightarrow> refines_step st st'"
  by (simp add: refines_step_def moves_def abs_server_def spec_step.drop)

lemma refines_then_stutter: "refines_step st st1 \<Longrightarrow> moves st1 (\<lambda>ss. ss) st2 \<Longrightarrow> refines_step st st2"
  by (auto simp: refines_step_def moves_def abs_server_def intro: same_setup_trans)

lemma ErrorIfAbortedOrCompleted_Inr: "ErrorIfAbortedOrCompleted st = Inr u \<longleftrightarrow> live (state_kind st)"
  by (cases "state_kind st")
    (auto simp: ErrorIfAbortedOrCompleted_def server_IsAborted_def server_IsCompletedSuccessfully_def)

lemma refines_next_round:
  assumes "counters_ok st'" "statuses st' = map (unless_is (received (state_kind st)) (state_kind st)) (statuses st)"
    "successor (state_kind st) = Some (state_kind st')" "same_setup (impl st) (impl st')" "counters_ok st"
    "minimum_to_proceed st \<le> number_of_clients_ready_for_next_round st"
  shows "refines_step st st'"
  using assms spec_step.next_round
  by (auto simp: refines_step_def abs_server_def counters_ok_def)

lemma too_many_aborted_refines:
  assumes "too_many_aborted st = Inr st'" "counters_ok st" "live (state_kind st)"
  shows "refines_step st st'"
  using too_many_aborted_ok [OF assms(1,2)] assms(3)
  by (auto simp: refines_step_def abs_server_def intro: spec_step.give_up)

lemma PrngRunning_ProceedToNextRound_refines:
  assumes run: "PrngRunning_ProceedToNextRound st = Inr st'" and ok: "counters_ok st"
    and kind: "state_kind st = PRNG_RUNNING"
  shows "refines_step st st'"
proof -
  from run consider "st' = new_SecAggServerCompletedState st" | msg where "st' = AbortState msg st"
    by (auto simp: PrngRunning_ProceedToNextRound_def split: option.splits sum.splits failure.splits)
  then show ?thesis
  proof cases
    case 1
    have "counters_ok (next_state COMPLETED st)"
      by (rule next_state_ok [OF ok]) (use ok kind in \<open>auto simp: counters_ok_def list_all_iff\<close>)
    then show ?thesis using kind
      by (simp add: 1 new_SecAggServerCompletedState_def refines_step_def abs_server_def spec_step.finish)
  next
    case 2
    then show ?thesis using AbortState_ok [OF ok, of msg] kind
      by (simp add: refines_step_def abs_server_def spec_step.give_up)
  qed
qed

lemma state_ProceedToNextRound_refines:
  assumes run: "state_ProceedToNextRound h st = Inr st'" and ok: "counters_ok st" and l: "live (state_kind st)"
  shows "refines_step st st'"
proof (cases "needs_to_abort st \<and> state_kind st \<noteq> PRNG_RUNNING")
  case True
  then have "too_many_aborted st = Inr st'"
    using run l by (cases "state_kind st")
      (auto simp: state_ProceedToNextRound_def R0_ProceedToNextRound_def InitializeShareKeysRequest_def R1_ProceedToNextRound_def
        R2_ProceedToNextRound_def R3_ProceedToNextRound_def result_iffs)
  then show ?thesis using ok l by (rule too_many_aborted_refines)
next
  case False
  have enough: "minimum_to_proceed st \<le> number_of_clients_ready_for_next_round st"
    if "successor (state_kind st) \<noteq> None"
    using run False that ok by (cases "state_kind st")
      (auto simp: state_ProceedToNextRound_def R0_ProceedToNextRound_def InitializeShareKeysRequest_def R1_ProceedToNextRound_def
        R2_ProceedToNextRound_def R3_ProceedToNextRound_def result_iffs ReadyForNextRound_def counters_ok_def)
  show ?thesis
    using run False ok l enough R0_ProceedToNextRound_ok [of h st st'] R1_ProceedToNextRound_ok [of st st']
      R2_ProceedToNextRound_ok [of st st'] R3_ProceedToNextRound_ok [of st st']
      PrngRunning_ProceedToNextRound_refines [of st st'] refines_next_round [of st' st]
    by (cases "state_kind st") (simp_all add: state_ProceedToNextRound_def)
qed

lemma server_Abort_refines:
  assumes run: "and_then (Abort reason st) (TransitionState c) = Inr st'" and ok: "counters_ok st"
    and l: "live (state_kind st)"
  shows "refines_step st st'"
proof -
  obtain s1 s2 m where s: "HandleAbort st = Inr s1" "BroadcastMessage m s1 = Inr s2"
      "st' = AbortState reason s2"
    using run by (auto simp: Abort_def TransitionState_def EnterState_def result_iffs AbortState_def
        new_SecAggServerAbortedState_def)
  have m1: "moves st (\<lambda>ss. ss) s1" by (rule HandleAbort_moves [OF s(1) ok])
  then have "counters_ok s1" by (simp add: moves_def)
  from moves_trans [OF m1 BroadcastMessage_moves [OF s(2) this]] have "moves st (\<lambda>ss. ss) s2" by simp
  then show ?thesis using AbortState_ok [of s2 reason] l
    by (auto simp: s(3) moves_def refines_step_def abs_server_def intro: spec_step.give_up)
qed

lemma task_takes_queue_frame: "same_frame i (task_takes_queue i)"
  by (simp add: task_takes_queue_def TakeMaskedInputQueue_def same_frame_def)

lemma impl_moves: "same_frame (impl st) i \<Longrightarrow> counters_ok st \<Longrightarrow> moves st (\<lambda>ss. ss) (st\<lparr>impl := i\<rparr>)"
  by (simp add: moves_def counters_ok_impl frame_statuses same_setup_frame)

lemma prng_done_moves:
  assumes "prng_done env order st = Inr st'" "counters_ok st"
  shows "moves st (\<lambda>ss. ss) st'"
proof -
  obtain v i where i: "prng_observer v (impl st) = Inr i"
      "st' = (st\<lparr>impl := i\<rparr>)\<lparr>prng_tasks := None, completion_status := Some (Inr ())\<rparr>"
    using assms(1) by (auto simp: prng_done_def PrngRunnerFinished_def result_iffs)
  from impl_moves [OF prng_observer_frame [OF i(1)] assms(2)] show ?thesis
    by (simp add: i(2) moves_def)
qed

lemma Result_moves: "Result st = Inr (r, st') \<Longrightarrow> counters_ok st \<Longrightarrow> moves st (\<lambda>ss. ss) st'"
  by (auto simp: Result_def TakeResult_def result_iffs split: option.splits
      intro!: impl_moves simp: same_frame_def)

lemma ReceiveMessage_refines:
  assumes "Server_ReceiveMessage k m st = Inr (b, st')" "counters_ok st"
  shows "refines_step st st'"
proof -
  have l: "live (state_kind st)" and "server_HandleMessage k m st = Inr st'"
    using assms(1) by (auto simp: Server_ReceiveMessage_def result_iffs ErrorIfAbortedOrCompleted_Inr)
  from HandleMessage_outcome [OF this(2) assms(2)] show ?thesis
    unfolding message_outcome_def
  proof (elim disjE conjE)
    assume "moves st (drop_client (state_kind st) k) st'"
    then show ?thesis using l by (rule refines_drop)
  next
    assume "expected (state_kind st) = Some (statuses st ! k)" "moves st (accept_client (state_kind st) k) st'"
    then show ?thesis by (simp add: refines_step_def moves_def abs_server_def spec_step.accept)
  qed
qed

lemma Server_AbortClient_refines:
  assumes "Server_AbortClient k reason st = Inr st'" "counters_ok st"
  shows "refines_step st st'"
proof -
  have l: "live (state_kind st)" and "\<exists>msg code notify. AbortClient k msg code notify st = Inr st'"
    using assms(1)
    by (auto simp: Server_AbortClient_def result_iffs ErrorIfAbortedOrCompleted_Inr split: ClientAbortReason.splits)
  then show ?thesis using AbortClient_moves [OF _ assms(2)] refines_drop by blast
qed

lemma serve_refines:
  assumes run: "serve c call st = Inr st'" and ok: "counters_ok st"
  shows "refines_step st st'"
proof (cases call)
  case (Receive k m)
  with run ok show ?thesis by (auto simp: result_iffs intro: ReceiveMessage_refines)
next
  case Proceed
  with run obtain s1 where s1: "state_ProceedToNextRound (env_sha256 c) st = Inr s1" "EnterState c s1 = Inr st'"
      and l: "live (state_kind st)"
    by (auto simp: Server_ProceedToNextRound_def TransitionState_def result_iffs ErrorIfAbortedOrCompleted_Inr)
  have r: "refines_step st s1" by (rule state_ProceedToNextRound_refines [OF s1(1) ok l])
  then have "counters_ok s1" by (simp add: refines_step_def)
  from refines_then_stutter [OF r EnterState_moves [OF s1(2) this]] show ?thesis .
next
  case (Drop k reason)
  with run ok show ?thesis by (auto intro: Server_AbortClient_refines)
next
  case AbortRequest
  with run ok show ?thesis
    by (auto simp: Server_Abort_def and_then_Inr_iff [of "ErrorIfAbortedOrCompleted st"]
        ErrorIfAbortedOrCompleted_Inr intro: server_Abort_refines)
next
  case (AbortBecause reason)
  with run ok show ?thesis
    by (auto simp: Server_Abort_reason_def and_then_Inr_iff [of "ErrorIfAbortedOrCompleted st"]
        ErrorIfAbortedOrCompleted_Inr intro: server_Abort_refines)
next
  case TaskTakesQueue
  with run ok show ?thesis
    by (auto simp: result_iffs intro!: refines_stutter impl_moves task_takes_queue_frame)
next
  case (TaskAddsQueue k)
  with run ok show ?thesis
    by (auto simp: result_iffs intro!: refines_stutter impl_moves intro: task_adds_queue_frame)
next
  case (PrngDone perm)
  with run ok show ?thesis
    by (auto simp: result_iffs split: option.splits if_splits intro!: refines_stutter intro: prng_done_moves)
next
  case CollectResult
  with run ok show ?thesis by (auto simp: result_iffs intro!: refines_stutter intro: Result_moves)
qed

lemma Create_ok:
  assumes "Create ch async minimum n specs = Inr st"
  shows "counters_ok st \<and> state_kind st = R0_ADVERTISE_KEYS"
  using assms
  by (auto simp: Create_def Let_def result_iffs new_SecAggServerR0AdvertiseKeysState_def
      new_SecAggServerState_def new_AesSecAggServerProtocolImpl_def counters_ok_def statuses_def
      cnt_replicate list_all_iff failed_late_def)

lemma reachable_ok:
  assumes "server_reachable c st0 st" "Create ch async minimum n specs = Inr st0"
  shows "counters_ok st \<and> same_setup (impl st0) (impl st)"
  using assms
proof induction
  case initial
  then show ?case using Create_ok by simp
next
  case (step st call st')
  then show ?case using serve_refines [OF step.hyps(2)] by (auto simp: refines_step_def intro: same_setup_trans)
qed

lemma reachable_minimum:
  "server_reachable c st0 st \<Longrightarrow> Create ch async minimum n specs = Inr st0 \<Longrightarrow>
     minimum_to_proceed st = minimum_to_proceed st0"
  using reachable_ok by (fastforce simp: same_setup_def minimum_to_proceed_def)

lemma included_inputs:
  assumes "counters_ok st" "state_kind st \<noteq> ABORTED"
  shows "NumberOfIncludedInputs st = cnt included (statuses st)"
proof -
  have all: "list_all (allowed (state_kind st)) (statuses st)" using assms(1) by (simp add: counters_ok_def)
  have rest: "cnt included ss = int (length ss) - cnt failed_early ss"
    if "list_all (\<lambda>s. included s = (\<not> failed_early s)) ss" for ss
    using cnt_complement [of failed_early ss] cnt_cong [OF that] by simp
  have none: "cnt included ss = 0" if "list_all (\<lambda>s. \<not> included s) ss" for ss
    using that by (induction ss) (simp_all add: cnt_def)
  have eqs: "allowed kind s \<Longrightarrow> kind \<in> {R3_UNMASKING, PRNG_RUNNING, COMPLETED} \<Longrightarrow>
      included s = (\<not> failed_early s)" for kind s
    by (cases s; cases kind) (auto simp: included_def)
  have early: "allowed kind s \<Longrightarrow> kind \<in> {R0_ADVERTISE_KEYS, R1_SHARE_KEYS} \<Longrightarrow> \<not> included s" for kind s
    by (cases s; cases kind) (auto simp: included_def)
  consider "state_kind st \<in> {R0_ADVERTISE_KEYS, R1_SHARE_KEYS}" | "state_kind st = R2_MASKED_INPUT_COLLECTION"
    | "state_kind st \<in> {R3_UNMASKING, PRNG_RUNNING, COMPLETED}"
    using assms(2) by (cases "state_kind st") auto
  then show ?thesis
  proof cases
    case 1
    then have "cnt included (statuses st) = 0"
      using all early by (intro none) (auto simp: list_all_iff)
    then show ?thesis using 1 by (auto simp: NumberOfIncludedInputs_def)
  next
    case 2
    then show ?thesis using assms(1) by (simp add: NumberOfIncludedInputs_def counters_ok_def)
  next
    case 3
    then have "cnt included (statuses st) = int (length (statuses st)) - cnt failed_early (statuses st)"
      using all eqs by (intro rest) (auto simp: list_all_iff)
    then show ?thesis using 3 assms(1)
      by (auto simp: NumberOfIncludedInputs_def counters_ok_def total_number_of_clients_def simp flip: statuses_def)
  qed
qed

lemma pending_clients:
  assumes "counters_ok st"
  shows "NumberOfPendingClients st = cnt (\<lambda>s. expected (state_kind st) = Some s) (statuses st)"
proof -
  have all: "list_all (allowed (state_kind st)) (statuses st)" using assms by (simp add: counters_ok_def)
  have split: "cnt (\<lambda>s. \<not> failed_early s \<and> \<not> failed_late s) ss - cnt (counted_ready kind) ss
      = cnt (\<lambda>s. expected kind = Some s) ss"
    if "list_all (allowed kind) ss" "expected kind \<noteq> None" for ss kind
    using that
  proof (induction ss)
    case (Cons s ss)
    then show ?case
      by (cases kind; cases s) (simp_all add: cnt_def failed_late_def included_def)
  qed (simp add: cnt_def)
  show ?thesis
    using split [OF all] alive_clients [OF assms] assms
    by (cases "state_kind st") (simp_all add: NumberOfPendingClients_def counters_ok_def cnt_def)
qed

section \<open>Properties\<close>

text \<open>A server for two clients and no vectors, and the calls that take it to the end.\<close>

definition sample_choice :: graph_choice where
  "sample_choice = \<lparr>is_fullgraph_experiment = True, is_force_subgraph_experiment = False, computed_params = None,
     dropout_minimum = 1, full_graph_check = \<lambda>_ _. Inr (), std_shuffle = \<lambda>p. p\<rparr>"

definition sample_calls :: "server_call list" where
  "sample_calls =
     [Receive 0 (C2S_advertise_keys \<lparr>noise_pk = replicate 33 2, enc_pk = replicate 33 2\<rparr>),
      Receive 1 (C2S_advertise_keys \<lparr>noise_pk = replicate 33 2, enc_pk = replicate 33 2\<rparr>), Proceed,
      Receive 0 (C2S_share_keys_response [[], [7]]), Receive 1 (C2S_share_keys_response [[8], []]), Proceed,
      Receive 0 (C2S_masked_input_response []), Receive 1 (C2S_masked_input_response []), Proceed,
      Receive 0 (C2S_unmasking_response [prf_sk_share (replicate 36 0), prf_sk_share (replicate 36 0)]),
      Receive 1 (C2S_unmasking_response [prf_sk_share (replicate 36 0), prf_sk_share (replicate 36 0)]), Proceed,
      PrngDone [0], Proceed]"

lemma sample_key:
  "CreateFromShares [\<lparr>share_data = replicate 36 0\<rparr>, \<lparr>share_data = replicate 36 0\<rparr>] 2 = Inr (replicate 32 0)"
  by code_simp

lemma upt_two: "[0..<2] = [0, 1]" "[0..<Suc (Suc 0)] = [0, 1]"
  and replicate_two: "replicate 2 x = [x, x]"
  by (simp_all add: numeral_2_eq_2)

lemmas server_eval = Create_def choose_subgraph_def CreateCompleteGraph_def new_SecAggServerR0AdvertiseKeysState_def
  new_SecAggServerState_def new_AesSecAggServerProtocolImpl_def Server_ReceiveMessage_def
  ErrorIfAbortedOrCompleted_def server_IsAborted_def server_IsCompletedSuccessfully_def ValidateClientId_def
  total_number_of_clients_def server_HandleMessage_def ServerR0_HandleMessage_def ServerR1_HandleMessage_def ServerR2_HandleMessage_def
  ServerR3_HandleMessage_def client_status_def accept_response_def
  HandleAdvertiseKeys_def EcdhPublicKey_kSize_def EcdhPublicKey_kUncompressedSize_def update_at_def
  set_status_def set_client_status_def at_index_def Let_def
  Server_ProceedToNextRound_def state_ProceedToNextRound_def TransitionState_def EnterState_def
  R0_ProceedToNextRound_def InitializeShareKeysRequest_def R1_ProceedToNextRound_def R2_ProceedToNextRound_def R3_ProceedToNextRound_def
  ReadyForNextRound_def minimum_to_proceed_def abort_late_def IsClientDead_def impl_ComputeSessionId_def
  ComputeSessionId_def kSha256Length_def send_share_keys_request_def PrepareShareKeysRequestForClient_def
  impl_number_of_neighbors_def impl_GetNeighbor_def server_Send_def complete_GetNeighbor_def complete_IsValidNode_def
  new_SecAggServerR1ShareKeysState_def next_state_def ClearPairsOfPublicKeys_def
  HandleShareKeysResponse_def check_encrypted_share_def set_encrypted_share_def GetNeighborIndexOrDie_def
  complete_GetNeighborIndex_def R1_transition_def PrepareMaskedInputCollectionRequestForClient_def
  new_SecAggServerR2MaskedInputCollState_def SetupMaskedInputCollection_def ClearShareKeys_def InitializeVectorMap_def
  HandleMaskedInputCollectionResponse_def check_masked_input_def Map_Add_packed_def Add_to_map_def is_idle_def
  send_unmasking_request_def FinalizeMaskedInputCollection_def new_SecAggServerR3UnmaskingState_def
  SetUpShamirSharesTables_def share_table_for_def
  HandleUnmaskingResponse_def check_unmasking_share_def expected_share_def store_unmasking_share_def
  abort_without_unmasking_def new_SecAggServerPrngRunningState_def Initialize_def HandleShamirReconstruction_def
  reconstruct_self_def minimum_surviving_neighbors_for_reconstruction_def InitializePrng_def client_work_def
  StartPrng_def batches.simps kPrngBatchSize_def prng_done_def prng_accumulate_def prng_generator_def
  UnpackedMapOfMasks_def Map_AddMaps_def prng_observer_def SetResult_def PrngRunnerFinished_def
  PrngRunning_ProceedToNextRound_def new_SecAggServerCompletedState_def mask_env.defs upt_two replicate_two

definition sample_server :: SecAggServerState where
  "sample_server = projr (Create sample_choice False 2 2 [])"

lemma sample_server_Create: "Create sample_choice False 2 2 [] = Inr sample_server"
  by (simp add: sample_server_def server_eval sample_choice_def)

lemma sample_run:
  "\<exists>st. serve_all sample_crypto sample_calls sample_server = Inr st \<and> state_kind st = COMPLETED
     \<and> statuses st = [UNMASKING_RESPONSE_RECEIVED, UNMASKING_RESPONSE_RECEIVED]"
  by (simp add: server_eval sample_calls_def sample_crypto_def sample_server_def sample_choice_def sample_key
      statuses_def)

text \<open>
  C3. Every call that a server accepts, in any state it can reach, is a step of the specification
  \<open>spec_step\<close>: a client is dropped, a response that the round expects is accepted, a round ends after
  the minimum number of clients have answered and drops the others, the PRNG stage ends, or
  the server gives up. The four rounds, their guards and their bookkeeping implement this
  automaton and nothing else.
\<close>

theorem server_refines_spec:
  assumes "Create ch async minimum n specs = Inr st0" "server_reachable c st0 st" "serve c call st = Inr st'"
  shows "spec_step (minimum_to_proceed st0) (abs_server st) (abs_server st')"
  using serve_refines [OF assms(3)] reachable_ok [OF assms(2,1)] reachable_minimum [OF assms(2,1)]
  by (simp add: refines_step_def)

theorem server_refines_spec_witness:
  "\<exists>st'. serve sample_crypto (Drop 1 CONNECTION_DROPPED) sample_server = Inr st'
     \<and> spec_step (minimum_to_proceed sample_server) (abs_server sample_server) (abs_server st')"
proof -
  have "\<exists>st'. serve sample_crypto (Drop 1 CONNECTION_DROPPED) sample_server = Inr st'"
    by (simp add: server_eval sample_server_def sample_choice_def Server_AbortClient_def AbortClient_def
        HandleAbortClient_def R0_HandleAbortClient_def)
  then show ?thesis
    using server_refines_spec [OF sample_server_Create server_reachable.initial] by blast
qed

text \<open>
  C11. The counters of the server are exact in every reachable state. The number of clients that
  failed before sending their masked input, the clients alive, the clients pending and,
  unless the server has aborted, the included inputs are the numbers of clients with the
  statuses they stand for: the included ones are those whose self mask has to be removed.
\<close>

theorem server_counts:
  assumes "Create ch async minimum n specs = Inr st0" "server_reachable c st0 st"
  shows "number_of_clients_failed_before_sending_masked_input st = cnt failed_early (client_statuses (impl st))
    \<and> NumberOfAliveClients st
        = cnt (\<lambda>s. \<not> failed_early s \<and> s \<noteq> DEAD_AFTER_MASKED_INPUT_RESPONSE_RECEIVED) (client_statuses (impl st))
    \<and> NumberOfPendingClients st = cnt (\<lambda>s. expected (state_kind st) = Some s) (client_statuses (impl st))
    \<and> (\<not> server_IsAborted st \<longrightarrow>
         NumberOfIncludedInputs st = cnt (\<lambda>s. ClientMaskType s = kSelfMask) (client_statuses (impl st)))"
proof (intro conjI impI)
  have ok: "counters_ok st" using reachable_ok [OF assms(2,1)] by simp
  then show "number_of_clients_failed_before_sending_masked_input st = cnt failed_early (client_statuses (impl st))"
    by (simp add: counters_ok_def statuses_def)
  show "NumberOfAliveClients st
      = cnt (\<lambda>s. \<not> failed_early s \<and> s \<noteq> DEAD_AFTER_MASKED_INPUT_RESPONSE_RECEIVED) (client_statuses (impl st))"
    using alive_clients [OF ok] by (simp add: statuses_def failed_late_def)
  show "NumberOfPendingClients st = cnt (\<lambda>s. expected (state_kind st) = Some s) (client_statuses (impl st))"
    using pending_clients [OF ok] by (simp add: statuses_def)
  show "\<not> server_IsAborted st \<Longrightarrow>
      NumberOfIncludedInputs st = cnt (\<lambda>s. ClientMaskType s = kSelfMask) (client_statuses (impl st))"
    using included_inputs [OF ok] by (simp add: statuses_def server_IsAborted_def included_def [abs_def])
qed

theorem server_counts_witness:
  "\<exists>st. serve_all sample_crypto sample_calls sample_server = Inr st \<and> NumberOfIncludedInputs st = 2
     \<and> NumberOfAliveClients st = 2 \<and> NumberOfPendingClients st = 0"
proof -
  obtain st where st: "serve_all sample_crypto sample_calls sample_server = Inr st" "state_kind st = COMPLETED"
      "statuses st = [UNMASKING_RESPONSE_RECEIVED, UNMASKING_RESPONSE_RECEIVED]"
    using sample_run by blast
  note counts = server_counts [OF sample_server_Create serve_all_reachable [OF st(1)]]
  show ?thesis
    using st counts by (simp add: cnt_def server_IsAborted_def statuses_def)
qed

text \<open>
  C4. No sum of too few inputs. Once the set of included inputs is committed and until the server
  aborts, and so whenever a result can be collected, at least
  \<open>minimum_number_of_clients_to_proceed\<close> inputs are in the sum, whatever messages came and whatever
  clients were dropped.
\<close>

theorem enough_inputs:
  assumes "Create ch async minimum n specs = Inr st0" "server_reachable c st0 st"
    and "IsNumberOfIncludedInputsCommitted st" "\<not> server_IsAborted st"
  shows "max minimum (dropout_minimum ch) \<le> NumberOfIncludedInputs st"
proof -
  have ok: "counters_ok st" and m: "minimum_to_proceed st = minimum_to_proceed st0"
    using reachable_ok [OF assms(2,1)] reachable_minimum [OF assms(2,1)] by simp_all
  have "minimum_to_proceed st0 = max minimum (dropout_minimum ch)"
    using assms(1) by (auto simp: Create_def Let_def result_iffs new_SecAggServerR0AdvertiseKeysState_def
        new_SecAggServerState_def new_AesSecAggServerProtocolImpl_def minimum_to_proceed_def)
  moreover have "minimum_to_proceed st \<le> cnt included (statuses st)"
    using ok assms(3,4) by (cases "state_kind st")
      (simp_all add: counters_ok_def IsNumberOfIncludedInputsCommitted_def server_IsAborted_def)
  ultimately show ?thesis using included_inputs [OF ok] assms(4) m by (simp add: server_IsAborted_def)
qed

theorem enough_inputs_witness:
  "\<exists>st. serve_all sample_crypto sample_calls sample_server = Inr st \<and> server_IsCompletedSuccessfully st
     \<and> 2 \<le> NumberOfIncludedInputs st"
proof -
  obtain st where st: "serve_all sample_crypto sample_calls sample_server = Inr st" "state_kind st = COMPLETED"
    using sample_run by blast
  have "IsNumberOfIncludedInputsCommitted st" "\<not> server_IsAborted st"
    using st(2) by (simp_all add: IsNumberOfIncludedInputsCommitted_def server_IsAborted_def)
  from enough_inputs [OF sample_server_Create serve_all_reachable [OF st(1)] this] show ?thesis
    using st by (auto simp: server_IsCompletedSuccessfully_def)
qed

end
