(* ===== verification/Vector_Sums.thy ===== *)
theory Vector_Sums
  imports Server_Impl Mask_Sums
begin

text \<open>
  Maps of vectors as integer functions. \<open>vmap specs f\<close> is the unpacked map whose element \<open>i\<close> for
  the input vector \<open>spec\<close> is \<open>f spec i\<close> modulo the modulus, \<open>holds specs m f\<close> says the same of a packed
  map. On this representation the operations of the server on maps (adding, reducing a queue,
  generating masks, packing the result) are the addition of integers.
\<close>

type_synonym vector_function = "InputVectorSpecification \<Rightarrow> nat \<Rightarrow> int"

definition specs_ok :: "InputVectorSpecification list \<Rightarrow> bool" where
  "specs_ok specs \<longleftrightarrow> distinct (map spec_name specs) \<and> (\<forall>spec\<in>set specs. spec_ok spec)"

definition vec :: "InputVectorSpecification \<Rightarrow> vector_function \<Rightarrow> uint64 list" where
  "vec spec f = map (\<lambda>i. of_int (f spec i mod int (unat (spec_modulus spec)))) [0..<spec_length spec]"

definition vmap :: "InputVectorSpecification list \<Rightarrow> vector_function \<Rightarrow> SecAggUnpackedVectorMap" where
  "vmap specs f = map (\<lambda>spec. (spec_name spec, \<lparr>elements = vec spec f, uv_modulus = spec_modulus spec\<rparr>)) specs"

definition holds :: "InputVectorSpecification list \<Rightarrow> SecAggVectorMap \<Rightarrow> vector_function \<Rightarrow> bool" where
  "holds specs m f \<longleftrightarrow> (\<exists>pv. m = map (\<lambda>spec. (spec_name spec, pv spec)) specs
     \<and> (\<forall>spec\<in>set specs. packed_ok (pv spec) \<and> sv_modulus (pv spec) = spec_modulus spec
          \<and> sv_num_elements (pv spec) = spec_length spec \<and> packed_elements (pv spec) = vec spec f))"

section \<open>Vectors\<close>

lemma spec_modulus_pos: "spec_ok spec \<Longrightarrow> 0 < unat (spec_modulus spec)"
  by (simp add: spec_ok_def modulus_ok_unat)

lemma vec_nth:
  assumes "spec_ok spec" "i < spec_length spec"
  shows "int (unat (vec spec f ! i)) = f spec i mod int (unat (spec_modulus spec))"
  using assms unat_of_int_mod [OF spec_modulus_pos] by (simp add: vec_def del: of_nat_unat)

lemma length_vec [simp]: "length (vec spec f) = spec_length spec"
  by (simp add: vec_def)

lemma vec_less:
  assumes "spec_ok spec"
  shows "\<forall>e\<in>set (vec spec f). e < spec_modulus spec"
proof
  fix e assume "e \<in> set (vec spec f)"
  then obtain i where i: "i < spec_length spec" "e = vec spec f ! i" by (auto simp: in_set_conv_nth)
  have "int (unat e) < int (unat (spec_modulus spec))"
    unfolding i(2) vec_nth [OF assms i(1)] using spec_modulus_pos [OF assms] by (simp del: of_nat_unat)
  then show "e < spec_modulus spec" by (simp add: word_less_nat_alt del: of_nat_unat)
qed

lemma vec_eqI:
  assumes "spec_ok spec" "length es = spec_length spec"
    and "\<And>i. i < spec_length spec \<Longrightarrow> int (unat (es ! i)) = f spec i mod int (unat (spec_modulus spec))"
  shows "es = vec spec f"
proof (rule nth_equalityI)
  show "length es = length (vec spec f)" using assms(2) by simp
  fix i assume "i < length es"
  then have i: "i < spec_length spec" using assms(2) by simp
  show "es ! i = vec spec f ! i"
    using assms(3) [OF i] vec_nth [OF assms(1) i, of f] by (intro unat_eqI) (simp only: of_nat_eq_iff)
qed

lemma vec_add:
  assumes "spec_ok spec"
  shows "add_elements (spec_modulus spec) (vec spec f) (vec spec g) = vec spec (\<lambda>s i. f s i + g s i)"
proof (rule vec_eqI [OF assms])
  have m: "modulus_ok (spec_modulus spec)" using assms by (simp add: spec_ok_def)
  have len: "length (vec spec f) = length (vec spec g)" by simp
  note a = add_elements_ok [OF m len vec_less [OF assms] vec_less [OF assms]]
  show "length (add_elements (spec_modulus spec) (vec spec f) (vec spec g)) = spec_length spec" using a(1) by simp
  fix i assume i: "i < spec_length spec"
  have "unat (add_elements (spec_modulus spec) (vec spec f) (vec spec g) ! i)
      = (unat (vec spec f ! i) + unat (vec spec g ! i)) mod unat (spec_modulus spec)"
    using a(3) i by simp
  then have "int (unat (add_elements (spec_modulus spec) (vec spec f) (vec spec g) ! i))
      = (int (unat (vec spec f ! i)) + int (unat (vec spec g ! i))) mod int (unat (spec_modulus spec))"
    by (simp only: of_nat_mod of_nat_add)
  then show "int (unat (add_elements (spec_modulus spec) (vec spec f) (vec spec g) ! i))
      = (f spec i + g spec i) mod int (unat (spec_modulus spec))"
    unfolding vec_nth [OF assms i] by (simp only: mod_add_eq)
qed

text \<open>Every vector of reduced elements is a \<open>vec\<close>.\<close>

lemma vec_of_elements:
  assumes "spec_ok spec" "length es = spec_length spec" "\<forall>e\<in>set es. e < spec_modulus spec"
    and "\<And>i. f spec i = int (unat (es ! i))"
  shows "es = vec spec f"
proof (rule vec_eqI [OF assms(1,2)])
  fix i assume "i < spec_length spec"
  then have "es ! i < spec_modulus spec" using assms(2,3) by auto
  then show "int (unat (es ! i)) = f spec i mod int (unat (spec_modulus spec))"
    unfolding assms(4) by (simp add: word_less_nat_alt del: of_nat_unat flip: of_nat_mod)
qed

section \<open>Maps\<close>

lemma specs_okD: "specs_ok specs \<Longrightarrow> spec \<in> set specs \<Longrightarrow> spec_ok spec"
  by (simp add: specs_ok_def)

lemma map_of_specs:
  assumes "specs_ok specs" "spec \<in> set specs"
  shows "map_of (map (\<lambda>spec. (spec_name spec, h spec)) specs) (spec_name spec) = Some (h spec)"
  using assms by (intro map_of_is_SomeI) (auto simp: specs_ok_def o_def)

lemma emplace_specs:
  assumes "distinct (map spec_name (specs @ [spec]))"
  shows "emplace (spec_name spec) v (map (\<lambda>spec. (spec_name spec, h spec)) specs)
    = map (\<lambda>spec. (spec_name spec, h spec)) specs @ [(spec_name spec, v)]"
proof -
  have "spec_name spec \<notin> fst ` set (map (\<lambda>spec. (spec_name spec, h spec)) specs)"
    using assms by (auto simp: image_iff)
  then show ?thesis by (simp add: emplace_def map_of_eq_None_iff)
qed

lemma Add_to_map_specs:
  assumes "specs_ok specs" "\<And>spec. spec \<in> set specs \<Longrightarrow> add (u spec) (w spec) = Inr (r spec)"
  shows "Add_to_map add (map (\<lambda>spec. (spec_name spec, u spec)) specs) (map (\<lambda>spec. (spec_name spec, w spec)) specs)
    = Inr (map (\<lambda>spec. (spec_name spec, r spec)) specs)"
proof -
  have "map_status (\<lambda>(name, vec). case map_of (map (\<lambda>spec. (spec_name spec, w spec)) specs) name of
          None \<Rightarrow> Inl CheckFailed | Some w \<Rightarrow> and_then (add vec w) (\<lambda>vec. Inr (name, vec)))
        (map (\<lambda>spec. (spec_name spec, u spec)) S)
      = Inr (map (\<lambda>spec. (spec_name spec, r spec)) S)" if "set S \<subseteq> set specs" for S
    using that by (induction S) (simp_all add: map_of_specs [OF assms(1)] assms(2))
  then show ?thesis by (simp add: Add_to_map_def)
qed

lemma Map_Add_unpacked_vmap:
  assumes "specs_ok specs"
  shows "Map_Add_unpacked (vmap specs f) (vmap specs g) = Inr (vmap specs (\<lambda>s i. f s i + g s i))"
  unfolding Map_Add_unpacked_def vmap_def
  by (rule Add_to_map_specs [OF assms])
    (simp add: Add_unpacked_def vec_add [OF specs_okD [OF assms], symmetric] add_elements_def)

lemma vec_unpacked_ok:
  "spec_ok spec \<Longrightarrow> unpacked_ok \<lparr>elements = vec spec f, uv_modulus = spec_modulus spec\<rparr>"
  using vec_less by (simp add: unpacked_ok_def spec_ok_def)

lemma Map_Add_packed_vmap:
  assumes "specs_ok specs" "holds specs m g"
  shows "Map_Add_packed (vmap specs f) m = Inr (vmap specs (\<lambda>s i. f s i + g s i))"
proof -
  obtain pv where pv: "m = map (\<lambda>spec. (spec_name spec, pv spec)) specs"
      "\<And>spec. spec \<in> set specs \<Longrightarrow> packed_ok (pv spec) \<and> sv_modulus (pv spec) = spec_modulus spec
          \<and> sv_num_elements (pv spec) = spec_length spec \<and> packed_elements (pv spec) = vec spec g"
    using assms(2) by (auto simp: holds_def)
  have "Add_packed \<lparr>elements = vec spec f, uv_modulus = spec_modulus spec\<rparr> (pv spec)
      = Inr \<lparr>elements = vec spec (\<lambda>s i. f s i + g s i), uv_modulus = spec_modulus spec\<rparr>"
    if "spec \<in> set specs" for spec
    using Add_packed_eq [OF vec_unpacked_ok [OF specs_okD [OF assms(1) that]], of "pv spec"] pv(2) [OF that]
    by (simp add: vec_add [OF specs_okD [OF assms(1) that]])
  then show ?thesis
    unfolding Map_Add_packed_def vmap_def pv(1) by (intro Add_to_map_specs [OF assms(1)])
qed

lemma unpack_holds: "holds specs m g \<Longrightarrow> SecAggUnpackedVectorMap_of m = vmap specs g"
  by (auto simp: holds_def SecAggUnpackedVectorMap_of_def vmap_def SecAggUnpackedVector_of_def
      packed_elements_def [symmetric])

lemma InitializeVectorMap_vmap:
  assumes "specs_ok specs"
  shows "InitializeVectorMap specs = vmap specs (\<lambda>_ _. 0)"
proof -
  have "foldl (\<lambda>m spec. emplace (spec_name spec) (SecAggUnpackedVector_zero (spec_length spec) (spec_modulus spec)) m)
      (vmap P (\<lambda>_ _. 0)) S = vmap (P @ S) (\<lambda>_ _. 0)" if "distinct (map spec_name (P @ S))" for P S
    using that
  proof (induction S arbitrary: P)
    case (Cons spec S)
    have "emplace (spec_name spec) (SecAggUnpackedVector_zero (spec_length spec) (spec_modulus spec)) (vmap P (\<lambda>_ _. 0))
        = vmap (P @ [spec]) (\<lambda>_ _. 0)"
      using Cons.prems
      by (simp add: vmap_def emplace_specs SecAggUnpackedVector_zero_def vec_def map_replicate_const)
    then show ?case using Cons.IH [of "P @ [spec]"] Cons.prems by simp
  qed simp
  from this [of "[]"] show ?thesis using assms by (simp add: InitializeVectorMap_def specs_ok_def vmap_def)
qed

lemma Map_AddMaps_vmap:
  assumes "specs_ok specs"
  shows "Map_AddMaps (vmap specs f) (vmap specs g) = Inr (vmap specs (\<lambda>s i. f s i + g s i))"
proof -
  have body: "map_status (\<lambda>j. and_then (at_index (vec spec g) j) (\<lambda>w.
        Inr (AddModOpt (vec spec f ! j) w (spec_modulus spec)))) [0..<spec_length spec]
      = Inr (vec spec (\<lambda>s i. f s i + g s i))" if "spec \<in> set specs" for spec
  proof -
    have "map_status (\<lambda>j. and_then (at_index (vec spec g) j) (\<lambda>w.
        Inr (AddModOpt (vec spec f ! j) w (spec_modulus spec)))) [0..<spec_length spec]
      = Inr (map (\<lambda>j. AddModOpt (vec spec f ! j) (vec spec g ! j) (spec_modulus spec)) [0..<spec_length spec])"
      by (intro map_status_Inr) simp
    also have "map (\<lambda>j. AddModOpt (vec spec f ! j) (vec spec g ! j) (spec_modulus spec)) [0..<spec_length spec]
        = add_elements (spec_modulus spec) (vec spec f) (vec spec g)"
      by (intro nth_equalityI) (simp_all add: add_elements_def)
    finally show ?thesis by (simp add: vec_add [OF specs_okD [OF assms that]])
  qed
  have "map_status (\<lambda>(name, av). case map_of (vmap specs g) name of None \<Rightarrow> Inl CheckFailed
        | Some bv \<Rightarrow> and_then
            (map_status (\<lambda>j. and_then (at_index (elements bv) j) (\<lambda>w.
                 Inr (AddModOpt (elements av ! j) w (uv_modulus av)))) [0..<length (elements av)])
            (\<lambda>es. Inr (name, \<lparr>elements = es, uv_modulus = uv_modulus av\<rparr>))) (vmap S f)
      = Inr (vmap S (\<lambda>s i. f s i + g s i))" if "set S \<subseteq> set specs" for S
    using that by (induction S) (simp_all add: vmap_def map_of_specs [OF assms] body)
  from this [of specs] show ?thesis by (simp add: Map_AddMaps_def)
qed

lemma AddReduce_vmap:
  assumes "specs_ok specs" "ms \<noteq> []" "list_all2 (holds specs) ms gs"
  shows "AddReduce ms (vmap specs f) = Inr (vmap specs (\<lambda>s i. f s i + (\<Sum>g\<leftarrow>gs. g s i)))"
proof -
  have reduce: "fold_status (\<lambda>m partial_sum. Map_Add_packed partial_sum m) ms (vmap specs h)
      = Inr (vmap specs (\<lambda>s i. h s i + (\<Sum>g\<leftarrow>gs. g s i)))" if "list_all2 (holds specs) ms gs" for ms gs h
    using that
    by (induction ms gs arbitrary: h rule: list_all2_induct)
      (simp_all add: Map_Add_packed_vmap [OF assms(1)] add.assoc)
  obtain m ms' g gs' where c: "ms = m # ms'" "gs = g # gs'" "holds specs m g" "list_all2 (holds specs) ms' gs'"
    using assms(2,3) by (cases ms) (auto simp: list_all2_Cons1)
  show ?thesis
    by (simp add: AddReduce_def c(1,2) unpack_holds [OF c(3)] reduce [OF c(4)] Map_Add_unpacked_vmap [OF assms(1)])
qed

section \<open>Masks\<close>

definition masks_of :: "mask_env \<Rightarrow> bytes \<Rightarrow> bytes list \<Rightarrow> bytes list \<Rightarrow> vector_function" where
  "masks_of env session_id ka ks spec i = masks_total env session_id spec i ka - masks_total env session_id spec i ks"

lemma mask_vector_vec: "mask_vector env session_id ka ks spec = vec spec (masks_of env session_id ka ks)"
  by (simp add: mask_vector_def vec_def masks_of_def)

definition packed_vec :: "InputVectorSpecification \<Rightarrow> vector_function \<Rightarrow> SecAggVector" where
  "packed_vec spec f = packed_of (spec_modulus spec) (vec spec f) \<lparr>branchless_codec := False\<rparr>"

lemma packed_vec_ok:
  assumes "spec_ok spec"
  shows "packed_ok (packed_vec spec f)" "sv_modulus (packed_vec spec f) = spec_modulus spec"
    "sv_num_elements (packed_vec spec f) = spec_length spec" "packed_elements (packed_vec spec f) = vec spec f"
    "SecAggVector_of_span (vec spec f) (spec_modulus spec) False = Inr (packed_vec spec f)"
    "GetAsUint64Vector (packed_vec spec f) = Inr (vec spec f)"
proof -
  have m: "modulus_ok (spec_modulus spec)" "1 < spec_modulus spec \<and> spec_modulus spec \<le> kMaxModulus"
      "0 < spec_modulus spec"
    using assms by (simp_all add: spec_ok_def modulus_ok_def modulus_ok_unat word_less_nat_alt)
  have len: "length (vec spec f) * GetBitWidth (spec_modulus spec) \<le> 2147483647"
    using assms by (simp add: spec_ok_def)
  note p = packed_of_elements [OF m(1) vec_less [OF assms] len]
  show "packed_ok (packed_vec spec f)" using m(1) len by (simp add: packed_vec_def packed_ok_def packed_of_def)
  show "sv_modulus (packed_vec spec f) = spec_modulus spec"
    "sv_num_elements (packed_vec spec f) = spec_length spec"
    by (simp_all add: packed_vec_def packed_of_def)
  show "packed_elements (packed_vec spec f) = vec spec f"
    using p(2) by (simp add: packed_vec_def packed_elements_def)
  show "SecAggVector_of_span (vec spec f) (spec_modulus spec) False = Inr (packed_vec spec f)"
    using plain_pack [OF m(1) vec_less [OF assms] len] m(2) vec_less [OF assms]
    by (simp add: SecAggVector_of_span_def Let_def packed_vec_def packed_of_def list_all_iff)
  show "GetAsUint64Vector (packed_vec spec f) = Inr (vec spec f)"
    using decode_packed(2) [OF m(1) vec_less [OF assms] len] m(3)
    by (simp add: GetAsUint64Vector_def CheckHasValue_def packed_vec_def packed_of_def)
qed

definition pmap :: "InputVectorSpecification list \<Rightarrow> vector_function \<Rightarrow> SecAggVectorMap" where
  "pmap specs f = map (\<lambda>spec. (spec_name spec, packed_vec spec f)) specs"

lemma pmap_holds: "specs_ok specs \<Longrightarrow> holds specs (pmap specs f) f"
  unfolding holds_def pmap_def
  by (rule exI [of _ "\<lambda>spec. packed_vec spec f"]) (simp add: packed_vec_ok specs_ok_def)

lemma UnpackedMapOfMasks_vmap:
  assumes "mask_env_ok env" "specs_ok specs" "\<forall>spec\<in>set specs. keys_drawn env session_id spec (ka @ ks)"
  shows "UnpackedMapOfMasks env ka ks specs session_id (\<lambda>_. False) = Inr (Some (vmap specs (masks_of env session_id ka ks)))"
  using opt_adapter.impl_sum [OF assms(1), of specs session_id ka ks
      "\<lambda>vs m. Inr \<lparr>elements = vs, uv_modulus = m\<rparr>"
      "\<lambda>spec. \<lparr>elements = mask_vector env session_id ka ks spec, uv_modulus = spec_modulus spec\<rparr>" "[]" 0] assms(2,3)
  by (simp add: UnpackedMapOfMasks_def vmap_def mask_vector_vec specs_ok_def)

lemma MapOfMasks_pmap:
  assumes "mask_env_ok env" "specs_ok specs" "\<forall>spec\<in>set specs. keys_drawn env session_id spec (ka @ ks)"
  shows "MapOfMasks env ka ks specs session_id (\<lambda>_. False) = Inr (Some (pmap specs (masks_of env session_id ka ks)))"
  using plain_adapter.impl_sum [OF assms(1), of specs session_id ka ks
      "\<lambda>vs m. SecAggVector_of_span vs m False"
      "\<lambda>spec. packed_vec spec (masks_of env session_id ka ks)" "[]" 0] assms(2,3)
  by (simp add: MapOfMasks_def pmap_def mask_vector_vec specs_ok_def packed_vec_ok(5))

section \<open>Messages and results\<close>

text \<open>What the server accepts in round 2 always stands for some reduced vectors.\<close>

lemma check_masked_vectors:
  assumes "fold_status (check_masked_vector vectors) specs (map (\<lambda>spec. (spec_name spec, h spec)) P) = Inr checked"
    and "distinct (map spec_name (P @ specs))"
  shows "\<exists>pv. checked = map (\<lambda>spec. (spec_name spec, h spec)) P @ map (\<lambda>spec. (spec_name spec, pv spec)) specs
    \<and> (\<forall>spec\<in>set specs. \<exists>bs. map_of vectors (spec_name spec) = Some bs
         \<and> SecAggVector_of_packed bs (spec_modulus spec) (spec_length spec) False = Inr (pv spec))"
  using assms
proof (induction specs arbitrary: P h)
  case (Cons spec specs)
  let ?names = "\<lambda>h. map (\<lambda>spec. (spec_name spec, h spec))"
  obtain bs v where v: "map_of vectors (spec_name spec) = Some bs"
      "SecAggVector_of_packed bs (spec_modulus spec) (spec_length spec) False = Inr v"
      "fold_status (check_masked_vector vectors) specs (emplace (spec_name spec) v (?names h P)) = Inr checked"
  proof -
    obtain m where m: "check_masked_vector vectors spec (?names h P) = Inr m"
        "fold_status (check_masked_vector vectors) specs m = Inr checked"
      using Cons.prems(1) by (auto simp: and_then_Inr_iff)
    show thesis
      using that m(2) m(1) [unfolded check_masked_vector_def]
      by (auto simp: and_then_Inr_iff split: option.splits if_splits)
  qed
  let ?h = "h(spec := v)"
  have P: "spec \<notin> set P" "spec \<notin> set specs" using Cons.prems(2) by auto
  then have same: "?names ?h P = ?names h P" by simp
  have "emplace (spec_name spec) v (?names h P) = ?names h P @ [(spec_name spec, v)]"
    using Cons.prems(2) by (intro emplace_specs) simp
  then have "emplace (spec_name spec) v (?names h P) = ?names ?h (P @ [spec])" using same by simp
  then obtain pv where pv: "checked = ?names ?h (P @ [spec]) @ ?names pv specs"
      "\<forall>spec\<in>set specs. \<exists>bs. map_of vectors (spec_name spec) = Some bs
         \<and> SecAggVector_of_packed bs (spec_modulus spec) (spec_length spec) False = Inr (pv spec)"
    using Cons.IH [of ?h "P @ [spec]"] v(3) Cons.prems(2) by auto
  have "checked = ?names h P @ ?names (pv(spec := v)) (spec # specs)"
    using pv(1) same P(2) by simp
  moreover have "\<forall>s\<in>set (spec # specs). \<exists>bs. map_of vectors (spec_name s) = Some bs
      \<and> SecAggVector_of_packed bs (spec_modulus s) (spec_length s) False = Inr ((pv(spec := v)) s)"
    using pv(2) v(1,2) P(2) by auto
  ultimately show ?case by blast
qed simp

lemma SecAggVector_of_packed_ok:
  assumes "spec_ok spec" "SecAggVector_of_packed bs (spec_modulus spec) (spec_length spec) branchless = Inr v"
  shows "packed_ok v" "sv_modulus v = spec_modulus spec" "sv_num_elements v = spec_length spec"
  using assms by (auto simp: SecAggVector_of_packed_def packed_ok_def spec_ok_def fcp_check_Inr_iff)

lemma check_masked_input_holds:
  assumes "specs_ok specs" "check_masked_input specs vectors = Inr checked"
  shows "\<exists>g. holds specs checked g"
proof -
  have "fold_status (check_masked_vector vectors) specs [] = Inr checked"
    using assms(2) by (simp add: check_masked_input_def split: if_splits)
  then obtain pv where pv: "checked = map (\<lambda>spec. (spec_name spec, pv spec)) specs"
      "\<forall>spec\<in>set specs. \<exists>bs. map_of vectors (spec_name spec) = Some bs
         \<and> SecAggVector_of_packed bs (spec_modulus spec) (spec_length spec) False = Inr (pv spec)"
    using check_masked_vectors [of vectors specs undefined "[]" checked] assms(1) by (auto simp: specs_ok_def)
  define g where "g = (\<lambda>spec i. int (unat (packed_elements (pv spec) ! i)))"
  have "packed_ok (pv spec) \<and> sv_modulus (pv spec) = spec_modulus spec
      \<and> sv_num_elements (pv spec) = spec_length spec \<and> packed_elements (pv spec) = vec spec g"
    if mem: "spec \<in> set specs" for spec
  proof -
    have s: "spec_ok spec" using specs_okD [OF assms(1) mem] .
    obtain bs where "SecAggVector_of_packed bs (spec_modulus spec) (spec_length spec) False = Inr (pv spec)"
      using pv(2) mem by blast
    note p = SecAggVector_of_packed_ok [OF s this]
    have "packed_elements (pv spec) = vec spec g"
      using packed_elements_ok [OF p(1)] p(2,3) by (intro vec_of_elements [OF s]) (simp_all add: g_def)
    with p show ?thesis by blast
  qed
  then show ?thesis unfolding holds_def using pv(1) by blast
qed

lemma prng_observer_vmap:
  assumes "specs_ok specs" "impl_result im = None"
  shows "prng_observer (vmap specs f) im = Inr (im\<lparr>impl_result := Some (pmap specs f)\<rparr>)"
proof -
  have "fold_status (\<lambda>(name, v) packed_map. and_then (SecAggVector_of_span (elements v) (uv_modulus v) False) (\<lambda>packed.
        Inr (emplace name packed packed_map))) (vmap S f) (pmap P f) = Inr (pmap (P @ S) f)"
    if "distinct (map spec_name (P @ S))" "\<forall>spec\<in>set S. spec_ok spec" for P S
    using that
  proof (induction S arbitrary: P)
    case (Cons spec S)
    have "emplace (spec_name spec) (packed_vec spec f) (pmap P f) = pmap (P @ [spec]) f"
      using Cons.prems(1) by (simp add: pmap_def emplace_specs)
    then show ?case using Cons.IH [of "P @ [spec]"] Cons.prems by (simp add: vmap_def packed_vec_ok(5))
  qed (simp add: vmap_def)
  from this [of "[]" specs] show ?thesis
    using assms by (simp add: prng_observer_def SetResult_def specs_ok_def pmap_def)
qed

end
