(* ===== verification/Client_Masking.thy ===== *)
theory Client_Masking
  imports Vector_Sums Client_Shares
begin

text \<open>
  What a client adds to its input: the mask of its own key and, for every neighbour that has
  sent it shares, the mask of the common key, with a sign that depends on which of the two comes
  first in the client's list. The message of round 2 stands for the input plus this sum.
\<close>

section \<open>Which neighbours are alive\<close>

lemma masked_input_step_states:
  assumes "masked_input_step c st i enc v = Inr (Inr v')"
  shows "length (m_states v') = length (m_states v)" "k \<noteq> i \<Longrightarrow> m_states v' ! k = m_states v ! k"
    "int i \<noteq> sint (r2_client_id st) \<Longrightarrow> i < length (m_states v') \<and> (m_states v' ! i = kAlive \<longleftrightarrow> enc \<noteq> [])"
  using assms
  by (auto simp: masked_input_step_def push_shares_def at_index_def result_iffs split: if_splits option.splits)

lemma masked_input_loop_states:
  assumes "masked_input_loop c a st i encs v p = Inr (Inr v', p')"
  shows "length (m_states v') = length (m_states v)
    \<and> (\<forall>k<i. m_states v' ! k = m_states v ! k)
    \<and> (\<forall>k<length encs. int (i + k) \<noteq> sint (r2_client_id st) \<longrightarrow>
         i + k < length (m_states v') \<and> (m_states v' ! (i + k) = kAlive \<longleftrightarrow> encs ! k \<noteq> []))"
  using assms
proof (induction encs arbitrary: i v p)
  case (Cons enc encs)
  then obtain v1 where v1: "masked_input_step c st i enc v = Inr (Inr v1)"
      "masked_input_loop c a st (i + 1) encs v1 (p + 1) = Inr (Inr v', p')"
    by (auto simp: result_iffs)
  note step = masked_input_step_states [OF v1(1)]
  note rest = Cons.IH [OF v1(2)]
  have "i + k < length (m_states v') \<and> (m_states v' ! (i + k) = kAlive \<longleftrightarrow> (enc # encs) ! k \<noteq> [])"
    if k: "k < length (enc # encs)" "int (i + k) \<noteq> sint (r2_client_id st)" for k
  proof (cases k)
    case 0
    then show ?thesis using step(3) rest k by simp
  next
    case (Suc j)
    then show ?thesis using conjunct2 [OF conjunct2 [OF rest], rule_format, of j] k by simp
  qed
  then show ?case using step(1,2) rest by simp
qed simp

section \<open>The sum of the masks\<close>

definition signed_mask :: "(bytes \<Rightarrow> int) \<Rightarrow> R2State \<Rightarrow> OtherClientState list \<Rightarrow> nat \<Rightarrow> int" where
  "signed_mask h st states k =
     (if int k = sint (r2_client_id st) \<or> states ! k \<noteq> kAlive then 0
      else if int k < sint (r2_client_id st) then h (other_client_prng_keys st ! k)
      else - h (other_client_prng_keys st ! k))"

lemma prng_keys_loop_cons:
  assumes "prng_keys_loop a st states (k # ks) to_add to_subtract p = Inr (Some r, p')"
  shows "\<exists>to_add' to_subtract'. prng_keys_loop a st states ks to_add' to_subtract' (p + 1) = Inr (Some r, p')
    \<and> sum_list (map h to_add') - sum_list (map h to_subtract')
        = sum_list (map h to_add) - sum_list (map h to_subtract) + signed_mask h st states k
    \<and> set to_add' \<union> set to_subtract' \<subseteq> set to_add \<union> set to_subtract \<union> set (other_client_prng_keys st)"
proof (cases "int k = sint (r2_client_id st) \<or> states ! k \<noteq> kAlive")
  case True
  then have "prng_keys_loop a st states ks to_add to_subtract (p + 1) = Inr (Some r, p')"
    using assms by (auto simp: at_index_def split: if_splits)
  then show ?thesis using True by (auto simp: signed_mask_def)
next
  case False
  let ?key = "other_client_prng_keys st ! k"
  have k: "k < length (other_client_prng_keys st)"
    using assms False by (auto simp: at_index_def split: if_splits)
  show ?thesis
  proof (cases "int k < sint (r2_client_id st)")
    case True
    then have "prng_keys_loop a st states ks (to_add @ [?key]) to_subtract (p + 1) = Inr (Some r, p')"
      using assms False by (auto simp: at_index_def split: if_splits)
    then show ?thesis using True False k by (intro exI conjI) (assumption, auto simp: signed_mask_def)
  next
    case after: False
    then have "prng_keys_loop a st states ks to_add (to_subtract @ [?key]) (p + 1) = Inr (Some r, p')"
      using assms False by (auto simp: at_index_def split: if_splits)
    then show ?thesis using after False k by (intro exI conjI) (assumption, auto simp: signed_mask_def)
  qed
qed

lemma prng_keys_loop_sum:
  assumes "prng_keys_loop a st states ks to_add to_subtract p = Inr (Some (ka, kb), p')"
  shows "sum_list (map h ka) - sum_list (map h kb)
      = sum_list (map h to_add) - sum_list (map h to_subtract) + (\<Sum>k\<leftarrow>ks. signed_mask h st states k)
    \<and> set ka \<union> set kb \<subseteq> set to_add \<union> set to_subtract \<union> set (other_client_prng_keys st)"
  using assms
proof (induction ks arbitrary: to_add to_subtract p)
  case (Cons k ks)
  obtain to_add' to_subtract' where
      "prng_keys_loop a st states ks to_add' to_subtract' (p + 1) = Inr (Some (ka, kb), p')"
      "sum_list (map h to_add') - sum_list (map h to_subtract')
        = sum_list (map h to_add) - sum_list (map h to_subtract) + signed_mask h st states k"
      "set to_add' \<union> set to_subtract' \<subseteq> set to_add \<union> set to_subtract \<union> set (other_client_prng_keys st)"
    using prng_keys_loop_cons [OF Cons.prems] by blast
  then show ?case using Cons.IH by fastforce
qed auto

section \<open>A signal that is not seen\<close>

text \<open>A mask computation that runs to its end has not seen the abort signal, and is the undisturbed one.\<close>

lemma keys_loop_undisturbed:
  assumes "keys_loop step abort keys vs p = Inr (Some r, p')"
  shows "keys_loop step (\<lambda>_. False) keys vs q = Inr (Some r, q + length keys)"
  using assms by (induction keys arbitrary: vs p q) (auto simp: result_iffs split: if_splits)

lemma spec_masks_undisturbed:
  assumes "spec_masks env add sub ka ks sid abort spec p = Inr (Some vs, p')"
  shows "\<exists>q'. spec_masks env add sub ka ks sid (\<lambda>_. False) spec q = Inr (Some vs, q')"
proof -
  let ?step = "\<lambda>op. mask_with_key (env_sha256 env) (env_aes_ctr env) (env_fuel env) op sid spec"
  obtain vs1 p1 p2 where
      "keys_loop (?step add) abort ka (replicate (spec_length spec) 0) (p + 1) = Inr (Some vs1, p1)"
      "keys_loop (?step sub) abort ks vs1 p1 = Inr (Some vs, p2)"
    using assms by (auto simp: spec_masks_def Let_def result_iffs split: if_splits option.splits)
  from this [THEN keys_loop_undisturbed] show ?thesis by (simp add: spec_masks_def Let_def)
qed

lemma MapOfMasksImpl_undisturbed:
  assumes "MapOfMasksImpl env add sub mk ka ks sid abort specs p acc = Inr (Some r)"
  shows "MapOfMasksImpl env add sub mk ka ks sid (\<lambda>_. False) specs q acc = Inr (Some r)"
  using assms
proof (induction specs arbitrary: p q acc)
  case (Cons spec specs)
  then obtain vs p' v where vs: "spec_masks env add sub ka ks sid abort spec p = Inr (Some vs, p')"
      "mk vs (spec_modulus spec) = Inr v"
      "MapOfMasksImpl env add sub mk ka ks sid abort specs p' (emplace (spec_name spec) v acc) = Inr (Some r)"
    by (auto simp: result_iffs split: option.splits)
  obtain q' where "spec_masks env add sub ka ks sid (\<lambda>_. False) spec q = Inr (Some vs, q')"
    using spec_masks_undisturbed [OF vs(1)] by blast
  then show ?case using Cons.IH [OF vs(3)] vs(2) by simp
qed simp

lemma MapOfMasks_undisturbed:
  "MapOfMasks env ka ks specs sid abort = Inr (Some r) \<Longrightarrow>
   MapOfMasks env ka ks specs sid (\<lambda>_. False) = Inr (Some r)"
  unfolding MapOfMasks_def by (rule MapOfMasksImpl_undisturbed)

section \<open>The message of round 2\<close>

text \<open>A validated input whose vectors decode to \<open>x\<close>, reduced modulo the moduli.\<close>

definition input_holds :: "InputVectorSpecification list \<Rightarrow> SecAggVectorMap \<Rightarrow> vector_function \<Rightarrow> bool" where
  "input_holds specs input x \<longleftrightarrow> distinct (map fst input) \<and> ValidateInput input specs
     \<and> (\<forall>spec\<in>set specs. \<exists>v. map_of input (spec_name spec) = Some v \<and> GetAsUint64Vector v = Inr (vec spec x))"

lemma ValidateInput_loop_iff:
  "ValidateInput_loop input specs \<longleftrightarrow> (\<forall>spec\<in>set specs. \<exists>v. map_of input (spec_name spec) = Some v
     \<and> sv_modulus v = spec_modulus spec \<and> sv_num_elements v = spec_length spec)"
  by (induction specs) (auto split: option.splits)

lemma input_names:
  assumes "specs_ok specs" "input_holds specs input x"
  shows "fst ` set input = spec_name ` set specs"
proof (rule card_subset_eq [symmetric])
  have "ValidateInput_loop input specs" "length input = length specs" "distinct (map fst input)"
    using assms(2) by (auto simp: input_holds_def ValidateInput_def split: if_splits)
  then show "spec_name ` set specs \<subseteq> fst ` set input"
    by (force simp: ValidateInput_loop_iff dest: map_of_SomeD)
  show "card (spec_name ` set specs) = card (fst ` set input)"
    using \<open>length input = length specs\<close> \<open>distinct (map fst input)\<close> assms(1)
      distinct_card [of "map fst input"] distinct_card [of "map spec_name specs"]
    by (simp add: specs_ok_def)
qed simp

lemma AddSecAggVectors_vec:
  assumes "spec_ok spec" "sv_modulus v = spec_modulus spec" "GetAsUint64Vector v = Inr (vec spec x)"
  shows "AddSecAggVectors v (packed_vec spec g) = Inr (packed_vec spec (\<lambda>s i. x s i + g s i))"
proof -
  let ?m = "spec_modulus spec"
  have m: "unat ?m \<le> 4611686018427387904" "0 < unat ?m" using assms(1) by (simp_all add: spec_ok_def modulus_ok_unat)
  have "map2 (\<lambda>x y. (x + y) mod ?m) (vec spec x) (vec spec g) = vec spec (\<lambda>s i. x s i + g s i)"
  proof (rule vec_eqI [OF assms(1)])
    fix i assume i: "i < spec_length spec"
    have "vec spec x ! i < ?m" "vec spec g ! i < ?m"
      by (rule bspec [OF vec_less [OF assms(1)] nth_mem], simp add: i)+
    then have "unat (vec spec x ! i) + unat (vec spec g ! i) < 18446744073709551616"
      using m(1) by (simp add: word_less_nat_alt)
    then have "unat ((vec spec x ! i + vec spec g ! i) mod ?m)
        = (unat (vec spec x ! i) + unat (vec spec g ! i)) mod unat ?m"
      by (simp add: unat_mod_distrib unat_add_small)
    then have "int (unat ((vec spec x ! i + vec spec g ! i) mod ?m))
        = (int (unat (vec spec x ! i)) + int (unat (vec spec g ! i))) mod int (unat ?m)"
      by (simp only: of_nat_mod of_nat_add)
    then show "int (unat (map2 (\<lambda>x y. (x + y) mod ?m) (vec spec x) (vec spec g) ! i)) = (x spec i + g spec i) mod int (unat ?m)"
      using i by (simp add: vec_nth [OF assms(1) i] mod_simps del: of_nat_unat)
  qed simp
  then show ?thesis
    using assms(2,3) packed_vec_ok [OF assms(1)] by (simp add: AddSecAggVectors_def)
qed

lemma TakePackedBytes_packed_vec: "spec_ok spec \<Longrightarrow> TakePackedBytes (packed_vec spec f) = Inr (packed_bytes (packed_vec spec f))"
  by (simp add: TakePackedBytes_def CheckHasValue_def packed_vec_ok(2) word_less_nat_alt spec_modulus_pos)

lemma check_masked_input_pmap:
  assumes "specs_ok specs" "length vectors = length specs"
    and "\<forall>spec\<in>set specs. map_of vectors (spec_name spec) = Some (packed_bytes (packed_vec spec f))"
  shows "check_masked_input specs vectors = Inr (pmap specs f)"
proof -
  have step: "check_masked_vector vectors spec m = Inr (emplace (spec_name spec) (packed_vec spec f) m)"
    if "spec \<in> set specs" for spec m
  proof -
    have s: "spec_ok spec" using specs_okD [OF assms(1) that] .
    have "SecAggVector_of_packed (packed_bytes (packed_vec spec f)) (spec_modulus spec) (spec_length spec) False
        = Inr (packed_vec spec f)"
      using s by (simp add: SecAggVector_of_packed_def packed_vec_def packed_of_def spec_ok_def modulus_ok_def)
    then show ?thesis
      using assms(3) that s by (simp add: spec_ok_def check_masked_vector_def packed_vec_def packed_of_def num_bytes_needed_def)
  qed
  have "fold_status (check_masked_vector vectors) S (pmap P f) = Inr (pmap (P @ S) f)"
    if "distinct (map spec_name (P @ S))" "set S \<subseteq> set specs" for P S
    using that
  proof (induction S arbitrary: P)
    case (Cons spec S)
    have "emplace (spec_name spec) (packed_vec spec f) (pmap P f) = pmap (P @ [spec]) f"
      using Cons.prems(1) by (simp add: pmap_def emplace_specs)
    then show ?case using Cons.IH [of "P @ [spec]"] Cons.prems step by simp
  qed simp
  from this [of "[]" specs] show ?thesis
    using assms(1,2) by (simp add: check_masked_input_def specs_ok_def pmap_def)
qed

lemma SendMaskedInput_vectors:
  assumes "specs_ok specs" "input_holds specs input x"
  shows "\<exists>vectors. SendMaskedInput input (pmap specs g) l = Inr (Send (C2S_masked_input_response vectors) l)
    \<and> check_masked_input specs vectors = Inr (pmap specs (\<lambda>s i. x s i + g s i))"
proof -
  define spec_of where "spec_of = (\<lambda>name. SOME spec. spec \<in> set specs \<and> spec_name spec = name)"
  have inj: "inj_on spec_name (set specs)" using assms(1) by (simp add: specs_ok_def distinct_map)
  have spec_of: "spec_of (fst e) \<in> set specs" "spec_name (spec_of (fst e)) = fst e" if "e \<in> set input" for e
  proof -
    have "\<exists>spec. spec \<in> set specs \<and> spec_name spec = fst e" using input_names [OF assms] that by (metis imageE imageI)
    from someI_ex [OF this] show "spec_of (fst e) \<in> set specs" "spec_name (spec_of (fst e)) = fst e"
      by (auto simp: spec_of_def)
  qed
  let ?h = "\<lambda>s i. x s i + g s i"
  let ?enc = "\<lambda>e. (fst e, packed_bytes (packed_vec (spec_of (fst e)) ?h))"
  have input: "distinct (map fst input)" "length input = length specs" "ValidateInput_loop input specs"
      "\<forall>spec\<in>set specs. \<exists>v. map_of input (spec_name spec) = Some v \<and> GetAsUint64Vector v = Inr (vec spec x)"
    using assms(2) by (auto simp: input_holds_def ValidateInput_def split: if_splits)
  have entry: "(case map_of (pmap specs g) (fst e) of None \<Rightarrow> Inl CheckFailed
        | Some msk \<Rightarrow> and_then (AddSecAggVectors (snd e) msk) (\<lambda>sum.
            and_then (TakePackedBytes sum) (\<lambda>encoded_vector. Inr (fst e, encoded_vector)))) = Inr (?enc e)"
    if e: "e \<in> set input" for e
  proof -
    note s = spec_of [OF e]
    have ok: "spec_ok (spec_of (fst e))" by (rule specs_okD [OF assms(1) s(1)])
    have "map_of input (fst e) = Some (snd e)" using input(1) e by simp
    then have v: "sv_modulus (snd e) = spec_modulus (spec_of (fst e))"
        "GetAsUint64Vector (snd e) = Inr (vec (spec_of (fst e)) x)"
      using input(3,4) s by (auto simp: ValidateInput_loop_iff)
    have "map_of (pmap specs g) (fst e) = Some (packed_vec (spec_of (fst e)) g)"
      using map_of_specs [OF assms(1) s(1), of "\<lambda>spec. packed_vec spec g"] s(2) by (simp add: pmap_def)
    then show ?thesis
      by (simp add: AddSecAggVectors_vec [OF ok v] TakePackedBytes_packed_vec [OF ok])
  qed
  then have sent: "SendMaskedInput input (pmap specs g) l = Inr (Send (C2S_masked_input_response (map ?enc input)) l)"
    using map_status_Inr [of input _ ?enc] by (simp add: SendMaskedInput_def case_prod_unfold)
  have "map_of (map ?enc input) (spec_name spec) = Some (packed_bytes (packed_vec spec ?h))" if mem: "spec \<in> set specs" for spec
  proof -
    obtain v where v: "(spec_name spec, v) \<in> set input" using input(4) mem by (blast dest: map_of_SomeD)
    have "spec_of (spec_name spec) = spec" using spec_of [OF v] mem inj by (auto dest: inj_onD)
    then have "(spec_name spec, packed_bytes (packed_vec spec ?h)) \<in> set (map ?enc input)" using v by force
    then show ?thesis using input(1) by (intro map_of_is_SomeI) (simp_all add: o_def)
  qed
  then show ?thesis
    using sent check_masked_input_pmap [OF assms(1), of "map ?enc input" ?h] input(2) by auto
qed

text \<open>The masks of a client, from its state and the encrypted shares it is given.\<close>

definition neighbor_sign :: "R2State \<Rightarrow> bytes list \<Rightarrow> nat \<Rightarrow> int" where
  "neighbor_sign st encrypted k =
     (if int k = sint (r2_client_id st) \<or> encrypted ! k = [] then 0
      else if int k < sint (r2_client_id st) then 1 else - 1)"

definition client_masks :: "mask_env \<Rightarrow> R2State \<Rightarrow> bytes list \<Rightarrow> vector_function" where
  "client_masks env st encrypted spec i =
     mask_at env (session_id st) spec i (self_prng_key st)
       + (\<Sum>k<length encrypted. neighbor_sign st encrypted k * mask_at env (session_id st) spec i (other_client_prng_keys st ! k))"

lemma HandleMaskedInputCollectionRequest_masks:
  assumes req: "HandleMaskedInputCollectionRequest c a st encrypted = Inr (Inr (masks, v))"
    and env: "mask_env_ok (mask_env.truncate c)" and specs: "specs_ok (r2_input_vector_specs st)"
    and drawn: "\<forall>spec\<in>set (r2_input_vector_specs st).
       keys_drawn (mask_env.truncate c) (session_id st) spec (self_prng_key st # other_client_prng_keys st)"
  shows "masks = pmap (r2_input_vector_specs st) (client_masks (mask_env.truncate c) st encrypted)"
    and "int (length encrypted) = sint (r2_number_of_neighbors st)"
proof -
  let ?env = "mask_env.truncate c" and ?sid = "session_id st" and ?n = "length encrypted"
  let ?v0 = "\<lparr>m_states = r2_other_client_states st, m_alive = r2_number_of_alive_neighbors st, m_pairwise = [], m_self = []\<rparr>"
  obtain p ka kb p' where len: "int ?n = sint (r2_number_of_neighbors st)"
    and v: "masked_input_loop c a st 0 encrypted ?v0 0 = Inr (Inr v, p)"
    and keys: "prng_keys_loop a st (m_states v) [0..<?n] [self_prng_key st] [] p = Inr (Some (ka, kb), p')"
    and masks: "MapOfMasks ?env ka kb (r2_input_vector_specs st) ?sid (\<lambda>q. Signalled a (p' + q)) = Inr (Some masks)"
    using req by (auto simp: HandleMaskedInputCollectionRequest_def result_iffs split: if_splits option.splits)
  show "int ?n = sint (r2_number_of_neighbors st)" by (rule len)
  have states: "m_states v ! k = kAlive \<longleftrightarrow> encrypted ! k \<noteq> []" if "k < ?n" "int k \<noteq> sint (r2_client_id st)" for k
    using masked_input_loop_states [OF v] that by simp
  have "set ka \<union> set kb \<subseteq> set (self_prng_key st # other_client_prng_keys st)"
    using prng_keys_loop_sum [OF keys, of "\<lambda>_. 0"] by auto
  then have "keys_drawn ?env ?sid spec (self_prng_key st # other_client_prng_keys st) \<Longrightarrow> keys_drawn ?env ?sid spec (ka @ kb)"
    for spec
    unfolding keys_drawn_def by fastforce
  then have "\<forall>spec\<in>set (r2_input_vector_specs st). keys_drawn ?env ?sid spec (ka @ kb)" using drawn by blast
  from MapOfMasks_pmap [OF env specs this]
  have m: "masks = pmap (r2_input_vector_specs st) (masks_of ?env ?sid ka kb)"
    using MapOfMasks_undisturbed [OF masks] by simp
  have "masks_of ?env ?sid ka kb spec i = client_masks ?env st encrypted spec i" for spec i
  proof -
    let ?h = "mask_at ?env ?sid spec i"
    have "masks_of ?env ?sid ka kb spec i = ?h (self_prng_key st) + (\<Sum>k\<leftarrow>[0..<?n]. signed_mask ?h st (m_states v) k)"
      using prng_keys_loop_sum [OF keys, of ?h] by (simp add: masks_of_def masks_total_def)
    also have "(\<Sum>k\<leftarrow>[0..<?n]. signed_mask ?h st (m_states v) k) = (\<Sum>k<?n. signed_mask ?h st (m_states v) k)"
      by (simp add: sum_list_sum_nth atLeast0LessThan)
    also have "\<dots> = (\<Sum>k<?n. neighbor_sign st encrypted k * ?h (other_client_prng_keys st ! k))"
      using states by (intro sum.cong) (auto simp: signed_mask_def neighbor_sign_def)
    finally show ?thesis by (simp add: client_masks_def)
  qed
  then have "masks_of ?env ?sid ka kb = client_masks ?env st encrypted" by (intro ext)
  then show "masks = pmap (r2_input_vector_specs st) (client_masks ?env st encrypted)" using m by simp
qed

text \<open>
  The vectors of a masked input response: both ways to round 3, the input given before or after
  the server's request, go through these two functions.
\<close>

definition answers_with ::
  "crypto \<Rightarrow> AsyncAbort \<Rightarrow> R2State \<Rightarrow> bytes list \<Rightarrow> SecAggVectorMap \<Rightarrow> MaskedInputCollectionResponse \<Rightarrow> bool" where
  "answers_with c a st encrypted input vectors \<longleftrightarrow> (\<exists>masks v l.
     HandleMaskedInputCollectionRequest c a st encrypted = Inr (Inr (masks, v))
     \<and> SendMaskedInput input masks l = Inr (Send (C2S_masked_input_response vectors) l))"

lemma answers_with_checked:
  assumes "answers_with c a st encrypted input vectors" "mask_env_ok (mask_env.truncate c)"
    and "specs_ok (r2_input_vector_specs st)" "input_holds (r2_input_vector_specs st) input x"
    and "\<forall>spec\<in>set (r2_input_vector_specs st).
       keys_drawn (mask_env.truncate c) (session_id st) spec (self_prng_key st # other_client_prng_keys st)"
  shows "check_masked_input (r2_input_vector_specs st) vectors
    = Inr (pmap (r2_input_vector_specs st) (\<lambda>s i. x s i + client_masks (mask_env.truncate c) st encrypted s i))"
proof -
  let ?specs = "r2_input_vector_specs st"
  obtain masks v l where r: "HandleMaskedInputCollectionRequest c a st encrypted = Inr (Inr (masks, v))"
      "SendMaskedInput input masks l = Inr (Send (C2S_masked_input_response vectors) l)"
    using assms(1) by (auto simp: answers_with_def)
  note masks = HandleMaskedInputCollectionRequest_masks(1) [OF r(1) assms(2,3,5)]
  obtain ws where "SendMaskedInput input (pmap ?specs (client_masks (mask_env.truncate c) st encrypted)) l
        = Inr (Send (C2S_masked_input_response ws) l)"
      "check_masked_input ?specs ws = Inr (pmap ?specs (\<lambda>s i. x s i + client_masks (mask_env.truncate c) st encrypted s i))"
    using SendMaskedInput_vectors [OF assms(3,4)] by blast
  moreover have "ws = vectors" if "Send (C2S_masked_input_response ws) l = Send (C2S_masked_input_response vectors) l"
    using that by (cases l) (simp add: Send_def)
  ultimately show ?thesis using r(2) masks by simp
qed

lemma R2Set_answers:
  assumes "R2Set_HandleMessage c a st input (S2C_masked_input_request encrypted) l = Inr (s', l')"
    and "sent l' = sent l @ [C2S_masked_input_response vectors]"
  shows "answers_with c a st encrypted input vectors"
proof -
  obtain r where r: "HandleMaskedInputCollectionRequest c a st encrypted = Inr r"
    using assms(1) by (auto simp: R2Set_HandleMessage_def and_then_Inr_iff)
  show ?thesis
  proof (cases r)
    case (Inl e)
    then show ?thesis
      using assms r by (simp add: R2Set_HandleMessage_def AbortAndNotifyServer_def make_state_Inr_iff Send_def Transition_def)
  next
    case (Inr q)
    obtain masks v where q: "q = (masks, v)" by force
    obtain ws where ws: "SendMaskedInput input masks l = Inr (Send (C2S_masked_input_response ws) l)"
        "l' = Transition R3_UNMASKING (Send (C2S_masked_input_response ws) l)"
      using assms(1) r Inr q
      by (auto simp: R2Set_HandleMessage_def make_state_Inr_iff and_then_Inr_iff SendMaskedInput_def)
    then have "ws = vectors" using assms(2) by (simp add: Transition_def Send_def)
    then show ?thesis using ws(1) r Inr q by (auto simp: answers_with_def)
  qed
qed

end
