(* ===== verification/Server_Round2.thy ===== *)
theory Server_Round2
  imports Vector_Sums Server_States
begin

text \<open>
  The asynchronous round 2. \<open>round2_run\<close> is every interleaving of arriving responses with the two
  critical sections of the tasks that empty the queue. Whatever the interleaving, the sum that
  is there when the server is idle is the one that the synchronous server computes, no task
  fails, and the tasks alone bring the server to rest.
\<close>

inductive round2_run ::
  "SecAggServerProtocolImpl \<Rightarrow> MaskedInputCollectionResponse list \<Rightarrow> SecAggServerProtocolImpl \<Rightarrow> bool" for im0 where
  start: "round2_run im0 [] im0"
| arrives: "round2_run im0 rs im \<Longrightarrow> HandleMaskedInputCollectionResponse v im = Inr im' \<Longrightarrow> round2_run im0 (rs @ [v]) im'"
| takes: "round2_run im0 rs im \<Longrightarrow> 0 < scheduled_tasks im \<Longrightarrow> round2_run im0 rs (task_takes_queue im)"
| adds: "round2_run im0 rs im \<Longrightarrow> task_adds_queue k im = Inr im' \<Longrightarrow> round2_run im0 rs im'"

text \<open>Round 2 begins with a zero sum, an empty queue and no task.\<close>

definition round2_start :: "SecAggServerProtocolImpl \<Rightarrow> bool" where
  "round2_start im \<longleftrightarrow> specs_ok (impl_input_vector_specs im) \<and> async_round_2 im
     \<and> masked_input im = Some (InitializeVectorMap (impl_input_vector_specs im))
     \<and> masked_input_queue im = [] \<and> scheduled_tasks im = 0 \<and> taken_queues im = []"

definition contributes :: "InputVectorSpecification list \<Rightarrow> MaskedInputCollectionResponse \<Rightarrow> vector_function \<Rightarrow> bool" where
  "contributes specs v g \<longleftrightarrow> (\<exists>m. check_masked_input specs v = Inr m \<and> holds specs m g)"

definition totals :: "vector_function list \<Rightarrow> vector_function" where
  "totals gs s i = (\<Sum>g\<leftarrow>gs. g s i)"

lemma totals_simps [simp]:
  "totals [] = (\<lambda>s i. 0)" "totals (g # gs) = (\<lambda>s i. g s i + totals gs s i)"
  "totals (gs @ hs) = (\<lambda>s i. totals gs s i + totals hs s i)"
  by (simp_all add: totals_def fun_eq_iff)

text \<open>
  The state of a run: the sum so far, the vectors that wait in the queue and those that tasks
  have taken add up to what the accepted responses contribute, and a task is scheduled exactly
  when the queue is not empty.
\<close>

definition round2_inv ::
  "SecAggServerProtocolImpl \<Rightarrow> vector_function list \<Rightarrow> SecAggServerProtocolImpl \<Rightarrow> bool" where
  "round2_inv im0 gs im \<longleftrightarrow> (\<exists>f queue taken qs ts.
     im = im0\<lparr>masked_input := Some (vmap (impl_input_vector_specs im0) f), masked_input_queue := queue,
        scheduled_tasks := (if queue = [] then 0 else 1), taken_queues := taken\<rparr>
     \<and> list_all2 (holds (impl_input_vector_specs im0)) queue qs
     \<and> list_all2 (\<lambda>q t. q \<noteq> [] \<and> list_all2 (holds (impl_input_vector_specs im0)) q t) taken ts
     \<and> totals gs = (\<lambda>s i. f s i + totals qs s i + totals (concat ts) s i))"

lemma round2_invI:
  assumes "im = im0\<lparr>masked_input := Some (vmap (impl_input_vector_specs im0) f), masked_input_queue := queue,
        scheduled_tasks := n, taken_queues := taken\<rparr>" "n = (if queue = [] then 0 else 1)"
    and "list_all2 (holds (impl_input_vector_specs im0)) queue qs"
    and "list_all2 (\<lambda>q t. q \<noteq> [] \<and> list_all2 (holds (impl_input_vector_specs im0)) q t) taken ts"
    and "totals gs = (\<lambda>s i. f s i + totals qs s i + totals (concat ts) s i)"
  shows "round2_inv im0 gs im"
  unfolding round2_inv_def using assms by (intro exI conjI) (assumption | simp)+

lemma round2_inv_start:
  assumes "round2_start im0"
  shows "round2_inv im0 [] im0"
  unfolding round2_inv_def
  using assms
  by (intro exI [of _ "\<lambda>_ _. 0"] exI [of _ "[]"]) (simp add: round2_start_def InitializeVectorMap_vmap)

lemma round2_inv_arrives:
  assumes "round2_start im0" "round2_inv im0 gs im" "HandleMaskedInputCollectionResponse v im = Inr im'"
  shows "\<exists>g. contributes (impl_input_vector_specs im0) v g \<and> round2_inv im0 (gs @ [g]) im'"
proof -
  let ?specs = "impl_input_vector_specs im0"
  have s: "specs_ok ?specs" "async_round_2 im0" using assms(1) by (simp_all add: round2_start_def)
  obtain f queue taken qs ts where im: "im = im0\<lparr>masked_input := Some (vmap ?specs f), masked_input_queue := queue,
        scheduled_tasks := (if queue = [] then 0 else 1), taken_queues := taken\<rparr>"
      "list_all2 (holds ?specs) queue qs" "list_all2 (\<lambda>q t. q \<noteq> [] \<and> list_all2 (holds ?specs) q t) taken ts"
      "totals gs = (\<lambda>s i. f s i + totals qs s i + totals (concat ts) s i)"
    using assms(2) by (auto simp: round2_inv_def)
  obtain m where m: "check_masked_input ?specs v = Inr m"
      "im' = im0\<lparr>masked_input := Some (vmap ?specs f), masked_input_queue := queue @ [m],
        scheduled_tasks := 1, taken_queues := taken\<rparr>"
    using assms(3) s(2)
    by (auto simp: im(1) HandleMaskedInputCollectionResponse_def Let_def and_then_Inr_iff split: if_splits)
  obtain g where g: "holds ?specs m g" using check_masked_input_holds [OF s(1) m(1)] ..
  have a: "list_all2 (holds ?specs) (queue @ [m]) (qs @ [g])" using im(2) g by (simp add: list_all2_appendI)
  have b: "totals (gs @ [g]) = (\<lambda>s i. f s i + totals (qs @ [g]) s i + totals (concat ts) s i)"
    using im(4) by (simp add: fun_eq_iff)
  have "round2_inv im0 (gs @ [g]) im'" by (rule round2_invI [OF m(2) _ a im(3) b]) simp
  then show ?thesis using m(1) g by (auto simp: contributes_def)
qed

lemma round2_inv_takes:
  assumes "round2_inv im0 gs im" "0 < scheduled_tasks im"
  shows "round2_inv im0 gs (task_takes_queue im)"
proof -
  let ?specs = "impl_input_vector_specs im0"
  obtain f queue taken qs ts where im: "im = im0\<lparr>masked_input := Some (vmap ?specs f), masked_input_queue := queue,
        scheduled_tasks := (if queue = [] then 0 else 1), taken_queues := taken\<rparr>"
      "list_all2 (holds ?specs) queue qs" "list_all2 (\<lambda>q t. q \<noteq> [] \<and> list_all2 (holds ?specs) q t) taken ts"
      "totals gs = (\<lambda>s i. f s i + totals qs s i + totals (concat ts) s i)"
    using assms(1) by (auto simp: round2_inv_def)
  have q: "queue \<noteq> []" using assms(2) by (simp add: im(1) split: if_splits)
  have a: "task_takes_queue im = im0\<lparr>masked_input := Some (vmap ?specs f), masked_input_queue := [],
        scheduled_tasks := 0, taken_queues := queue # taken\<rparr>"
    using q by (simp add: im(1) task_takes_queue_def TakeMaskedInputQueue_def)
  have b: "list_all2 (\<lambda>q t. q \<noteq> [] \<and> list_all2 (holds ?specs) q t) (queue # taken) (qs # ts)"
    using im(2,3) q by simp
  have c: "totals gs = (\<lambda>s i. f s i + totals [] s i + totals (concat (qs # ts)) s i)"
    using im(4) by (simp add: fun_eq_iff)
  show ?thesis by (rule round2_invI [OF a _ _ b c]) simp_all
qed

lemma totals_remove:
  assumes "k < length ts"
  shows "totals (concat ts) s i = totals (ts ! k) s i + totals (concat (take k ts @ drop (Suc k) ts)) s i"
proof -
  have "ts = take k ts @ ts ! k # drop (Suc k) ts" using assms by (rule id_take_nth_drop)
  then have "concat ts = concat (take k ts) @ ts ! k @ concat (drop (Suc k) ts)"
    by (metis concat.simps(2) concat_append)
  then show ?thesis by simp
qed

lemma round2_inv_adds:
  assumes "round2_start im0" "round2_inv im0 gs im"
  shows "\<exists>im'. k < length (taken_queues im) \<longrightarrow> task_adds_queue k im = Inr im' \<and> round2_inv im0 gs im'
      \<and> length (taken_queues im') = length (taken_queues im) - 1 \<and> scheduled_tasks im' = scheduled_tasks im"
proof (cases "k < length (taken_queues im)")
  case True
  let ?specs = "impl_input_vector_specs im0" and ?rem = "\<lambda>xs. take k xs @ drop (Suc k) xs"
  have s: "specs_ok ?specs" using assms(1) by (simp add: round2_start_def)
  obtain f queue taken qs ts where im: "im = im0\<lparr>masked_input := Some (vmap ?specs f), masked_input_queue := queue,
        scheduled_tasks := (if queue = [] then 0 else 1), taken_queues := taken\<rparr>"
      "list_all2 (holds ?specs) queue qs" "list_all2 (\<lambda>q t. q \<noteq> [] \<and> list_all2 (holds ?specs) q t) taken ts"
      "totals gs = (\<lambda>s i. f s i + totals qs s i + totals (concat ts) s i)"
    using assms(2) by (auto simp: round2_inv_def)
  have k: "k < length taken" "k < length ts" using True im(1) list_all2_lengthD [OF im(3)] by simp_all
  have q: "taken ! k \<noteq> []" "list_all2 (holds ?specs) (taken ! k) (ts ! k)"
    using list_all2_nthD [OF im(3) k(1)] by auto
  let ?f = "\<lambda>s i. f s i + totals (ts ! k) s i"
  have "AddReduce (taken ! k) (vmap ?specs f) = Inr (vmap ?specs ?f)"
    using AddReduce_vmap [OF s q] by (simp add: totals_def)
  then have add: "task_adds_queue k im = Inr (im0\<lparr>masked_input := Some (vmap ?specs ?f), masked_input_queue := queue,
        scheduled_tasks := (if queue = [] then 0 else 1), taken_queues := ?rem taken\<rparr>)"
    using k(1) by (simp add: im(1) task_adds_queue_def)
  have "list_all2 (\<lambda>q t. q \<noteq> [] \<and> list_all2 (holds ?specs) q t) (?rem taken) (?rem ts)"
    using im(3) by (intro list_all2_appendI list_all2_takeI list_all2_dropI)
  moreover have "totals gs = (\<lambda>s i. ?f s i + totals qs s i + totals (concat (?rem ts)) s i)"
    unfolding im(4) using totals_remove [OF k(2)] by (simp add: fun_eq_iff)
  ultimately have "round2_inv im0 gs (im0\<lparr>masked_input := Some (vmap ?specs ?f), masked_input_queue := queue,
        scheduled_tasks := (if queue = [] then 0 else 1), taken_queues := ?rem taken\<rparr>)"
    by (intro round2_invI [OF refl refl im(2)])
  then show ?thesis using add k(1) by (simp add: im(1))
qed simp

lemma round2_run_inv:
  assumes "round2_run im0 rs im" "round2_start im0"
  shows "\<exists>gs. list_all2 (contributes (impl_input_vector_specs im0)) rs gs \<and> round2_inv im0 gs im"
  using assms
proof (induction rule: round2_run.induct)
  case start
  then show ?case using round2_inv_start by auto
next
  case (arrives rs im v im')
  then show ?case using round2_inv_arrives [of im0 _ im v im'] by (metis list_all2_Cons list_all2_Nil list_all2_appendI)
next
  case (takes rs im)
  then show ?case using round2_inv_takes by blast
next
  case (adds rs im k im')
  then obtain gs where gs: "list_all2 (contributes (impl_input_vector_specs im0)) rs gs" "round2_inv im0 gs im" by auto
  have "k < length (taken_queues im)"
    using adds.hyps(2) by (auto simp: task_adds_queue_def at_index_def split: if_splits)
  then show ?case using round2_inv_adds [OF adds.prems gs(2), of k] gs(1) adds.hyps(2) by auto
qed

text \<open>The synchronous server on the same responses.\<close>

lemma synchronous_run:
  assumes "list_all2 (contributes specs) rs gs" "specs_ok specs"
    and "impl_input_vector_specs im = specs" "\<not> async_round_2 im" "masked_input im = Some (vmap specs f)"
  shows "fold_status HandleMaskedInputCollectionResponse rs im
    = Inr (im\<lparr>masked_input := Some (vmap specs (\<lambda>s i. f s i + totals gs s i))\<rparr>)"
  using assms
proof (induction rs gs arbitrary: im f rule: list_all2_induct)
  case Nil
  then show ?case by simp
next
  case (Cons v rs g gs)
  let ?im = "im\<lparr>masked_input := Some (vmap specs (\<lambda>s i. f s i + g s i))\<rparr>"
  obtain m where m: "check_masked_input specs v = Inr m" "holds specs m g"
    using Cons.hyps(1) by (auto simp: contributes_def)
  have "HandleMaskedInputCollectionResponse v im = Inr ?im"
    using Cons.prems m Map_Add_packed_vmap [OF Cons.prems(1) m(2)]
    by (simp add: HandleMaskedInputCollectionResponse_def)
  then show ?case
    using Cons.IH [of ?im "\<lambda>s i. f s i + g s i"] Cons.prems by (simp add: add.assoc)
qed

lemma round2_run_idle:
  assumes "round2_run im0 rs im" "round2_start im0" "is_idle im"
  shows "\<exists>gs. list_all2 (contributes (impl_input_vector_specs im0)) rs gs
    \<and> im = im0\<lparr>masked_input := Some (vmap (impl_input_vector_specs im0) (totals gs))\<rparr>"
proof -
  have s: "async_round_2 im0" "masked_input_queue im0 = []" "scheduled_tasks im0 = 0" "taken_queues im0 = []"
    using assms(2) by (simp_all add: round2_start_def)
  obtain gs where gs: "list_all2 (contributes (impl_input_vector_specs im0)) rs gs" "round2_inv im0 gs im"
    using round2_run_inv [OF assms(1,2)] by blast
  obtain f queue taken qs ts where im: "im = im0\<lparr>masked_input := Some (vmap (impl_input_vector_specs im0) f),
        masked_input_queue := queue, scheduled_tasks := (if queue = [] then 0 else 1), taken_queues := taken\<rparr>"
      "list_all2 (holds (impl_input_vector_specs im0)) queue qs"
      "list_all2 (\<lambda>q t. q \<noteq> [] \<and> list_all2 (holds (impl_input_vector_specs im0)) q t) taken ts"
      "totals gs = (\<lambda>s i. f s i + totals qs s i + totals (concat ts) s i)"
    using gs(2) by (auto simp: round2_inv_def)
  have idle: "queue = []" "taken = []" using assms(3) s(1) by (auto simp: im(1) is_idle_def split: if_splits)
  then have "totals gs = f" using im(2,3,4) by simp
  moreover have "im = im0\<lparr>masked_input := Some (vmap (impl_input_vector_specs im0) f)\<rparr>" using im(1) idle s by simp
  ultimately show ?thesis using gs(1) by auto
qed

section \<open>The tasks alone\<close>

inductive task_step :: "SecAggServerProtocolImpl \<Rightarrow> SecAggServerProtocolImpl \<Rightarrow> bool" where
  task_takes: "0 < scheduled_tasks im \<Longrightarrow> task_step im (task_takes_queue im)"
| task_adds: "task_adds_queue k im = Inr im' \<Longrightarrow> task_step im im'"

definition work_left :: "SecAggServerProtocolImpl \<Rightarrow> nat" where
  "work_left im = 2 * scheduled_tasks im + length (taken_queues im)"

lemma task_adds_queue_bound: "task_adds_queue k im = Inr im' \<Longrightarrow> k < length (taken_queues im)"
  by (auto simp: task_adds_queue_def at_index_def split: if_splits)

lemma round2_task_adds:
  assumes "round2_start im0" "round2_run im0 rs im" "k < length (taken_queues im)"
  obtains im' where "task_adds_queue k im = Inr im'" "length (taken_queues im') = length (taken_queues im) - 1"
    "scheduled_tasks im' = scheduled_tasks im"
  using round2_run_inv [OF assms(2,1)] round2_inv_adds [OF assms(1), of _ im k] assms(3) by blast

lemma task_step_run:
  assumes "round2_start im0" "round2_run im0 rs im" "task_step im im'"
  shows "round2_run im0 rs im' \<and> Suc (work_left im') = work_left im"
  using assms(3)
proof cases
  case task_takes
  then show ?thesis
    using round2_run.takes [OF assms(2)]
    by (simp add: work_left_def task_takes_queue_def TakeMaskedInputQueue_def)
next
  case (task_adds k)
  note k = task_adds_queue_bound [OF task_adds]
  obtain r where "task_adds_queue k im = Inr r" "length (taken_queues r) = length (taken_queues im) - 1"
      "scheduled_tasks r = scheduled_tasks im"
    using round2_task_adds [OF assms(1,2) k] .
  then show ?thesis using round2_run.adds [OF assms(2) task_adds] task_adds k by (simp add: work_left_def)
qed

lemma task_steps_run:
  assumes "round2_start im0" "round2_run im0 rs im" "(task_step ^^ n) im im'"
  shows "round2_run im0 rs im' \<and> n + work_left im' = work_left im"
  using assms(3)
proof (induction n arbitrary: im')
  case 0
  then show ?case using assms(2) by simp
next
  case (Suc n)
  then obtain mid where mid: "(task_step ^^ n) im mid" "task_step mid im'" by auto
  then show ?case using Suc.IH [of mid] task_step_run [OF assms(1), of rs mid im'] by auto
qed

lemma task_enabled:
  assumes "round2_start im0" "round2_run im0 rs im"
  shows "is_idle im \<longleftrightarrow> (\<nexists>im'. task_step im im')"
proof -
  have "async_round_2 im" using round2_run_inv [OF assms(2,1)] assms(1) by (auto simp: round2_inv_def round2_start_def)
  then show ?thesis
    using round2_task_adds [OF assms, of 0]
    by (auto simp: is_idle_def task_step.simps dest: task_adds_queue_bound)
qed

lemma round2_comes_to_rest:
  assumes "round2_start im0" "round2_run im0 rs im"
  shows "\<exists>im'. round2_run im0 rs im' \<and> is_idle im'"
  using assms(2)
proof (induction "work_left im" arbitrary: im rule: less_induct)
  case less
  show ?case
  proof (cases "is_idle im")
    case False
    then obtain im' where "task_step im im'" using task_enabled [OF assms(1) less.prems] by blast
    then show ?thesis using task_step_run [OF assms(1) less.prems, of im'] less.hyps [of im'] by simp
  qed (use less.prems in blast)
qed

text \<open>A queue that is not empty has its task, so nothing is stranded when the server is idle.\<close>

lemma round2_queue_scheduled:
  assumes "round2_start im0" "round2_run im0 rs im"
  shows "scheduled_tasks im = (if masked_input_queue im = [] then 0 else 1)"
    "is_idle im \<longleftrightarrow> masked_input_queue im = [] \<and> taken_queues im = []"
proof -
  have inv: "async_round_2 im \<and> scheduled_tasks im = (if masked_input_queue im = [] then 0 else 1)"
    using round2_run_inv [OF assms(2,1)] assms(1) by (auto simp: round2_inv_def round2_start_def)
  then show "scheduled_tasks im = (if masked_input_queue im = [] then 0 else 1)" by blast
  show "is_idle im \<longleftrightarrow> masked_input_queue im = [] \<and> taken_queues im = []" using inv by (auto simp: is_idle_def split: if_splits)
qed

lemma task_steps_to_rest:
  assumes "round2_start im0" "round2_run im0 rs im"
  shows "\<exists>im'. (task_step ^^ work_left im) im im' \<and> is_idle im' \<and> masked_input_queue im' = [] \<and> taken_queues im' = []"
  using assms(2)
proof (induction "work_left im" arbitrary: im)
  case 0
  then have "taken_queues im = []" "scheduled_tasks im = 0" by (simp_all add: work_left_def)
  then have "masked_input_queue im = []" using round2_queue_scheduled(1) [OF assms(1) "0.prems"] by (simp split: if_splits)
  then show ?case using 0 \<open>taken_queues im = []\<close> round2_queue_scheduled(2) [OF assms(1) "0.prems"] by auto
next
  case (Suc n)
  then have "\<not> is_idle im" using round2_queue_scheduled [OF assms(1) Suc.prems] by (auto simp: work_left_def)
  then obtain mid where mid: "task_step im mid" using task_enabled [OF assms(1) Suc.prems] by blast
  have "round2_run im0 rs mid" "n = work_left mid" using task_step_run [OF assms(1) Suc.prems mid] Suc.hyps(2) by simp_all
  then obtain im' where rest: "(task_step ^^ n) mid im'" "is_idle im'" "masked_input_queue im' = []" "taken_queues im' = []"
    using Suc.hyps(1) [of mid] by auto
  have "(task_step ^^ work_left im) im im'" using relpowp_Suc_I2 [OF mid rest(1)] Suc.hyps(2) by simp
  then show ?case using rest by blast
qed

lemma async_round2_fold:
  assumes "round2_start im0" "round2_run im0 rs im" "is_idle im"
  shows "fold_status HandleMaskedInputCollectionResponse rs (im0\<lparr>async_round_2 := False\<rparr>)
      = Inr (im\<lparr>async_round_2 := False\<rparr>)
    \<and> FinalizeMaskedInputCollection im = Inr im"
proof -
  let ?specs = "impl_input_vector_specs im0"
  have s: "specs_ok ?specs" "masked_input im0 = Some (vmap ?specs (\<lambda>_ _. 0))" "scheduled_tasks im0 = 0"
      "taken_queues im0 = []"
    using assms(1) by (simp_all add: round2_start_def InitializeVectorMap_vmap)
  obtain gs where gs: "list_all2 (contributes ?specs) rs gs"
      "im = im0\<lparr>masked_input := Some (vmap ?specs (totals gs))\<rparr>"
    using round2_run_idle [OF assms(2,1,3)] by blast
  have "fold_status HandleMaskedInputCollectionResponse rs (im0\<lparr>async_round_2 := False\<rparr>)
      = Inr (im0\<lparr>async_round_2 := False, masked_input := Some (vmap ?specs (totals gs))\<rparr>)"
    using synchronous_run [OF gs(1) s(1), of "im0\<lparr>async_round_2 := False\<rparr>" "\<lambda>_ _. 0"] s(2) by simp
  moreover have "FinalizeMaskedInputCollection im = Inr im"
    using s(3,4) by (simp add: FinalizeMaskedInputCollection_def gs(2))
  ultimately show ?thesis by (simp add: gs(2))
qed

text \<open>Either mode of round 2, from its beginning to a server at rest.\<close>

definition round2_collects ::
  "SecAggServerProtocolImpl \<Rightarrow> MaskedInputCollectionResponse list \<Rightarrow> SecAggServerProtocolImpl \<Rightarrow> bool" where
  "round2_collects im0 rs im \<longleftrightarrow>
     (if async_round_2 im0 then round2_run im0 rs im \<and> is_idle im
      else fold_status HandleMaskedInputCollectionResponse rs im0 = Inr im)"

lemma round2_collects_total:
  assumes "round2_start (im0\<lparr>async_round_2 := True\<rparr>)" "round2_collects im0 rs im"
    and "list_all2 (contributes (impl_input_vector_specs im0)) rs gs"
  shows "masked_input im = Some (vmap (impl_input_vector_specs im0) (totals gs))"
proof -
  let ?im0 = "im0\<lparr>async_round_2 := False\<rparr>" and ?specs = "impl_input_vector_specs im0"
  have s: "specs_ok ?specs" "masked_input im0 = Some (vmap ?specs (\<lambda>_ _. 0))"
    using assms(1) by (simp_all add: round2_start_def InitializeVectorMap_vmap)
  have seq: "fold_status HandleMaskedInputCollectionResponse rs ?im0 = Inr (?im0\<lparr>masked_input := Some (vmap ?specs (totals gs))\<rparr>)"
    using synchronous_run [OF assms(3) s(1), of ?im0 "\<lambda>_ _. 0"] s(2) by simp
  show ?thesis
  proof (cases "async_round_2 im0")
    case True
    then have "round2_start im0" using assms(1) by (simp add: round2_start_def)
    then have "fold_status HandleMaskedInputCollectionResponse rs ?im0 = Inr (im\<lparr>async_round_2 := False\<rparr>)"
      using async_round2_fold [of im0 rs im] assms(2) True by (simp add: round2_collects_def)
    then have "im\<lparr>async_round_2 := False\<rparr> = ?im0\<lparr>masked_input := Some (vmap ?specs (totals gs))\<rparr>" using seq by simp
    from arg_cong [OF this, of masked_input] show ?thesis by simp
  next
    case False
    then have "im = im0\<lparr>masked_input := Some (vmap ?specs (totals gs))\<rparr>"
      using synchronous_run [OF assms(3) s(1) refl False s(2)] assms(2) by (simp add: round2_collects_def)
    then show ?thesis by simp
  qed
qed

section \<open>Properties\<close>

text \<open>
  C9. The asynchronous round 2 computes what the synchronous one does: for every interleaving of
  arriving responses with the tasks that empty the queue, when the server is idle its state is
  the one that handling the accepted responses one after the other, without the queue, leaves.
\<close>

theorem async_round2_equals_sequential:
  assumes "round2_start im0" "round2_run im0 rs im" "is_idle im"
  shows "fold_status HandleMaskedInputCollectionResponse rs (im0\<lparr>async_round_2 := False\<rparr>)
      = Inr (im\<lparr>async_round_2 := False\<rparr>)
    \<and> FinalizeMaskedInputCollection im = Inr im"
  using async_round2_fold [OF assms] .

definition sample_round2 :: SecAggServerProtocolImpl where
  "sample_round2 = SetupMaskedInputCollection (new_AesSecAggServerProtocolImpl (Complete \<lparr>cg_num_nodes = 2, cg_threshold = 2\<rparr>) 2
     [\<lparr>spec_name = [1], spec_length = 1, spec_modulus = 8\<rparr>] [SHARE_KEYS_RECEIVED, SHARE_KEYS_RECEIVED] True)"

lemma bit_width_8: "GetBitWidth 8 = 3"
  by (simp add: GetBitWidth_def bit_width.simps)

lemma sample_round2_run:
  "round2_start sample_round2 \<and> (\<exists>im. round2_run sample_round2 [[([1], [3])], [([1], [6])]] im \<and> length (masked_input_queue im) = 2 \<and> taken_queues im = [])"
proof -
  let ?spec = "\<lparr>spec_name = [1], spec_length = 1, spec_modulus = 8\<rparr>"
  have start: "round2_start sample_round2"
    by (simp add: round2_start_def sample_round2_def SetupMaskedInputCollection_def new_AesSecAggServerProtocolImpl_def
        specs_ok_def spec_ok_def modulus_ok_def kMaxModulus_def bit_width_8)
  have checked: "\<exists>m. check_masked_input [?spec] [([1], [b])] = Inr m" for b
    by (simp add: check_masked_input_def check_masked_vector_def bit_width_8 DivideRoundUp_def
        SecAggVector_of_packed_def num_bytes_needed_def kMaxModulus_def)
  have accepted: "\<exists>im'. HandleMaskedInputCollectionResponse [([1], [b])] im = Inr im' \<and> async_round_2 im'
      \<and> impl_input_vector_specs im' = [?spec] \<and> length (masked_input_queue im') = Suc (length (masked_input_queue im))
      \<and> taken_queues im' = taken_queues im" if "async_round_2 im" "impl_input_vector_specs im = [?spec]" for b im
    using checked [of b] that by (auto simp: HandleMaskedInputCollectionResponse_def Let_def)
  have im0: "async_round_2 sample_round2" "impl_input_vector_specs sample_round2 = [?spec]" "masked_input_queue sample_round2 = []"
      "taken_queues sample_round2 = []"
    by (simp_all add: sample_round2_def SetupMaskedInputCollection_def new_AesSecAggServerProtocolImpl_def)
  obtain im1 where im1: "HandleMaskedInputCollectionResponse [([1], [3])] sample_round2 = Inr im1" "async_round_2 im1"
      "impl_input_vector_specs im1 = [?spec]" "length (masked_input_queue im1) = 1" "taken_queues im1 = []"
    using accepted [OF im0(1,2), of 3] im0(3,4) by auto
  obtain im2 where im2: "HandleMaskedInputCollectionResponse [([1], [6])] im1 = Inr im2" "length (masked_input_queue im2) = 2"
      "taken_queues im2 = []"
    using accepted [OF im1(2,3), of 6] im1(4,5) by auto
  from im2(1) have "round2_run sample_round2 ([] @ [[([1], [3])]] @ [[([1], [6])]]) im2"
    using round2_run.arrives [OF round2_run.arrives [OF round2_run.start im1(1)]] by simp
  then show ?thesis using start im2(2,3) by auto
qed

theorem async_round2_equals_sequential_witness:
  "\<exists>im. fold_status HandleMaskedInputCollectionResponse [[([1], [3])], [([1], [6])]]
      (sample_round2\<lparr>async_round_2 := False\<rparr>) = Inr (im\<lparr>async_round_2 := False\<rparr>)
    \<and> FinalizeMaskedInputCollection im = Inr im"
  using async_round2_equals_sequential [of sample_round2 "[[([1], [3])], [([1], [6])]]"] sample_round2_run
    round2_comes_to_rest [of sample_round2 "[[([1], [3])], [([1], [6])]]"] by blast

text \<open>
  C14. The queue of round 2 drains: a queue that is not empty has a task scheduled for it, no task that has taken a queue can fail,
  every step of a task uses up one of the steps left (two for each scheduled task and one for each queue that is taken), and tasks
  can go on exactly as long as the server is not idle. So the tasks alone bring the server to rest after as many steps as were left,
  and then the queue of masked inputs is empty and no task holds a part of it.
\<close>

theorem round2_tasks_finish:
  assumes "round2_start im0" "round2_run im0 rs im" "(task_step ^^ n) im im'"
  shows "n + work_left im' = work_left im \<and> (is_idle im' \<longleftrightarrow> (\<nexists>next. task_step im' next))
    \<and> (\<forall>k<length (taken_queues im'). \<exists>next. task_adds_queue k im' = Inr next)
    \<and> (masked_input_queue im' \<noteq> [] \<longrightarrow> scheduled_tasks im' = 1)
    \<and> (is_idle im' \<longrightarrow> masked_input_queue im' = [] \<and> taken_queues im' = [])
    \<and> (\<exists>rest. (task_step ^^ work_left im') im' rest \<and> is_idle rest \<and> masked_input_queue rest = [] \<and> taken_queues rest = [])"
proof -
  have run: "round2_run im0 rs im'" "n + work_left im' = work_left im" using task_steps_run [OF assms] by blast+
  have "\<forall>k<length (taken_queues im'). \<exists>next. task_adds_queue k im' = Inr next"
    using round2_task_adds [OF assms(1) run(1)] by metis
  moreover have "masked_input_queue im' \<noteq> [] \<longrightarrow> scheduled_tasks im' = 1" using round2_queue_scheduled(1) [OF assms(1) run(1)] by simp
  ultimately show ?thesis
    using run(2) task_enabled [OF assms(1) run(1)] round2_queue_scheduled(2) [OF assms(1) run(1)] task_steps_to_rest [OF assms(1) run(1)]
    by blast
qed

text \<open>Two responses wait in the queue; the task takes them and has one step left.\<close>

theorem round2_tasks_finish_witness:
  "\<exists>im im'. length (masked_input_queue im) = 2 \<and> work_left im = 2 \<and> task_step im im' \<and> \<not> is_idle im' \<and> work_left im' = 1
    \<and> (\<exists>rest. (task_step ^^ 1) im' rest \<and> is_idle rest \<and> masked_input_queue rest = [] \<and> taken_queues rest = [])"
proof -
  obtain im where im: "round2_run sample_round2 [[([1], [3])], [([1], [6])]] im" "length (masked_input_queue im) = 2"
      "taken_queues im = []" and start: "round2_start sample_round2"
    using sample_round2_run by blast
  have sched: "scheduled_tasks im = 1" using round2_queue_scheduled(1) [OF start im(1)] im(2) by (auto split: if_splits)
  then have step: "task_step im (task_takes_queue im)" by (intro task_step.task_takes) simp
  let ?im = "task_takes_queue im"
  have left: "work_left im = 2" using sched im(3) by (simp add: work_left_def)
  have all: "1 + work_left ?im = work_left im" "is_idle ?im \<longleftrightarrow> (\<nexists>next. task_step ?im next)" "\<not> is_idle ?im"
      "\<exists>rest. (task_step ^^ work_left ?im) ?im rest \<and> is_idle rest \<and> masked_input_queue rest = [] \<and> taken_queues rest = []"
    using round2_tasks_finish [OF start im(1), of 1 ?im] step by (auto simp: task_takes_queue_def TakeMaskedInputQueue_def)
  then have "work_left ?im = 1" using left by simp
  then show ?thesis using im(2) left step all by metis
qed

end
