(* ===== verification/Server_Unmasking.thy ===== *)
theory Server_Unmasking
  imports Server_Round2 "HOL-Library.Multiset"
begin

text \<open>
  The PRNG stage: \<open>InitializePrng\<close> collects the keys whose masks have to leave the sum, the tasks
  generate their masks in batches, the accumulator adds them in any order, the observer packs
  the result. \<open>mask_sign\<close> is the sign with which a client adds the mask it shares with a neighbour.
\<close>

definition mask_sign :: "SecretSharingGraph \<Rightarrow> nat \<Rightarrow> nat \<Rightarrow> int" where
  "mask_sign g u v =
     (case (GetNeighborIndex g (int u) (int v), GetNeighborIndex g (int u) (int u)) of
        (Inr (Some k), Inr (Some s)) \<Rightarrow> if k < s then 1 else if k = s then 0 else - 1
      | _ \<Rightarrow> 0)"

lemma graph_node: "u < nat (GetNumNodes g) \<Longrightarrow> int u \<in> {0..<GetNumNodes g}"
  by auto

lemma mask_sign_antisym:
  assumes "graph_ok g" "u < nat (GetNumNodes g)" "v < nat (GetNumNodes g)"
  shows "mask_sign g u v = - mask_sign g v u"
proof (cases "u = v")
  case True
  then show ?thesis using graph.index_self [OF assms(1) graph_node [OF assms(2)]] by (auto simp: mask_sign_def)
next
  case False
  note u = graph_node [OF assms(2)] and v = graph_node [OF assms(3)]
  have ne: "int u \<noteq> int v" using False by simp
  obtain s t where st: "GetNeighborIndex g (int u) (int u) = Inr (Some s)" "GetNeighborIndex g (int v) (int v) = Inr (Some t)"
    using graph.index_self [OF assms(1) u] graph.index_self [OF assms(1) v] by blast
  obtain r r' where r: "GetNeighborIndex g (int u) (int v) = Inr r" "GetNeighborIndex g (int v) (int u) = Inr r'"
    using graph.index_total [OF assms(1) u v] graph.index_total [OF assms(1) v u] by blast
  show ?thesis
  proof (cases r)
    case None
    then have "r' = None" using graph.index_sym [OF assms(1) u v] r by simp
    then show ?thesis using None r st by (simp add: mask_sign_def)
  next
    case (Some k)
    then obtain l where l: "r' = Some l" using graph.index_sym [OF assms(1) v u] r by (cases r') auto
    have "k < s \<longleftrightarrow> t < l" "l < t \<longleftrightarrow> s < k"
      using graph.signs_cancel [OF assms(1) u v ne] graph.signs_cancel [OF assms(1) v u ne [symmetric]] r st Some l by auto
    moreover have "k \<noteq> s" "l \<noteq> t"
      using graph.neighbor_index [OF assms(1) u v] graph.neighbor_index [OF assms(1) u u]
        graph.neighbor_index [OF assms(1) v u] graph.neighbor_index [OF assms(1) v v] r st Some l ne by auto
    ultimately show ?thesis using r st Some l by (auto simp: mask_sign_def)
  qed
qed

section \<open>The keys to remove\<close>

definition work_total :: "(bytes \<Rightarrow> int) \<Rightarrow> PrngWorkItems \<Rightarrow> int" where
  "work_total h w = sum_list (map h (prng_keys_to_add w)) - sum_list (map h (prng_keys_to_subtract w))"

definition work_keys :: "PrngWorkItems \<Rightarrow> bytes set" where
  "work_keys w = set (prng_keys_to_add w) \<union> set (prng_keys_to_subtract w)"

lemma pairwise_work_total:
  assumes g: "graph_ok (secret_sharing_graph im)"
    and u: "u < nat (GetNumNodes (secret_sharing_graph im))" "u < length (pairwise_public_keys im)"
    and j: "fst item < nat (GetNumNodes (secret_sharing_graph im))" "fst item \<noteq> u"
    and key: "ComputeSharedSecret c (snd item) (pairwise_public_keys im ! u) = Inr key"
  shows "\<exists>w'. pairwise_work c im u item w = Inr w'
    \<and> work_total h w' = work_total h w - mask_sign (secret_sharing_graph im) u (fst item) * h key
    \<and> work_keys w' \<subseteq> work_keys w \<union> {k. k = key \<and> AreNeighbors (secret_sharing_graph im) (int u) (int (fst item)) = Inr True}"
proof -
  let ?g = "secret_sharing_graph im" and ?j = "fst item"
  note un = graph_node [OF u(1)] and jn = graph_node [OF j(1)]
  obtain r where r: "GetNeighborIndex ?g (int u) (int ?j) = Inr r" using graph.index_total [OF g un jn] by blast
  note are = graph.are_index [OF g un jn r]
  show ?thesis
  proof (cases r)
    case None
    then show ?thesis using are r by (auto simp: pairwise_work_def mask_sign_def)
  next
    case (Some k)
    obtain s where s: "GetNeighborIndex ?g (int u) (int u) = Inr (Some s)" using graph.index_self [OF g un] by blast
    have out: "IsOutgoingNeighbor ?g (int u) (int ?j) = Inr (s \<le> k)"
      using graph.outgoing_index [OF g un jn _ s] r Some by simp
    have "k \<noteq> s"
      using graph.neighbor_index [OF g un jn] graph.neighbor_index [OF g un un] r s Some j(2) by auto
    then show ?thesis
      using are r Some s out key u(2)
      by (auto simp: pairwise_work_def mask_sign_def work_total_def work_keys_def)
  qed
qed

definition common_keys :: "SecAggServerProtocolImpl \<Rightarrow> (nat \<Rightarrow> nat \<Rightarrow> bytes) \<Rightarrow> nat \<Rightarrow> nat set \<Rightarrow> bytes set" where
  "common_keys im shared u J = {shared u j |j. j \<in> J \<and> AreNeighbors (secret_sharing_graph im) (int u) (int j) = Inr True}"

lemma pairwise_works_total:
  assumes g: "graph_ok (secret_sharing_graph im)"
    and u: "u < nat (GetNumNodes (secret_sharing_graph im))" "u < length (pairwise_public_keys im)"
    and items: "\<And>item. item \<in> set items \<Longrightarrow> fst item < nat (GetNumNodes (secret_sharing_graph im)) \<and> fst item \<noteq> u
      \<and> ComputeSharedSecret c (snd item) (pairwise_public_keys im ! u) = Inr (shared u (fst item))"
  shows "\<exists>w'. fold_status (pairwise_work c im u) items w = Inr w'
    \<and> work_total h w' = work_total h w
        - (\<Sum>item\<leftarrow>items. mask_sign (secret_sharing_graph im) u (fst item) * h (shared u (fst item)))
    \<and> work_keys w' \<subseteq> work_keys w \<union> common_keys im shared u (fst ` set items)"
  using items
proof (induction items arbitrary: w)
  case (Cons item items)
  obtain w1 where w1: "pairwise_work c im u item w = Inr w1"
      "work_total h w1 = work_total h w - mask_sign (secret_sharing_graph im) u (fst item) * h (shared u (fst item))"
      "work_keys w1 \<subseteq> work_keys w \<union> {k. k = shared u (fst item)
         \<and> AreNeighbors (secret_sharing_graph im) (int u) (int (fst item)) = Inr True}"
    using pairwise_work_total [OF g u, of item c "shared u (fst item)" w h] Cons.prems [of item] by auto
  obtain w' where "fold_status (pairwise_work c im u) items w1 = Inr w'"
      "work_total h w' = work_total h w1
        - (\<Sum>item\<leftarrow>items. mask_sign (secret_sharing_graph im) u (fst item) * h (shared u (fst item)))"
      "work_keys w' \<subseteq> work_keys w1 \<union> common_keys im shared u (fst ` set items)"
    using Cons.IH [of w1] Cons.prems by auto
  moreover have "common_keys im shared u (fst ` set (item # items)) = common_keys im shared u (fst ` set items)
      \<union> {k. k = shared u (fst item) \<and> AreNeighbors (secret_sharing_graph im) (int u) (int (fst item)) = Inr True}"
    by (auto simp: common_keys_def)
  ultimately show ?case using w1 by auto
qed simp

definition in_sum :: "ClientStatus \<Rightarrow> bool" where
  "in_sum s \<longleftrightarrow> s = UNMASKING_RESPONSE_RECEIVED \<or> s = DEAD_AFTER_UNMASKING_RESPONSE_RECEIVED
     \<or> s = DEAD_AFTER_MASKED_INPUT_RESPONSE_RECEIVED"

text \<open>
  What the reconstruction has to deliver: the self key of every included client and, for exactly
  the clients that shared keys and sent no input, a key agreement that computes the keys they
  have in common with the included ones.
\<close>

definition reconstructs ::
  "crypto \<Rightarrow> SecAggServerProtocolImpl \<Rightarrow> (nat \<Rightarrow> bytes) \<Rightarrow> (nat \<Rightarrow> nat \<Rightarrow> bytes) \<Rightarrow> ShamirReconstructionResult \<Rightarrow> bool" where
  "reconstructs c im self shared r \<longleftrightarrow>
     (\<forall>u<length (client_statuses im). in_sum (client_statuses im ! u) \<longrightarrow> map_of (self_keys r) u = Some (self u))
     \<and> distinct (map fst (aborted_client_key_agreements r))
     \<and> fst ` set (aborted_client_key_agreements r)
         = {j. j < length (client_statuses im) \<and> client_statuses im ! j = DEAD_AFTER_SHARE_KEYS_RECEIVED}
     \<and> (\<forall>u<length (client_statuses im). in_sum (client_statuses im ! u) \<longrightarrow>
          (\<forall>item\<in>set (aborted_client_key_agreements r).
             ComputeSharedSecret c (snd item) (pairwise_public_keys im ! u) = Inr (shared u (fst item))))"

definition removed :: "SecAggServerProtocolImpl \<Rightarrow> (nat \<Rightarrow> bytes) \<Rightarrow> (nat \<Rightarrow> nat \<Rightarrow> bytes) \<Rightarrow> (bytes \<Rightarrow> int) \<Rightarrow> nat \<Rightarrow> int" where
  "removed im self shared h u =
     (if in_sum (client_statuses im ! u)
      then h (self u) + (\<Sum>j | j < length (client_statuses im) \<and> client_statuses im ! j = DEAD_AFTER_SHARE_KEYS_RECEIVED.
        mask_sign (secret_sharing_graph im) u j * h (shared u j))
      else 0)"

definition needed_keys :: "SecAggServerProtocolImpl \<Rightarrow> (nat \<Rightarrow> bytes) \<Rightarrow> (nat \<Rightarrow> nat \<Rightarrow> bytes) \<Rightarrow> bytes set" where
  "needed_keys im self shared =
     {key. \<exists>u<length (client_statuses im). in_sum (client_statuses im ! u)
        \<and> (key = self u \<or> key \<in> common_keys im shared u
              {j. j < length (client_statuses im) \<and> client_statuses im ! j = DEAD_AFTER_SHARE_KEYS_RECEIVED})}"

lemma client_work_total:
  assumes g: "graph_ok (secret_sharing_graph im)" "length (client_statuses im) = nat (GetNumNodes (secret_sharing_graph im))"
      "length (pairwise_public_keys im) = length (client_statuses im)"
    and r: "reconstructs c im self shared r" and u: "u < length (client_statuses im)"
  shows "\<exists>w'. client_work c im r u w = Inr w' \<and> work_total h w' = work_total h w - removed im self shared h u
    \<and> work_keys w' \<subseteq> work_keys w \<union> needed_keys im self shared"
proof (cases "in_sum (client_statuses im ! u)")
  case False
  then show ?thesis using u by (auto simp: client_work_def client_status_def in_sum_def removed_def)
next
  case True
  let ?g = "secret_sharing_graph im" and ?items = "aborted_client_key_agreements r"
  let ?D = "{j. j < length (client_statuses im) \<and> client_statuses im ! j = DEAD_AFTER_SHARE_KEYS_RECEIVED}"
  let ?w = "w\<lparr>prng_keys_to_subtract := prng_keys_to_subtract w @ [self u]\<rparr>"
  have D: "fst ` set ?items = ?D" "distinct (map fst ?items)" using r by (auto simp: reconstructs_def)
  have item: "fst item < nat (GetNumNodes ?g) \<and> fst item \<noteq> u
      \<and> ComputeSharedSecret c (snd item) (pairwise_public_keys im ! u) = Inr (shared u (fst item))"
    if "item \<in> set ?items" for item
  proof -
    have "fst item \<in> ?D" using that D(1) by blast
    then show ?thesis using that True u r g(2) by (auto simp: reconstructs_def in_sum_def)
  qed
  obtain w' where w': "fold_status (pairwise_work c im u) ?items ?w = Inr w'"
      "work_total h w' = work_total h ?w - (\<Sum>item\<leftarrow>?items. mask_sign ?g u (fst item) * h (shared u (fst item)))"
      "work_keys w' \<subseteq> work_keys ?w \<union> common_keys im shared u (fst ` set ?items)"
    using pairwise_works_total [OF g(1), of u ?items c shared ?w h] item u g(2,3) by auto
  have "(\<Sum>item\<leftarrow>?items. mask_sign ?g u (fst item) * h (shared u (fst item)))
      = (\<Sum>j\<leftarrow>map fst ?items. mask_sign ?g u j * h (shared u j))"
    by (simp add: o_def)
  also have "\<dots> = (\<Sum>j\<in>?D. mask_sign ?g u j * h (shared u j))"
    using sum_list_distinct_conv_sum_set [OF D(2), of "\<lambda>j. mask_sign ?g u j * h (shared u j)"] D(1) by simp
  finally have "work_total h w' = work_total h w - removed im self shared h u"
    using w'(2) True by (simp add: work_total_def removed_def)
  moreover have "work_keys w' \<subseteq> work_keys w \<union> needed_keys im self shared"
  proof -
    have "self u \<in> needed_keys im self shared" unfolding needed_keys_def using True u by blast
    then have a: "work_keys ?w \<subseteq> work_keys w \<union> needed_keys im self shared" by (simp add: work_keys_def)
    have "common_keys im shared u ?D \<subseteq> needed_keys im self shared"
      unfolding needed_keys_def using True u by blast
    then have b: "common_keys im shared u (fst ` set ?items) \<subseteq> work_keys w \<union> needed_keys im self shared"
      unfolding D(1) by (rule le_supI2)
    show ?thesis by (rule subset_trans [OF w'(3) Un_least [OF a b]])
  qed
  moreover have "client_work c im r u w = Inr w'"
    using w'(1) True u r by (auto simp: client_work_def client_status_def in_sum_def reconstructs_def)
  ultimately show ?thesis by blast
qed

lemma InitializePrng_total:
  assumes g: "graph_ok (secret_sharing_graph im)" "length (client_statuses im) = nat (GetNumNodes (secret_sharing_graph im))"
      "length (pairwise_public_keys im) = length (client_statuses im)"
    and r: "reconstructs c im self shared r"
  shows "\<exists>w. InitializePrng c r im = Inr w \<and> work_keys w \<subseteq> needed_keys im self shared
    \<and> (\<forall>h. work_total h w = - (\<Sum>u<length (client_statuses im). removed im self shared h u))"
proof -
  have "\<exists>w'. fold_status (client_work c im r) us w = Inr w' \<and> work_keys w' \<subseteq> work_keys w \<union> needed_keys im self shared
      \<and> (\<forall>h. work_total h w' = work_total h w - (\<Sum>u\<leftarrow>us. removed im self shared h u))"
    if "set us \<subseteq> {..<length (client_statuses im)}" for us w
    using that
  proof (induction us arbitrary: w)
    case (Cons u us)
    have u: "u < length (client_statuses im)" using Cons.prems by simp
    obtain w1 where w1: "client_work c im r u w = Inr w1"
        "work_keys w1 \<subseteq> work_keys w \<union> needed_keys im self shared"
      using client_work_total [OF g r u, of w] by blast
    then have t: "work_total h w1 = work_total h w - removed im self shared h u" for h
      using client_work_total [OF g r u, of w h] by auto
    obtain w' where "fold_status (client_work c im r) us w1 = Inr w'"
        "work_keys w' \<subseteq> work_keys w1 \<union> needed_keys im self shared"
        "\<forall>h. work_total h w' = work_total h w1 - (\<Sum>u\<leftarrow>us. removed im self shared h u)"
      using Cons.IH [of w1] Cons.prems by auto
    then show ?case using w1 t by auto
  qed simp
  from this [of "[0..<length (client_statuses im)]" "\<lparr>prng_keys_to_add = [], prng_keys_to_subtract = []\<rparr>"]
  show ?thesis
    by (auto simp: InitializePrng_def total_number_of_clients_def work_keys_def work_total_def sum_list_sum_nth atLeast0LessThan)
qed

section \<open>The tasks\<close>

lemma concat_batches: "concat (batches keys) = keys"
  by (induction keys rule: batches.induct) (subst batches.simps, simp)

lemma batches_subset: "batch \<in> set (batches keys) \<Longrightarrow> set batch \<subseteq> set keys"
  using concat_batches [of keys] by (metis UN_upper set_concat)

lemma prng_generator_vmap:
  assumes "mask_env_ok env" "specs_ok (impl_input_vector_specs im)" "impl_session_id im = Some sid"
    and "\<forall>spec\<in>set (impl_input_vector_specs im). keys_drawn env sid spec (fst task @ snd task)"
  shows "prng_generator env im task = Inr (vmap (impl_input_vector_specs im) (masks_of env sid (fst task) (snd task)))"
  using UnpackedMapOfMasks_vmap [OF assms(1,2), of sid "fst task" "snd task"] assms(3,4) by (simp add: prng_generator_def)

lemma prng_accumulate_vmap:
  assumes "mask_env_ok env" "specs_ok (impl_input_vector_specs im)" "impl_session_id im = Some sid"
    and "\<forall>task\<in>set order. \<forall>spec\<in>set (impl_input_vector_specs im). keys_drawn env sid spec (fst task @ snd task)"
  shows "prng_accumulate env im (vmap (impl_input_vector_specs im) f) order
    = Inr (vmap (impl_input_vector_specs im) (\<lambda>s i. f s i + (\<Sum>task\<leftarrow>order. masks_of env sid (fst task) (snd task) s i)))"
  using assms(4)
proof (induction order arbitrary: f)
  case (Cons task order)
  have "prng_generator env im task = Inr (vmap (impl_input_vector_specs im) (masks_of env sid (fst task) (snd task)))"
    using Cons.prems by (intro prng_generator_vmap [OF assms(1-3)]) simp
  moreover have "prng_accumulate env im (vmap (impl_input_vector_specs im) g) order
    = Inr (vmap (impl_input_vector_specs im) (\<lambda>s i. g s i + (\<Sum>task\<leftarrow>order. masks_of env sid (fst task) (snd task) s i)))" for g
    using Cons.prems by (intro Cons.IH) simp
  ultimately show ?case
    by (simp add: prng_accumulate_def Map_AddMaps_vmap [OF assms(2)] add.assoc)
qed (simp add: prng_accumulate_def)

definition tasks_of :: "PrngWorkItems \<Rightarrow> prng_task list" where
  "tasks_of w = map (\<lambda>batch. (batch, [])) (batches (prng_keys_to_add w)) @ map (\<lambda>batch. ([], batch)) (batches (prng_keys_to_subtract w))"

lemma tasks_of_keys: "task \<in> set (tasks_of w) \<Longrightarrow> set (fst task @ snd task) \<subseteq> work_keys w"
  using batches_subset by (fastforce simp: tasks_of_def work_keys_def)

lemma sum_list_concat: "sum_list (map f (concat xss)) = (\<Sum>xs\<leftarrow>xss. sum_list (map f xs))"
  by (induction xss) simp_all

lemma tasks_total:
  "(\<Sum>task\<leftarrow>tasks_of w. masks_of env sid (fst task) (snd task) spec i) = work_total (mask_at env sid spec i) w"
proof -
  let ?h = "mask_at env sid spec i"
  have "(\<Sum>keys\<leftarrow>batches ks. sum_list (map ?h keys)) = sum_list (map ?h ks)" for ks
    by (simp add: sum_list_concat [symmetric] concat_batches)
  moreover have "(\<Sum>keys\<leftarrow>kss. - sum_list (map ?h keys)) = - (\<Sum>keys\<leftarrow>kss. sum_list (map ?h keys))" for kss
    by (induction kss) simp_all
  ultimately show ?thesis
    by (simp add: tasks_of_def masks_of_def masks_total_def work_total_def o_def)
qed

lemma sum_list_mset: "mset xs = mset ys \<Longrightarrow> sum_list (map (f :: 'a \<Rightarrow> int) xs) = sum_list (map f ys)"
  by (metis mset_map sum_mset_sum_list)

text \<open>
  The whole stage, from the reconstructed keys to the packed result: whatever order the results of the
  tasks come in, the masks that the reconstruction calls for leave the sum.
\<close>

lemma prng_stage_result:
  assumes g: "graph_ok (secret_sharing_graph im)" "length (client_statuses im) = nat (GetNumNodes (secret_sharing_graph im))"
      "length (pairwise_public_keys im) = length (client_statuses im)"
    and env: "mask_env_ok (mask_env.truncate c)" and specs: "specs_ok (impl_input_vector_specs im)"
    and sid: "impl_session_id im = Some sid" and m: "masked_input im = Some (vmap (impl_input_vector_specs im) f)"
    and st: "state_kind st = PRNG_RUNNING" "impl st = im" "impl_result im = None"
    and shamir: "HandleShamirReconstruction c im = Inr r" and r: "reconstructs c im self shared r"
    and drawn: "\<And>spec key. spec \<in> set (impl_input_vector_specs im) \<Longrightarrow> key \<in> needed_keys im self shared \<Longrightarrow>
      key_masks (mask_env.truncate c) sid spec key \<noteq> None"
  shows "\<exists>st1 initial tasks. EnterState c st = Inr st1 \<and> prng_tasks st1 = Some (initial, tasks)
    \<and> (\<forall>order. mset order = mset tasks \<longrightarrow> (\<exists>st2. prng_done (mask_env.truncate c) order st1 = Inr st2
         \<and> completion_status st2 = Some (Inr ())
         \<and> impl_result (impl st2) = Some (pmap (impl_input_vector_specs im)
             (\<lambda>s i. f s i - (\<Sum>u<length (client_statuses im).
                removed im self shared (mask_at (mask_env.truncate c) sid s i) u)))))"
proof -
  let ?env = "mask_env.truncate c" and ?specs = "impl_input_vector_specs im"
  let ?res = "\<lambda>s i. f s i - (\<Sum>u<length (client_statuses im). removed im self shared (mask_at ?env sid s i) u)"
  obtain w where w: "InitializePrng c r im = Inr w" "work_keys w \<subseteq> needed_keys im self shared"
      "\<forall>h. work_total h w = - (\<Sum>u<length (client_statuses im). removed im self shared h u)"
    using InitializePrng_total [OF g r] by blast
  define st1 where "st1 = st\<lparr>prng_tasks := Some (vmap ?specs f, tasks_of w), impl := im\<lparr>masked_input := None\<rparr>\<rparr>"
  have enter: "EnterState c st = Inr st1"
    using st shamir w(1) m by (simp add: EnterState_def Initialize_def StartPrng_def tasks_of_def st1_def)
  have result: "\<exists>st2. prng_done ?env order st1 = Inr st2 \<and> completion_status st2 = Some (Inr ())
      \<and> impl_result (impl st2) = Some (pmap ?specs ?res)" if order: "mset order = mset (tasks_of w)" for order
  proof -
    let ?im = "im\<lparr>masked_input := None\<rparr>"
    have "\<forall>task\<in>set order. \<forall>spec\<in>set ?specs. keys_drawn ?env sid spec (fst task @ snd task)"
    proof (intro ballI)
      fix task spec assume "task \<in> set order" and spec: "spec \<in> set ?specs"
      then have "task \<in> set (tasks_of w)" using order by (metis set_mset_mset)
      then have "set (fst task @ snd task) \<subseteq> needed_keys im self shared" using tasks_of_keys w(2) by blast
      then show "keys_drawn ?env sid spec (fst task @ snd task)" unfolding keys_drawn_def using drawn [OF spec] by blast
    qed
    then have "prng_accumulate ?env ?im (vmap ?specs f) order
        = Inr (vmap ?specs (\<lambda>s i. f s i + (\<Sum>task\<leftarrow>order. masks_of ?env sid (fst task) (snd task) s i)))"
      using prng_accumulate_vmap [OF env, of ?im sid order f] specs sid by simp
    also have "(\<lambda>s i. f s i + (\<Sum>task\<leftarrow>order. masks_of ?env sid (fst task) (snd task) s i)) = ?res"
      using sum_list_mset [OF order] w(3) by (simp add: tasks_total fun_eq_iff)
    finally show ?thesis
      using prng_observer_vmap [OF specs, of ?im ?res] st(3)
      by (simp add: prng_done_def st1_def PrngRunnerFinished_def)
  qed
  have "prng_tasks st1 = Some (vmap ?specs f, tasks_of w)" by (simp add: st1_def)
  then show ?thesis using enter result by blast
qed

end
