(* ===== verification/Aggregation.thy ===== *)
theory Aggregation
  imports Client_Masking Server_Unmasking
begin

text \<open>
  Client and server together: the masks that the clients add in round 2 and those that the server
  removes in the PRNG stage cancel, so that the result is the sum of the inputs of the included
  clients. What a client knows of the session is stated against the data of the server.
\<close>

section \<open>What the clients know\<close>

definition shares_keys :: "ClientStatus \<Rightarrow> bool" where
  "shares_keys s \<longleftrightarrow> in_sum s \<or> s = DEAD_AFTER_SHARE_KEYS_RECEIVED"

text \<open>
  \<open>kp u\<close> is the pairwise key agreement of client \<open>u\<close>, whose public key the server has. A client in round 2
  knows the session id, its place in its own list, and its common key with every neighbour
  that has shared keys; the encrypted shares it gets are empty for exactly the others.
\<close>

definition key_holders :: "crypto \<Rightarrow> SecAggServerProtocolImpl \<Rightarrow> (nat \<Rightarrow> EcdhKeyAgreement) \<Rightarrow> bool" where
  "key_holders c im kp \<longleftrightarrow> (\<forall>u<length (client_statuses im). shares_keys (client_statuses im ! u) \<longrightarrow>
     agreement_ok c (kp u) \<and> PublicKey c (kp u) = Inr (pairwise_public_keys im ! u))"

definition knows_session ::
  "crypto \<Rightarrow> SecAggServerProtocolImpl \<Rightarrow> (nat \<Rightarrow> EcdhKeyAgreement) \<Rightarrow> nat \<Rightarrow> R2State \<Rightarrow> bytes list \<Rightarrow> bool" where
  "knows_session c im kp u st encrypted \<longleftrightarrow>
     r2_input_vector_specs st = impl_input_vector_specs im \<and> impl_session_id im = Some (session_id st)
     \<and> sint (r2_number_of_neighbors st) = GetDegree (secret_sharing_graph im)
     \<and> GetNeighborIndex (secret_sharing_graph im) (int u) (int u) = Inr (Some (sint (r2_client_id st)))
     \<and> (\<forall>spec\<in>set (impl_input_vector_specs im).
          keys_drawn (mask_env.truncate c) (session_id st) spec (self_prng_key st # other_client_prng_keys st))
     \<and> (\<forall>k<length encrypted. \<forall>v<length (client_statuses im).
          GetNeighbor (secret_sharing_graph im) (int u) (int k) = Inr (int v) \<longrightarrow> v \<noteq> u \<longrightarrow>
            (encrypted ! k \<noteq> [] \<longleftrightarrow> shares_keys (client_statuses im ! v))
            \<and> (shares_keys (client_statuses im ! v) \<longrightarrow> k < length (other_client_prng_keys st)
               \<and> ComputeSharedSecret c (kp u) (pairwise_public_keys im ! v) = Inr (other_client_prng_keys st ! k)))"

text \<open>
  What the reconstruction recovers: the self keys of the included clients, and the private keys
  of exactly those that shared keys and sent no input.
\<close>

definition recovers ::
  "SecAggServerProtocolImpl \<Rightarrow> (nat \<Rightarrow> EcdhKeyAgreement) \<Rightarrow> (nat \<Rightarrow> bytes) \<Rightarrow> ShamirReconstructionResult \<Rightarrow> bool" where
  "recovers im kp self r \<longleftrightarrow>
     (\<forall>u<length (client_statuses im). in_sum (client_statuses im ! u) \<longrightarrow> map_of (self_keys r) u = Some (self u))
     \<and> distinct (map fst (aborted_client_key_agreements r))
     \<and> fst ` set (aborted_client_key_agreements r)
         = {j. j < length (client_statuses im) \<and> client_statuses im ! j = DEAD_AFTER_SHARE_KEYS_RECEIVED}
     \<and> (\<forall>item\<in>set (aborted_client_key_agreements r). ec_private (snd item) = ec_private (kp (fst item)))"

definition shared_key :: "crypto \<Rightarrow> SecAggServerProtocolImpl \<Rightarrow> (nat \<Rightarrow> EcdhKeyAgreement) \<Rightarrow> nat \<Rightarrow> nat \<Rightarrow> bytes" where
  "shared_key c im kp u v = (case ComputeSharedSecret c (kp u) (pairwise_public_keys im ! v) of Inl _ \<Rightarrow> [] | Inr key \<Rightarrow> key)"

lemma shared_key_sym:
  assumes "ecdh_law c" "key_holders c im kp"
    and "u < length (client_statuses im)" "shares_keys (client_statuses im ! u)"
    and "v < length (client_statuses im)" "shares_keys (client_statuses im ! v)"
  shows "ComputeSharedSecret c (kp u) (pairwise_public_keys im ! v) = Inr (shared_key c im kp u v)"
    and "shared_key c im kp u v = shared_key c im kp v u"
proof -
  have ok: "agreement_ok c (kp u)" "PublicKey c (kp u) = Inr (pairwise_public_keys im ! u)"
      "agreement_ok c (kp v)" "PublicKey c (kp v) = Inr (pairwise_public_keys im ! v)"
    using assms(2-6) by (auto simp: key_holders_def)
  obtain k where "ComputeSharedSecret c (kp u) (pairwise_public_keys im ! v) = Inr k"
      "ComputeSharedSecret c (kp v) (pairwise_public_keys im ! u) = Inr k"
    using ComputeSharedSecret_sym [OF assms(1) ok(1,3,2,4)] by blast
  then show "ComputeSharedSecret c (kp u) (pairwise_public_keys im ! v) = Inr (shared_key c im kp u v)"
    "shared_key c im kp u v = shared_key c im kp v u"
    by (simp_all add: shared_key_def)
qed

lemma recovers_reconstructs:
  assumes "ecdh_law c" "key_holders c im kp" "recovers im kp self r"
  shows "reconstructs c im self (shared_key c im kp) r"
proof -
  have "ComputeSharedSecret c (snd item) (pairwise_public_keys im ! u) = Inr (shared_key c im kp u (fst item))"
    if u: "u < length (client_statuses im)" "in_sum (client_statuses im ! u)"
      and item: "item \<in> set (aborted_client_key_agreements r)" for u item
  proof -
    have j: "fst item < length (client_statuses im)" "shares_keys (client_statuses im ! fst item)"
      using assms(3) item by (auto simp: recovers_def shares_keys_def)
    have us: "shares_keys (client_statuses im ! u)" using u(2) by (simp add: shares_keys_def)
    have "ec_private (snd item) = ec_private (kp (fst item))" using assms(3) item by (simp add: recovers_def)
    then have "ComputeSharedSecret c (snd item) (pairwise_public_keys im ! u)
        = ComputeSharedSecret c (kp (fst item)) (pairwise_public_keys im ! u)"
      by (simp add: ComputeSharedSecret_def split: option.split)
    also have "\<dots> = Inr (shared_key c im kp (fst item) u)" by (rule shared_key_sym(1) [OF assms(1,2) j u(1) us])
    also have "shared_key c im kp (fst item) u = shared_key c im kp u (fst item)"
      by (rule shared_key_sym(2) [OF assms(1,2) j u(1) us])
    finally show ?thesis .
  qed
  then show ?thesis using assms(3) by (simp add: recovers_def reconstructs_def)
qed

section \<open>The masks of a client, by neighbour\<close>

lemma sum_over_neighbors:
  assumes g: "graph_ok g" and u: "u < nat (GetNumNodes g)"
    and F: "\<And>k v. k < nat (GetDegree g) \<Longrightarrow> v < nat (GetNumNodes g) \<Longrightarrow> GetNeighbor g (int u) (int k) = Inr (int v) \<Longrightarrow> F k = G v"
    and Z: "\<And>v. v < nat (GetNumNodes g) \<Longrightarrow> GetNeighborIndex g (int u) (int v) = Inr None \<Longrightarrow> G v = 0"
  shows "(\<Sum>k<nat (GetDegree g). F k) = (\<Sum>v<nat (GetNumNodes g). G v :: int)"
proof -
  define N where "N = {v. v < nat (GetNumNodes g) \<and> GetNeighborIndex g (int u) (int v) \<noteq> Inr None}"
  define idx where "idx v = nat (the (projr (GetNeighborIndex g (int u) (int v))))" for v
  note un = graph_node [OF u]
  have N: "\<exists>k. GetNeighborIndex g (int u) (int v) = Inr (Some k) \<and> k \<in> {0..<GetDegree g} \<and> GetNeighbor g (int u) k = Inr (int v)"
    if "v \<in> N" for v
  proof -
    have v: "v < nat (GetNumNodes g)" "GetNeighborIndex g (int u) (int v) \<noteq> Inr None" using that by (simp_all add: N_def)
    then obtain k where k: "GetNeighborIndex g (int u) (int v) = Inr (Some k)"
      using graph.index_total [OF g un graph_node [OF v(1)]] by (metis option.exhaust)
    then show ?thesis using graph.neighbor_index [OF g un graph_node [OF v(1)]] by blast
  qed
  have "(\<Sum>k<nat (GetDegree g). F k) = (\<Sum>v\<in>N. G v)"
  proof (rule sum.reindex_bij_witness [of _ idx "\<lambda>k. nat (projr (GetNeighbor g (int u) (int k)))"])
    fix k assume "k \<in> {..<nat (GetDegree g)}"
    then have k: "int k \<in> {0..<GetDegree g}" "k < nat (GetDegree g)" by auto
    obtain w where w: "w \<in> {0..<GetNumNodes g}" "GetNeighbor g (int u) (int k) = Inr w"
        "GetNeighborIndex g (int u) w = Inr (Some (int k))"
      using graph.index_neighbor [OF g un k(1)] by blast
    define v where "v = nat w"
    have v: "int v = w" "v < nat (GetNumNodes g)" using w(1) by (auto simp: v_def)
    show "idx (nat (projr (GetNeighbor g (int u) (int k)))) = k" using w v by (simp add: idx_def)
    show "nat (projr (GetNeighbor g (int u) (int k))) \<in> N" using w v by (simp add: N_def)
    show "G (nat (projr (GetNeighbor g (int u) (int k)))) = F k" using F [OF k(2) v(2)] w v by (simp add: v_def)
  next
    fix v assume v: "v \<in> N"
    obtain k where k: "GetNeighborIndex g (int u) (int v) = Inr (Some k)" "k \<in> {0..<GetDegree g}" "GetNeighbor g (int u) k = Inr (int v)"
      using N [OF v] by blast
    then have "int (idx v) = k" by (simp add: idx_def)
    then show "nat (projr (GetNeighbor g (int u) (int (idx v)))) = v" "idx v \<in> {..<nat (GetDegree g)}" using k by auto
  qed
  also have "\<dots> = (\<Sum>v<nat (GetNumNodes g). G v)"
    using Z by (intro sum.mono_neutral_left) (auto simp: N_def)
  finally show ?thesis .
qed

lemma client_masks_by_neighbor:
  assumes g: "graph_ok (secret_sharing_graph im)" "length (client_statuses im) = nat (GetNumNodes (secret_sharing_graph im))"
    and knows: "knows_session c im kp u st encrypted" and len: "int (length encrypted) = sint (r2_number_of_neighbors st)"
    and u: "u < length (client_statuses im)"
  shows "client_masks env st encrypted spec i = mask_at env (session_id st) spec i (self_prng_key st)
    + (\<Sum>v<length (client_statuses im). if shares_keys (client_statuses im ! v)
         then mask_sign (secret_sharing_graph im) u v * mask_at env (session_id st) spec i (shared_key c im kp u v) else 0)"
proof -
  let ?g = "secret_sharing_graph im" and ?h = "mask_at env (session_id st) spec i"
  let ?G = "\<lambda>v. if shares_keys (client_statuses im ! v) then mask_sign ?g u v * ?h (shared_key c im kp u v) else 0"
  have un: "u < nat (GetNumNodes ?g)" using u g(2) by simp
  have n: "length encrypted = nat (GetDegree ?g)" using knows len by (simp add: knows_session_def)
  have self: "GetNeighborIndex ?g (int u) (int u) = Inr (Some (sint (r2_client_id st)))"
    using knows by (simp add: knows_session_def)
  have "(\<Sum>k<nat (GetDegree ?g). neighbor_sign st encrypted k * ?h (other_client_prng_keys st ! k)) = (\<Sum>v<nat (GetNumNodes ?g). ?G v)"
  proof (rule sum_over_neighbors [OF g(1) un])
    fix k v assume k: "k < nat (GetDegree ?g)" and v: "v < nat (GetNumNodes ?g)" and nb: "GetNeighbor ?g (int u) (int k) = Inr (int v)"
    have idx: "GetNeighborIndex ?g (int u) (int v) = Inr (Some (int k))"
      using graph.index_neighbor [OF g(1) graph_node [OF un], of "int k"] k nb by auto
    show "neighbor_sign st encrypted k * ?h (other_client_prng_keys st ! k) = ?G v"
    proof (cases "v = u")
      case True
      then show ?thesis using idx self by (simp add: neighbor_sign_def mask_sign_def)
    next
      case False
      have kn: "encrypted ! k \<noteq> [] \<longleftrightarrow> shares_keys (client_statuses im ! v)"
        "shares_keys (client_statuses im ! v) \<Longrightarrow> shared_key c im kp u v = other_client_prng_keys st ! k"
        using knows k v nb False n g(2) by (auto simp: knows_session_def shared_key_def)
      have "int k \<noteq> sint (r2_client_id st)"
      proof
        assume "int k = sint (r2_client_id st)"
        then have "GetNeighbor ?g (int u) (int k) = Inr (int u)"
          using graph.neighbor_index [OF g(1) graph_node [OF un] graph_node [OF un] self] by simp
        then show False using nb False by simp
      qed
      then show ?thesis using kn idx self by (auto simp: neighbor_sign_def mask_sign_def)
    qed
  next
    fix v assume "GetNeighborIndex ?g (int u) (int v) = Inr None"
    then show "?G v = 0" by (simp add: mask_sign_def)
  qed
  then show ?thesis by (simp add: client_masks_def n g(2))
qed

section \<open>Cancellation\<close>

lemma antisymmetric_sum:
  fixes f :: "nat \<Rightarrow> nat \<Rightarrow> int"
  assumes "\<And>u v. u \<in> A \<Longrightarrow> v \<in> A \<Longrightarrow> f u v = - f v u"
  shows "(\<Sum>u\<in>A. \<Sum>v\<in>A. f u v) = 0"
proof -
  have "(\<Sum>u\<in>A. \<Sum>v\<in>A. f u v) = (\<Sum>u\<in>A. \<Sum>v\<in>A. - f v u)"
    by (intro sum.cong refl assms)
  also have "\<dots> = - (\<Sum>u\<in>A. \<Sum>v\<in>A. f v u)" by (simp add: sum_negf)
  also have "(\<Sum>u\<in>A. \<Sum>v\<in>A. f v u) = (\<Sum>u\<in>A. \<Sum>v\<in>A. f u v)" by (rule sum.swap)
  finally show ?thesis by simp
qed

lemma masks_cancel:
  assumes g: "graph_ok (secret_sharing_graph im)" "length (client_statuses im) = nat (GetNumNodes (secret_sharing_graph im))"
    and sym: "\<And>u v. u < length (client_statuses im) \<Longrightarrow> v < length (client_statuses im) \<Longrightarrow> shares_keys (client_statuses im ! u) \<Longrightarrow>
      shares_keys (client_statuses im ! v) \<Longrightarrow> shared u v = shared v u"
  defines "A \<equiv> {u. u < length (client_statuses im) \<and> in_sum (client_statuses im ! u)}"
  shows "(\<Sum>u\<in>A. h (self u) + (\<Sum>v<length (client_statuses im). if shares_keys (client_statuses im ! v)
         then mask_sign (secret_sharing_graph im) u v * h (shared u v) else 0))
    = (\<Sum>u<length (client_statuses im). removed im self shared h u)"
proof -
  let ?n = "length (client_statuses im)" and ?f = "\<lambda>u v. mask_sign (secret_sharing_graph im) u v * h (shared u v)"
  let ?D = "{j. j < ?n \<and> client_statuses im ! j = DEAD_AFTER_SHARE_KEYS_RECEIVED}"
  have split: "(\<Sum>v<?n. if shares_keys (client_statuses im ! v) then ?f u v else 0) = (\<Sum>v\<in>A. ?f u v) + (\<Sum>v\<in>?D. ?f u v)" for u
  proof -
    have "{v \<in> {..<?n}. shares_keys (client_statuses im ! v)} = A \<union> ?D" by (auto simp: A_def shares_keys_def)
    then have "(\<Sum>v<?n. if shares_keys (client_statuses im ! v) then ?f u v else 0) = (\<Sum>v\<in>A \<union> ?D. ?f u v)"
      using sum.inter_filter [of "{..<?n}" "?f u" "\<lambda>v. shares_keys (client_statuses im ! v)"] by simp
    also have "(\<Sum>v\<in>A \<union> ?D. ?f u v) = (\<Sum>v\<in>A. ?f u v) + (\<Sum>v\<in>?D. ?f u v)"
      by (rule sum.union_disjoint) (auto simp: A_def in_sum_def)
    finally show ?thesis .
  qed
  have "?f u v = - ?f v u" if "u \<in> A" "v \<in> A" for u v
    using that mask_sign_antisym [OF g(1), of u v] sym [of u v] g(2) by (auto simp: A_def shares_keys_def)
  then have "(\<Sum>u\<in>A. \<Sum>v\<in>A. ?f u v) = 0" by (rule antisymmetric_sum)
  then have "(\<Sum>u\<in>A. h (self u) + (\<Sum>v<?n. if shares_keys (client_statuses im ! v) then ?f u v else 0))
      = (\<Sum>u\<in>A. h (self u) + (\<Sum>v\<in>?D. ?f u v))"
    by (simp add: split sum.distrib)
  also have "\<dots> = (\<Sum>u\<in>A. removed im self shared h u)" by (intro sum.cong) (auto simp: A_def removed_def)
  also have "\<dots> = (\<Sum>u<?n. removed im self shared h u)"
    by (rule sum.mono_neutral_left) (auto simp: A_def removed_def)
  finally show ?thesis .
qed

section \<open>The sum\<close>

definition summed :: "SecAggServerProtocolImpl \<Rightarrow> nat set" where
  "summed im = {u. u < length (client_statuses im) \<and> in_sum (client_statuses im ! u)}"

text \<open>The server when all unmasking responses are in, with one slot per client in its tables.\<close>

definition ready_to_unmask :: "SecAggServerState \<Rightarrow> bool" where
  "ready_to_unmask st \<longleftrightarrow> state_kind st = PRNG_RUNNING \<and> impl_result (impl st) = None
     \<and> graph_ok (secret_sharing_graph (impl st))
     \<and> length (client_statuses (impl st)) = nat (GetNumNodes (secret_sharing_graph (impl st)))
     \<and> length (pairwise_public_keys (impl st)) = length (client_statuses (impl st))"

text \<open>Client \<open>u\<close>, with its round 2 state, the shares it was given, its input and its answer.\<close>

definition takes_part ::
  "crypto \<Rightarrow> SecAggServerProtocolImpl \<Rightarrow> (nat \<Rightarrow> EcdhKeyAgreement) \<Rightarrow> nat \<Rightarrow> R2State \<Rightarrow> bytes list
    \<Rightarrow> vector_function \<Rightarrow> MaskedInputCollectionResponse \<Rightarrow> bool" where
  "takes_part c im kp u st encrypted x vectors \<longleftrightarrow> knows_session c im kp u st encrypted
     \<and> (\<exists>a input. answers_with c a st encrypted input vectors \<and> input_holds (impl_input_vector_specs im) input x)"

lemma takes_part_contributes:
  assumes "takes_part c im kp u st encrypted x vectors" "mask_env_ok (mask_env.truncate c)"
    and "specs_ok (impl_input_vector_specs im)"
  shows "contributes (impl_input_vector_specs im) vectors (\<lambda>s i. x s i + client_masks (mask_env.truncate c) st encrypted s i)"
    and "int (length encrypted) = sint (r2_number_of_neighbors st)"
proof -
  obtain a input where a: "answers_with c a st encrypted input vectors" "input_holds (impl_input_vector_specs im) input x"
    using assms(1) by (auto simp: takes_part_def)
  have k: "r2_input_vector_specs st = impl_input_vector_specs im"
      "\<forall>spec\<in>set (impl_input_vector_specs im).
          keys_drawn (mask_env.truncate c) (session_id st) spec (self_prng_key st # other_client_prng_keys st)"
    using assms(1) by (simp_all add: takes_part_def knows_session_def)
  show "contributes (impl_input_vector_specs im) vectors (\<lambda>s i. x s i + client_masks (mask_env.truncate c) st encrypted s i)"
    unfolding contributes_def
    using answers_with_checked [OF a(1) assms(2)] k a(2) assms(3) pmap_holds [OF assms(3)] by auto
  obtain masks v where "HandleMaskedInputCollectionRequest c a st encrypted = Inr (Inr (masks, v))"
    using a(1) by (auto simp: answers_with_def)
  from HandleMaskedInputCollectionRequest_masks(2) [OF this assms(2)]
  show "int (length encrypted) = sint (r2_number_of_neighbors st)" using k assms(3) by simp
qed

lemma common_key_known:
  assumes "knows_session c im kp u st encrypted" "int (length encrypted) = sint (r2_number_of_neighbors st)"
    and g: "graph_ok (secret_sharing_graph im)" "length (client_statuses im) = nat (GetNumNodes (secret_sharing_graph im))"
    and u: "u < length (client_statuses im)" "in_sum (client_statuses im ! u)"
  shows "common_keys im (shared_key c im kp) u
      {j. j < length (client_statuses im) \<and> client_statuses im ! j = DEAD_AFTER_SHARE_KEYS_RECEIVED} \<subseteq> set (other_client_prng_keys st)"
proof
  let ?g = "secret_sharing_graph im"
  fix key assume "key \<in> common_keys im (shared_key c im kp) u
      {j. j < length (client_statuses im) \<and> client_statuses im ! j = DEAD_AFTER_SHARE_KEYS_RECEIVED}"
  then obtain j where j: "j < length (client_statuses im)" "client_statuses im ! j = DEAD_AFTER_SHARE_KEYS_RECEIVED"
      "AreNeighbors ?g (int u) (int j) = Inr True" "key = shared_key c im kp u j"
    by (auto simp: common_keys_def)
  have un: "int u \<in> {0..<GetNumNodes ?g}" and jn: "int j \<in> {0..<GetNumNodes ?g}" using u(1) j(1) g(2) by auto
  obtain r where r: "GetNeighborIndex ?g (int u) (int j) = Inr r" using graph.index_total [OF g(1) un jn] by blast
  then obtain k where k: "r = Some k" using graph.are_index [OF g(1) un jn r] j(3) by auto
  have nb: "k \<in> {0..<GetDegree ?g}" "GetNeighbor ?g (int u) (int (nat k)) = Inr (int j)"
    using graph.neighbor_index [OF g(1) un jn] r k by auto
  have "nat k < length encrypted" using nb(1) assms(1,2) by (auto simp: knows_session_def)
  moreover have "j \<noteq> u" "shares_keys (client_statuses im ! j)" using j(2) u(2) by (auto simp: in_sum_def shares_keys_def)
  ultimately have "nat k < length (other_client_prng_keys st)"
      "ComputeSharedSecret c (kp u) (pairwise_public_keys im ! j) = Inr (other_client_prng_keys st ! nat k)"
    using assms(1) nb(2) j(1) unfolding knows_session_def by blast+
  then show "key \<in> set (other_client_prng_keys st)" by (simp add: j(4) shared_key_def)
qed

lemma needed_keys_drawn:
  assumes g: "graph_ok (secret_sharing_graph im)" "length (client_statuses im) = nat (GetNumNodes (secret_sharing_graph im))"
    and part: "\<And>u. u \<in> summed im \<Longrightarrow> knows_session c im kp u (clients u) (encs u)
      \<and> int (length (encs u)) = sint (r2_number_of_neighbors (clients u))"
    and sid: "impl_session_id im = Some sid" and spec: "spec \<in> set (impl_input_vector_specs im)"
    and key: "key \<in> needed_keys im (\<lambda>u. self_prng_key (clients u)) (shared_key c im kp)"
  shows "key_masks (mask_env.truncate c) sid spec key \<noteq> None"
proof -
  let ?J = "{j. j < length (client_statuses im) \<and> client_statuses im ! j = DEAD_AFTER_SHARE_KEYS_RECEIVED}"
  obtain u where u: "u < length (client_statuses im)" "in_sum (client_statuses im ! u)"
      "key = self_prng_key (clients u) \<or> key \<in> common_keys im (shared_key c im kp) u ?J"
    using key by (auto simp: needed_keys_def)
  then have p: "knows_session c im kp u (clients u) (encs u)"
      "int (length (encs u)) = sint (r2_number_of_neighbors (clients u))"
    using part [of u] by (auto simp: summed_def)
  have "key \<in> set (self_prng_key (clients u) # other_client_prng_keys (clients u))"
    using common_key_known [OF p g u(1,2)] u(3) by auto
  moreover have "session_id (clients u) = sid"
      "keys_drawn (mask_env.truncate c) (session_id (clients u)) spec (self_prng_key (clients u) # other_client_prng_keys (clients u))"
    using p(1) sid spec by (auto simp: knows_session_def)
  ultimately show ?thesis unfolding keys_drawn_def by blast
qed

lemma totals_of_clients:
  "distinct us \<Longrightarrow> totals (map f us) = (\<lambda>s i. \<Sum>u\<in>set us. f u s i)"
  by (simp add: totals_def o_def sum_list_distinct_conv_sum_set fun_eq_iff)

lemma masked_sum_minus_removed:
  assumes g: "graph_ok (secret_sharing_graph im)" "length (client_statuses im) = nat (GetNumNodes (secret_sharing_graph im))"
    and keys: "ecdh_law c" "key_holders c im kp" and sid: "impl_session_id im = Some sid"
    and part: "\<And>u. u \<in> summed im \<Longrightarrow> knows_session c im kp u (clients u) (encs u)
      \<and> int (length (encs u)) = sint (r2_number_of_neighbors (clients u))"
  shows "(\<Sum>u\<in>summed im. x u s i + client_masks env (clients u) (encs u) s i)
      - (\<Sum>u<length (client_statuses im). removed im (\<lambda>u. self_prng_key (clients u)) (shared_key c im kp) (mask_at env sid s i) u)
    = (\<Sum>u\<in>summed im. x u s i)"
proof -
  let ?h = "mask_at env sid s i"
  have "client_masks env (clients u) (encs u) s i = ?h (self_prng_key (clients u))
      + (\<Sum>v<length (client_statuses im). if shares_keys (client_statuses im ! v)
           then mask_sign (secret_sharing_graph im) u v * ?h (shared_key c im kp u v) else 0)" if "u \<in> summed im" for u
  proof -
    have u: "u < length (client_statuses im)" and "session_id (clients u) = sid"
      using that part [OF that] sid by (auto simp: summed_def knows_session_def)
    then show ?thesis
      using client_masks_by_neighbor [OF g conjunct1 [OF part [OF that]] conjunct2 [OF part [OF that]] u, of env s i]
      by (simp only:)
  qed
  then have "(\<Sum>u\<in>summed im. client_masks env (clients u) (encs u) s i)
      = (\<Sum>u<length (client_statuses im). removed im (\<lambda>u. self_prng_key (clients u)) (shared_key c im kp) ?h u)"
    using masks_cancel [OF g, of "shared_key c im kp" ?h "\<lambda>u. self_prng_key (clients u)"] shared_key_sym(2) [OF keys]
    by (simp add: summed_def)
  then show ?thesis by (simp add: sum.distrib)
qed

lemma pmap_lookup:
  assumes "specs_ok specs" "spec \<in> set specs"
  shows "\<exists>v. map_of (pmap specs f) (spec_name spec) = Some v \<and> GetAsUint64Vector v = Inr (vec spec f)"
  using map_of_specs [OF assms, of "\<lambda>spec. packed_vec spec f"] packed_vec_ok(6) [OF specs_okD [OF assms]]
  by (simp add: pmap_def)

text \<open>
  C1. The result is the sum of the inputs. Take a server that has received the masked inputs of the
  clients \<open>us\<close>, in any order and with any interleaving of the tasks of round 2, then the unmasking
  responses, and that reconstructs the keys of the clients as they are; let each of the clients \<open>us\<close> have
  computed its answer from its own keys and the shares the server gave it. Then the PRNG stage starts, and
  whatever order its tasks finish in, it completes with a vector for every specification whose
  elements are the sums of the elements of the inputs of \<open>us\<close> modulo the modulus: every self mask and
  every pairwise mask, also those shared with clients that dropped out, is gone.
\<close>

theorem aggregation_correct:
  assumes "ecdh_law c" "mask_env_ok (mask_env.truncate c)" "ready_to_unmask st" "key_holders c (impl st) kp"
    and "\<And>u. u \<in> set us \<Longrightarrow> takes_part c (impl st) kp u (clients u) (encs u) (x u) (vectors u)"
    and "us \<noteq> []" "distinct us" "set us = summed (impl st)"
    and "round2_start (im0\<lparr>async_round_2 := True\<rparr>)" "round2_collects im0 (map vectors us) im2"
    and "masked_input (impl st) = masked_input im2" "impl_input_vector_specs (impl st) = impl_input_vector_specs im0"
    and "HandleShamirReconstruction c (impl st) = Inr r" "recovers (impl st) kp (\<lambda>u. self_prng_key (clients u)) r"
  shows "\<exists>st1 initial tasks. EnterState c st = Inr st1 \<and> prng_tasks st1 = Some (initial, tasks)
    \<and> (\<forall>order. mset order = mset tasks \<longrightarrow> (\<exists>st2 result. prng_done (mask_env.truncate c) order st1 = Inr st2
         \<and> completion_status st2 = Some (Inr ()) \<and> impl_result (impl st2) = Some result
         \<and> (\<forall>spec\<in>set (impl_input_vector_specs (impl st)). \<exists>v. map_of result (spec_name spec) = Some v
              \<and> GetAsUint64Vector v = Inr (vec spec (\<lambda>s i. \<Sum>u\<in>set us. x u s i)))))"
proof -
  let ?im = "impl st" and ?env = "mask_env.truncate c"
  let ?specs = "impl_input_vector_specs ?im" and ?self = "\<lambda>u. self_prng_key (clients u)"
  let ?f = "\<lambda>s i. \<Sum>u\<in>set us. x u s i + client_masks ?env (clients u) (encs u) s i"
  have specs: "specs_ok ?specs" using assms(9,12) by (simp add: round2_start_def)
  have g: "graph_ok (secret_sharing_graph ?im)" "length (client_statuses ?im) = nat (GetNumNodes (secret_sharing_graph ?im))"
      "length (pairwise_public_keys ?im) = length (client_statuses ?im)"
    and st: "state_kind st = PRNG_RUNNING" "impl_result ?im = None"
    using assms(3) by (simp_all add: ready_to_unmask_def)
  note part = takes_part_contributes [OF assms(5) assms(2) specs]
  have knows: "knows_session c ?im kp u (clients u) (encs u) \<and> int (length (encs u)) = sint (r2_number_of_neighbors (clients u))"
    if "u \<in> summed ?im" for u
    using assms(5) [of u] part(2) [of u] that assms(8) by (simp add: takes_part_def)
  obtain sid where sid: "impl_session_id ?im = Some sid"
    using knows [of "hd us"] hd_in_set [OF assms(6)] assms(8) by (auto simp: knows_session_def)
  have "list_all2 (contributes ?specs) (map vectors us) (map (\<lambda>u s i. x u s i + client_masks ?env (clients u) (encs u) s i) us)"
    using part(1) by (simp add: list.rel_map list.rel_refl_strong)
  from round2_collects_total [OF assms(9,10)] this
  have "masked_input im2 = Some (vmap ?specs (totals (map (\<lambda>u s i. x u s i + client_masks ?env (clients u) (encs u) s i) us)))"
    using assms(12) by simp
  then have m: "masked_input ?im = Some (vmap ?specs ?f)"
    using assms(11) by (simp add: totals_of_clients [OF assms(7)])
  note r = recovers_reconstructs [OF assms(1,4,14)]
  have res: "(\<lambda>s i. ?f s i - (\<Sum>u<length (client_statuses ?im). removed ?im ?self (shared_key c ?im kp) (mask_at ?env sid s i) u))
      = (\<lambda>s i. \<Sum>u\<in>set us. x u s i)"
    using masked_sum_minus_removed [OF g(1,2) assms(1,4) sid knows, of x] assms(8) by (simp add: fun_eq_iff)
  have drawn: "key_masks ?env sid spec key \<noteq> None"
    if "spec \<in> set ?specs" "key \<in> needed_keys ?im ?self (shared_key c ?im kp)" for spec key
    by (rule needed_keys_drawn [OF g(1,2) knows sid that])
  obtain st1 initial tasks where st1: "EnterState c st = Inr st1" "prng_tasks st1 = Some (initial, tasks)"
      "\<forall>order. mset order = mset tasks \<longrightarrow> (\<exists>st2. prng_done ?env order st1 = Inr st2 \<and> completion_status st2 = Some (Inr ())
         \<and> impl_result (impl st2) = Some (pmap ?specs (\<lambda>s i. \<Sum>u\<in>set us. x u s i)))"
    using prng_stage_result [OF g assms(2) specs sid m st(1) refl st(2) assms(13) r drawn] unfolding res by blast
  have "\<forall>spec\<in>set ?specs. \<exists>v. map_of (pmap ?specs (\<lambda>s i. \<Sum>u\<in>set us. x u s i)) (spec_name spec) = Some v
      \<and> GetAsUint64Vector v = Inr (vec spec (\<lambda>s i. \<Sum>u\<in>set us. x u s i))"
    using pmap_lookup [OF specs] by blast
  then show ?thesis using st1 by blast
qed

text \<open>
  Three clients on the complete graph with private keys 1, 2 and 3; the third drops out after it
  has shared its keys, the inputs of the others are 3 and 6 modulo 8.
\<close>

definition sample_spec :: InputVectorSpecification where
  "sample_spec = \<lparr>spec_name = [1], spec_length = 1, spec_modulus = 8\<rparr>"

definition sample_kp :: "nat \<Rightarrow> EcdhKeyAgreement" where
  "sample_kp u = \<lparr>ec_private = u + 1, ec_public = Some (u + 1)\<rparr>"

definition sample_client :: "nat \<Rightarrow> R2State" where
  "sample_client u = \<lparr>r2_client_id = of_nat u, r2_minimum_surviving = 2, r2_number_of_alive_neighbors = 3,
     r2_number_of_neighbors = 3, r2_input_vector_specs = [sample_spec], r2_other_client_states = replicate 3 kAlive,
     other_client_enc_keys = replicate 3 (replicate 32 0),
     other_client_prng_keys = map (\<lambda>v. rev (le_bytes 32 ((u + 1) * (v + 1)))) [0, 1, 2],
     own_self_key_share = \<lparr>share_data = []\<rparr>, self_prng_key = replicate 32 0, session_id = replicate 32 0\<rparr>"

definition sample_shares :: "bytes list" where
  "sample_shares = replicate 3 (replicate 29 0)"

definition sample_impl :: "SecAggUnpackedVectorMap option \<Rightarrow> SecAggServerProtocolImpl" where
  "sample_impl m = (new_AesSecAggServerProtocolImpl (Complete \<lparr>cg_num_nodes = 3, cg_threshold = 2\<rparr>) 2 [sample_spec]
        [UNMASKING_RESPONSE_RECEIVED, UNMASKING_RESPONSE_RECEIVED, DEAD_AFTER_SHARE_KEYS_RECEIVED] False)
      \<lparr>pairwise_public_keys := map (\<lambda>u. 2 # rev (le_bytes 32 (u + 1))) [0, 1, 2],
       impl_session_id := Some (replicate 32 0), masked_input := m,
       pairwise_shamir_share_table := Some [(2, [\<lparr>share_data = replicate 35 0 @ [3]\<rparr>, \<lparr>share_data = replicate 35 0 @ [3]\<rparr>, \<lparr>share_data = []\<rparr>])],
       self_shamir_share_table := Some (map (\<lambda>u. (u, [\<lparr>share_data = replicate 36 0\<rparr>, \<lparr>share_data = replicate 36 0\<rparr>, \<lparr>share_data = []\<rparr>])) [0, 1])\<rparr>"

abbreviation sample_unmasking :: "SecAggUnpackedVectorMap option \<Rightarrow> SecAggServerState" where
  "sample_unmasking m \<equiv> new_SecAggServerState 0 1 0 PRNG_RUNNING (sample_impl m)"

lemma sample_impl_simps:
  "secret_sharing_graph (sample_impl m) = Complete \<lparr>cg_num_nodes = 3, cg_threshold = 2\<rparr>"
  "client_statuses (sample_impl m) = [UNMASKING_RESPONSE_RECEIVED, UNMASKING_RESPONSE_RECEIVED, DEAD_AFTER_SHARE_KEYS_RECEIVED]"
  "pairwise_public_keys (sample_impl m) = map (\<lambda>u. 2 # rev (le_bytes 32 (u + 1))) [0, 1, 2]"
  "impl_session_id (sample_impl m) = Some (replicate 32 0)" "masked_input (sample_impl m) = m"
  "impl_input_vector_specs (sample_impl m) = [sample_spec]" "impl_result (sample_impl m) = None"
  by (simp_all add: sample_impl_def new_AesSecAggServerProtocolImpl_def)

lemma sample_spec_ok: "specs_ok [sample_spec]"
  by (simp add: specs_ok_def spec_ok_def sample_spec_def modulus_ok_def kMaxModulus_def bit_width_8)

lemma sample_keys_drawn: "keys_drawn env sid sample_spec keys"
  by (simp add: keys_drawn_def key_masks_def sample_spec_def bit_width_8 Let_def)

lemma less_three: "(j :: nat) < Suc (Suc (Suc 0)) \<longleftrightarrow> j = 0 \<or> j = Suc 0 \<or> j = 2"
  by auto

lemma sample_reconstruct:
  "Reconstruct new_ShamirSecretSharing 2
      [\<lparr>share_data = replicate 35 0 @ [3]\<rparr>, \<lparr>share_data = replicate 35 0 @ [3]\<rparr>, \<lparr>share_data = []\<rparr>] 32
    = Inr (replicate 31 0 @ [3], snd (projr (Reconstruct new_ShamirSecretSharing 2
      [\<lparr>share_data = replicate 35 0 @ [3]\<rparr>, \<lparr>share_data = replicate 35 0 @ [3]\<rparr>, \<lparr>share_data = []\<rparr>] 32)))"
  "CreateFromShares [\<lparr>share_data = replicate 36 0\<rparr>, \<lparr>share_data = replicate 36 0\<rparr>, \<lparr>share_data = []\<rparr>] 2 = Inr (replicate 32 0)"
  by code_simp+


lemma sample_secrets:
  "ComputeSharedSecret sample_crypto (sample_kp u) (2 # rev (le_bytes 32 (v + 1))) = Inr (rev (le_bytes 32 ((u + 1) * (v + 1))))"
  if "u < 3" "v < 3"
proof -
  have "v + 1 < 256 ^ 32" using that(2) by simp
  then show ?thesis
    by (simp add: ComputeSharedSecret_def sample_crypto_def sample_kp_def public_key_size_ok_def size_defs be_val_def
        le_val_le_bytes del: le_bytes.simps)
qed

lemma sample_key_holders: "key_holders sample_crypto (sample_impl m) sample_kp"
proof -
  have "u < 3 \<Longrightarrow> u + 1 < 256 ^ 32" for u :: nat by simp
  then show ?thesis
    by (simp add: key_holders_def sample_impl_simps agreement_ok_def sample_kp_def sample_crypto_def PublicKey_def
        size_defs Let_def All_less_Suc numeral_3_eq_3 del: le_bytes.simps)
qed


definition quiet :: AsyncAbort where "quiet = \<lparr>Signalled = \<lambda>_. False, Message = []\<rparr>"

lemma sample_graph:
  "u < 3 \<Longrightarrow> v < 3 \<Longrightarrow> GetNeighborIndex (Complete \<lparr>cg_num_nodes = 3, cg_threshold = 2\<rparr>) (int u) (int v) = Inr (Some (int v))"
  "u < 3 \<Longrightarrow> k < 3 \<Longrightarrow> GetNeighbor (Complete \<lparr>cg_num_nodes = 3, cg_threshold = 2\<rparr>) (int u) (int k) = Inr (int k)"
  by (simp_all add: complete_GetNeighborIndex_def complete_GetNeighbor_def complete_IsValidNode_def)

lemma sample_knows:
  assumes "u < 2"
  shows "knows_session sample_crypto (sample_impl m) sample_kp u (sample_client u) sample_shares"
proof -
  have keys: "ComputeSharedSecret sample_crypto (sample_kp u) (pairwise_public_keys (sample_impl m) ! v)
      = Inr (other_client_prng_keys (sample_client u) ! v)" if "v < 3" for v
  proof -
    have "v = 0 \<or> v = 1 \<or> v = 2" using that by auto
    then show ?thesis
      using sample_secrets [of u v] assms by (auto simp: sample_impl_simps sample_client_def simp del: le_bytes.simps)
  qed
  have "sint (r2_client_id (sample_client u)) = int u" using assms by (cases u) (auto simp: sample_client_def)
  then show ?thesis
    using assms keys sample_graph [of u] sample_keys_drawn
    by (simp add: knows_session_def sample_impl_simps sample_client_def sample_shares_def in_sum_def shares_keys_def
        All_less_Suc)
qed


lemma sample_input: "input_holds [sample_spec] [([1], packed_vec sample_spec x)] x"
  using packed_vec_ok [OF specs_okD [OF sample_spec_ok, of sample_spec], of x]
  by (simp add: input_holds_def ValidateInput_def sample_spec_def)

lemma sample_answers:
  assumes "u < 2"
  shows "\<exists>vectors. answers_with sample_crypto quiet (sample_client u) sample_shares [([1], packed_vec sample_spec x)] vectors"
proof -
  let ?keys = "other_client_prng_keys (sample_client u)" and ?env = "mask_env.truncate sample_crypto"
  have u: "u = 0 \<or> u = 1" using assms by auto
  have env: "mask_env_ok ?env" by (simp add: mask_env_ok_def sample_crypto_def mask_env.defs)
  have masks: "MapOfMasks ?env ka kb [sample_spec] sid (\<lambda>_. False) = Inr (Some (pmap [sample_spec] (masks_of ?env sid ka kb)))"
    for ka kb sid
    using MapOfMasks_pmap [OF env sample_spec_ok] sample_keys_drawn by auto
  have dec: "Decrypt sample_crypto (replicate 32 0) (replicate 29 0) = Inr [0]"
    by (simp add: Decrypt_def sample_crypto_def size_defs)
  have parse: "ParsePair sample_crypto [0] = Some ([], [])" by (simp add: sample_crypto_def)
  have "\<exists>g v. HandleMaskedInputCollectionRequest sample_crypto quiet (sample_client u) sample_shares
      = Inr (Inr (pmap [sample_spec] g, v))"
    using u
    by (auto simp: masks HandleMaskedInputCollectionRequest_def sample_client_def sample_shares_def quiet_def
        masked_input_step_def dec parse push_shares_def numeral_3_eq_3)
  then obtain g v where g: "HandleMaskedInputCollectionRequest sample_crypto quiet (sample_client u) sample_shares
      = Inr (Inr (pmap [sample_spec] g, v))" by blast
  obtain vectors l where "SendMaskedInput [([1], packed_vec sample_spec x)] (pmap [sample_spec] g) l
      = Inr (Send (C2S_masked_input_response vectors) l)"
    using SendMaskedInput_vectors [OF sample_spec_ok sample_input, of x g] by blast
  then show ?thesis using g by (auto simp: answers_with_def)
qed


lemma sample_shamir:
  "\<exists>r. HandleShamirReconstruction sample_crypto (sample_impl m) = Inr r
     \<and> recovers (sample_impl m) sample_kp (\<lambda>u. self_prng_key (sample_client u)) r"
proof -
  let ?r = "\<lparr>aborted_client_key_agreements = [(2, \<lparr>ec_private = 3, ec_public = None\<rparr>)],
     self_keys = [(0, replicate 32 0), (1, replicate 32 0)]\<rparr>"
  have key: "CreateFromPrivateKey sample_crypto (replicate 31 0 @ [3]) = Inr \<lparr>ec_private = 3, ec_public = None\<rparr>"
    using le_val_le_bytes [of 31 0]
    by (simp add: CreateFromPrivateKey_def sample_crypto_def size_defs Let_def be_val_def le_bytes_0)
  obtain t where t: "Reconstruct new_ShamirSecretSharing 2
      [\<lparr>share_data = replicate 35 0 @ [3]\<rparr>, \<lparr>share_data = replicate 35 0 @ [3]\<rparr>, \<lparr>share_data = []\<rparr>] 32
    = Inr (replicate 31 0 @ [3], t)"
    using sample_reconstruct(1) by blast
  have "HandleShamirReconstruction sample_crypto (sample_impl m) = Inr ?r"
    by (simp add: HandleShamirReconstruction_def sample_impl_def new_AesSecAggServerProtocolImpl_def
        minimum_surviving_neighbors_for_reconstruction_def reconstruct_pairwise_def reconstruct_self_def
        EcdhPrivateKey_kSize_def t [simplified] key [simplified] sample_reconstruct(2) [simplified])
  moreover have "recovers (sample_impl m) sample_kp (\<lambda>u. self_prng_key (sample_client u)) ?r"
    by (auto simp: recovers_def sample_impl_simps in_sum_def sample_client_def sample_kp_def less_three)
  ultimately show ?thesis by blast
qed


theorem aggregation_correct_witness:
  "\<exists>m st1 initial tasks st2 result v. EnterState sample_crypto (sample_unmasking m) = Inr st1
    \<and> prng_tasks st1 = Some (initial, tasks)
    \<and> prng_done (mask_env.truncate sample_crypto) (rev tasks) st1 = Inr st2 \<and> impl_result (impl st2) = Some result
    \<and> map_of result [1] = Some v \<and> GetAsUint64Vector v = Inr [1]"
proof -
  let ?x = "\<lambda>u. \<lambda>s i. if u = (0 :: nat) then 3 else 6 :: int"
  let ?im0 = "SetupMaskedInputCollection (sample_impl None)"
  have "\<forall>u. \<exists>ws. u < 2 \<longrightarrow> answers_with sample_crypto quiet (sample_client u) sample_shares [([1], packed_vec sample_spec (?x u))] ws"
    using sample_answers by meson
  then obtain vectors where v: "\<And>u. u < 2 \<Longrightarrow>
      answers_with sample_crypto quiet (sample_client u) sample_shares [([1], packed_vec sample_spec (?x u))] (vectors u)"
    by metis
  have part: "takes_part sample_crypto (sample_impl m) sample_kp u (sample_client u) sample_shares (?x u) (vectors u)"
    if "u \<in> set [0, 1]" for u m
  proof -
    have "u < 2" using that by auto
    then show ?thesis
      unfolding takes_part_def sample_impl_simps
      using sample_knows [of u m] v [of u] sample_input [of "?x u"] by blast
  qed
  have env: "mask_env_ok (mask_env.truncate sample_crypto)" by (simp add: mask_env_ok_def sample_crypto_def mask_env.defs)
  have start: "round2_start (?im0\<lparr>async_round_2 := True\<rparr>)"
    using sample_spec_ok by (simp add: round2_start_def SetupMaskedInputCollection_def sample_impl_def new_AesSecAggServerProtocolImpl_def)
  let ?gs = "map (\<lambda>u s i. ?x u s i + client_masks (mask_env.truncate sample_crypto) (sample_client u) sample_shares s i) [0, 1]"
  have "list_all2 (contributes [sample_spec]) (map vectors [0, 1]) ?gs"
    using takes_part_contributes(1) [OF part [of 0] env] takes_part_contributes(1) [OF part [of 1] env] sample_spec_ok
    by (simp add: sample_impl_simps)
  then obtain im2 where im2: "round2_collects ?im0 (map vectors [0, 1]) im2"
    using synchronous_run [of "[sample_spec]" "map vectors [0, 1]" ?gs ?im0 "\<lambda>_ _. 0"] sample_spec_ok
    by (auto simp: round2_collects_def SetupMaskedInputCollection_def sample_impl_def
        new_AesSecAggServerProtocolImpl_def InitializeVectorMap_vmap)
  let ?m = "masked_input im2"
  obtain r where r: "HandleShamirReconstruction sample_crypto (sample_impl ?m) = Inr r"
      "recovers (sample_impl ?m) sample_kp (\<lambda>u. self_prng_key (sample_client u)) r"
    using sample_shamir by blast
  have ready: "ready_to_unmask (sample_unmasking ?m)"
    by (simp add: ready_to_unmask_def new_SecAggServerState_def sample_impl_simps complete_ok_def)
  have us: "set [0, 1] = summed (sample_impl ?m)"
    by (auto simp: summed_def sample_impl_simps in_sum_def less_three)
  have im: "impl (sample_unmasking ?m) = sample_impl ?m" by (simp add: new_SecAggServerState_def)
  obtain st1 initial tasks where st1: "EnterState sample_crypto (sample_unmasking ?m) = Inr st1"
      "prng_tasks st1 = Some (initial, tasks)"
      "\<forall>order. mset order = mset tasks \<longrightarrow> (\<exists>st2 result. prng_done (mask_env.truncate sample_crypto) order st1 = Inr st2
         \<and> completion_status st2 = Some (Inr ()) \<and> impl_result (impl st2) = Some result
         \<and> (\<forall>spec\<in>set [sample_spec]. \<exists>v. map_of result (spec_name spec) = Some v
              \<and> GetAsUint64Vector v = Inr (vec spec (\<lambda>s i. \<Sum>u\<in>set [0, 1]. ?x u s i))))"
    using aggregation_correct [OF sample_crypto_laws(1) env ready, unfolded im, OF sample_key_holders part _ _ us start im2 _ _ r]
    by (auto simp: sample_impl_simps SetupMaskedInputCollection_def)
  have "vec sample_spec (\<lambda>s i. \<Sum>u\<in>set [0, 1]. ?x u s i) = [1]" by (simp add: vec_def sample_spec_def)
  then obtain st2 result v where "prng_done (mask_env.truncate sample_crypto) (rev tasks) st1 = Inr st2"
      "impl_result (impl st2) = Some result" "map_of result [1] = Some v" "GetAsUint64Vector v = Inr [1]"
    using st1(3) [rule_format, of "rev tasks"] by (auto simp: sample_spec_def)
  with st1(1,2) show ?thesis by blast
qed

end
