(* ===== verification/Key_Recovery.thy ===== *)
theory Key_Recovery
  imports Aggregation
begin

text \<open>
  Round 3 of the server: the share tables that \<open>SetUpShamirSharesTables\<close> prepares, filled by the
  unmasking responses of the clients, hold at every moment a part of the shares that were dealt,
  and once every row has a threshold of them the reconstruction recovers the keys.
\<close>

section \<open>Rows hold shares that were dealt\<close>

definition rows_dealt :: "(nat \<Rightarrow> ShamirShare list) \<Rightarrow> share_table \<Rightarrow> bool" where
  "rows_dealt dealt table \<longleftrightarrow> (\<forall>(u, row)\<in>set table. subset_of_shares row (dealt u))"

lemma subset_of_shares_update:
  assumes "subset_of_shares row shares" "k < length row"
  shows "subset_of_shares (row[k := \<lparr>share_data = share_data (shares ! k)\<rparr>]) shares"
  using assms by (auto simp: subset_of_shares_def list_all2_conv_all_nth nth_list_update)

lemma set_share_dealt:
  assumes "set_share u k d table = Inr table'" "rows_dealt dealt table" "d = share_data (dealt u ! k)"
  shows "rows_dealt dealt table' \<and> map fst table' = map fst table"
  using assms(1,2)
proof (induction table arbitrary: table')
  case (Cons entry table)
  obtain v row where entry: "entry = (v, row)" by (cases entry)
  show ?case
  proof (cases "v = u")
    case True
    then have "k < length row" "table' = (u, row[k := \<lparr>share_data = d\<rparr>]) # table"
      using Cons.prems(1) entry by (auto simp: update_at_def failure_iffs split: if_splits)
    then show ?thesis
      using Cons.prems(2) True entry assms(3) subset_of_shares_update by (auto simp: rows_dealt_def)
  next
    case False
    then obtain rest where "set_share u k d table = Inr rest" "table' = (v, row) # rest"
      using Cons.prems(1) entry by (auto simp: failure_iffs)
    then show ?thesis using Cons.IH [of rest] Cons.prems(2) entry by (auto simp: rows_dealt_def)
  qed
qed simp

text \<open>
  A response of client \<open>w\<close> whose shares are the ones it was dealt: by neighbour \<open>v\<close>, at the place that \<open>w\<close>
  has in the list of \<open>v\<close>.
\<close>

definition answers_as_dealt ::
  "SecAggServerProtocolImpl \<Rightarrow> (nat \<Rightarrow> ShamirShare list) \<Rightarrow> (nat \<Rightarrow> ShamirShare list) \<Rightarrow> nat
    \<Rightarrow> NoiseOrPrfKeyShare list \<Rightarrow> bool" where
  "answers_as_dealt im pdealt sdealt w shares \<longleftrightarrow>
     (\<forall>i<impl_number_of_neighbors im. case (impl_GetNeighbor im w i, at_index shares i) of
        (Inr v, Inr share) \<Rightarrow> (case GetNeighborIndexOrDie im v w of Inl _ \<Rightarrow> True | Inr k \<Rightarrow>
          (case share of noise_sk_share d \<Rightarrow> d = share_data (pdealt v ! k)
           | prf_sk_share d \<Rightarrow> d = share_data (sdealt v ! k) | ONEOF_SHARES_NOT_SET \<Rightarrow> True))
      | _ \<Rightarrow> True)"

text \<open>The two tables of a state, the clients that have a row, and what the rows hold.\<close>

definition tables_dealt ::
  "(nat \<Rightarrow> ShamirShare list) \<Rightarrow> (nat \<Rightarrow> ShamirShare list) \<Rightarrow> nat list \<times> nat list \<Rightarrow> share_table \<times> share_table \<Rightarrow> bool" where
  "tables_dealt pdealt sdealt ids tables \<longleftrightarrow>
     rows_dealt pdealt (fst tables) \<and> rows_dealt sdealt (snd tables)
     \<and> map fst (fst tables) = fst ids \<and> map fst (snd tables) = snd ids"

lemma store_unmasking_share_dealt:
  assumes "store_unmasking_share im w shares i tables = Inr tables'" "i < impl_number_of_neighbors im"
    and "answers_as_dealt im pdealt sdealt w shares" "tables_dealt pdealt sdealt ids tables"
  shows "tables_dealt pdealt sdealt ids tables'"
proof -
  obtain v k share where v: "impl_GetNeighbor im w i = Inr v" "GetNeighborIndexOrDie im v w = Inr k"
      "at_index shares i = Inr share"
    and t: "(case share of
         noise_sk_share d \<Rightarrow> and_then (set_share v k d (fst tables)) (\<lambda>t. Inr (t, snd tables))
       | prf_sk_share d \<Rightarrow> and_then (set_share v k d (snd tables)) (\<lambda>t. Inr (fst tables, t))
       | ONEOF_SHARES_NOT_SET \<Rightarrow> Inr tables) = Inr tables'"
    using assms(1) unfolding store_unmasking_share_def by (auto simp: failure_iffs)
  have "case share of noise_sk_share d \<Rightarrow> d = share_data (pdealt v ! k)
      | prf_sk_share d \<Rightarrow> d = share_data (sdealt v ! k) | ONEOF_SHARES_NOT_SET \<Rightarrow> True"
    using assms(2,3) v by (auto simp: answers_as_dealt_def)
  then show ?thesis
    using t assms(4) set_share_dealt
    by (cases share) (fastforce simp: failure_iffs tables_dealt_def)+
qed

lemma HandleUnmaskingResponse_dealt:
  assumes "HandleUnmaskingResponse w shares im = Inr im'" "answers_as_dealt im pdealt sdealt w shares"
    and "pairwise_shamir_share_table im = Some pt" "self_shamir_share_table im = Some st"
    and "tables_dealt pdealt sdealt ids (pt, st)"
  shows "\<exists>pt' st'. im' = im\<lparr>pairwise_shamir_share_table := Some pt', self_shamir_share_table := Some st'\<rparr>
    \<and> tables_dealt pdealt sdealt ids (pt', st')"
proof -
  obtain pt' st' where s: "fold_status (store_unmasking_share im w shares) [0..<impl_number_of_neighbors im] (pt, st)
      = Inr (pt', st')" "im' = im\<lparr>pairwise_shamir_share_table := Some pt', self_shamir_share_table := Some st'\<rparr>"
    using assms(1,3,4) unfolding HandleUnmaskingResponse_def by (auto simp: failure_iffs)
  have "tables_dealt pdealt sdealt ids (pt', st')"
  proof (rule fold_status_invariant [OF s(1), where I = "tables_dealt pdealt sdealt ids", OF assms(5)])
    fix i tables tables'
    assume "i \<in> set [0..<impl_number_of_neighbors im]" "tables_dealt pdealt sdealt ids tables"
      "store_unmasking_share im w shares i tables = Inr tables'"
    then show "tables_dealt pdealt sdealt ids tables'"
      using store_unmasking_share_dealt [OF _ _ assms(2)] by simp
  qed
  then show ?thesis using s(2) by blast
qed

section \<open>Runs of round 3\<close>

text \<open>
  From the fresh tables, responses as dealt in any order; between them the statuses of the clients
  change, but never the kind of share their neighbours are asked for.
\<close>

inductive round3_run ::
  "(nat \<Rightarrow> ShamirShare list) \<Rightarrow> (nat \<Rightarrow> ShamirShare list) \<Rightarrow> SecAggServerProtocolImpl \<Rightarrow> SecAggServerProtocolImpl \<Rightarrow> bool"
  for pdealt sdealt im0 where
  starts: "round3_run pdealt sdealt im0 (SetUpShamirSharesTables im0)"
| answers: "round3_run pdealt sdealt im0 im \<Longrightarrow> answers_as_dealt im pdealt sdealt w shares
    \<Longrightarrow> HandleUnmaskingResponse w shares im = Inr im' \<Longrightarrow> round3_run pdealt sdealt im0 im'"
| moves: "round3_run pdealt sdealt im0 im
    \<Longrightarrow> map ClientMaskType statuses = map ClientMaskType (client_statuses im)
    \<Longrightarrow> round3_run pdealt sdealt im0 (im\<lparr>client_statuses := statuses\<rparr>)"

definition masked_by :: "ClientMask \<Rightarrow> SecAggServerProtocolImpl \<Rightarrow> nat list" where
  "masked_by msk im = filter (\<lambda>i. ClientMaskType (client_statuses im ! i) = msk) [0..<length (client_statuses im)]"

lemma masked_by_cong:
  assumes "map ClientMaskType (client_statuses im) = map ClientMaskType (client_statuses im')"
  shows "masked_by msk im = masked_by msk im'"
proof -
  have len: "length (client_statuses im) = length (client_statuses im')" using map_eq_imp_length_eq [OF assms] .
  have "ClientMaskType (client_statuses im ! i) = ClientMaskType (client_statuses im' ! i)"
    if "i < length (client_statuses im')" for i
    using arg_cong [OF assms, of "\<lambda>xs. xs ! i"] that len by simp
  then show ?thesis unfolding masked_by_def len by (intro filter_cong) auto
qed

lemma share_table_dealt:
  assumes "\<forall>u\<in>set (masked_by msk im). length (dealt u) = impl_number_of_neighbors im"
  shows "rows_dealt dealt (share_table_for msk im)" "map fst (share_table_for msk im) = masked_by msk im"
  using assms
  by (auto simp: rows_dealt_def share_table_for_def masked_by_def total_number_of_clients_def subset_of_shares_def
      list_all2_conv_all_nth comp_def)

lemma round3_run_dealt:
  assumes "round3_run pdealt sdealt im0 im"
    and "\<forall>u\<in>set (masked_by kPairwiseMask im0). length (pdealt u) = impl_number_of_neighbors im0"
    and "\<forall>u\<in>set (masked_by kSelfMask im0). length (sdealt u) = impl_number_of_neighbors im0"
  shows "\<exists>pt st. pairwise_shamir_share_table im = Some pt \<and> self_shamir_share_table im = Some st
    \<and> tables_dealt pdealt sdealt (masked_by kPairwiseMask im, masked_by kSelfMask im) (pt, st)
    \<and> secret_sharing_graph im = secret_sharing_graph im0
    \<and> masked_by kPairwiseMask im = masked_by kPairwiseMask im0 \<and> masked_by kSelfMask im = masked_by kSelfMask im0"
  using assms(1)
proof induction
  case starts
  then show ?case
    using share_table_dealt [OF assms(2)] share_table_dealt [OF assms(3)]
    by (simp add: SetUpShamirSharesTables_def tables_dealt_def masked_by_def)
next
  case (answers im w shares im')
  then obtain pt st where t: "pairwise_shamir_share_table im = Some pt" "self_shamir_share_table im = Some st"
      "tables_dealt pdealt sdealt (masked_by kPairwiseMask im, masked_by kSelfMask im) (pt, st)" by blast
  obtain pt' st' where "im' = im\<lparr>pairwise_shamir_share_table := Some pt', self_shamir_share_table := Some st'\<rparr>"
      "tables_dealt pdealt sdealt (masked_by kPairwiseMask im, masked_by kSelfMask im) (pt', st')"
    using HandleUnmaskingResponse_dealt [OF answers.hyps(3,2) t] by blast
  then show ?case using answers.IH by (auto simp: masked_by_def)
next
  case (moves im statuses)
  then show ?case using masked_by_cong [of "im\<lparr>client_statuses := statuses\<rparr>" im] by auto
qed

section \<open>Reconstruction\<close>

text \<open>No accumulation wraps in the rows, read with the caches that one reconstructor carries along.\<close>

fun rows_fit :: "ShamirSecretSharing \<Rightarrow> int \<Rightarrow> ShamirShare list list \<Rightarrow> bool" where
  "rows_fit st t [] = True"
| "rows_fit st t (row # rows) = (reconstruct_fits st t row
     \<and> (case Reconstruct st t row 32 of Inl _ \<Rightarrow> True | Inr (_, st') \<Rightarrow> rows_fit st' t rows))"

definition enough_shares :: "int \<Rightarrow> share_table \<Rightarrow> bool" where
  "enough_shares t table \<longleftrightarrow> (\<forall>(u, row)\<in>set table. t \<le> int (length (filter (\<lambda>s. share_data s \<noteq> []) row)))"

text \<open>Dealing the keys: the private key of \<open>kp u\<close>, and the self key, of every client in question.\<close>

definition deals ::
  "int \<Rightarrow> int \<Rightarrow> nat list \<Rightarrow> (nat \<Rightarrow> bytes) \<Rightarrow> (nat \<Rightarrow> ShamirShare list) \<Rightarrow> bool" where
  "deals t n us key dealt \<longleftrightarrow> (\<forall>u\<in>set us. length (key u) = 32 \<and> (\<exists>draws draws'. Share draws t n (key u) = Inr (dealt u, draws')))"

lemma CreateFromPrivateKey_own:
  assumes "ecdh_law c" "agreement_ok c x" "PrivateKey c x = Inr sk"
  shows "CreateFromPrivateKey c sk = Inr \<lparr>ec_private = ec_private x, ec_public = None\<rparr>"
proof -
  obtain A where A: "EC_KEY_check_key c (ec_private x) A" using assms(2) by (auto simp: agreement_ok_def)
  then obtain bs where "BN_bn2bin_padded c 32 (ec_private x) = Some bs" "length bs = 32"
      "BN_bin2bn c bs = ec_private x" "EC_KEY_set_private_key c (ec_private x)"
    using ecdh_lawD(3,4) [OF assms(1) A] by blast
  then show ?thesis using assms(3) by (simp add: CreateFromPrivateKey_def PrivateKey_def size_defs)
qed

lemma reconstruct_pairwise_rows:
  assumes "ecdh_law c" and "n < 2147483648" and "\<forall>u\<in>set (map fst table). agreement_ok c (kp u) \<and> PrivateKey c (kp u) = Inr (key u)"
    and "deals t n (map fst table) key dealt" "rows_dealt dealt table" "enough_shares t table"
    and "shamir_inv st" "rows_fit st t (map snd table)"
  shows "\<exists>st'. fold_status (reconstruct_pairwise c t) table (st, acc)
    = Inr (st', acc @ map (\<lambda>(u, _). (u, \<lparr>ec_private = ec_private (kp u), ec_public = None\<rparr>)) table)"
  using assms(3-)
proof (induction table arbitrary: st acc)
  case (Cons entry table)
  obtain u row where entry: "entry = (u, row)" by (cases entry)
  obtain draws draws' where u: "Share draws t n (key u) = Inr (dealt u, draws')" "length (key u) = 32"
    using Cons.prems(2) entry by (auto simp: deals_def)
  have own: "CreateFromPrivateKey c (key u) = Inr \<lparr>ec_private = ec_private (kp u), ec_public = None\<rparr>"
    using CreateFromPrivateKey_own [OF assms(1)] Cons.prems(1) entry by simp
  have row: "subset_of_shares row (dealt u)" "t \<le> int (length (filter (\<lambda>s. share_data s \<noteq> []) row))"
    using Cons.prems(3,4) entry by (auto simp: rows_dealt_def enough_shares_def)
  have fits: "reconstruct_fits st t row" using Cons.prems(6) entry by simp
  have len: "8 * length (key u) + 31 < 2 ^ 31" using u(2) by simp
  obtain st' where st': "Reconstruct st t row 32 = Inr (key u, st')" "shamir_inv st'"
    using Reconstruct_of_Share [OF u(1) len assms(2) row Cons.prems(5) fits] u(2) by auto
  have step: "reconstruct_pairwise c t entry (st, acc) = Inr (st', acc @ [(u, \<lparr>ec_private = ec_private (kp u), ec_public = None\<rparr>)])"
    using st'(1) own entry by (simp add: reconstruct_pairwise_def size_defs)
  have fit: "rows_fit st' t (map snd table)" using Cons.prems(6) st'(1) entry by simp
  have prems: "\<forall>u\<in>set (map fst table). agreement_ok c (kp u) \<and> PrivateKey c (kp u) = Inr (key u)"
      "deals t n (map fst table) key dealt" "rows_dealt dealt table" "enough_shares t table"
    using Cons.prems(1-4) by (simp_all add: deals_def rows_dealt_def enough_shares_def)
  obtain st2 where "fold_status (reconstruct_pairwise c t) table (st', acc @ [(u, \<lparr>ec_private = ec_private (kp u), ec_public = None\<rparr>)])
      = Inr (st2, (acc @ [(u, \<lparr>ec_private = ec_private (kp u), ec_public = None\<rparr>)])
          @ map (\<lambda>(u, _). (u, \<lparr>ec_private = ec_private (kp u), ec_public = None\<rparr>)) table)"
    using Cons.IH [OF prems st'(2) fit] by blast
  then show ?case using step entry by simp
qed simp

lemma reconstruct_self_rows:
  assumes "n < 2147483648" "deals t n (map fst table) key dealt" "rows_dealt dealt table" "enough_shares t table"
    and "\<forall>row\<in>set (map snd table). reconstruct_fits new_ShamirSecretSharing t row"
  shows "map_status (reconstruct_self t) table = Inr (map (\<lambda>(u, _). (u, key u)) table)"
proof (rule map_status_Inr, rule ballI)
  fix entry assume e: "entry \<in> set table"
  obtain u row where entry: "entry = (u, row)" by (cases entry)
  have mem: "u \<in> set (map fst table)" "row \<in> set (map snd table)" using e entry by force+
  obtain draws draws' where u: "Share draws t n (key u) = Inr (dealt u, draws')" "length (key u) = 32"
    using assms(2) mem(1) by (auto simp: deals_def)
  have row: "subset_of_shares row (dealt u)" "t \<le> int (length (filter (\<lambda>s. share_data s \<noteq> []) row))"
    using assms(3,4) e entry by (auto simp: rows_dealt_def enough_shares_def)
  have "CreateFromShares row t = Inr (key u)"
    using CreateFromShares_recovers [OF u assms(1) row] assms(5) mem(2) by blast
  then show "reconstruct_self t entry = Inr (case entry of (u, _) \<Rightarrow> (u, key u))"
    using entry by (simp add: reconstruct_self_def)
qed

lemma map_of_keyed: "map_of (map (\<lambda>(u, _). (u, f u)) table) u = (if u \<in> set (map fst table) then Some (f u) else None)"
  by (induction table) auto

lemma set_masked_by:
  "set (masked_by msk im) = {u. u < length (client_statuses im) \<and> ClientMaskType (client_statuses im ! u) = msk}"
  by (auto simp: masked_by_def)

lemma ClientMaskType_kinds:
  "in_sum s \<Longrightarrow> ClientMaskType s = kSelfMask"
  "ClientMaskType s = kPairwiseMask \<longleftrightarrow> s = SHARE_KEYS_RECEIVED \<or> s = DEAD_AFTER_SHARE_KEYS_RECEIVED"
  by (cases s; simp add: in_sum_def)+

lemma Share_length: "Share draws t n secret = Inr (shares, draws') \<Longrightarrow> length secret = 32 \<Longrightarrow> length shares = nat n"
  using Share_polys [of draws t n secret shares draws'] by auto

lemma deals_length:
  assumes "deals t (GetDegree (secret_sharing_graph im)) us key dealt"
  shows "\<forall>u\<in>set us. length (dealt u) = impl_number_of_neighbors im"
  using assms Share_length by (fastforce simp: deals_def impl_number_of_neighbors_def)

text \<open>
  C2. The server recovers the keys. When every client dealt threshold shares of its private key and of
  its self key, and from the fresh tables on the server took unmasking responses in any order that
  hold the shares as they were dealt, then, as soon as every row has a threshold of shares (and no
  32-bit accumulation wraps), \<open>HandleShamirReconstruction\<close> succeeds and returns the self key of every
  client in the sum and the private key of exactly the clients that dropped out after sharing keys.
\<close>

theorem unmasking_recovers_keys:
  assumes t: "GetThreshold (secret_sharing_graph im0) = t" and n: "GetDegree (secret_sharing_graph im0) = n"
    and "ecdh_law c" and "n < 2147483648"
    and keys: "\<forall>u\<in>set (masked_by kPairwiseMask im0). agreement_ok c (kp u) \<and> PrivateKey c (kp u) = Inr (sk u)"
    and deal: "deals t n (masked_by kPairwiseMask im0) sk pdealt" "deals t n (masked_by kSelfMask im0) self_key sdealt"
    and run: "round3_run pdealt sdealt im0 im" and settled: "SHARE_KEYS_RECEIVED \<notin> set (client_statuses im)"
    and tables: "pairwise_shamir_share_table im = Some pt" "self_shamir_share_table im = Some st"
    and enough: "enough_shares t pt" "enough_shares t st"
    and fits: "rows_fit new_ShamirSecretSharing t (map snd pt)"
      "\<forall>row\<in>set (map snd st). reconstruct_fits new_ShamirSecretSharing t row"
  shows "\<exists>r. HandleShamirReconstruction c im = Inr r \<and> recovers im kp self_key r"
proof -
  have lens: "\<forall>u\<in>set (masked_by kPairwiseMask im0). length (pdealt u) = impl_number_of_neighbors im0"
      "\<forall>u\<in>set (masked_by kSelfMask im0). length (sdealt u) = impl_number_of_neighbors im0"
    using deals_length deal n by blast+
  have g: "secret_sharing_graph im = secret_sharing_graph im0"
    and dealt: "rows_dealt pdealt pt" "rows_dealt sdealt st"
    and ids: "map fst pt = masked_by kPairwiseMask im" "map fst st = masked_by kSelfMask im"
    and ids0: "masked_by kPairwiseMask im = masked_by kPairwiseMask im0" "masked_by kSelfMask im = masked_by kSelfMask im0"
    using round3_run_dealt [OF run lens] tables by (auto simp: tables_dealt_def)
  let ?r = "\<lparr>aborted_client_key_agreements = map (\<lambda>(u, _). (u, \<lparr>ec_private = ec_private (kp u), ec_public = None\<rparr>)) pt,
    self_keys = map (\<lambda>(u, _). (u, self_key u)) st\<rparr>"
  obtain cache where cache: "fold_status (reconstruct_pairwise c t) pt (new_ShamirSecretSharing, [])
      = Inr (cache, [] @ map (\<lambda>(u, _). (u, \<lparr>ec_private = ec_private (kp u), ec_public = None\<rparr>)) pt)"
    using reconstruct_pairwise_rows [OF assms(3,4) _ _ dealt(1) enough(1) shamir_inv_new fits(1), of kp sk "[]"]
      keys deal(1) ids ids0 by auto
  have self: "map_status (reconstruct_self t) st = Inr (map (\<lambda>(u, _). (u, self_key u)) st)"
    using reconstruct_self_rows [OF assms(4) _ dealt(2) enough(2) fits(2)] deal(2) ids ids0 by simp
  have "HandleShamirReconstruction c im = Inr ?r"
    using tables cache self g by (simp add: HandleShamirReconstruction_def minimum_surviving_neighbors_for_reconstruction_def t)
  moreover have "recovers im kp self_key ?r"
  proof -
    have dist: "distinct (map fst pt)" using ids by (simp add: masked_by_def)
    have pset: "set (map fst pt) = {j. j < length (client_statuses im) \<and> client_statuses im ! j = DEAD_AFTER_SHARE_KEYS_RECEIVED}"
      unfolding ids set_masked_by ClientMaskType_kinds(2) using settled by (metis nth_mem)
    have sset: "u \<in> set (map fst st)" if "u < length (client_statuses im)" "in_sum (client_statuses im ! u)" for u
      unfolding ids set_masked_by using that ClientMaskType_kinds(1) by simp
    have fsts: "map fst (aborted_client_key_agreements ?r) = map fst pt" by (simp add: comp_def case_prod_unfold)
    have "fst ` set (aborted_client_key_agreements ?r) = set (map fst pt)" using fsts by (metis list.set_map)
    moreover have "map_of (self_keys ?r) u = Some (self_key u)"
      if "u < length (client_statuses im)" "in_sum (client_statuses im ! u)" for u
      using sset [OF that] by (simp add: map_of_keyed del: set_map)
    moreover have "ec_private (snd item) = ec_private (kp (fst item))"
      if "item \<in> set (aborted_client_key_agreements ?r)" for item
      using that by auto
    ultimately show ?thesis unfolding recovers_def fsts using dist pset by simp
  qed
  ultimately show ?thesis by blast
qed

text \<open>Three clients, the last of which dropped out after round 1, and the two others answer in turn.\<close>

definition sample_round3 :: "ClientStatus list \<Rightarrow> ShamirShare list list \<Rightarrow> ShamirShare list list \<Rightarrow> SecAggServerProtocolImpl" where
  "sample_round3 statuses prows srows = (sample_impl None)\<lparr>client_statuses := statuses,
     pairwise_shamir_share_table := Some (zip [2] prows), self_shamir_share_table := Some (zip [0, 1] srows)\<rparr>"

abbreviation (input) sk2 :: bytes where "sk2 \<equiv> replicate 31 0 @ [3]"
abbreviation (input) noise2 :: ShamirShare where "noise2 \<equiv> \<lparr>share_data = replicate 35 0 @ [3]\<rparr>"
abbreviation (input) prf0 :: ShamirShare where "prf0 \<equiv> \<lparr>share_data = replicate 36 0\<rparr>"
abbreviation (input) missing :: ShamirShare where "missing \<equiv> \<lparr>share_data = []\<rparr>"
abbreviation (input) collecting :: "ClientStatus list" where
  "collecting \<equiv> [MASKED_INPUT_RESPONSE_RECEIVED, MASKED_INPUT_RESPONSE_RECEIVED, DEAD_AFTER_SHARE_KEYS_RECEIVED]"

definition sample_answer :: "NoiseOrPrfKeyShare list" where
  "sample_answer = [prf_sk_share (replicate 36 0), prf_sk_share (replicate 36 0), noise_sk_share (replicate 35 0 @ [3])]"

lemma sample_dealt:
  "Share (replicate 9 0) 2 3 sk2 = Inr (replicate 3 noise2, [])"
  "Share (replicate 9 0) 2 3 (replicate 32 0) = Inr (replicate 3 prf0, [])"
  by code_simp+

lemma sample_fits:
  "rows_fit new_ShamirSecretSharing 2 [[noise2, noise2, missing]]"
  "reconstruct_fits new_ShamirSecretSharing 2 [prf0, prf0, missing]"
  by code_simp+

lemmas round3_defs = sample_round3_def sample_answer_def sample_impl_def new_AesSecAggServerProtocolImpl_def
  SetUpShamirSharesTables_def share_table_for_def impl_number_of_neighbors_def total_number_of_clients_def
  HandleUnmaskingResponse_def check_unmasking_share_def store_unmasking_share_def expected_share_def
  impl_GetNeighbor_def GetNeighborIndexOrDie_def client_status_def update_at_def answers_as_dealt_def
  complete_GetNeighbor_def complete_GetNeighborIndex_def complete_IsValidNode_def

lemma sample_round3_run:
  "SetUpShamirSharesTables (sample_round3 collecting [] []) = sample_round3 collecting [[missing, missing, missing]]
     [[missing, missing, missing], [missing, missing, missing]]"
  "HandleUnmaskingResponse 0 sample_answer (sample_round3 collecting [[missing, missing, missing]]
     [[missing, missing, missing], [missing, missing, missing]])
   = Inr (sample_round3 collecting [[noise2, missing, missing]] [[prf0, missing, missing], [prf0, missing, missing]])"
  "HandleUnmaskingResponse 1 sample_answer (sample_round3 collecting [[noise2, missing, missing]]
     [[prf0, missing, missing], [prf0, missing, missing]])
   = Inr (sample_round3 collecting [[noise2, noise2, missing]] [[prf0, prf0, missing], [prf0, prf0, missing]])"
  subgoal by (simp add: round3_defs upt_rec numeral_3_eq_3)
  subgoal by (simp add: round3_defs upt_rec numeral_3_eq_3)
  subgoal by (simp add: round3_defs upt_rec numeral_3_eq_3)
  done

abbreviation (input) sample_end :: SecAggServerProtocolImpl where
  "sample_end \<equiv> sample_round3 [UNMASKING_RESPONSE_RECEIVED, UNMASKING_RESPONSE_RECEIVED, DEAD_AFTER_SHARE_KEYS_RECEIVED]
     [[noise2, noise2, missing]] [[prf0, prf0, missing], [prf0, prf0, missing]]"

lemma sample_run_end:
  "round3_run (\<lambda>_. replicate 3 noise2) (\<lambda>_. replicate 3 prf0) (sample_round3 collecting [] []) sample_end"
proof -
  let ?run = "round3_run (\<lambda>_. replicate 3 noise2) (\<lambda>_. replicate 3 prf0) (sample_round3 collecting [] [])"
  have moved: "(sample_round3 ss a b)\<lparr>client_statuses := ss'\<rparr> = sample_round3 ss' a b" for ss ss' a b
    by (simp add: sample_round3_def sample_impl_def new_AesSecAggServerProtocolImpl_def)
  have statuses: "client_statuses (sample_round3 ss a b) = ss" for ss a b by (simp add: sample_round3_def)
  have honest: "answers_as_dealt (sample_round3 collecting a b) (\<lambda>_. replicate 3 noise2) (\<lambda>_. replicate 3 prf0) w sample_answer"
    if "w < 2" for a b w
    using that by (auto simp: round3_defs less_Suc_eq numeral_3_eq_3 numeral_2_eq_2)
  have start: "?run (sample_round3 collecting [[missing, missing, missing]] [[missing, missing, missing], [missing, missing, missing]])"
    using round3_run.starts [of _ _ "sample_round3 collecting [] []"] unfolding sample_round3_run(1) .
  have "?run (sample_round3 collecting [[noise2, missing, missing]] [[prf0, missing, missing], [prf0, missing, missing]])"
    by (rule round3_run.answers [OF start honest sample_round3_run(2)]) simp
  then have "?run (sample_round3 collecting [[noise2, noise2, missing]] [[prf0, prf0, missing], [prf0, prf0, missing]])"
    by (rule round3_run.answers [OF _ honest sample_round3_run(3)]) simp
  from round3_run.moves [OF this, of "[UNMASKING_RESPONSE_RECEIVED, UNMASKING_RESPONSE_RECEIVED, DEAD_AFTER_SHARE_KEYS_RECEIVED]"]
  show ?thesis unfolding moved statuses by simp
qed

theorem unmasking_recovers_keys_witness:
  "\<exists>r. HandleShamirReconstruction sample_crypto sample_end = Inr r
     \<and> recovers sample_end sample_kp (\<lambda>_. replicate 32 0) r"
proof -
  have simps: "secret_sharing_graph (sample_round3 ss a b) = Complete \<lparr>cg_num_nodes = 3, cg_threshold = 2\<rparr>"
      "client_statuses (sample_round3 ss a b) = ss"
      "pairwise_shamir_share_table (sample_round3 ss a b) = Some (zip [2] a)"
      "self_shamir_share_table (sample_round3 ss a b) = Some (zip [0, 1] b)" for ss a b
    by (simp_all add: sample_round3_def sample_impl_simps)
  have by_mask: "masked_by kPairwiseMask (sample_round3 collecting [] []) = [2]"
      "masked_by kSelfMask (sample_round3 collecting [] []) = [0, 1]"
    by (simp_all add: masked_by_def simps upt_rec)
  have key: "\<forall>u\<in>set [2]. agreement_ok sample_crypto (sample_kp u) \<and> PrivateKey sample_crypto (sample_kp u) = Inr sk2"
  proof -
    have "rev (le_bytes 32 3) = sk2" by code_simp
    moreover have "(3 :: nat) < 256 ^ 32" by simp
    ultimately show ?thesis
      by (simp add: agreement_ok_def sample_kp_def sample_crypto_def PrivateKey_def size_defs del: le_bytes.simps)
  qed
  have deal: "deals 2 3 [2] (\<lambda>_. sk2) (\<lambda>_. replicate 3 noise2)" "deals 2 3 [0, 1] (\<lambda>_. replicate 32 0) (\<lambda>_. replicate 3 prf0)"
    using sample_dealt unfolding deals_def by auto
  show ?thesis
    by (rule unmasking_recovers_keys [OF _ _ sample_crypto_laws(1) _ _ _ _ sample_run_end, where t = 2 and n = 3
        and pt = "[(2, [noise2, noise2, missing])]" and st = "[(0, [prf0, prf0, missing]), (1, [prf0, prf0, missing])]"
        and sk = "\<lambda>_. sk2"])
      (use key deal sample_fits in \<open>simp_all add: by_mask simps enough_shares_def\<close>)
qed

end
