(* ===== verification/Draining.thy ===== *)
theory Draining
  imports FCP_Prelude
begin

text \<open>
  The contract of everything that runs tasks in the background: its own steps, taken in any order,
  end after a bounded number of them, and a state in which none is possible is at rest.
\<close>

locale draining =
  fixes inv :: "'s \<Rightarrow> bool" and step :: "'s \<Rightarrow> 's \<Rightarrow> bool" and work :: "'s \<Rightarrow> nat" and at_rest :: "'s \<Rightarrow> bool"
  assumes inv_step: "inv s \<Longrightarrow> step s t \<Longrightarrow> inv t"
    and work_step: "inv s \<Longrightarrow> step s t \<Longrightarrow> work t < work s"
    and stuck: "inv s \<Longrightarrow> \<not> at_rest s \<Longrightarrow> \<exists>t. step s t"
begin

lemma inv_steps: "step\<^sup>*\<^sup>* s t \<Longrightarrow> inv s \<Longrightarrow> inv t"
  by (induction rule: rtranclp_induct) (auto dest: inv_step)

lemma steps_bounded: "(step ^^ k) s t \<Longrightarrow> inv s \<Longrightarrow> k + work t \<le> work s"
proof (induction k arbitrary: t)
  case (Suc k)
  then obtain u where u: "(step ^^ k) s u" "step u t" by auto
  then have "inv u" using Suc.prems(2) inv_steps relpowp_imp_rtranclp by fastforce
  then show ?case using Suc.IH [OF u(1) Suc.prems(2)] work_step [OF _ u(2)] by simp
qed simp

lemma drains: "inv s \<Longrightarrow> \<exists>t. step\<^sup>*\<^sup>* s t \<and> at_rest t \<and> inv t"
proof (induction "work s" arbitrary: s rule: less_induct)
  case less
  show ?case
  proof (cases "at_rest s")
    case False
    then obtain u where u: "step s u" using stuck [OF less.prems] by blast
    then show ?thesis
      using less.hyps [OF work_step [OF less.prems u] inv_step [OF less.prems u]]
      by (meson converse_rtranclp_into_rtranclp)
  qed (use less.prems in blast)
qed

end

end
