(* ===== verification/Thread_Pool.thy ===== *)
theory Thread_Pool
  imports Draining
begin

text \<open>
  \<open>fcp/base/scheduler.cc\<close>: the thread pool and the workers on top of it. A mutex is the atomicity
  of the code under it, so a step of a thread is one critical section of \<open>PerThreadActivity\<close> or the
  run of a task outside it. Condition variables may wake a thread for no reason.
\<close>

section \<open>Thread pool\<close>

text \<open>
  Where a thread is: before the lock of the next turn of its loop, running a task, waiting for
  work, woken but not yet past the wait, or at its end.
\<close>

datatype 'task pool_thread = LoopTop | Running 'task | Waiting | Woken | Joined

record 'task ThreadPoolScheduler =
  threads :: "'task pool_thread list"
  threads_should_join :: bool
  todo :: "'task list"
  active_count :: uint64

definition CreateThreadPoolScheduler :: "uint64 \<Rightarrow> 'task ThreadPoolScheduler status_or" where
  "CreateThreadPoolScheduler thread_count =
     fcp_check (thread_count > 0)
       (Inr \<lparr>threads = replicate (unat thread_count) LoopTop, threads_should_join = False, todo = [],
             active_count = thread_count\<rparr>)"

definition IdleCondition :: "'task ThreadPoolScheduler \<Rightarrow> bool" where
  "IdleCondition pool \<longleftrightarrow> todo pool = [] \<and> active_count pool = 0"

text \<open>\<open>Signal\<close> wakes one of the waiting threads, here thread \<open>w\<close>, when there is one.\<close>

definition Signal :: "nat \<Rightarrow> 'task ThreadPoolScheduler \<Rightarrow> 'task ThreadPoolScheduler" where
  "Signal w pool = (if w < length (threads pool) \<and> threads pool ! w = Waiting
     then pool\<lparr>threads := (threads pool)[w := Woken]\<rparr> else pool)"

definition SignalAll :: "'task ThreadPoolScheduler \<Rightarrow> 'task ThreadPoolScheduler" where
  "SignalAll pool = pool\<lparr>threads := map (\<lambda>t. case t of Waiting \<Rightarrow> Woken | _ \<Rightarrow> t) (threads pool)\<rparr>"

definition pool_Schedule :: "nat \<Rightarrow> 'task \<Rightarrow> 'task ThreadPoolScheduler \<Rightarrow> 'task ThreadPoolScheduler" where
  "pool_Schedule w task pool = Signal w (pool\<lparr>todo := todo pool @ [task]\<rparr>)"

text \<open>The destructor up to the joins: \<open>FCP_CHECK(IdleCondition(this))\<close> and the call to all threads.\<close>

definition destroy_pool :: "'task ThreadPoolScheduler \<Rightarrow> 'task ThreadPoolScheduler status_or" where
  "destroy_pool pool = fcp_check (IdleCondition pool) (Inr (SignalAll (pool\<lparr>threads_should_join := True\<rparr>)))"

text \<open>
  \<open>PerThreadActivity\<close>: thread \<open>i\<close> at the head of the inner loop, with the lock; a turn of the outer
  loop, which first counts the thread as inactive; the return of the task.
\<close>

definition wait_for_work :: "nat \<Rightarrow> 'task ThreadPoolScheduler \<Rightarrow> 'task ThreadPoolScheduler status_or" where
  "wait_for_work i pool =
     (case todo pool of
        [] \<Rightarrow> Inr (pool\<lparr>threads := (threads pool)[i := if threads_should_join pool then Joined else Waiting]\<rparr>)
      | task # rest \<Rightarrow>
          fcp_check (\<not> threads_should_join pool)
            (Inr (pool\<lparr>todo := rest, active_count := active_count pool + 1, threads := (threads pool)[i := Running task]\<rparr>)))"

definition PerThreadActivity :: "nat \<Rightarrow> 'task ThreadPoolScheduler \<Rightarrow> 'task ThreadPoolScheduler status_or" where
  "PerThreadActivity i pool =
     (if i < length (threads pool) then
        case threads pool ! i of
          LoopTop \<Rightarrow> wait_for_work i (pool\<lparr>active_count := active_count pool - 1\<rparr>)
        | Woken \<Rightarrow> wait_for_work i pool
        | Running task \<Rightarrow> Inr (pool\<lparr>threads := (threads pool)[i := LoopTop]\<rparr>)
        | _ \<Rightarrow> Inr pool
      else Inr pool)"

section \<open>Workers\<close>

text \<open>
  A worker keeps the tasks it has not given to its scheduler. \<open>MaybeRunNext\<close> returns the task whose
  closure it gives to the scheduler, if any; \<open>marker\<close> is false once the worker has been destroyed.
\<close>

record 'task WorkerImpl =
  running :: bool
  steps :: "'task list"
  marker :: bool

definition CreateWorker :: "'task WorkerImpl" where
  "CreateWorker = \<lparr>running = False, steps = [], marker = True\<rparr>"

definition MaybeRunNext :: "'task WorkerImpl \<Rightarrow> 'task WorkerImpl \<times> 'task option" where
  "MaybeRunNext worker =
     (if running worker then (worker, None)
      else case steps worker of
        [] \<Rightarrow> (worker, None)
      | task # rest \<Rightarrow> (worker\<lparr>steps := rest, running := True\<rparr>, Some task))"

definition worker_Schedule :: "'task \<Rightarrow> 'task WorkerImpl \<Rightarrow> 'task WorkerImpl \<times> 'task option" where
  "worker_Schedule task worker = MaybeRunNext (worker\<lparr>steps := steps worker @ [task]\<rparr>)"

text \<open>The end of the closure, after the task itself has returned.\<close>

definition run_next_task :: "'task WorkerImpl \<Rightarrow> ('task WorkerImpl \<times> 'task option) status_or" where
  "run_next_task worker = fcp_check (marker worker) (Inr (MaybeRunNext (worker\<lparr>running := False\<rparr>)))"

section \<open>Runs of the pool\<close>

definition awake :: "'task ThreadPoolScheduler \<Rightarrow> nat \<Rightarrow> bool" where
  "awake pool i \<longleftrightarrow> i < length (threads pool) \<and> threads pool ! i \<noteq> Waiting \<and> threads pool ! i \<noteq> Joined"

text \<open>
  Everything that can happen to a pool, with the tasks scheduled so far in order, and those that
  have been taken from the queue in order. A pool that is being destroyed gets no more tasks.
\<close>

inductive pool_run :: "uint64 \<Rightarrow> 'task list \<Rightarrow> 'task list \<Rightarrow> 'task ThreadPoolScheduler \<Rightarrow> bool" for n where
  created: "CreateThreadPoolScheduler n = Inr pool \<Longrightarrow> pool_run n [] [] pool"
| scheduled: "pool_run n tasks started pool \<Longrightarrow> \<not> threads_should_join pool
    \<Longrightarrow> Waiting \<in> set (threads pool) \<longrightarrow> w < length (threads pool) \<and> threads pool ! w = Waiting
    \<Longrightarrow> pool_run n (tasks @ [task]) started (pool_Schedule w task pool)"
| spurious: "pool_run n tasks started pool \<Longrightarrow> pool_run n tasks started (Signal w pool)"
| activity: "pool_run n tasks started pool \<Longrightarrow> awake pool i \<Longrightarrow> PerThreadActivity i pool = Inr pool'
    \<Longrightarrow> pool_run n tasks (started @ take (length (todo pool) - length (todo pool')) (todo pool)) pool'"
| destroyed: "pool_run n tasks started pool \<Longrightarrow> destroy_pool pool = Inr pool' \<Longrightarrow> pool_run n tasks started pool'"

text \<open>
  What holds of every pool: the counter counts the threads that are at the top of their loop or run a
  task; while some thread waits there are at least as many awake threads as tasks; a pool that is
  being destroyed has no task and no waiting thread.
\<close>

definition counted :: "'task pool_thread \<Rightarrow> bool" where
  "counted t \<longleftrightarrow> (case t of LoopTop \<Rightarrow> True | Running _ \<Rightarrow> True | _ \<Rightarrow> False)"

definition is_awake :: "'task pool_thread \<Rightarrow> bool" where
  "is_awake t \<longleftrightarrow> t \<noteq> Waiting \<and> t \<noteq> Joined"

definition pool_inv :: "uint64 \<Rightarrow> 'task ThreadPoolScheduler \<Rightarrow> bool" where
  "pool_inv n pool \<longleftrightarrow> 0 < n \<and> length (threads pool) = unat n
     \<and> active_count pool = of_nat (length (filter counted (threads pool)))
     \<and> (Waiting \<in> set (threads pool) \<longrightarrow> length (todo pool) \<le> length (filter is_awake (threads pool)))
     \<and> (threads_should_join pool \<longrightarrow> todo pool = [] \<and> Waiting \<notin> set (threads pool)
          \<and> filter counted (threads pool) = [])
     \<and> (\<not> threads_should_join pool \<longrightarrow> Joined \<notin> set (threads pool))"

lemma length_filter_update:
  "i < length xs \<Longrightarrow> length (filter P (xs[i := y])) + (if P (xs ! i) then 1 else 0)
     = length (filter P xs) + (if P y then 1 else 0)"
proof (induction xs arbitrary: i)
  case (Cons x xs)
  then show ?case by (cases i) auto
qed simp

lemma filter_update_counted:
  assumes "i < length ts" "active = (of_nat (length (filter counted ts)) :: uint64)"
  shows "counted (ts ! i) \<Longrightarrow> \<not> counted t \<Longrightarrow> active - 1 = of_nat (length (filter counted (ts[i := t])))"
    "\<not> counted (ts ! i) \<Longrightarrow> counted t \<Longrightarrow> active + 1 = of_nat (length (filter counted (ts[i := t])))"
    "counted (ts ! i) = counted t \<Longrightarrow> active = of_nat (length (filter counted (ts[i := t])))"
  using length_filter_update [OF assms(1), of counted t] assms(2)
  by (simp_all add: algebra_simps flip: of_nat_Suc split: if_splits)

lemmas thread_kinds [simp] = counted_def is_awake_def

lemma filter_none_iff: "filter P xs = [] \<longleftrightarrow> (\<forall>x\<in>set xs. \<not> P x)"
  by (induction xs) auto

lemma pool_inv_created: "CreateThreadPoolScheduler n = Inr pool \<Longrightarrow> pool_inv n pool"
  by (auto simp: CreateThreadPoolScheduler_def fcp_check_Inr_iff pool_inv_def)

text \<open>A thread that leaves a wait, or is about to, changes no counter.\<close>

lemma pool_inv_woken:
  assumes "pool_inv n pool" "i < length (threads pool)" "threads pool ! i = Waiting"
  shows "pool_inv n (pool\<lparr>threads := (threads pool)[i := Woken]\<rparr>)"
    and "length (todo pool) < length (filter is_awake ((threads pool)[i := Woken]))"
proof -
  have mem: "Waiting \<in> set (threads pool)" using assms(2,3) by (metis nth_mem)
  have awake: "length (filter is_awake ((threads pool)[i := Woken])) = Suc (length (filter is_awake (threads pool)))"
    using length_filter_update [OF assms(2), of is_awake Woken] assms(3) by simp
  moreover have "active_count pool = of_nat (length (filter counted ((threads pool)[i := Woken])))"
    using filter_update_counted(3) [OF assms(2), of "active_count pool" Woken] assms(1,3) by (simp add: pool_inv_def)
  ultimately show "pool_inv n (pool\<lparr>threads := (threads pool)[i := Woken]\<rparr>)"
    using assms(1) mem by (auto simp: pool_inv_def dest!: set_update_subset_insert [THEN subsetD])
  show "length (todo pool) < length (filter is_awake ((threads pool)[i := Woken]))"
    using awake assms(1) mem by (simp add: pool_inv_def)
qed

lemma pool_inv_Signal: "pool_inv n pool \<Longrightarrow> pool_inv n (Signal w pool)"
  using pool_inv_woken(1) [of n pool w] by (simp add: Signal_def)

lemma pool_inv_scheduled:
  assumes "pool_inv n pool" "\<not> threads_should_join pool"
    and "Waiting \<in> set (threads pool) \<longrightarrow> w < length (threads pool) \<and> threads pool ! w = Waiting"
  shows "pool_inv n (pool_Schedule w task pool)"
proof (cases "Waiting \<in> set (threads pool)")
  case True
  then show ?thesis
    using pool_inv_woken [OF assms(1), of w] assms(2,3) by (auto simp: pool_inv_def pool_Schedule_def Signal_def)
next
  case False
  then have "\<not> (w < length (threads pool) \<and> threads pool ! w = Waiting)" by (metis nth_mem)
  then show ?thesis using assms(1,2) False by (auto simp: pool_inv_def pool_Schedule_def Signal_def)
qed

lemma pool_inv_to_the_wait:
  assumes "pool_inv n pool" "i < length (threads pool)" "threads pool ! i = LoopTop"
  shows "pool_inv n (pool\<lparr>active_count := active_count pool - 1, threads := (threads pool)[i := Woken]\<rparr>)"
proof -
  have "length (filter is_awake ((threads pool)[i := Woken])) = length (filter is_awake (threads pool))"
    using length_filter_update [OF assms(2), of is_awake Woken] assms(3) by simp
  moreover have "active_count pool - 1 = of_nat (length (filter counted ((threads pool)[i := Woken])))"
    using filter_update_counted(1) [OF assms(2), of "active_count pool" Woken] assms(1,3) by (simp add: pool_inv_def)
  moreover have "\<not> threads_should_join pool"
    using assms nth_mem [OF assms(2)] by (auto simp: pool_inv_def filter_none_iff)
  ultimately show ?thesis
    using assms(1) by (auto simp: pool_inv_def dest!: set_update_subset_insert [THEN subsetD])
qed

lemma wait_for_work_inv:
  assumes "pool_inv n pool" "i < length (threads pool)" "threads pool ! i = Woken"
  shows "\<exists>pool'. wait_for_work i pool = Inr pool' \<and> pool_inv n pool'"
proof (cases "todo pool")
  case Nil
  let ?t = "if threads_should_join pool then Joined else Waiting :: 'a pool_thread"
  have "active_count pool = of_nat (length (filter counted ((threads pool)[i := ?t])))"
    using filter_update_counted(3) [OF assms(2), of "active_count pool" ?t] assms(1,3) by (simp add: pool_inv_def)
  then show ?thesis
    using assms(1,2) Nil
    by (auto simp: pool_inv_def wait_for_work_def filter_none_iff dest!: set_update_subset_insert [THEN subsetD])
next
  case (Cons task rest)
  have "active_count pool + 1 = of_nat (length (filter counted ((threads pool)[i := Running task])))"
    using filter_update_counted(2) [OF assms(2), of "active_count pool" "Running task"] assms(1,3) by (simp add: pool_inv_def)
  moreover have "length (filter is_awake ((threads pool)[i := Running task])) = length (filter is_awake (threads pool))"
    using length_filter_update [OF assms(2), of is_awake "Running task"] assms(3) by simp
  ultimately show ?thesis
    using assms(1) Cons
    by (auto simp: pool_inv_def wait_for_work_def fcp_check_def dest!: set_update_subset_insert [THEN subsetD])
qed

lemma PerThreadActivity_inv:
  assumes "pool_inv n pool" "awake pool i"
  shows "\<exists>pool'. PerThreadActivity i pool = Inr pool' \<and> pool_inv n pool'"
proof (cases "threads pool ! i")
  case LoopTop
  have i: "i < length (threads pool)" using assms(2) by (simp add: awake_def)
  let ?pool = "pool\<lparr>active_count := active_count pool - 1, threads := (threads pool)[i := Woken]\<rparr>"
  have "PerThreadActivity i pool = wait_for_work i ?pool"
    using i LoopTop by (simp add: PerThreadActivity_def wait_for_work_def split: list.split)
  then show ?thesis
    using wait_for_work_inv [OF pool_inv_to_the_wait [OF assms(1) i LoopTop], of i] i by simp
next
  case (Running task)
  have i: "i < length (threads pool)" using assms(2) by (simp add: awake_def)
  have "active_count pool = of_nat (length (filter counted ((threads pool)[i := LoopTop])))"
    using filter_update_counted(3) [OF i, of "active_count pool" LoopTop] assms(1) Running by (simp add: pool_inv_def)
  moreover have "length (filter is_awake ((threads pool)[i := LoopTop])) = length (filter is_awake (threads pool))"
    using length_filter_update [OF i, of is_awake LoopTop] Running by simp
  moreover have "\<not> threads_should_join pool"
    using assms(1) nth_mem [OF i] Running by (auto simp: pool_inv_def filter_none_iff)
  ultimately show ?thesis
    using assms(1) i Running
    by (auto simp: pool_inv_def PerThreadActivity_def dest!: set_update_subset_insert [THEN subsetD])
next
  case Woken
  then show ?thesis using wait_for_work_inv [OF assms(1) _ Woken] assms(2) by (simp add: awake_def PerThreadActivity_def)
qed (use assms(2) in \<open>simp_all add: awake_def\<close>)

lemma IdleCondition_iff:
  assumes "pool_inv n pool"
  shows "IdleCondition pool \<longleftrightarrow> todo pool = [] \<and> filter counted (threads pool) = []"
proof -
  have "length (filter counted (threads pool)) \<le> unat n" using assms length_filter_le by (metis pool_inv_def)
  then have "length (filter counted (threads pool)) < 18446744073709551616" using unat_u64_less [of n] by linarith
  then have "active_count pool = 0 \<longleftrightarrow> length (filter counted (threads pool)) = 0"
    using assms by (simp add: pool_inv_def word_of_nat_eq_0_iff nat_dvd_not_less dvd_eq_mod_eq_0)
  then show ?thesis by (simp add: IdleCondition_def)
qed

lemma pool_inv_destroyed:
  assumes "pool_inv n pool" "destroy_pool pool = Inr pool'"
  shows "pool_inv n pool'"
proof -
  have idle: "IdleCondition pool" and p: "pool' = SignalAll (pool\<lparr>threads_should_join := True\<rparr>)"
    using assms(2) by (simp_all add: destroy_pool_def fcp_check_Inr_iff)
  have none: "todo pool = []" "\<forall>t\<in>set (threads pool). \<not> counted t"
    using idle IdleCondition_iff [OF assms(1)] by (auto simp: filter_none_iff)
  let ?ts = "map (\<lambda>t. case t of Waiting \<Rightarrow> Woken | _ \<Rightarrow> t) (threads pool)"
  have "filter counted ?ts = []" "filter counted (threads pool) = []" "Waiting \<notin> set ?ts"
    using none(2) by (auto simp: filter_none_iff split: pool_thread.splits)
  then show ?thesis using assms(1) none(1) p by (simp add: pool_inv_def SignalAll_def)
qed

lemma pool_run_inv: "pool_run n tasks started pool \<Longrightarrow> pool_inv n pool"
proof (induction rule: pool_run.induct)
  case (activity tasks started pool i pool')
  then show ?case using PerThreadActivity_inv by fastforce
qed (auto dest: pool_inv_created pool_inv_scheduled pool_inv_Signal pool_inv_destroyed)

lemma Signal_same [simp]: "todo (Signal w pool) = todo pool" "threads_should_join (Signal w pool) = threads_should_join pool"
  by (simp_all add: Signal_def)

lemma PerThreadActivity_todo:
  "PerThreadActivity i pool = Inr pool' \<Longrightarrow> todo pool = take (length (todo pool) - length (todo pool')) (todo pool) @ todo pool'"
  by (auto simp: PerThreadActivity_def wait_for_work_def fcp_check_def split: if_splits pool_thread.splits list.splits)

lemma pool_run_tasks: "pool_run n tasks started pool \<Longrightarrow> tasks = started @ todo pool"
proof (induction rule: pool_run.induct)
  case (activity tasks started pool i pool')
  then show ?case using PerThreadActivity_todo by fastforce
qed (auto simp: CreateThreadPoolScheduler_def destroy_pool_def SignalAll_def pool_Schedule_def fcp_check_Inr_iff)

section \<open>The threads alone bring the pool to rest\<close>

definition pool_step :: "'task ThreadPoolScheduler \<Rightarrow> 'task ThreadPoolScheduler \<Rightarrow> bool" where
  "pool_step pool pool' \<longleftrightarrow> (\<exists>i. awake pool i \<and> PerThreadActivity i pool = Inr pool')"

fun thread_work :: "'task pool_thread \<Rightarrow> nat" where
  "thread_work LoopTop = 1"
| "thread_work (Running _) = 2"
| "thread_work Waiting = 0"
| "thread_work Woken = 1"
| "thread_work Joined = 0"

definition pool_work :: "'task ThreadPoolScheduler \<Rightarrow> nat" where
  "pool_work pool = 3 * length (todo pool) + sum_list (map thread_work (threads pool))"

definition pool_at_rest :: "'task ThreadPoolScheduler \<Rightarrow> bool" where
  "pool_at_rest pool \<longleftrightarrow> (if threads_should_join pool then set (threads pool) \<subseteq> {Joined} else IdleCondition pool)"

lemma thread_work_update:
  assumes "i < length ts"
  shows "sum_list (map thread_work (ts[i := t])) + thread_work (ts ! i) = sum_list (map thread_work ts) + thread_work t"
  using assms
proof (induction ts arbitrary: i)
  case (Cons x ts)
  then show ?case by (cases i) auto
qed simp

lemma pool_work_step:
  assumes "pool_step pool pool'"
  shows "pool_work pool' < pool_work pool"
proof -
  obtain i where i: "i < length (threads pool)" "threads pool ! i \<noteq> Waiting" "threads pool ! i \<noteq> Joined"
      "PerThreadActivity i pool = Inr pool'"
    using assms by (auto simp: pool_step_def awake_def)
  note upd = thread_work_update [OF i(1)]
  show ?thesis
    using i(2-) upd [of LoopTop] upd [of Waiting] upd [of Joined] upd [of "Running (hd (todo pool))"]
    by (auto simp: PerThreadActivity_def wait_for_work_def fcp_check_def pool_work_def i(1)
        split: pool_thread.splits list.splits if_splits)
qed

lemma pool_stuck:
  assumes "pool_inv n pool" "\<not> pool_at_rest pool"
  shows "\<exists>pool'. pool_step pool pool'"
proof -
  have "\<exists>t\<in>set (threads pool). is_awake t"
  proof (cases "threads_should_join pool")
    case True
    then show ?thesis using assms by (auto simp: pool_at_rest_def pool_inv_def)
  next
    case False
    then have nj: "Joined \<notin> set (threads pool)" using assms(1) by (simp add: pool_inv_def)
    show ?thesis
    proof (cases "Waiting \<in> set (threads pool)")
      case True
      have "filter counted (threads pool) \<noteq> [] \<or> todo pool \<noteq> []"
        using assms(2) False IdleCondition_iff [OF assms(1)] by (auto simp: pool_at_rest_def)
      then show ?thesis
      proof
        assume "filter counted (threads pool) \<noteq> []"
        then show ?thesis by (auto simp: filter_none_iff split: pool_thread.splits)
      next
        assume "todo pool \<noteq> []"
        then have "filter is_awake (threads pool) \<noteq> []" using assms(1) True by (auto simp: pool_inv_def)
        then show ?thesis by (auto simp: filter_none_iff)
      qed
    next
      case no: False
      have "0 < unat n" using assms(1) by (simp add: pool_inv_def word_less_nat_alt)
      then have "hd (threads pool) \<in> set (threads pool)" using assms(1) by (simp add: pool_inv_def flip: length_greater_0_conv)
      then show ?thesis using nj no by (intro bexI [of _ "hd (threads pool)"]) auto
    qed
  qed
  then obtain i where "awake pool i" by (auto simp: in_set_conv_nth awake_def)
  then show ?thesis using PerThreadActivity_inv [OF assms(1)] unfolding pool_step_def by blast
qed

interpretation pool: draining "pool_inv n" pool_step pool_work pool_at_rest for n
proof
  fix s t :: "'a ThreadPoolScheduler"
  assume "pool_inv n s"
  then show "pool_step s t \<Longrightarrow> pool_inv n t" using PerThreadActivity_inv by (fastforce simp: pool_step_def)
  show "pool_step s t \<Longrightarrow> pool_work t < pool_work s" by (rule pool_work_step)
  show "\<not> pool_at_rest s \<Longrightarrow> \<exists>t. pool_step s t" using pool_stuck \<open>pool_inv n s\<close> by blast
qed

text \<open>
  C17. In every run of the thread pool, whatever tasks are scheduled when, the tasks are taken from the
  queue in the order in which they were scheduled, each once; no step of a thread fails a check; and
  the condition of \<open>WaitUntilIdle\<close> holds exactly when no thread runs a task or is about to look for
  one and every scheduled task has been taken.
\<close>

theorem thread_pool_order:
  assumes "pool_run n tasks started pool"
  shows "tasks = started @ todo pool
    \<and> (\<forall>i. awake pool i \<longrightarrow> (\<exists>pool'. PerThreadActivity i pool = Inr pool'))
    \<and> (IdleCondition pool \<longleftrightarrow> started = tasks \<and> (\<forall>t\<in>set (threads pool). t \<noteq> LoopTop \<and> (\<forall>task. t \<noteq> Running task)))"
proof -
  note inv = pool_run_inv [OF assms]
  have tasks: "tasks = started @ todo pool" by (rule pool_run_tasks [OF assms])
  moreover have "\<forall>i. awake pool i \<longrightarrow> (\<exists>pool'. PerThreadActivity i pool = Inr pool')" using PerThreadActivity_inv [OF inv] by blast
  moreover have "IdleCondition pool \<longleftrightarrow> started = tasks \<and> (\<forall>t\<in>set (threads pool). t \<noteq> LoopTop \<and> (\<forall>task. t \<noteq> Running task))"
    unfolding IdleCondition_iff [OF inv] filter_none_iff using tasks by (auto split: pool_thread.splits)
  ultimately show ?thesis by blast
qed

text \<open>One thread that waits, is woken for a task and has taken it while a second task arrived.\<close>

definition sample_pool :: "nat pool_thread \<Rightarrow> nat list \<Rightarrow> uint64 \<Rightarrow> nat ThreadPoolScheduler" where
  "sample_pool t ts k = \<lparr>threads = [t], threads_should_join = False, todo = ts, active_count = k\<rparr>"

lemmas pool_defs = sample_pool_def PerThreadActivity_def wait_for_work_def awake_def pool_Schedule_def Signal_def
  CreateThreadPoolScheduler_def

lemma sample_pool_run: "pool_run 1 [7, 8] [7] (sample_pool (Running 7) [8] 1)"
proof -
  have "pool_run 1 [] [] (sample_pool LoopTop [] 1)" by (rule pool_run.created) (simp add: pool_defs)
  from pool_run.activity [OF this, of 0 "sample_pool Waiting [] 0"]
  have "pool_run 1 [] [] (sample_pool Waiting [] 0)" by (simp add: pool_defs)
  from pool_run.scheduled [OF this, of 0 7]
  have "pool_run 1 [7] [] (sample_pool Woken [7] 0)" by (simp add: pool_defs)
  from pool_run.activity [OF this, of 0 "sample_pool (Running 7) [] 1"]
  have "pool_run 1 [7] [7] (sample_pool (Running 7) [] 1)" by (simp add: pool_defs)
  from pool_run.scheduled [OF this, of 0 8] show ?thesis by (simp add: pool_defs)
qed

theorem thread_pool_order_witness:
  "[7, 8] = [7] @ todo (sample_pool (Running 7) [8] 1)
    \<and> (\<exists>pool'. PerThreadActivity 0 (sample_pool (Running 7) [8] 1) = Inr pool')
    \<and> \<not> IdleCondition (sample_pool (Running 7) [8] 1)"
  using thread_pool_order [OF sample_pool_run] by (auto simp: awake_def sample_pool_def)

text \<open>
  C18. The threads alone bring the pool to rest. From any state of a run, every sequence of thread steps
  (in any order, with no further task) is bounded by the work that is left, and a state in which no
  thread can step is idle, so that \<open>WaitUntilIdle\<close> returns; when the pool is being destroyed every
  thread has then returned and can be joined. In particular no wake-up is lost.
\<close>

theorem thread_pool_drains:
  assumes "pool_run n tasks started pool" "(pool_step ^^ k) pool pool'"
  shows "k \<le> pool_work pool \<and> ((\<exists>next. pool_step pool' next)
    \<or> (if threads_should_join pool' then set (threads pool') \<subseteq> {Joined} else IdleCondition pool'))"
proof -
  note inv = pool_run_inv [OF assms(1)]
  have "pool_inv n pool'" using pool.inv_steps [OF relpowp_imp_rtranclp [OF assms(2)] inv] .
  then have "pool_at_rest pool' \<or> (\<exists>next. pool_step pool' next)" using pool.stuck by blast
  then show ?thesis using pool.steps_bounded [OF assms(2) inv] unfolding pool_at_rest_def by (metis add_leD1)
qed

theorem thread_pool_drains_witness:
  "4 \<le> pool_work (sample_pool (Running 7) [8] 1)
    \<and> (pool_step ^^ 4) (sample_pool (Running 7) [8] 1) (sample_pool Waiting [] 0) \<and> IdleCondition (sample_pool Waiting [] 0)"
proof -
  have steps: "pool_step (sample_pool (Running 7) [8] 1) (sample_pool LoopTop [8] 1)"
    "pool_step (sample_pool LoopTop [8] 1) (sample_pool (Running 8) [] 1)"
    "pool_step (sample_pool (Running 8) [] 1) (sample_pool LoopTop [] 1)"
    "pool_step (sample_pool LoopTop [] 1) (sample_pool Waiting [] 0)"
    by (auto simp: pool_step_def pool_defs intro!: exI [of _ 0])
  then have "(pool_step ^^ 4) (sample_pool (Running 7) [8] 1) (sample_pool Waiting [] 0)"
    by (auto simp: numeral_eq_Suc)
  moreover have "\<not> pool_step (sample_pool Waiting [] 0) p" for p by (simp add: pool_step_def pool_defs)
  ultimately show ?thesis
    using thread_pool_drains [OF sample_pool_run, of 4 "sample_pool Waiting [] 0"] by (simp add: sample_pool_def)
qed

section \<open>Runs of a worker\<close>

text \<open>
  A worker on any scheduler, with the tasks scheduled on it, those that have returned, both in order,
  the tasks of the closures the scheduler holds, and the tasks that are being run.
\<close>

inductive worker_run :: "'task list \<Rightarrow> 'task list \<Rightarrow> 'task list \<Rightarrow> 'task list \<Rightarrow> 'task WorkerImpl \<Rightarrow> bool" where
  created: "worker_run [] [] [] [] CreateWorker"
| scheduled: "worker_run tasks finished held executing worker \<Longrightarrow> worker_Schedule task worker = (worker', given)
    \<Longrightarrow> worker_run (tasks @ [task]) finished (held @ case_option [] (\<lambda>t. [t]) given) executing worker'"
| begins: "worker_run tasks finished (ts @ task # ts') executing worker
    \<Longrightarrow> worker_run tasks finished (ts @ ts') (executing @ [task]) worker"
| returns: "worker_run tasks finished held (ts @ task # ts') worker \<Longrightarrow> run_next_task worker = Inr (worker', given)
    \<Longrightarrow> worker_run tasks (finished @ [task]) (held @ case_option [] (\<lambda>t. [t]) given) (ts @ ts') worker'"

lemma worker_run_sequential:
  "worker_run tasks finished held executing worker \<Longrightarrow>
    tasks = finished @ executing @ held @ steps worker \<and> marker worker
    \<and> length (executing @ held) = (if running worker then 1 else 0) \<and> (\<not> running worker \<longrightarrow> steps worker = [])"
proof (induction rule: worker_run.induct)
  case (returns tasks finished held ts task ts' worker worker' given)
  have empty: "ts = []" "ts' = []" "held = []" "running worker" using returns.IH by (auto split: if_splits)
  then show ?case
    using returns.IH returns.hyps(2)
    by (cases "steps worker") (auto simp: run_next_task_def MaybeRunNext_def fcp_check_Inr_iff)
next
  case (scheduled tasks finished held executing worker task worker' given)
  then show ?case
    by (auto simp: worker_Schedule_def MaybeRunNext_def split: if_splits list.splits)
qed (auto simp: CreateWorker_def split: if_splits)

text \<open>
  C19. A worker runs its tasks strictly one after the other in the order in which they were scheduled,
  whatever the scheduler under it does with the closures: those that have returned are the first
  ones, at most one is held by the scheduler or runs, the others wait in order, the end of a
  task never fails, and when the scheduler holds no closure of the worker every task has returned.
\<close>

theorem worker_runs_in_order:
  assumes "worker_run tasks finished held executing worker"
  shows "tasks = finished @ executing @ held @ steps worker \<and> length (executing @ held) \<le> 1
    \<and> (executing @ held = [] \<longrightarrow> finished = tasks)
    \<and> (\<exists>worker' given. run_next_task worker = Inr (worker', given))"
  using worker_run_sequential [OF assms] by (auto simp: run_next_task_def split: if_splits)

theorem worker_runs_in_order_witness:
  "\<exists>worker. worker_run [4, 5, 6] [4] [5 :: nat] [] worker \<and> steps worker = [6]"
proof -
  let ?w = "\<lambda>ts :: nat list. \<lparr>running = True, steps = ts, marker = True\<rparr>"
  have "worker_run [4] [] [4 :: nat] [] (?w [])"
    using worker_run.scheduled [OF worker_run.created, of 4 "?w []" "Some 4"]
    by (simp add: worker_Schedule_def MaybeRunNext_def CreateWorker_def)
  then have "worker_run [4, 5 :: nat] [] [4] [] (?w [5])"
    using worker_run.scheduled [of "[4]" "[]" "[4]" "[]" "?w []" 5 "?w [5]" None]
    by (simp add: worker_Schedule_def MaybeRunNext_def)
  then have "worker_run [4, 5, 6 :: nat] [] [4] [] (?w [5, 6])"
    using worker_run.scheduled [of "[4, 5]" "[]" "[4]" "[]" "?w [5]" 6 "?w [5, 6]" None]
    by (simp add: worker_Schedule_def MaybeRunNext_def)
  then have "worker_run [4, 5, 6 :: nat] [] [] [4] (?w [5, 6])"
    using worker_run.begins [of "[4, 5, 6]" "[]" "[]" 4 "[]" "[]"] by simp
  then have run: "worker_run [4, 5, 6 :: nat] [4] [5] [] (?w [6])"
    using worker_run.returns [of "[4, 5, 6]" "[]" "[]" "[]" 4 "[]" "?w [5, 6]" "?w [6]" "Some 5"]
    by (simp add: run_next_task_def MaybeRunNext_def)
  from worker_runs_in_order [OF run] have "steps (?w [6]) = [6]" by simp
  with run show ?thesis by (intro exI [of _ "?w [6]"] conjI)
qed

end
