(* ===== verification/Accumulator.thy ===== *)
theory Accumulator
  imports Draining "HOL-Library.Multiset"
begin

text \<open>
  \<open>fcp/secagg/server/secagg_scheduler.h\<close>: the accumulator that the server gives its background work
  to. Generators run on a parallel scheduler in any order; their results are reduced one at a
  time on a sequential scheduler; an observer is called once nothing remains.
\<close>

section \<open>The accumulator\<close>

record ('v, 'cb) Accumulator =
  async_callback :: "'cb option"
  accumulated_value :: "'v option"
  remaining_sequential_tasks_count :: uint64
  has_unobserved_work :: bool
  acc_active_count :: uint64
  is_cancelled :: bool
  in_sequential_call :: bool

definition CreateAccumulator :: "'v \<Rightarrow> ('v, 'cb) Accumulator" where
  "CreateAccumulator initial_value = \<lparr>async_callback = None, accumulated_value = Some initial_value,
     remaining_sequential_tasks_count = 0, has_unobserved_work = False, acc_active_count = 0,
     is_cancelled = False, in_sequential_call = False\<rparr>"

definition IncrementRemainingCount :: "('v, 'cb) Accumulator \<Rightarrow> ('v, 'cb) Accumulator" where
  "IncrementRemainingCount a =
     a\<lparr>has_unobserved_work := has_unobserved_work a \<or> remaining_sequential_tasks_count a = 0,
       remaining_sequential_tasks_count := remaining_sequential_tasks_count a + 1\<rparr>"

definition MaybeIncrementActiveCount :: "('v, 'cb) Accumulator \<Rightarrow> bool \<times> ('v, 'cb) Accumulator" where
  "MaybeIncrementActiveCount a =
     (if is_cancelled a then (False, a) else (True, a\<lparr>acc_active_count := acc_active_count a + 1\<rparr>))"

definition DecrementActiveCount :: "('v, 'cb) Accumulator \<Rightarrow> ('v, 'cb) Accumulator status_or" where
  "DecrementActiveCount a =
     fcp_check (acc_active_count a > 0) (Inr (a\<lparr>acc_active_count := acc_active_count a - 1\<rparr>))"

definition acc_IsIdle :: "('v, 'cb) Accumulator \<Rightarrow> bool" where
  "acc_IsIdle a \<longleftrightarrow> remaining_sequential_tasks_count a = 0"

text \<open>The result, the callback to give to the sequential scheduler at once, and the new state.\<close>

definition SetAsyncObserver :: "'cb \<Rightarrow> ('v, 'cb) Accumulator \<Rightarrow> bool \<times> 'cb option \<times> ('v, 'cb) Accumulator" where
  "SetAsyncObserver cb a =
     (if \<not> has_unobserved_work a then (False, None, a)
      else if remaining_sequential_tasks_count a = 0 then (True, Some cb, a\<lparr>has_unobserved_work := False\<rparr>)
      else (True, None, a\<lparr>async_callback := Some cb\<rparr>))"

definition UpdateCountsAndGetCallback :: "('v, 'cb) Accumulator \<Rightarrow> 'cb option \<times> ('v, 'cb) Accumulator" where
  "UpdateCountsAndGetCallback a =
     (let a = a\<lparr>acc_active_count := acc_active_count a - 1,
                remaining_sequential_tasks_count := remaining_sequential_tasks_count a - 1\<rparr>
      in if remaining_sequential_tasks_count a = 0 \<and> async_callback a \<noteq> None
         then (async_callback a, a\<lparr>has_unobserved_work := False, async_callback := None\<rparr>)
         else (None, a))"

definition GetResultAndCancel :: "('v, 'cb) Accumulator \<Rightarrow> ('v option \<times> ('v, 'cb) Accumulator) status_or" where
  "GetResultAndCancel a =
     fcp_check (acc_active_count a = 0)
       (Inr (accumulated_value a, a\<lparr>is_cancelled := True, accumulated_value := None\<rparr>))"

text \<open>\<open>Cancel\<close> sets the flag; the call returns when no task is active.\<close>

definition acc_Cancel :: "('v, 'cb) Accumulator \<Rightarrow> ('v, 'cb) Accumulator" where
  "acc_Cancel a = a\<lparr>is_cancelled := True\<rparr>"

definition acc_Cancel_returns :: "('v, 'cb) Accumulator \<Rightarrow> bool" where
  "acc_Cancel_returns a \<longleftrightarrow> \<not> acc_active_count a > 0"

text \<open>\<open>ReentrancyGuard\<close> of \<open>fcp/base/reentrancy_guard.h\<close> on \<open>in_sequential_call_\<close>, and its destructor.\<close>

definition guard_Check :: "('v, 'cb) Accumulator \<Rightarrow> ('v, 'cb) Accumulator status_or" where
  "guard_Check a =
     (if in_sequential_call a then Inl (Status FAILED_PRECONDITION ''Concurrent method calls detected'')
      else Inr (a\<lparr>in_sequential_call := True\<rparr>))"

definition guard_release :: "('v, 'cb) Accumulator \<Rightarrow> ('v, 'cb) Accumulator" where
  "guard_release a = a\<lparr>in_sequential_call := False\<rparr>"

section \<open>The accumulator with its two schedulers\<close>

text \<open>
  A closure on the sequential scheduler reduces a partial result or calls an observer. The one that
  runs has entered with its partial result, has reduced it, or has to call what
  \<open>UpdateCountsAndGetCallback\<close> returned.
\<close>

datatype ('v, 'cb) sequential_task = Reduce 'v | Observe 'cb

datatype ('v, 'cb) sequential_stage = Entered 'v | Reduced | Calling "'cb option"

text \<open>
  The closures by their place: waiting for the clock, with the parallel scheduler, in their
  generator, past \<open>DecrementActiveCount\<close>, with the sequential scheduler, and running there. The
  last four fields are the history: tasks scheduled, partial results reduced in order, tasks
  skipped because of a cancellation, and callbacks called.
\<close>

record ('v, 'cb) acc_system =
  acc :: "('v, 'cb) Accumulator"
  delayed :: "'v list"
  parallel :: "'v list"
  generating :: "'v list"
  generated :: "'v list"
  sequential :: "('v, 'cb) sequential_task list"
  current :: "('v, 'cb) sequential_stage option"
  scheduled :: "'v list"
  folded :: "'v list"
  skipped :: "'v list"
  observed :: "'cb list"

definition new_system :: "'v \<Rightarrow> ('v, 'cb) acc_system" where
  "new_system initial_value = \<lparr>acc = CreateAccumulator initial_value, delayed = [], parallel = [], generating = [],
     generated = [], sequential = [], current = None, scheduled = [], folded = [], skipped = [], observed = []\<rparr>"

definition Schedule_delayed :: "'v \<Rightarrow> ('v, 'cb) acc_system \<Rightarrow> ('v, 'cb) acc_system" where
  "Schedule_delayed v s = s\<lparr>acc := IncrementRemainingCount (acc s), delayed := delayed s @ [v], scheduled := scheduled s @ [v]\<rparr>"

definition acc_Schedule :: "'v \<Rightarrow> ('v, 'cb) acc_system \<Rightarrow> ('v, 'cb) acc_system" where
  "acc_Schedule v s = s\<lparr>acc := IncrementRemainingCount (acc s), parallel := parallel s @ [v], scheduled := scheduled s @ [v]\<rparr>"

definition RunSequential :: "('v, 'cb) sequential_task \<Rightarrow> ('v, 'cb) acc_system \<Rightarrow> ('v, 'cb) acc_system" where
  "RunSequential task s = s\<lparr>sequential := sequential s @ [task]\<rparr>"

definition without :: "nat \<Rightarrow> 'a list \<Rightarrow> 'a list" where
  "without k xs = take k xs @ drop (Suc k) xs"

text \<open>
  The steps of the closures. The parallel schedulers run theirs in any order, the sequential one its
  first, one at a time. \<open>f\<close> is \<open>accumulator_func_\<close>.
\<close>

datatype acc_action = WakeUp nat | StartTask nat | EndTask nat | HandOver nat | NextSequential | DoReduce | DoUpdate | DoReturn

definition wake_up :: "nat \<Rightarrow> ('v, 'cb) acc_system \<Rightarrow> ('v, 'cb) acc_system" where
  "wake_up k s = s\<lparr>delayed := without k (delayed s), parallel := parallel s @ [delayed s ! k]\<rparr>"

definition start_task :: "nat \<Rightarrow> ('v, 'cb) acc_system \<Rightarrow> ('v, 'cb) acc_system" where
  "start_task k s =
     (let v = parallel s ! k; s = s\<lparr>parallel := without k (parallel s)\<rparr>; (counted, a) = MaybeIncrementActiveCount (acc s)
      in if \<not> counted then s\<lparr>skipped := skipped s @ [v]\<rparr> else s\<lparr>acc := a, generating := generating s @ [v]\<rparr>)"

definition end_task :: "nat \<Rightarrow> ('v, 'cb) acc_system \<Rightarrow> ('v, 'cb) acc_system status_or" where
  "end_task k s =
     and_then (DecrementActiveCount (acc s)) (\<lambda>a.
       Inr (s\<lparr>acc := a, generating := without k (generating s), generated := generated s @ [generating s ! k]\<rparr>))"

definition hand_over :: "nat \<Rightarrow> ('v, 'cb) acc_system \<Rightarrow> ('v, 'cb) acc_system" where
  "hand_over k s =
     (let v = generated s ! k; s = s\<lparr>generated := without k (generated s)\<rparr>
      in if is_cancelled (acc s) then s\<lparr>skipped := skipped s @ [v]\<rparr> else RunSequential (Reduce v) s)"

definition next_sequential :: "('v, 'cb) acc_system \<Rightarrow> ('v, 'cb) acc_system status_or" where
  "next_sequential s =
     (case sequential s of
        [] \<Rightarrow> Inr s
      | Observe cb # rest \<Rightarrow> Inr (s\<lparr>sequential := rest, observed := observed s @ [cb]\<rparr>)
      | Reduce v # rest \<Rightarrow>
          (case guard_Check (acc s) of
             Inl _ \<Rightarrow> Inl CheckFailed
           | Inr a \<Rightarrow>
               let (counted, a) = MaybeIncrementActiveCount a; s = s\<lparr>sequential := rest\<rparr>
               in Inr (if \<not> counted then s\<lparr>acc := guard_release a, skipped := skipped s @ [v]\<rparr>
                       else s\<lparr>acc := a, current := Some (Entered v)\<rparr>)))"

definition do_reduce :: "('v \<Rightarrow> 'v \<Rightarrow> 'v option) \<Rightarrow> 'v \<Rightarrow> ('v, 'cb) acc_system \<Rightarrow> ('v, 'cb) acc_system status_or" where
  "do_reduce f v s =
     (case accumulated_value (acc s) of
        None \<Rightarrow> Inl Undefined
      | Some so_far \<Rightarrow>
          (case f so_far v of
             None \<Rightarrow> Inl CheckFailed
           | Some new_value \<Rightarrow>
               Inr (s\<lparr>acc := (acc s)\<lparr>accumulated_value := Some new_value\<rparr>, current := Some Reduced, folded := folded s @ [v]\<rparr>)))"

definition do_update :: "('v, 'cb) acc_system \<Rightarrow> ('v, 'cb) acc_system" where
  "do_update s = (let (cb, a) = UpdateCountsAndGetCallback (acc s) in s\<lparr>acc := a, current := Some (Calling cb)\<rparr>)"

definition do_return :: "'cb option \<Rightarrow> ('v, 'cb) acc_system \<Rightarrow> ('v, 'cb) acc_system" where
  "do_return cb s = s\<lparr>acc := guard_release (acc s), current := None, observed := observed s @ case_option [] (\<lambda>cb. [cb]) cb\<rparr>"

text \<open>An action, when it is possible at all.\<close>

fun act :: "('v \<Rightarrow> 'v \<Rightarrow> 'v option) \<Rightarrow> acc_action \<Rightarrow> ('v, 'cb) acc_system \<Rightarrow> ('v, 'cb) acc_system status_or option" where
  "act f (WakeUp k) s = (if k < length (delayed s) then Some (Inr (wake_up k s)) else None)"
| "act f (StartTask k) s = (if k < length (parallel s) then Some (Inr (start_task k s)) else None)"
| "act f (EndTask k) s = (if k < length (generating s) then Some (end_task k s) else None)"
| "act f (HandOver k) s = (if k < length (generated s) then Some (Inr (hand_over k s)) else None)"
| "act f NextSequential s = (if current s = None \<and> sequential s \<noteq> [] then Some (next_sequential s) else None)"
| "act f DoReduce s = (case current s of Some (Entered v) \<Rightarrow> Some (do_reduce f v s) | _ \<Rightarrow> None)"
| "act f DoUpdate s = (case current s of Some Reduced \<Rightarrow> Some (Inr (do_update s)) | _ \<Rightarrow> None)"
| "act f DoReturn s = (case current s of Some (Calling cb) \<Rightarrow> Some (Inr (do_return cb s)) | _ \<Rightarrow> None)"

definition acc_step :: "('v \<Rightarrow> 'v \<Rightarrow> 'v option) \<Rightarrow> ('v, 'cb) acc_system \<Rightarrow> ('v, 'cb) acc_system \<Rightarrow> bool" where
  "acc_step f s t \<longleftrightarrow> (\<exists>a. act f a s = Some (Inr t))"

text \<open>Everything that can happen: steps of the closures, and calls of the accumulator at any time.\<close>

inductive acc_run :: "('v \<Rightarrow> 'v \<Rightarrow> 'v option) \<Rightarrow> 'v \<Rightarrow> ('v, 'cb) acc_system \<Rightarrow> bool" for f v0 where
  start: "acc_run f v0 (new_system v0)"
| step: "acc_run f v0 s \<Longrightarrow> acc_step f s t \<Longrightarrow> acc_run f v0 t"
| schedule: "acc_run f v0 s \<Longrightarrow> acc_run f v0 (acc_Schedule v s)"
| schedule_later: "acc_run f v0 s \<Longrightarrow> acc_run f v0 (Schedule_delayed v s)"
| observer: "acc_run f v0 s \<Longrightarrow> SetAsyncObserver cb (acc s) = (result, now, a)
    \<Longrightarrow> acc_run f v0 (s\<lparr>acc := a, sequential := sequential s @ case_option [] (\<lambda>cb. [Observe cb]) now\<rparr>)"
| result: "acc_run f v0 s \<Longrightarrow> GetResultAndCancel (acc s) = Inr (v, a) \<Longrightarrow> acc_run f v0 (s\<lparr>acc := a\<rparr>)"
| cancel: "acc_run f v0 s \<Longrightarrow> acc_run f v0 (s\<lparr>acc := acc_Cancel (acc s)\<rparr>)"

section \<open>What holds in every run\<close>

definition reduces :: "('v, 'cb) sequential_task list \<Rightarrow> 'v list" where
  "reduces ts = concat (map (\<lambda>t. case t of Reduce v \<Rightarrow> [v] | Observe _ \<Rightarrow> []) ts)"

definition observes :: "('v, 'cb) sequential_task list \<Rightarrow> 'cb list" where
  "observes ts = concat (map (\<lambda>t. case t of Observe cb \<Rightarrow> [cb] | Reduce _ \<Rightarrow> []) ts)"

definition entered :: "('v, 'cb) sequential_stage option \<Rightarrow> 'v list" where
  "entered c = (case c of Some (Entered v) \<Rightarrow> [v] | _ \<Rightarrow> [])"

definition in_reduction :: "('v, 'cb) sequential_stage option \<Rightarrow> nat" where
  "in_reduction c = (case c of Some (Entered _) \<Rightarrow> 1 | Some Reduced \<Rightarrow> 1 | _ \<Rightarrow> 0)"

lemma stage_simps [simp]:
  "reduces [] = []" "reduces (Reduce v # ts) = v # reduces ts" "reduces (Observe cb # ts) = reduces ts"
  "reduces (ts @ us) = reduces ts @ reduces us"
  "observes [] = []" "observes (Reduce v # ts) = observes ts" "observes (Observe cb # ts) = cb # observes ts"
  "observes (ts @ us) = observes ts @ observes us"
  "entered None = []" "entered (Some (Entered v)) = [v]" "entered (Some Reduced) = []" "entered (Some (Calling c)) = []"
  "in_reduction None = 0" "in_reduction (Some (Entered v)) = 1" "in_reduction (Some Reduced) = 1" "in_reduction (Some (Calling c)) = 0"
  by (simp_all add: reduces_def observes_def entered_def in_reduction_def)

text \<open>The tasks that are still to be reduced, and the number of those that the counter counts.\<close>

definition pending :: "('v, 'cb) acc_system \<Rightarrow> 'v multiset" where
  "pending s = mset (delayed s) + mset (parallel s) + mset (generating s) + mset (generated s)
     + mset (reduces (sequential s)) + mset (entered (current s))"

definition outstanding :: "('v, 'cb) acc_system \<Rightarrow> nat" where
  "outstanding s = size (pending s) + (if current s = Some Reduced then 1 else 0) + length (skipped s)"

definition counts_ok :: "('v, 'cb) acc_system \<Rightarrow> bool" where
  "counts_ok s \<longleftrightarrow> remaining_sequential_tasks_count (acc s) = of_nat (outstanding s)
     \<and> acc_active_count (acc s) = of_nat (length (generating s) + in_reduction (current s))
     \<and> (in_sequential_call (acc s) \<longleftrightarrow> current s \<noteq> None)"

definition flags_ok :: "('v, 'cb) acc_system \<Rightarrow> bool" where
  "flags_ok s \<longleftrightarrow> (outstanding s \<noteq> 0 \<longrightarrow> has_unobserved_work (acc s))
     \<and> (async_callback (acc s) \<noteq> None \<longrightarrow> outstanding s \<noteq> 0)
     \<and> (skipped s \<noteq> [] \<longrightarrow> is_cancelled (acc s))"

definition value_ok :: "('v \<Rightarrow> 'v \<Rightarrow> 'v) \<Rightarrow> 'v \<Rightarrow> ('v, 'cb) acc_system \<Rightarrow> bool" where
  "value_ok g v0 s \<longleftrightarrow>
     (accumulated_value (acc s) = None \<longrightarrow> is_cancelled (acc s) \<and> in_reduction (current s) = 0)
     \<and> (accumulated_value (acc s) \<noteq> None \<longrightarrow> accumulated_value (acc s) = Some (foldl g v0 (folded s)))"

definition tasks_ok :: "('v, 'cb) acc_system \<Rightarrow> bool" where
  "tasks_ok s \<longleftrightarrow> mset (scheduled s) = pending s + mset (folded s) + mset (skipped s)
     \<and> (current s = Some Reduced \<longrightarrow> folded s \<noteq> [])"

definition small :: "('v, 'cb) acc_system \<Rightarrow> bool" where
  "small s \<longleftrightarrow> length (scheduled s) < 18446744073709551616"

definition acc_inv :: "('v \<Rightarrow> 'v \<Rightarrow> 'v) \<Rightarrow> 'v \<Rightarrow> ('v, 'cb) acc_system \<Rightarrow> bool" where
  "acc_inv g v0 s \<longleftrightarrow> tasks_ok s \<and> counts_ok s \<and> flags_ok s \<and> value_ok g v0 s \<and> small s"

lemmas acc_inv_defs = acc_inv_def tasks_ok_def counts_ok_def flags_ok_def value_ok_def small_def outstanding_def pending_def

lemma mset_without: "k < length xs \<Longrightarrow> mset xs = add_mset (xs ! k) (mset (without k xs))"
  by (metis id_take_nth_drop mset_append mset.simps(2) union_mset_add_mset_right without_def)

lemma length_without: "k < length xs \<Longrightarrow> length xs = Suc (length (without k xs))"
  by (simp add: without_def)

lemma of_nat_eq_0: "n < 18446744073709551616 \<Longrightarrow> (of_nat n :: uint64) = 0 \<longleftrightarrow> n = 0"
  by (simp add: word_of_nat_eq_0_iff nat_dvd_not_less dvd_eq_mod_eq_0)

lemma outstanding_bound:
  assumes "acc_inv g v0 s"
  shows "outstanding s \<le> length (scheduled s)" "length (generating s) + in_reduction (current s) \<le> length (scheduled s)"
proof -
  have size: "length (scheduled s) = size (pending s) + length (folded s) + length (skipped s)"
    using assms unfolding acc_inv_def tasks_ok_def by (metis size_mset size_union)
  have r: "current s = Some Reduced \<Longrightarrow> 0 < length (folded s)" using assms by (simp add: acc_inv_def tasks_ok_def)
  show "outstanding s \<le> length (scheduled s)" using size r by (auto simp: outstanding_def Suc_le_eq)
  show "length (generating s) + in_reduction (current s) \<le> length (scheduled s)"
    using size r by (auto simp: pending_def in_reduction_def Suc_le_eq split: option.splits sequential_stage.splits)
qed

lemma remaining_zero:
  assumes "acc_inv g v0 s"
  shows "remaining_sequential_tasks_count (acc s) = 0 \<longleftrightarrow> outstanding s = 0"
    and "acc_active_count (acc s) = 0 \<longleftrightarrow> generating s = [] \<and> in_reduction (current s) = 0"
  using assms outstanding_bound [OF assms] of_nat_eq_0 [of "outstanding s"]
    of_nat_eq_0 [of "length (generating s) + in_reduction (current s)"]
  by (auto simp: acc_inv_def counts_ok_def small_def)

lemma acc_inv_start: "acc_inv g v0 (new_system v0)"
  by (simp add: acc_inv_defs new_system_def CreateAccumulator_def)

lemma acc_inv_wake_up:
  assumes "acc_inv g v0 s" "k < length (delayed s)"
  shows "acc_inv g v0 (wake_up k s)"
  using assms
  by (auto simp: acc_inv_defs wake_up_def mset_without [OF assms(2)] length_without [OF assms(2)] split: option.splits)

lemma acc_inv_start_task:
  assumes "acc_inv g v0 s" "k < length (parallel s)"
  shows "acc_inv g v0 (start_task k s)"
  using assms
  by (cases "is_cancelled (acc s)"; cases "accumulated_value (acc s)")
    (simp_all add: acc_inv_defs start_task_def MaybeIncrementActiveCount_def mset_without [OF assms(2)]
      length_without [OF assms(2)])

lemma acc_inv_end_task:
  assumes "acc_inv g v0 s" "k < length (generating s)"
  shows "\<exists>t. end_task k s = Inr t \<and> acc_inv g v0 t"
proof -
  have "0 < acc_active_count (acc s)" using remaining_zero(2) [OF assms(1)] assms(2) by (auto simp: word_neq_0_conv)
  then show ?thesis
    using assms
    by (auto simp: acc_inv_defs end_task_def DecrementActiveCount_def mset_without [OF assms(2)] length_without [OF assms(2)]
        split: option.splits)
qed

lemma acc_inv_hand_over:
  assumes "acc_inv g v0 s" "k < length (generated s)"
  shows "acc_inv g v0 (hand_over k s)"
  using assms
  by (auto simp: acc_inv_defs hand_over_def RunSequential_def Let_def mset_without [OF assms(2)]
      length_without [OF assms(2)] split: option.splits)

lemma acc_inv_next_sequential:
  assumes "acc_inv g v0 s" "current s = None"
  shows "\<exists>t. next_sequential s = Inr t \<and> acc_inv g v0 t"
proof (cases "sequential s")
  case Nil
  then show ?thesis using assms(1) by (simp add: next_sequential_def)
next
  case (Cons task rest)
  show ?thesis
  proof (cases task)
    case (Observe cb)
    let ?t = "s\<lparr>sequential := rest, observed := observed s @ [cb]\<rparr>"
    have "pending ?t = pending s" "outstanding ?t = outstanding s"
      using Cons Observe by (simp_all add: pending_def outstanding_def)
    then have "acc_inv g v0 ?t" using assms(1) by (simp add: acc_inv_def tasks_ok_def counts_ok_def flags_ok_def value_ok_def small_def)
    then show ?thesis using Cons Observe by (simp add: next_sequential_def)
  next
    case (Reduce v)
    have g: "\<not> in_sequential_call (acc s)" using assms by (simp add: acc_inv_def counts_ok_def)
    show ?thesis
      using assms Cons Reduce g
      by (cases "is_cancelled (acc s)"; cases "accumulated_value (acc s)")
        (simp_all add: acc_inv_defs next_sequential_def guard_Check_def guard_release_def MaybeIncrementActiveCount_def)
  qed
qed

lemma acc_inv_do_reduce:
  assumes "acc_inv g v0 s" "current s = Some (Entered v)"
  shows "\<exists>t. do_reduce (\<lambda>a b. Some (g a b)) v s = Inr t \<and> acc_inv g v0 t"
proof -
  obtain x where x: "accumulated_value (acc s) = Some x"
    using assms by (auto simp: acc_inv_def value_ok_def split: option.splits)
  let ?t = "s\<lparr>acc := (acc s)\<lparr>accumulated_value := Some (g x v)\<rparr>, current := Some Reduced, folded := folded s @ [v]\<rparr>"
  have "acc_inv g v0 ?t" using assms x by (auto simp: acc_inv_defs)
  then show ?thesis using x by (simp add: do_reduce_def)
qed

lemma acc_inv_do_update:
  assumes "acc_inv g v0 s" "current s = Some Reduced"
  shows "acc_inv g v0 (do_update s)"
proof -
  have eq: "remaining_sequential_tasks_count (acc s) - 1 = of_nat (size (pending s) + length (skipped s))"
    using assms by (simp add: acc_inv_def counts_ok_def outstanding_def)
  then have zero: "remaining_sequential_tasks_count (acc s) - 1 = 0 \<longleftrightarrow> size (pending s) + length (skipped s) = 0"
    using of_nat_eq_0 [of "size (pending s) + length (skipped s)"] outstanding_bound(1) [OF assms(1)] assms
    by (simp add: acc_inv_def small_def outstanding_def)
  then show ?thesis
    using assms eq zero unfolding do_update_def UpdateCountsAndGetCallback_def Let_def
    by (auto simp: acc_inv_def tasks_ok_def counts_ok_def flags_ok_def value_ok_def small_def outstanding_def pending_def
        split: option.splits)
qed

lemma acc_inv_do_return:
  assumes "acc_inv g v0 s" "current s = Some (Calling cb)"
  shows "acc_inv g v0 (do_return cb s)"
  using assms by (auto simp: acc_inv_defs do_return_def guard_release_def split: option.splits)

lemma acc_inv_act:
  assumes "acc_inv g v0 s" "act (\<lambda>a b. Some (g a b)) a s = Some r"
  shows "\<exists>t. r = Inr t \<and> acc_inv g v0 t"
  using assms acc_inv_end_task acc_inv_next_sequential acc_inv_do_reduce
  by (cases a) (auto simp: acc_inv_wake_up acc_inv_start_task acc_inv_hand_over acc_inv_do_update acc_inv_do_return
      split: if_splits option.splits sequential_stage.splits)

lemma act_scheduled: "act f a s = Some (Inr t) \<Longrightarrow> scheduled t = scheduled s"
  by (cases a) (auto simp: wake_up_def start_task_def end_task_def hand_over_def next_sequential_def do_reduce_def
      do_update_def do_return_def RunSequential_def Let_def failure_iffs
      split: if_splits option.splits sequential_stage.splits list.splits sequential_task.splits sum.splits prod.splits)

lemmas acc_inv_parts = acc_inv_def tasks_ok_def counts_ok_def flags_ok_def value_ok_def small_def

lemma acc_inv_counted:
  assumes "acc_inv g v0 s" "Suc (length (scheduled s)) < 18446744073709551616"
    and "pending t = add_mset v (pending s)" "scheduled t = scheduled s @ [v]" "acc t = IncrementRemainingCount (acc s)"
    and "generating t = generating s" "current t = current s" "folded t = folded s" "skipped t = skipped s"
  shows "acc_inv g v0 t"
proof -
  have out: "outstanding t = Suc (outstanding s)" using assms(3-) by (simp add: outstanding_def)
  have "has_unobserved_work (acc t)"
    using assms(1,5) remaining_zero(1) [OF assms(1)] by (auto simp: IncrementRemainingCount_def acc_inv_def flags_ok_def)
  then show ?thesis
    using assms out by (simp add: acc_inv_parts IncrementRemainingCount_def)
qed

lemma acc_inv_schedule:
  assumes "acc_inv g v0 s" "Suc (length (scheduled s)) < 18446744073709551616"
  shows "acc_inv g v0 (acc_Schedule v s)" "acc_inv g v0 (Schedule_delayed v s)"
  by (rule acc_inv_counted [OF assms]; simp add: pending_def acc_Schedule_def Schedule_delayed_def)+

lemma acc_inv_observer:
  assumes "acc_inv g v0 s" "SetAsyncObserver cb (acc s) = (result, now, a)"
  shows "acc_inv g v0 (s\<lparr>acc := a, sequential := sequential s @ case_option [] (\<lambda>cb. [Observe cb]) now\<rparr>)"
proof -
  define t where "t = s\<lparr>acc := a, sequential := sequential s @ case_option [] (\<lambda>cb. [Observe cb]) now\<rparr>"
  have same: "pending t = pending s" "outstanding t = outstanding s" "scheduled t = scheduled s" "folded t = folded s"
      "skipped t = skipped s" "generating t = generating s" "current t = current s" "acc t = a"
    by (cases now; simp add: t_def pending_def outstanding_def)+
  consider "a = acc s" | "outstanding s = 0" "a = (acc s)\<lparr>has_unobserved_work := False\<rparr>"
    | "outstanding s \<noteq> 0" "a = (acc s)\<lparr>async_callback := Some cb\<rparr>"
    using assms(2) remaining_zero(1) [OF assms(1)] by (auto simp: SetAsyncObserver_def split: if_splits)
  then have "acc_inv g v0 t"
  proof cases
    case 1
    then show ?thesis using assms(1) unfolding acc_inv_parts same by blast
  next
    case 2
    then show ?thesis using assms(1) unfolding acc_inv_parts same by auto
  next
    case 3
    then show ?thesis using assms(1) unfolding acc_inv_parts same by auto
  qed
  then show ?thesis by (simp only: t_def)
qed

lemma acc_inv_result:
  assumes "acc_inv g v0 s" "GetResultAndCancel (acc s) = Inr (v, a)"
  shows "acc_inv g v0 (s\<lparr>acc := a\<rparr>)"
proof -
  have a: "a = (acc s)\<lparr>is_cancelled := True, accumulated_value := None\<rparr>" "in_reduction (current s) = 0"
    using assms(2) remaining_zero(2) [OF assms(1)] by (simp_all add: GetResultAndCancel_def fcp_check_Inr_iff)
  have "pending (s\<lparr>acc := a\<rparr>) = pending s" "outstanding (s\<lparr>acc := a\<rparr>) = outstanding s"
    by (simp_all add: pending_def outstanding_def)
  then show ?thesis using assms(1) a by (simp add: acc_inv_parts)
qed

lemma acc_inv_cancel:
  assumes "acc_inv g v0 s"
  shows "acc_inv g v0 (s\<lparr>acc := acc_Cancel (acc s)\<rparr>)"
proof -
  have "pending (s\<lparr>acc := acc_Cancel (acc s)\<rparr>) = pending s" "outstanding (s\<lparr>acc := acc_Cancel (acc s)\<rparr>) = outstanding s"
    by (simp_all add: pending_def outstanding_def)
  then show ?thesis using assms by (simp add: acc_inv_parts acc_Cancel_def)
qed

lemma acc_run_inv: "acc_run (\<lambda>a b. Some (g a b)) v0 s \<Longrightarrow> small s \<Longrightarrow> acc_inv g v0 s"
proof (induction rule: acc_run.induct)
  case start
  then show ?case by (simp add: acc_inv_start)
next
  case (step s t)
  then obtain a where a: "act (\<lambda>a b. Some (g a b)) a s = Some (Inr t)" by (auto simp: acc_step_def)
  then have "scheduled t = scheduled s" by (rule act_scheduled)
  then show ?case using step.IH step.prems acc_inv_act [OF _ a] by (auto simp: small_def)
next
  case (schedule s v)
  then show ?case by (intro acc_inv_schedule) (simp_all add: small_def acc_Schedule_def)
next
  case (schedule_later s v)
  then show ?case by (intro acc_inv_schedule) (simp_all add: small_def Schedule_delayed_def)
next
  case (observer s cb result now a)
  then show ?case by (intro acc_inv_observer [OF _ observer.hyps(2)]) (simp add: small_def)
next
  case (result s v a)
  then show ?case by (intro acc_inv_result [OF _ result.hyps(2)]) (simp add: small_def)
next
  case (cancel s)
  then show ?case by (intro acc_inv_cancel) (simp add: small_def)
qed

section \<open>The closures alone finish the work\<close>

definition calling :: "('v, 'cb) sequential_stage option \<Rightarrow> 'cb list" where
  "calling c = (case c of Some (Calling (Some cb)) \<Rightarrow> [cb] | _ \<Rightarrow> [])"

text \<open>The callbacks called, those that have been let go, and the one that waits for the end of the work.\<close>

definition callbacks :: "('v, 'cb) acc_system \<Rightarrow> 'cb multiset" where
  "callbacks s = mset (observed s) + mset (observes (sequential s)) + mset (calling (current s))
     + mset (case_option [] (\<lambda>cb. [cb]) (async_callback (acc s)))"

lemma calling_simps [simp]:
  "calling None = []" "calling (Some (Entered v)) = []" "calling (Some Reduced) = []"
  "calling (Some (Calling None)) = []" "calling (Some (Calling (Some cb))) = [cb]"
  by (simp_all add: calling_def)

lemmas act_defs = wake_up_def start_task_def end_task_def hand_over_def next_sequential_def do_reduce_def do_update_def
  do_return_def RunSequential_def MaybeIncrementActiveCount_def DecrementActiveCount_def UpdateCountsAndGetCallback_def
  guard_Check_def guard_release_def

lemma act_callbacks: "act f a s = Some (Inr t) \<Longrightarrow> callbacks t = callbacks s"
  by (cases a) (auto simp: act_defs callbacks_def Let_def failure_iffs fcp_check_Inr_iff
      split: if_splits option.splits sequential_stage.splits list.splits sequential_task.splits)

lemma act_cancelled: "act f a s = Some (Inr t) \<Longrightarrow> is_cancelled (acc t) = is_cancelled (acc s)"
  by (cases a) (auto simp: act_defs Let_def failure_iffs fcp_check_Inr_iff
      split: if_splits option.splits sequential_stage.splits list.splits sequential_task.splits)

fun stage_work :: "('v, 'cb) sequential_stage option \<Rightarrow> nat" where
  "stage_work None = 0"
| "stage_work (Some (Entered v)) = 3"
| "stage_work (Some Reduced) = 2"
| "stage_work (Some (Calling c)) = 1"

definition acc_work :: "('v, 'cb) acc_system \<Rightarrow> nat" where
  "acc_work s = 8 * length (delayed s) + 7 * length (parallel s) + 6 * length (generating s) + 5 * length (generated s)
     + 4 * length (reduces (sequential s)) + length (observes (sequential s)) + stage_work (current s)"

definition acc_at_rest :: "('v, 'cb) acc_system \<Rightarrow> bool" where
  "acc_at_rest s \<longleftrightarrow> delayed s = [] \<and> parallel s = [] \<and> generating s = [] \<and> generated s = [] \<and> sequential s = [] \<and> current s = None"

lemma act_work: "act f a s = Some (Inr t) \<Longrightarrow> acc_work t < acc_work s"
proof (cases a)
  case (WakeUp k)
  then show "act f a s = Some (Inr t) \<Longrightarrow> acc_work t < acc_work s"
    using length_without [of k "delayed s"] by (auto simp: act_defs acc_work_def split: if_splits)
next
  case (StartTask k)
  then show "act f a s = Some (Inr t) \<Longrightarrow> acc_work t < acc_work s"
    using length_without [of k "parallel s"] by (auto simp: act_defs acc_work_def Let_def split: if_splits)
next
  case (EndTask k)
  then show "act f a s = Some (Inr t) \<Longrightarrow> acc_work t < acc_work s"
    using length_without [of k "generating s"] by (auto simp: act_defs acc_work_def failure_iffs split: if_splits)
next
  case (HandOver k)
  then show "act f a s = Some (Inr t) \<Longrightarrow> acc_work t < acc_work s"
    using length_without [of k "generated s"] by (auto simp: act_defs acc_work_def Let_def split: if_splits)
qed (auto simp: act_defs acc_work_def Let_def
    split: if_splits option.splits sequential_stage.splits list.splits sequential_task.splits)

lemma acc_enabled:
  assumes "\<not> acc_at_rest s"
  shows "\<exists>a r. act f a s = Some r"
proof (cases "current s")
  case (Some c)
  have "act f DoReduce s \<noteq> None \<or> act f DoUpdate s \<noteq> None \<or> act f DoReturn s \<noteq> None"
    using Some by (cases c) simp_all
  then show ?thesis by blast
next
  case None
  have "act f (WakeUp 0) s \<noteq> None \<or> act f (StartTask 0) s \<noteq> None \<or> act f (EndTask 0) s \<noteq> None
      \<or> act f (HandOver 0) s \<noteq> None \<or> act f NextSequential s \<noteq> None"
    using assms None by (auto simp: acc_at_rest_def)
  then show ?thesis by blast
qed

interpretation accumulator: draining "acc_inv g v0" "acc_step (\<lambda>a b. Some (g a b))" acc_work acc_at_rest for g v0
proof
  fix s t :: "('a, 'b) acc_system"
  assume inv: "acc_inv g v0 s"
  show "acc_step (\<lambda>a b. Some (g a b)) s t \<Longrightarrow> acc_inv g v0 t" using acc_inv_act [OF inv] by (auto simp: acc_step_def)
  show "acc_step (\<lambda>a b. Some (g a b)) s t \<Longrightarrow> acc_work t < acc_work s" by (auto simp: acc_step_def dest: act_work)
  show "\<not> acc_at_rest s \<Longrightarrow> \<exists>t. acc_step (\<lambda>a b. Some (g a b)) s t"
    using acc_enabled [of s "\<lambda>a b. Some (g a b)"] acc_inv_act [OF inv] unfolding acc_step_def by blast
qed

lemma idle_iff:
  assumes "acc_inv g v0 s"
  shows "acc_IsIdle (acc s) \<longleftrightarrow> mset (folded s) = mset (scheduled s) \<and> current s \<noteq> Some Reduced"
proof -
  have "mset (scheduled s) = pending s + mset (folded s) + mset (skipped s)" using assms by (simp add: acc_inv_def tasks_ok_def)
  then have "mset (folded s) = mset (scheduled s) \<longleftrightarrow> pending s = {#} \<and> skipped s = []" by auto
  then show ?thesis
    unfolding acc_IsIdle_def remaining_zero(1) [OF assms] by (auto simp: outstanding_def)
qed

text \<open>
  C15. In every run of an accumulator, with tasks scheduled, observers set and results taken at any time:
  no step of a closure fails a check or touches a value that was taken; the accumulated value is the
  fold of the partial results reduced so far (until it is taken, which cancels); and as long as it is not cancelled
  the accumulator says that it is idle exactly when the partial results of all scheduled tasks, in some
  order, have been reduced and counted.
\<close>

theorem accumulator_reduces_all:
  assumes "acc_run (\<lambda>a b. Some (g a b)) v0 s" "length (scheduled s) < 18446744073709551616"
  shows "(\<forall>a r. act (\<lambda>a b. Some (g a b)) a s = Some r \<longrightarrow> (\<exists>t. r = Inr t))
    \<and> (case accumulated_value (acc s) of None \<Rightarrow> is_cancelled (acc s) | Some x \<Rightarrow> x = foldl g v0 (folded s))
    \<and> (\<not> is_cancelled (acc s) \<longrightarrow> (acc_IsIdle (acc s) \<longleftrightarrow> mset (folded s) = mset (scheduled s) \<and> current s \<noteq> Some Reduced))"
proof -
  have inv: "acc_inv g v0 s" using acc_run_inv [OF assms(1)] assms(2) by (simp add: small_def)
  have "case accumulated_value (acc s) of None \<Rightarrow> is_cancelled (acc s) | Some x \<Rightarrow> x = foldl g v0 (folded s)"
    using inv by (auto simp: acc_inv_def value_ok_def split: option.split)
  then show ?thesis using acc_inv_act [OF inv] idle_iff [OF inv] by blast
qed

text \<open>A schedule of the closures, to run the model.\<close>

fun acts :: "('v \<Rightarrow> 'v \<Rightarrow> 'v option) \<Rightarrow> acc_action list \<Rightarrow> ('v, 'cb) acc_system \<Rightarrow> ('v, 'cb) acc_system option" where
  "acts f [] s = Some s"
| "acts f (a # as) s = (case act f a s of Some (Inr t) \<Rightarrow> acts f as t | _ \<Rightarrow> None)"

lemma acts_steps: "acts f as s = Some t \<Longrightarrow> (acc_step f ^^ length as) s t"
proof (induction as arbitrary: s)
  case (Cons a as)
  then obtain u where "acc_step f s u" "acts f as u = Some t"
    by (auto simp: acc_step_def split: option.splits sum.splits)
  then show ?case using relpowp_Suc_I2 [OF _ Cons.IH] by simp
qed simp

lemma acts_run: "acc_run f v0 s \<Longrightarrow> acts f as s = Some t \<Longrightarrow> acc_run f v0 t"
proof (induction as arbitrary: s)
  case (Cons a as)
  then obtain u where "acc_step f s u" "acts f as u = Some t"
    by (auto simp: acc_step_def split: option.splits sum.splits)
  then show ?case using Cons.IH [OF acc_run.step [OF Cons.prems(1)]] by blast
qed simp

text \<open>Two tasks, of which the second is generated first, and an observer.\<close>

definition sample_system :: "(nat, nat) acc_system" where
  "sample_system = \<lparr>acc = \<lparr>async_callback = Some 9, accumulated_value = Some 1, remaining_sequential_tasks_count = 2,
       has_unobserved_work = True, acc_active_count = 0, is_cancelled = False, in_sequential_call = False\<rparr>,
     delayed = [5], parallel = [7], generating = [], generated = [], sequential = [], current = None,
     scheduled = [7, 5], folded = [], skipped = [], observed = []\<rparr>"

definition sample_schedule :: "acc_action list" where
  "sample_schedule = [WakeUp 0, StartTask 1, StartTask 0, EndTask 0, HandOver 0, NextSequential, EndTask 0, DoReduce, HandOver 0,
     DoUpdate, DoReturn, NextSequential, DoReduce, DoUpdate, DoReturn]"

definition sample_final :: "(nat, nat) acc_system" where
  "sample_final = \<lparr>acc = \<lparr>async_callback = None, accumulated_value = Some 13, remaining_sequential_tasks_count = 0,
       has_unobserved_work = False, acc_active_count = 0, is_cancelled = False, in_sequential_call = False\<rparr>,
     delayed = [], parallel = [], generating = [], generated = [], sequential = [], current = None,
     scheduled = [7, 5], folded = [5, 7], skipped = [], observed = [9]\<rparr>"

lemma sample_system_run: "acc_run (\<lambda>a b. Some (a + b)) 1 sample_system"
proof -
  let ?s = "Schedule_delayed 5 (acc_Schedule 7 (new_system 1)) :: (nat, nat) acc_system"
  have "acc_run (\<lambda>a b. Some (a + b)) 1 ?s"
    by (rule acc_run.schedule_later [OF acc_run.schedule [OF acc_run.start]])
  moreover have "SetAsyncObserver 9 (acc ?s) = (True, None, acc sample_system)"
    by (simp add: sample_system_def SetAsyncObserver_def Schedule_delayed_def acc_Schedule_def IncrementRemainingCount_def
        new_system_def CreateAccumulator_def)
  moreover have "?s\<lparr>acc := acc sample_system, sequential := sequential ?s @ case_option [] (\<lambda>cb. [Observe cb]) None\<rparr> = sample_system"
    by (simp add: sample_system_def Schedule_delayed_def acc_Schedule_def new_system_def)
  ultimately show ?thesis by (metis acc_run.observer)
qed

lemma sample_acts: "acts (\<lambda>a b. Some (a + b)) sample_schedule sample_system = Some sample_final"
  unfolding sample_schedule_def sample_system_def sample_final_def
  by (simp add: act_defs without_def)

theorem accumulator_reduces_all_witness:
  "\<not> is_cancelled (acc sample_final) \<and> acc_IsIdle (acc sample_final) \<and> mset (folded sample_final) = mset (scheduled sample_final)
    \<and> accumulated_value (acc sample_final) = Some (foldl (+) 1 [5, 7])"
  using accumulator_reduces_all [OF acts_run [OF sample_system_run sample_acts]]
  by (simp add: sample_final_def acc_IsIdle_def)

text \<open>
  C16. The observer is called. From any state of a run that is not cancelled and in which an observer waits,
  every sequence of steps of the closures is bounded, and when no step is left the accumulator is
  idle, all scheduled tasks have been reduced, the value is their fold, and the observer has been
  called exactly once more than before, beside the ones that had been let go already.
\<close>

theorem accumulator_observer_called:
  assumes "acc_run (\<lambda>a b. Some (g a b)) v0 s" "length (scheduled s) < 18446744073709551616"
    and "\<not> is_cancelled (acc s)" "async_callback (acc s) = Some cb"
    and "(acc_step (\<lambda>a b. Some (g a b)) ^^ k) s t"
  shows "k \<le> acc_work s \<and> ((\<exists>u. acc_step (\<lambda>a b. Some (g a b)) t u)
    \<or> acc_IsIdle (acc t) \<and> mset (folded t) = mset (scheduled s) \<and> accumulated_value (acc t) = Some (foldl g v0 (folded t))
      \<and> mset (observed t) = mset (observed s) + mset (observes (sequential s)) + mset (calling (current s)) + {#cb#})"
proof -
  let ?step = "acc_step (\<lambda>a b. Some (g a b))"
  have inv: "acc_inv g v0 s" using acc_run_inv [OF assms(1)] assms(2) by (simp add: small_def)
  have steps: "?step\<^sup>*\<^sup>* s t" by (rule relpowp_imp_rtranclp [OF assms(5)])
  have kept: "callbacks t = callbacks s" "is_cancelled (acc t) = is_cancelled (acc s)" "scheduled t = scheduled s"
    using steps by (induction rule: rtranclp_induct) (auto simp: acc_step_def act_callbacks act_cancelled act_scheduled)
  have t: "acc_inv g v0 t" by (rule accumulator.inv_steps [OF steps inv])
  have "acc_IsIdle (acc t) \<and> mset (folded t) = mset (scheduled s) \<and> accumulated_value (acc t) = Some (foldl g v0 (folded t))
      \<and> mset (observed t) = mset (observed s) + mset (observes (sequential s)) + mset (calling (current s)) + {#cb#}"
    if "acc_at_rest t"
  proof -
    have "outstanding t = 0"
      using that t assms(3) kept(2) by (simp add: outstanding_def pending_def acc_at_rest_def acc_inv_def flags_ok_def)
    then have idle: "acc_IsIdle (acc t)" "async_callback (acc t) = None"
      using remaining_zero(1) [OF t] t by (auto simp: acc_IsIdle_def acc_inv_def flags_ok_def)
    moreover have "mset (observed t) = callbacks s" using kept(1) that idle(2) by (simp add: callbacks_def acc_at_rest_def)
    moreover have "accumulated_value (acc t) = Some (foldl g v0 (folded t))"
      using t kept(2) assms(3) by (auto simp: acc_inv_def value_ok_def)
    ultimately show ?thesis using idle_iff [OF t] kept(3) assms(4) by (simp add: callbacks_def)
  qed
  then show ?thesis using accumulator.stuck [OF t] accumulator.steps_bounded [OF assms(5) inv] by (metis add_leD1)
qed

theorem accumulator_observer_called_witness:
  "length sample_schedule \<le> acc_work sample_system \<and> acc_IsIdle (acc sample_final)
    \<and> mset (folded sample_final) = mset (scheduled sample_system) \<and> mset (observed sample_final) = {#9#}"
proof -
  have stop: "\<not> acc_step (\<lambda>a b. Some (a + b)) sample_final u" for u
  proof
    assume "acc_step (\<lambda>a b. Some (a + b)) sample_final u"
    then obtain a where "act (\<lambda>a b. Some (a + b)) a sample_final = Some (Inr u)" by (auto simp: acc_step_def)
    then show False by (cases a) (simp_all add: sample_final_def)
  qed
  have "length (scheduled sample_system) < 18446744073709551616" "\<not> is_cancelled (acc sample_system)"
      "async_callback (acc sample_system) = Some 9" "observed sample_system = []" "sequential sample_system = []"
      "current sample_system = None"
    by (simp_all add: sample_system_def Schedule_delayed_def acc_Schedule_def IncrementRemainingCount_def new_system_def
        CreateAccumulator_def Let_def)
  then show ?thesis
    using accumulator_observer_called [OF sample_system_run, of 9, OF _ _ _ acts_steps [OF sample_acts]] stop by simp
qed

end
