(* ===== verification/Time_Util.thy ===== *)
theory Time_Util
  imports FCP_Prelude
begin

text \<open>
  \<open>fcp/base/time_util.cc\<close>: an \<open>absl::Time\<close> is a number of nanoseconds since the epoch and an \<open>absl::Duration\<close> a number
  of nanoseconds, both finite; the protos have seconds and nanoseconds, both negative in a negative duration.
\<close>

record Timestamp =
  seconds :: int
  nanos :: int

record Duration =
  duration_seconds :: int
  duration_nanos :: int

definition ConvertAbslToProtoTimestamp :: "int \<Rightarrow> Timestamp" where
  "ConvertAbslToProtoTimestamp t = (let s = t div 1000000000 in \<lparr>seconds = s, nanos = t - s * 1000000000\<rparr>)"

definition ConvertProtoToAbslTime :: "Timestamp \<Rightarrow> int" where
  "ConvertProtoToAbslTime proto = seconds proto * 1000000000 + nanos proto"

text \<open>\<open>absl::IDivDuration\<close> rounds towards zero and leaves the remainder.\<close>

definition IDivDuration :: "int \<Rightarrow> int \<Rightarrow> int \<times> int" where
  "IDivDuration d unit = (let q = (if d < 0 then - (- d div unit) else d div unit) in (q, d - q * unit))"

definition ConvertAbslToProtoDuration :: "int \<Rightarrow> Duration" where
  "ConvertAbslToProtoDuration d =
     (let (s, d) = IDivDuration d 1000000000; (n, d) = IDivDuration d 1 in \<lparr>duration_seconds = s, duration_nanos = n\<rparr>)"

definition ConvertProtoToAbslDuration :: "Duration \<Rightarrow> int" where
  "ConvertProtoToAbslDuration proto = duration_seconds proto * 1000000000 + duration_nanos proto"

lemma timestamp_roundtrip [simp]: "ConvertProtoToAbslTime (ConvertAbslToProtoTimestamp t) = t"
  by (simp add: ConvertProtoToAbslTime_def ConvertAbslToProtoTimestamp_def Let_def)

lemma duration_roundtrip [simp]: "ConvertProtoToAbslDuration (ConvertAbslToProtoDuration d) = d"
  by (auto simp: ConvertProtoToAbslDuration_def ConvertAbslToProtoDuration_def IDivDuration_def Let_def)

end
