(* ===== verification/Resource_Cache.thy ===== *)
theory Resource_Cache
  imports Time_Util
begin

text \<open>
  \<open>fcp/client/cache/file_backed_resource_cache.cc\<close>: a cache of resources, each in a file of its own, with a
  manifest that says when each expires and was last used. The file system is a table of files
  with the calls that fail on it; the manifest is kept by the protostore library, whose reads and
  writes are parameters. The mutex is the atomicity of \<open>Put\<close> and \<open>Get\<close>. Where an error of the file system is thrown and
  not returned (\<open>exists\<close> of one argument), the process stops: \<open>CheckFailed\<close>.
\<close>

section \<open>Files\<close>

type_synonym path = string

record os_error =
  error_value :: int
  error_message :: string

text \<open>
  The calls that fail on a path during one operation of the cache, with the error they report; \<open>no_such_file\<close> is that of a missing
  file. An operation makes each of these calls at most once on a path, but for \<open>exists\<close> and \<open>file_size\<close>, whose first and second
  call have faults of their own, so all calls can fail independently; between two operations the faults may change
  (\<open>cache_run\<close>). \<open>tie_rank\<close> says in which order \<open>std::sort\<close> leaves entries that were last used at the same time.
\<close>

record file_system =
  fs_files :: "(path \<times> bytes) list"
  create_directories_fails :: "path \<Rightarrow> os_error option"
  directory_fails :: "path \<Rightarrow> os_error option"
  exists_fails :: "nat \<Rightarrow> path \<Rightarrow> os_error option"
  remove_fails :: "path \<Rightarrow> os_error option"
  file_size_fails :: "nat \<Rightarrow> path \<Rightarrow> os_error option"
  read_fails :: "path \<Rightarrow> bool"
  create_fails :: "path \<Rightarrow> bool"
  write_stops :: "path \<Rightarrow> nat option"
  no_such_file :: os_error
  tie_rank :: "string \<Rightarrow> nat"

definition file_at :: "file_system \<Rightarrow> path \<Rightarrow> bytes option" where
  "file_at fs p = map_of (fs_files fs) p"

text \<open>\<open>operator/\<close> of \<open>std::filesystem::path\<close>.\<close>

definition path_join :: "path \<Rightarrow> path \<Rightarrow> path" where
  "path_join a b = (if b \<noteq> [] \<and> hd b = CHR ''/'' then b else if a = [] \<or> last a = CHR ''/'' then a @ b else a @ CHR ''/'' # b)"

definition is_absolute :: "path \<Rightarrow> bool" where
  "is_absolute p \<longleftrightarrow> p \<noteq> [] \<and> hd p = CHR ''/''"

text \<open>A file directly in a directory.\<close>

definition in_directory :: "path \<Rightarrow> path \<Rightarrow> bool" where
  "in_directory dir p \<longleftrightarrow> take (length dir) p = dir
     \<and> (case drop (length dir) p of [] \<Rightarrow> False | d # name \<Rightarrow> d = CHR ''/'' \<and> name \<noteq> [] \<and> CHR ''/'' \<notin> set name)"

definition directory_iterator :: "path \<Rightarrow> file_system \<Rightarrow> path list" where
  "directory_iterator dir fs = filter (in_directory dir) (remdups (map fst (fs_files fs)))"

text \<open>The result and the error of the \<open>k\<close>-th \<open>exists\<close> and \<open>file_size\<close> on a path, and of \<open>remove\<close>.\<close>

definition fs_exists :: "nat \<Rightarrow> path \<Rightarrow> file_system \<Rightarrow> bool \<times> os_error option" where
  "fs_exists k p fs = (case exists_fails fs k p of Some e \<Rightarrow> (False, Some e) | None \<Rightarrow> (file_at fs p \<noteq> None, None))"

definition fs_file_size :: "nat \<Rightarrow> path \<Rightarrow> file_system \<Rightarrow> uint64 \<times> os_error option" where
  "fs_file_size k p fs =
     (case file_size_fails fs k p of Some e \<Rightarrow> (-1, Some e)
      | None \<Rightarrow> (case file_at fs p of None \<Rightarrow> (-1, Some (no_such_file fs)) | Some b \<Rightarrow> (of_nat (length b), None)))"

definition fs_remove :: "path \<Rightarrow> file_system \<Rightarrow> os_error option \<times> file_system" where
  "fs_remove p fs =
     (case remove_fails fs p of Some e \<Rightarrow> (Some e, fs)
      | None \<Rightarrow> (None, fs\<lparr>fs_files := filter (\<lambda>f. fst f \<noteq> p) (fs_files fs)\<rparr>))"

text \<open>
  \<open>ReadFileToCord\<close> and \<open>WriteCordToFile\<close> of \<open>fcp/base/platform.cc\<close>. A write may fail when the file is
  created or after some bytes.
\<close>

definition ReadFileToCord :: "path \<Rightarrow> file_system \<Rightarrow> bytes status_or" where
  "ReadFileToCord p fs =
     (case file_at fs p of
        None \<Rightarrow> Inl (Status INTERNAL (''cannot read file '' @ p))
      | Some b \<Rightarrow> if read_fails fs p then Inl (Status INTERNAL (''error reading file '' @ p)) else Inr b)"

definition WriteCordToFile :: "path \<Rightarrow> bytes \<Rightarrow> file_system \<Rightarrow> unit status_or \<times> file_system" where
  "WriteCordToFile p content fs =
     (if create_fails fs p then (Inl (Status INTERNAL (''cannot create file '' @ p)), fs)
      else
        let written = (case write_stops fs p of None \<Rightarrow> content | Some k \<Rightarrow> take k content);
            fs = fs\<lparr>fs_files := (p, written) # filter (\<lambda>f. fst f \<noteq> p) (fs_files fs)\<rparr>
        in (if written = content then Inr () else Inl (Status INTERNAL (''error writing to file '' @ p)), fs))"

section \<open>Manifest\<close>

record CachedResource =
  file_name :: string
  metadata :: bytes
  expiry_time :: Timestamp
  last_accessed_time :: Timestamp

type_synonym CacheManifest = "(string \<times> CachedResource) list"

text \<open>\<open>map::insert\<close>, which leaves an entry that is there alone, and \<open>map::erase\<close>.\<close>

definition manifest_insert :: "string \<Rightarrow> CachedResource \<Rightarrow> CacheManifest \<Rightarrow> CacheManifest" where
  "manifest_insert k v m = (if map_of m k = None then m @ [(k, v)] else m)"

definition manifest_erase :: "string \<Rightarrow> CacheManifest \<Rightarrow> CacheManifest" where
  "manifest_erase k m = filter (\<lambda>e. fst e \<noteq> k) m"

datatype DiagCode = RESOURCE_CACHE_MANIFEST_READ_FAILED | RESOURCE_CACHE_MANIFEST_WRITE_FAILED
  | RESOURCE_CACHE_CACHE_ROOT_PATH_NOT_ABSOLUTE | RESOURCE_CACHE_INVALID_MANIFEST_PATH
  | RESOURCE_CACHE_FAILED_TO_CREATE_CACHE_DIR | RESOURCE_CACHE_FAILED_TO_CREATE_MANIFEST_DIR
  | RESOURCE_CACHE_INIT_FAILED_TO_GET_MANIFEST_SIZE
  | RESOURCE_CACHE_PUT_FAILED_TO_CHECK_IF_FILE_EXISTS | RESOURCE_CACHE_RESOURCE_WRITE_FAILED
  | RESOURCE_CACHE_RESOURCE_READ_FAILED | RESOURCE_CACHE_INIT_FAILED_TO_INITIALIZE_MANIFEST
  | RESOURCE_CACHE_INIT_FAILED_CLEANUP | RESOURCE_CACHE_CLEANUP_FAILED_TO_ITERATE_OVER_CACHE_DIR
  | RESOURCE_CACHE_CLEANUP_FAILED_TO_DELETE_CACHED_FILE | RESOURCE_CACHE_CLEANUP_FAILED_TO_GET_FILE_SIZE
  | RESOURCE_CACHE_FAILED_TO_DELETE_MANIFEST | RESOURCE_CACHE_MISS | RESOURCE_CACHE_HIT

text \<open>The protostore library on the file of the manifest.\<close>

record ProtoDataStore =
  pds_Read :: "file_system \<Rightarrow> CacheManifest status_or"
  pds_Write :: "CacheManifest \<Rightarrow> file_system \<Rightarrow> unit status_or \<times> file_system"
  GetFileSize :: "path \<Rightarrow> file_system \<Rightarrow> int status_or"

record FileBackedResourceCache =
  pds :: ProtoDataStore
  cache_dir_path :: path
  manifest_path :: path
  max_cache_size_bytes :: int

text \<open>What the operations change: the files, and the diagnostic codes that are logged.\<close>

record world =
  files :: file_system
  diags :: "DiagCode list"

definition LogDiag :: "DiagCode \<Rightarrow> world \<Rightarrow> world" where
  "LogDiag code w = w\<lparr>diags := diags w @ [code]\<rparr>"

fun status_message :: "failure \<Rightarrow> string" where
  "status_message (Status _ m) = m"
| "status_message _ = []"

fun digits :: "nat \<Rightarrow> string" where
  "digits n = (if n < 10 then [char_of (n + 48)] else digits (n div 10) @ [char_of (n mod 10 + 48)])"

definition StrCat_int :: "int \<Rightarrow> string" where
  "StrCat_int i = (if i < 0 then CHR ''-'' # digits (nat (- i)) else digits (nat i))"

definition os_failure :: "string \<Rightarrow> os_error \<Rightarrow> failure" where
  "os_failure what e = Status INTERNAL (what @ StrCat_int (error_value e) @ '', message: '' @ error_message e)"

section \<open>Reading and writing the manifest\<close>

definition DeleteManifest :: "FileBackedResourceCache \<Rightarrow> world \<Rightarrow> unit status_or \<times> world" where
  "DeleteManifest c w =
     (case fs_exists 1 (manifest_path c) (files w) of
        (_, Some _) \<Rightarrow> (Inl CheckFailed, w)
      | (False, None) \<Rightarrow> (Inr (), w)
      | (True, None) \<Rightarrow>
          (case fs_remove (manifest_path c) (files w) of
             (Some e, _) \<Rightarrow> (Inl (os_failure ''Failed to delete manifest! error code: '' e),
                             LogDiag RESOURCE_CACHE_FAILED_TO_DELETE_MANIFEST w)
           | (None, fs) \<Rightarrow> (Inr (), w\<lparr>files := fs\<rparr>)))"

text \<open>The status of \<open>DeleteManifest\<close> is ignored, what it throws is not.\<close>

definition ReadInternal :: "FileBackedResourceCache \<Rightarrow> world \<Rightarrow> CacheManifest status_or \<times> world" where
  "ReadInternal c w =
     (case pds_Read (pds c) (files w) of
        Inr m \<Rightarrow> (Inr m, w)
      | Inl e \<Rightarrow>
          let (status, w) = DeleteManifest c (LogDiag RESOURCE_CACHE_MANIFEST_READ_FAILED w)
          in (Inl (if status = Inl CheckFailed then CheckFailed
                   else Status INTERNAL (''Failed to read from database, with error message: '' @ status_message e)), w))"

definition WriteInternal :: "FileBackedResourceCache \<Rightarrow> CacheManifest \<Rightarrow> world \<Rightarrow> unit status_or \<times> world" where
  "WriteInternal c m w =
     (case pds_Write (pds c) m (files w) of
        (Inr _, fs) \<Rightarrow> (Inr (), w\<lparr>files := fs\<rparr>)
      | (Inl e, fs) \<Rightarrow>
          let (status, w) = DeleteManifest c (LogDiag RESOURCE_CACHE_MANIFEST_WRITE_FAILED (w\<lparr>files := fs\<rparr>))
          in (Inl (if status = Inl CheckFailed then CheckFailed else e), w))"

section \<open>Cleaning up\<close>

text \<open>The loops of \<open>CleanUp\<close>: which entries stay, and the files of the directory that none of them has.\<close>

definition keep_or_delete :: "path \<Rightarrow> int \<Rightarrow> string \<times> CachedResource \<Rightarrow> path list \<times> string list \<Rightarrow> path list \<times> string list" where
  "keep_or_delete dir now entry acc =
     (let (id, resource) = entry; (cache_dir_files, cache_ids_to_delete) = acc;
          expiry = ConvertProtoToAbslTime (expiry_time resource);
          resource_file = path_join dir (file_name resource)
      in if expiry < now \<or> resource_file \<notin> set cache_dir_files
         then (cache_dir_files, cache_ids_to_delete @ [id])
         else (filter (\<lambda>p. p \<noteq> resource_file) cache_dir_files, cache_ids_to_delete))"

text \<open>A loop keeps the first error it saw, and logs at that error.\<close>

definition first_error :: "failure option \<Rightarrow> failure \<Rightarrow> failure option" where
  "first_error status e = (case status of None \<Rightarrow> Some e | Some _ \<Rightarrow> status)"

definition remove_stranded :: "path \<Rightarrow> failure option \<times> world \<Rightarrow> failure option \<times> world" where
  "remove_stranded p acc =
     (let (filesystem_status, w) = acc
      in case fs_remove p (files w) of
           (None, fs) \<Rightarrow> (filesystem_status, w\<lparr>files := fs\<rparr>)
         | (Some e, fs) \<Rightarrow>
             if filesystem_status = None
             then (Some (os_failure ''Failed to delete file. Error code: '' e),
                   LogDiag RESOURCE_CACHE_CLEANUP_FAILED_TO_DELETE_CACHED_FILE (w\<lparr>files := fs\<rparr>))
             else (filesystem_status, w\<lparr>files := fs\<rparr>))"

definition add_size ::
  "path \<Rightarrow> string \<times> CachedResource \<Rightarrow> uint64 \<times> failure option \<times> world \<Rightarrow> uint64 \<times> failure option \<times> world" where
  "add_size dir entry acc =
     (let (cache_dir_size, filesystem_status, w) = acc; resource_file = path_join dir (file_name (snd entry))
      in if \<not> fst (fs_exists 0 resource_file (files w))
         then (cache_dir_size, filesystem_status, LogDiag RESOURCE_CACHE_CLEANUP_FAILED_TO_GET_FILE_SIZE w)
         else case fs_file_size 0 resource_file (files w) of
           (bytes_of_file, None) \<Rightarrow> (cache_dir_size + bytes_of_file, filesystem_status, w)
         | (_, Some e) \<Rightarrow>
             let w = LogDiag RESOURCE_CACHE_CLEANUP_FAILED_TO_GET_FILE_SIZE w
             in (cache_dir_size,
                 first_error filesystem_status (os_failure ''Error getting file size. Error code: '' e),
                 w\<lparr>files := snd (fs_remove resource_file (files w))\<rparr>))"

text \<open>One turn of the loop that evicts by last use: the entry goes, then its file.\<close>

definition note_error :: "string \<Rightarrow> os_error option \<Rightarrow> failure option \<times> world \<Rightarrow> failure option \<times> world" where
  "note_error what e acc =
     (case e of
        Some e \<Rightarrow> if fst acc = None
                  then (Some (os_failure what e), LogDiag RESOURCE_CACHE_CLEANUP_FAILED_TO_GET_FILE_SIZE (snd acc))
                  else acc
      | None \<Rightarrow> acc)"

definition evict_file :: "path \<Rightarrow> CachedResource \<Rightarrow> failure option \<times> world \<Rightarrow> uint64 \<times> failure option \<times> world" where
  "evict_file dir resource acc =
     (let file_to_remove = path_join dir (file_name resource);
          (file_size, size_error) = fs_file_size 1 file_to_remove (files (snd acc));
          acc = note_error ''Error getting file size. Error code: '' size_error acc;
          (remove_error, fs) = fs_remove file_to_remove (files (snd acc))
      in (file_size, note_error ''Failed to delete file. Error code: '' remove_error (fst acc, (snd acc)\<lparr>files := fs\<rparr>)))"

fun evict ::
  "path \<Rightarrow> uint64 \<Rightarrow> string list \<Rightarrow> CacheManifest \<Rightarrow> uint64 \<Rightarrow> failure option \<times> world
    \<Rightarrow> CacheManifest status_or \<times> failure option \<times> world" where
  "evict dir max_allowed [] m cache_dir_size acc = (Inr m, acc)"
| "evict dir max_allowed (id_to_remove # ids) m cache_dir_size acc =
     (case map_of m id_to_remove of
        None \<Rightarrow> (Inl CheckFailed, acc)
      | Some resource \<Rightarrow>
          (case evict_file dir resource acc of (file_size, acc) \<Rightarrow>
             if cache_dir_size - file_size < max_allowed then (Inr (manifest_erase id_to_remove m), acc)
             else evict dir max_allowed ids (manifest_erase id_to_remove m) (cache_dir_size - file_size) acc))"

definition evict_least_recent ::
  "path \<Rightarrow> uint64 \<Rightarrow> CacheManifest \<Rightarrow> uint64 \<Rightarrow> world \<Rightarrow> CacheManifest status_or \<times> world" where
  "evict_least_recent dir max_allowed m cache_dir_size w =
     (let cache_id_lru = map (\<lambda>(id, r). (id, ConvertProtoToAbslTime (last_accessed_time r))) m in
      if cache_dir_size > max_allowed
      then case evict dir max_allowed (map fst (sort_key snd (sort_key (tie_rank (files w) \<circ> fst) cache_id_lru))) m cache_dir_size (None, w) of
          (Inl e, _, w) \<Rightarrow> (Inl e, w)
        | (Inr m, Some e, w) \<Rightarrow> (Inl e, w)
        | (Inr m, None, w) \<Rightarrow> (Inr m, w)
      else (Inr m, w))"

definition enforce_limit :: "path \<Rightarrow> uint64 \<Rightarrow> CacheManifest \<Rightarrow> world \<Rightarrow> CacheManifest status_or \<times> world" where
  "enforce_limit dir max_allowed m w =
     (case fold (add_size dir) m (0, None, w) of
        (_, Some e, w) \<Rightarrow> (Inl e, w)
      | (cache_dir_size, None, w) \<Rightarrow> evict_least_recent dir max_allowed m cache_dir_size w)"

definition CleanUp ::
  "FileBackedResourceCache \<Rightarrow> int \<Rightarrow> int option \<Rightarrow> CacheManifest \<Rightarrow> world \<Rightarrow> CacheManifest status_or \<times> world" where
  "CleanUp c now reserved_space_bytes m w =
     (let dir = cache_dir_path c in
      case directory_fails (files w) dir of
        Some e \<Rightarrow> (Inl (Status INTERNAL (''Error iterating over cache dir. Error code: '' @ StrCat_int (error_value e)
                       @ '' message: '' @ error_message e)),
                   LogDiag RESOURCE_CACHE_CLEANUP_FAILED_TO_ITERATE_OVER_CACHE_DIR w)
      | None \<Rightarrow>
          let cache_dir_files = map (path_join dir) (directory_iterator dir (files w));
              max_allowed = of_int (max_cache_size_bytes c - (case reserved_space_bytes of None \<Rightarrow> 0 | Some r \<Rightarrow> r));
              (stranded, to_delete) = fold (keep_or_delete dir now) m (cache_dir_files, [])
          in case fold remove_stranded stranded (None, w) of
               (Some e, w) \<Rightarrow> (Inl e, w)
             | (None, w) \<Rightarrow> enforce_limit dir max_allowed (fold manifest_erase to_delete m) w)"

section \<open>Put, Get and Initialize\<close>

text \<open>\<open>FCP_ASSIGN_OR_RETURN\<close> for operations that change the world.\<close>

definition then_do :: "'a status_or \<times> world \<Rightarrow> ('a \<Rightarrow> world \<Rightarrow> 'b status_or \<times> world) \<Rightarrow> 'b status_or \<times> world" where
  "then_do r f = (case r of (Inl e, w) \<Rightarrow> (Inl e, w) | (Inr a, w) \<Rightarrow> f a w)"

text \<open>The end of \<open>Put\<close>: the file is written if it does not exist.\<close>

definition Put_file :: "path \<Rightarrow> bytes \<Rightarrow> world \<Rightarrow> unit status_or \<times> world" where
  "Put_file cached_file_path resource w =
     (case fs_exists 1 cached_file_path (files w) of
        (_, Some e) \<Rightarrow> (Inl (Status INTERNAL
            (''Failed to check if cached resource already exists with error code: '' @ StrCat_int (error_value e))),
            LogDiag RESOURCE_CACHE_PUT_FAILED_TO_CHECK_IF_FILE_EXISTS w)
      | (cached_file_exists, None) \<Rightarrow>
          if cached_file_exists then (Inr (), w)
          else case WriteCordToFile cached_file_path resource (files w) of
              (Inr _, fs) \<Rightarrow> (Inr (), w\<lparr>files := fs\<rparr>)
            | (Inl e, fs) \<Rightarrow> (Inl e, LogDiag RESOURCE_CACHE_RESOURCE_WRITE_FAILED (w\<lparr>files := fs\<rparr>)))"

definition new_entry :: "string \<Rightarrow> bytes \<Rightarrow> int \<Rightarrow> int \<Rightarrow> CachedResource" where
  "new_entry cache_id meta now max_age = \<lparr>file_name = cache_id, metadata = meta,
     expiry_time = ConvertAbslToProtoTimestamp (now + max_age), last_accessed_time = ConvertAbslToProtoTimestamp now\<rparr>"

text \<open>\<open>max_cache_size_bytes_ / 2\<close> with the division of C++, which rounds towards zero.\<close>

definition half_size :: "FileBackedResourceCache \<Rightarrow> int" where
  "half_size c = (if max_cache_size_bytes c < 0 then - (- max_cache_size_bytes c div 2) else max_cache_size_bytes c div 2)"

text \<open>\<open>now\<close> gives the readings of the clock during the call; \<open>CleanUp\<close> takes the first.\<close>

definition Put ::
  "FileBackedResourceCache \<Rightarrow> (nat \<Rightarrow> int) \<Rightarrow> string \<Rightarrow> bytes \<Rightarrow> bytes \<Rightarrow> int \<Rightarrow> world \<Rightarrow> unit status_or \<times> world" where
  "Put c now cache_id resource meta max_age w =
     (if (of_nat (length resource) :: uint64) > of_int (half_size c)
      then (Inl (Status RESOURCE_EXHAUSTED (cache_id @ '' too large'')), w)
      else
        then_do (ReadInternal c w) (\<lambda>m w.
        then_do (CleanUp c (now 0) (Some (int (length resource))) m w) (\<lambda>m w.
        then_do (WriteInternal c (manifest_insert cache_id (new_entry cache_id meta (now 1) max_age) m) w) (\<lambda>_ w.
          Put_file (path_join (cache_dir_path c) cache_id) resource w))))"

text \<open>The body of \<open>Get\<close>; the diagnostic code of the clean-up object is logged on every exit.\<close>

definition touched :: "(nat \<Rightarrow> int) \<Rightarrow> int option \<Rightarrow> CachedResource \<Rightarrow> CachedResource" where
  "touched now max_age cached_resource =
     (let cached_resource = cached_resource\<lparr>last_accessed_time := ConvertAbslToProtoTimestamp (now 0)\<rparr>
      in case max_age of None \<Rightarrow> cached_resource
         | Some age \<Rightarrow> cached_resource\<lparr>expiry_time := ConvertAbslToProtoTimestamp (now 0 + age)\<rparr>)"

definition Get_body ::
  "FileBackedResourceCache \<Rightarrow> (nat \<Rightarrow> int) \<Rightarrow> string \<Rightarrow> int option \<Rightarrow> world \<Rightarrow> (bytes \<times> bytes) status_or \<times> world" where
  "Get_body c now cache_id max_age w =
     then_do (ReadInternal c w) (\<lambda>m w.
       case map_of m cache_id of None \<Rightarrow> (Inl (Status NOT_FOUND (cache_id @ '' not found'')), w)
       | Some cached_resource \<Rightarrow>
           (case ReadFileToCord (path_join (cache_dir_path c) cache_id) (files w) of
              Inl _ \<Rightarrow>
                (case fs_remove (path_join (cache_dir_path c) cache_id) (files w) of
                   (Some e, fs) \<Rightarrow> (Inl (Status INTERNAL (error_message e)),
                                    LogDiag RESOURCE_CACHE_RESOURCE_READ_FAILED (w\<lparr>files := fs\<rparr>))
                 | (None, fs) \<Rightarrow> (Inl (Status NOT_FOUND (cache_id @ '' not found'')),
                                  LogDiag RESOURCE_CACHE_RESOURCE_READ_FAILED (w\<lparr>files := fs\<rparr>)))
            | Inr contents \<Rightarrow>
                then_do (WriteInternal c (manifest_insert cache_id (touched now max_age cached_resource) (manifest_erase cache_id m)) w)
                  (\<lambda>_ w. (Inr (contents, metadata cached_resource), w))))"

definition Get ::
  "FileBackedResourceCache \<Rightarrow> (nat \<Rightarrow> int) \<Rightarrow> string \<Rightarrow> int option \<Rightarrow> world \<Rightarrow> (bytes \<times> bytes) status_or \<times> world" where
  "Get c now cache_id max_age w =
     (case Get_body c now cache_id max_age w of
        (Inl e, w) \<Rightarrow> (Inl e, LogDiag RESOURCE_CACHE_MISS w)
      | (Inr r, w) \<Rightarrow> (Inr r, LogDiag RESOURCE_CACHE_HIT w))"

text \<open>An error of \<open>Initialize\<close> is logged and wrapped, unless the process stops.\<close>

fun wrap_error :: "string \<Rightarrow> failure \<Rightarrow> failure" where
  "wrap_error what (Status _ m) = Status INTERNAL (''Error in initialize: '' @ what @ m)"
| "wrap_error what e = e"

fun log_error :: "failure \<Rightarrow> DiagCode \<Rightarrow> world \<Rightarrow> world" where
  "log_error (Status _ _) code w = LogDiag code w"
| "log_error _ code w = w"

definition Initialize_cache :: "FileBackedResourceCache \<Rightarrow> (nat \<Rightarrow> int) \<Rightarrow> world \<Rightarrow> unit status_or \<times> world" where
  "Initialize_cache c now w =
     (case fs_exists 0 (manifest_path c) (files w) of
        (_, Some _) \<Rightarrow> (Inl CheckFailed, w)
      | (manifest_exists, None) \<Rightarrow>
      let w = (if manifest_exists then w
               else w\<lparr>files := snd (WriteCordToFile (manifest_path c) [] (files w))\<rparr>)
      in case GetFileSize (pds c) (manifest_path c) (files w) of
           Inl e \<Rightarrow> (Inl (wrap_error ''Failed to get file size of cache manifest: '' e),
                      log_error e RESOURCE_CACHE_INIT_FAILED_TO_GET_MANIFEST_SIZE w)
         | Inr file_size \<Rightarrow>
         case (if file_size = 0 then WriteInternal c [] w else (Inr (), w)) of
           (Inl e, w) \<Rightarrow> (Inl (wrap_error ''Failed to initialize cache manifest for the first time: '' e),
                           log_error e RESOURCE_CACHE_INIT_FAILED_TO_INITIALIZE_MANIFEST w)
         | (Inr _, w) \<Rightarrow>
         case ReadInternal c w of
           (Inl e, w) \<Rightarrow> (Inl (wrap_error ''Failed to read manifest: '' e), w)
         | (Inr m, w) \<Rightarrow>
         case CleanUp c (now 0) None m w of
           (Inl e, w) \<Rightarrow> (Inl (wrap_error ''Failed to clean up resource cache: '' e),
                           log_error e RESOURCE_CACHE_INIT_FAILED_CLEANUP w)
         | (Inr m, w) \<Rightarrow>
         case WriteInternal c m w of
           (Inl e, w) \<Rightarrow> (Inl (wrap_error ''Failed to write cleaned up resource cache: '' e), w)
         | (Inr _, w) \<Rightarrow> (Inr (), w))"

definition Create_cache ::
  "ProtoDataStore \<Rightarrow> (nat \<Rightarrow> int) \<Rightarrow> path \<Rightarrow> path \<Rightarrow> int \<Rightarrow> world \<Rightarrow> FileBackedResourceCache status_or \<times> world" where
  "Create_cache store now base_dir cache_dir max_size w =
     (if \<not> is_absolute cache_dir
      then (Inl (Status INVALID_ARGUMENT (''The provided path: '' @ cache_dir @ '' is invalid. The path must be absolute'')),
            LogDiag RESOURCE_CACHE_CACHE_ROOT_PATH_NOT_ABSOLUTE w)
      else
        let dir = path_join (path_join cache_dir ''fcp'') ''cache'' in
        if create_directories_fails (files w) dir \<noteq> None
        then (Inl (Status INTERNAL (''Failed to create FileBackedResourceCache cache directory '' @ dir)),
              LogDiag RESOURCE_CACHE_FAILED_TO_CREATE_CACHE_DIR w)
        else if \<not> is_absolute base_dir
        then (Inl (Status INVALID_ARGUMENT (''The provided path: '' @ base_dir @ '' is invalid. The path must start with \"/\"'')),
              LogDiag RESOURCE_CACHE_INVALID_MANIFEST_PATH w)
        else
          let manifest_dir = path_join base_dir ''fcp'' in
          if create_directories_fails (files w) manifest_dir \<noteq> None
          then (Inl (Status INTERNAL (''Failed to create directory '' @ manifest_dir)),
                LogDiag RESOURCE_CACHE_FAILED_TO_CREATE_MANIFEST_DIR w)
          else
            let c = \<lparr>pds = store, cache_dir_path = dir, manifest_path = path_join manifest_dir ''cache_manifest.pb'',
                     max_cache_size_bytes = max_size\<rparr>
            in (case Initialize_cache c now w of (Inl e, w) \<Rightarrow> (Inl e, w) | (Inr _, w) \<Rightarrow> (Inr c, w)))"

end
