(* ===== verification/Cache_Laws.thy ===== *)
theory Cache_Laws
  imports Resource_Cache "HOL-Library.Multiset"
begin

text \<open>
  What the clean-up of the resource cache does to the directory and to the manifest, and that no run of the
  cache takes the files of its directory past the configured size. A file system that \<open>loses\<close> files is one
  that another is reached from by deletions only.
\<close>

section \<open>File systems that only lose files\<close>

definition loses :: "file_system \<Rightarrow> file_system \<Rightarrow> bool" where
  "loses fs fs' \<longleftrightarrow> (\<exists>l. fs' = fs\<lparr>fs_files := l\<rparr>) \<and> (\<forall>p. file_at fs' p = None \<or> file_at fs' p = file_at fs p)"

lemma loses_refl [simp]: "loses fs fs"
  by (auto simp: loses_def intro: exI [of _ "fs_files fs"])

lemma loses_trans: "loses fs1 fs2 \<Longrightarrow> loses fs2 fs3 \<Longrightarrow> loses fs1 fs3"
proof -
  assume a: "loses fs1 fs2" "loses fs2 fs3"
  then obtain l l' where "fs2 = fs1\<lparr>fs_files := l\<rparr>" "fs3 = fs2\<lparr>fs_files := l'\<rparr>" by (auto simp: loses_def)
  then have "fs3 = fs1\<lparr>fs_files := l'\<rparr>" by simp
  moreover have "\<forall>p. file_at fs3 p = None \<or> file_at fs3 p = file_at fs1 p" using a unfolding loses_def by metis
  ultimately show ?thesis unfolding loses_def by blast
qed

lemma file_at_filter: "file_at (fs\<lparr>fs_files := filter (\<lambda>f. fst f \<noteq> p) (fs_files fs)\<rparr>) q = (if q = p then None else file_at fs q)"
proof -
  have "map_of (filter (\<lambda>f. fst f \<noteq> p) l) q = (if q = p then None else map_of l q)" for l :: "(path \<times> bytes) list"
    by (induction l) auto
  then show ?thesis by (simp add: file_at_def)
qed

lemma fs_remove_ok:
  "fs_remove p fs = (None, fs') \<Longrightarrow> file_at fs' q = (if q = p then None else file_at fs q)"
  by (auto simp: fs_remove_def file_at_filter split: option.splits)

lemma fs_remove_loses: "loses fs (snd (fs_remove p fs))"
proof (cases "remove_fails fs p")
  case None
  then show ?thesis by (auto simp: fs_remove_def loses_def file_at_filter)
qed (simp add: fs_remove_def)

text \<open>The files directly in a directory, and their size.\<close>

definition dir_files :: "path \<Rightarrow> file_system \<Rightarrow> path set" where
  "dir_files dir fs = {p. in_directory dir p \<and> file_at fs p \<noteq> None}"

definition dir_bytes :: "path \<Rightarrow> file_system \<Rightarrow> nat" where
  "dir_bytes dir fs = (\<Sum>p\<in>dir_files dir fs. length (the (file_at fs p)))"

lemma finite_dir_files [simp]: "finite (dir_files dir fs)"
proof -
  have "dir_files dir fs \<subseteq> fst ` set (fs_files fs)"
    unfolding dir_files_def file_at_def by (auto simp: map_of_eq_None_iff)
  then show ?thesis by (rule finite_subset) simp
qed

lemma dir_bytes_loses:
  assumes "loses fs fs'"
  shows "dir_bytes dir fs' \<le> dir_bytes dir fs"
proof -
  have eq: "file_at fs' p = file_at fs p" if "p \<in> dir_files dir fs'" for p
    using assms that unfolding loses_def dir_files_def by (metis (mono_tags) mem_Collect_eq)
  then have sub: "dir_files dir fs' \<subseteq> dir_files dir fs" by (fastforce simp: dir_files_def)
  have "dir_bytes dir fs' = (\<Sum>p\<in>dir_files dir fs'. length (the (file_at fs p)))"
    unfolding dir_bytes_def by (rule sum.cong) (use eq in auto)
  also have "\<dots> \<le> dir_bytes dir fs" unfolding dir_bytes_def by (rule sum_mono2) (use sub in auto)
  finally show ?thesis .
qed

lemma set_directory_iterator: "set (directory_iterator dir fs) = dir_files dir fs"
  by (auto simp: directory_iterator_def dir_files_def file_at_def map_of_eq_None_iff)

section \<open>The entries that stay\<close>

abbreviation resource_file :: "path \<Rightarrow> string \<times> CachedResource \<Rightarrow> path" where
  "resource_file dir e \<equiv> path_join dir (file_name (snd e))"

fun kept :: "path \<Rightarrow> int \<Rightarrow> CacheManifest \<Rightarrow> path list \<Rightarrow> CacheManifest" where
  "kept dir now [] fs = []"
| "kept dir now (e # m) fs =
     (if ConvertProtoToAbslTime (expiry_time (snd e)) < now \<or> resource_file dir e \<notin> set fs then kept dir now m fs
      else e # kept dir now m (filter (\<lambda>p. p \<noteq> resource_file dir e) fs))"

fun gone :: "path \<Rightarrow> int \<Rightarrow> CacheManifest \<Rightarrow> path list \<Rightarrow> string list" where
  "gone dir now [] fs = []"
| "gone dir now (e # m) fs =
     (if ConvertProtoToAbslTime (expiry_time (snd e)) < now \<or> resource_file dir e \<notin> set fs then fst e # gone dir now m fs
      else gone dir now m (filter (\<lambda>p. p \<noteq> resource_file dir e) fs))"

lemma keep_or_delete_fold:
  "fold (keep_or_delete dir now) m (fs, ids)
    = (filter (\<lambda>p. p \<notin> resource_file dir ` set (kept dir now m fs)) fs, ids @ gone dir now m fs)"
proof (induction m arbitrary: fs ids)
  case (Cons e m)
  then show ?case by (cases e) (auto simp: keep_or_delete_def Let_def conj_commute intro!: filter_cong)
qed simp

lemma kept_files:
  "distinct (map (resource_file dir) (kept dir now m fs)) \<and> resource_file dir ` set (kept dir now m fs) \<subseteq> set fs
    \<and> set (kept dir now m fs) \<subseteq> set m"
proof (induction m arbitrary: fs)
  case (Cons e m)
  show ?case using Cons [of fs] Cons [of "filter (\<lambda>p. p \<noteq> resource_file dir e) fs"] by auto
qed simp

lemma gone_subset: "set (gone dir now m fs) \<subseteq> fst ` set m"
proof (induction m arbitrary: fs)
  case (Cons e m)
  show ?case using Cons [of fs] Cons [of "filter (\<lambda>p. p \<noteq> resource_file dir e) fs"] by auto
qed simp

lemma erase_gone:
  assumes "distinct (map fst m)"
  shows "fold manifest_erase (gone dir now m fs) m = kept dir now m fs"
proof -
  have erase: "fold manifest_erase ids m = filter (\<lambda>e. fst e \<notin> set ids) m" for ids
    by (induction ids arbitrary: m) (auto simp: manifest_erase_def conj_commute intro: filter_cong)
  have "filter (\<lambda>e. fst e \<notin> set (gone dir now m fs)) m = kept dir now m fs"
    using assms
  proof (induction m arbitrary: fs)
    case (Cons e m)
    have "filter (\<lambda>x. fst x \<noteq> fst e \<and> P x) m = filter P m" for P
      using Cons.prems by (intro filter_cong) (auto simp: image_iff)
    moreover have "fst e \<notin> set (gone dir now m fs)" for fs using gone_subset [of dir now m fs] Cons.prems by auto
    ultimately show ?case using Cons by simp
  qed simp
  then show ?thesis by (simp add: erase)
qed

section \<open>The loops over files\<close>

lemma remove_stranded_loses: "loses (files (snd acc)) (files (snd (remove_stranded p acc)))"
  using fs_remove_loses [of "files (snd acc)" p]
  by (auto simp: remove_stranded_def LogDiag_def Let_def split: prod.split option.split)

lemma remove_all_loses: "loses (files w) (files (snd (fold remove_stranded ps (status, w))))"
proof (induction ps arbitrary: status w)
  case (Cons p ps)
  obtain status' w' where p: "remove_stranded p (status, w) = (status', w')" by fastforce
  then show ?case
    using loses_trans [OF _ Cons.IH [of w' status']] remove_stranded_loses [of "(status, w)" p] by simp
qed simp

lemma remove_stranded_None:
  assumes "remove_stranded p acc = (None, w')"
  shows "fst acc = None \<and> (\<forall>q. file_at (files w') q = (if q = p then None else file_at (files (snd acc)) q))"
  using assms
  by (auto simp: remove_stranded_def Let_def dest: fs_remove_ok split: prod.splits option.splits if_splits)

lemma remove_all_None:
  assumes "fold remove_stranded ps (None, w) = (None, w')"
  shows "file_at (files w') q = (if q \<in> set ps then None else file_at (files w) q)"
  using assms
proof (induction ps arbitrary: w)
  case (Cons p ps)
  obtain status w1 where p: "remove_stranded p (None, w) = (status, w1)" by fastforce
  have first: "status' = None" if "fold remove_stranded qs (status', v) = (None, w')" for qs status' v
    using that
  proof (induction qs arbitrary: status' v)
    case (Cons q qs)
    obtain s2 v2 where "remove_stranded q (status', v) = (s2, v2)" by fastforce
    then show ?case using Cons remove_stranded_None [of q "(status', v)" v2] by auto
  qed simp
  have "status = None" using first Cons.prems p by simp
  then show ?case using Cons p remove_stranded_None [of p "(None, w)" w1] by simp
qed simp

lemma add_size_loses: "loses (files (snd (snd acc))) (files (snd (snd (add_size dir e acc))))"
  using fs_remove_loses [of "files (snd (snd acc))" "resource_file dir e"]
  by (auto simp: add_size_def LogDiag_def Let_def split: prod.split option.split)

lemma add_sizes_loses: "loses (files w) (files (snd (snd (fold (add_size dir) m (n, status, w)))))"
proof (induction m arbitrary: n status w)
  case (Cons e m)
  obtain n' status' w' where e: "add_size dir e (n, status, w) = (n', status', w')" by (metis prod_cases3)
  then show ?case
    using loses_trans [OF _ Cons.IH [of w' n' status']] add_size_loses [of "(n, status, w)" dir e] by simp
qed simp

definition entry_bytes :: "path \<Rightarrow> file_system \<Rightarrow> string \<times> CachedResource \<Rightarrow> nat" where
  "entry_bytes dir fs e = length (the (file_at fs (resource_file dir e)))"

lemma add_sizes_None:
  assumes "fold (add_size dir) m (n, status, w) = (n', None, w')"
    and "\<forall>e\<in>set m. file_at (files w) (resource_file dir e) \<noteq> None" "\<forall>k p. exists_fails (files w) k p = None"
  shows "status = None \<and> files w' = files w \<and> n' = n + of_nat (sum_list (map (entry_bytes dir (files w)) m))"
  using assms
proof (induction m arbitrary: n status w)
  case (Cons e m)
  have ex: "fst (fs_exists 0 (resource_file dir e) (files w))" using Cons.prems by (simp add: fs_exists_def)
  obtain b where b: "file_at (files w) (resource_file dir e) = Some b" using Cons.prems(2) by auto
  have first: "status' = None" if "fold (add_size dir) xs (k, status', v) = (n', None, w')" for xs k status' v
    using that
  proof (induction xs arbitrary: k status' v)
    case (Cons x xs)
    obtain k2 s2 v2 where x: "add_size dir x (k, status', v) = (k2, s2, v2)" by (metis prod_cases3)
    then have "s2 = None" using Cons by simp
    then show ?case using x by (auto simp: add_size_def first_error_def Let_def split: prod.splits option.splits if_splits)
  qed simp
  show ?case
  proof (cases "file_size_fails (files w) 0 (resource_file dir e)")
    case None
    then have "add_size dir e (n, status, w) = (n + of_nat (length b), status, w)"
      using ex b by (simp add: add_size_def fs_file_size_def)
    then show ?thesis using Cons.IH [of "n + of_nat (length b)" status w] Cons.prems b by (simp add: entry_bytes_def)
  next
    case (Some err)
    then obtain s2 v2 where "add_size dir e (n, status, w) = (n, Some s2, v2)"
      using ex by (cases status) (auto simp: add_size_def fs_file_size_def first_error_def Let_def)
    then show ?thesis using Cons.prems(1) first by fastforce
  qed
qed simp

section \<open>Eviction\<close>

lemma note_error_files [simp]: "files (snd (note_error what e acc)) = files (snd acc)"
  by (simp add: note_error_def LogDiag_def split: option.split)

lemma note_error_None: "fst (note_error what e acc) = None \<longleftrightarrow> fst acc = None \<and> e = None"
  by (auto simp: note_error_def split: option.split)

lemma evict_file_loses: "loses (files (snd acc)) (files (snd (snd (evict_file dir r acc))))"
  using fs_remove_loses [of "files (snd acc)" "path_join dir (file_name r)"]
  by (auto simp: evict_file_def Let_def split: prod.split)

lemma evict_file_None:
  assumes "evict_file dir r (status, w) = (sz, None, w')"
  shows "status = None \<and> (\<forall>p. file_at (files w') p = (if p = path_join dir (file_name r) then None else file_at (files w) p))
    \<and> (\<forall>b. file_at (files w) (path_join dir (file_name r)) = Some b \<longrightarrow> sz = of_nat (length b))"
proof -
  obtain sz' e where sz: "fs_file_size 1 (path_join dir (file_name r)) (files w) = (sz', e)" by fastforce
  obtain e2 fs2 where rm: "fs_remove (path_join dir (file_name r)) (files w) = (e2, fs2)" by fastforce
  have r: "evict_file dir r (status, w) = (sz', note_error ''Failed to delete file. Error code: '' e2
      (fst (note_error ''Error getting file size. Error code: '' e (status, w)),
       (snd (note_error ''Error getting file size. Error code: '' e (status, w)))\<lparr>files := fs2\<rparr>))"
    using sz rm by (simp add: evict_file_def Let_def)
  then have none: "status = None" "e = None" "e2 = None"
    using assms note_error_None by (metis fst_conv snd_conv)+
  then have "w' = w\<lparr>files := fs2\<rparr>" "sz' = sz" using r assms by (auto simp: note_error_def)
  then show ?thesis using none sz fs_remove_ok [of _ "files w" fs2] rm by (auto simp: fs_file_size_def split: option.splits)
qed

lemma evict_loses: "loses (files (snd acc)) (files (snd (snd (evict dir A ids m n acc))))"
proof (induction ids arbitrary: m n acc)
  case (Cons x ids)
  show ?case
  proof (cases "map_of m x")
    case (Some r)
    obtain sz acc' where f: "evict_file dir r acc = (sz, acc')" by (cases "evict_file dir r acc") blast
    have l: "loses (files (snd acc)) (files (snd acc'))" using evict_file_loses [of acc dir r] f by simp
    then show ?thesis using Some f loses_trans [OF l Cons.IH] by simp
  qed simp
qed simp

lemma evict_None_start: "fst (snd (evict dir A ids m n acc)) = None \<Longrightarrow> fst acc = None"
proof (induction ids arbitrary: m n acc)
  case (Cons x ids)
  show ?case
  proof (cases "map_of m x")
    case (Some r)
    obtain sz status w where f: "evict_file dir r acc = (sz, status, w)" by (metis prod_cases3)
    then have "status = None" using Cons Some by (auto split: if_splits)
    then show ?thesis using evict_file_None [of dir r "fst acc" "snd acc"] f by simp
  qed (use Cons.prems in simp)
qed simp

lemma sum_list_erase:
  "(x, r) \<in> set m \<Longrightarrow> distinct (map fst m) \<Longrightarrow> sum_list (map g m) = g (x, r) + sum_list (map g (manifest_erase x m))"
  for g :: "string \<times> CachedResource \<Rightarrow> nat"
proof (induction m)
  case (Cons e m)
  show ?case
  proof (cases "fst e = x")
    case True
    then have "e = (x, r)" "x \<notin> fst ` set m" using Cons.prems by (auto simp: image_iff)
    then have "manifest_erase x (e # m) = m" by (auto simp: manifest_erase_def image_iff intro: filter_True)
    then show ?thesis using \<open>e = (x, r)\<close> by simp
  next
    case False
    then show ?thesis using Cons by (auto simp: manifest_erase_def)
  qed
qed simp

lemma erase_props:
  assumes "(x, r) \<in> set m" "distinct (map fst m)"
  shows "set (manifest_erase x m) = set m - {(x, r)}" "distinct (map fst (manifest_erase x m))"
    "fst ` set (manifest_erase x m) = fst ` set m - {x}"
    "distinct (map (resource_file dir) m) \<Longrightarrow> distinct (map (resource_file dir) (manifest_erase x m))"
  using assms by (auto simp: manifest_erase_def distinct_map_filter eq_key_imp_eq_value)

text \<open>A successful eviction leaves a part of the manifest, whose files it has not touched, and is below the limit.\<close>

lemma evict_Inr:
  assumes "evict dir A ids m n (None, w) = (Inr m', None, w')"
    and "distinct ids" "set ids = fst ` set m" "distinct (map fst m)" "distinct (map (resource_file dir) m)"
    and "\<forall>e\<in>set m. file_at (files w) (resource_file dir e) \<noteq> None"
    and "n = of_nat (sum_list (map (entry_bytes dir (files w)) m))"
  shows "set m' \<subseteq> set m \<and> distinct (map (resource_file dir) m')
    \<and> (\<forall>p. file_at (files w') p = (if p \<in> resource_file dir ` (set m - set m') then None else file_at (files w) p))
    \<and> (m' = [] \<or> (of_nat (sum_list (map (entry_bytes dir (files w)) m')) :: uint64) < A)"
  using assms
proof (induction ids arbitrary: m n w)
  case Nil
  then show ?case by simp
next
  case (Cons x ids)
  have "x \<in> fst ` set m" using Cons.prems(3) by auto
  then obtain r where xr: "(x, r) \<in> set m" by force
  then have "map_of m x = Some r" by (rule map_of_is_SomeI [OF Cons.prems(4)])
  note xr = xr this
  define f where "f = resource_file dir (x, r)"
  define m1 where "m1 = manifest_erase x m"
  obtain sz status w1 where ev: "evict_file dir r (None, w) = (sz, status, w1)" by (metis prod_cases3)
  have run: "(if n - sz < A then (Inr m1, status, w1) else evict dir A ids m1 (n - sz) (status, w1)) = (Inr m', None, w')"
    using Cons.prems(1) xr(2) ev by (auto simp: m1_def split: if_splits)
  then have "status = None" using evict_None_start [of dir A ids m1 "n - sz" "(status, w1)"] by (auto split: if_splits)
  then have at1: "file_at (files w1) p = (if p = f then None else file_at (files w) p)"
    and sz: "file_at (files w) f = Some b \<Longrightarrow> sz = of_nat (length b)" for p b
    using evict_file_None [of dir r None w sz w1] ev by (simp_all add: f_def)
  note m1 = erase_props [OF xr(1) Cons.prems(4), folded m1_def]
  have inj: "inj_on (resource_file dir) (set m)" using Cons.prems(5) by (simp add: distinct_map)
  have other: "resource_file dir e \<noteq> f" if "e \<in> set m1" for e
    using that m1(1) xr(1) inj_onD [OF inj, of e "(x, r)"] by (auto simp: f_def)
  have same: "entry_bytes dir (files w1) e = entry_bytes dir (files w) e" if "e \<in> set m1" for e
    using other [OF that] at1 by (simp add: entry_bytes_def)
  then have bytes: "map (entry_bytes dir (files w1)) m1 = map (entry_bytes dir (files w)) m1" by simp
  have sub: "sum_list (map (entry_bytes dir (files w1)) xs) = sum_list (map (entry_bytes dir (files w)) xs)"
    if "set xs \<subseteq> set m1" for xs
    using same that by (intro arg_cong [of _ _ sum_list] map_cong) auto
  have n1: "n - sz = of_nat (sum_list (map (entry_bytes dir (files w1)) m1))"
  proof -
    obtain b where b: "file_at (files w) f = Some b" using Cons.prems(6) xr(1) by (auto simp: f_def)
    then have "entry_bytes dir (files w) (x, r) = length b" by (simp add: entry_bytes_def f_def)
    then have "sum_list (map (entry_bytes dir (files w)) m) = length b + sum_list (map (entry_bytes dir (files w1)) m1)"
      using sum_list_erase [OF xr(1) Cons.prems(4), of "entry_bytes dir (files w)"] sub [of m1] by (simp add: m1_def)
    then show ?thesis using Cons.prems(7) sz [OF b] by simp
  qed
  have "set m - set m1 = {(x, r)}" using m1(1) xr(1) by blast
  then have only: "resource_file dir ` (set m - set m1) = {f}" by (simp add: f_def)
  show ?case
  proof (cases "n - sz < A")
    case True
    then have "m' = m1" "w' = w1" using run by simp_all
    then show ?thesis using True m1 Cons.prems(5) n1 bytes only at1 by auto
  next
    case False
    have "evict dir A ids m1 (n - sz) (None, w1) = (Inr m', None, w')" using run False \<open>status = None\<close> by simp
    then have IH: "set m' \<subseteq> set m1 \<and> distinct (map (resource_file dir) m')
      \<and> (\<forall>p. file_at (files w') p = (if p \<in> resource_file dir ` (set m1 - set m') then None else file_at (files w1) p))
      \<and> (m' = [] \<or> (of_nat (sum_list (map (entry_bytes dir (files w1)) m')) :: uint64) < A)"
      using Cons.prems(2,3) m1(2,3) m1(4) [OF Cons.prems(5)] Cons.prems(6) m1(1) other at1 n1
      by (intro Cons.IH) auto
    have split: "resource_file dir ` (set m - set m') = insert f (resource_file dir ` (set m1 - set m'))"
    proof -
      have "set m - set m' = insert (x, r) (set m1 - set m')" using m1(1) xr(1) IH by blast
      then show ?thesis by (simp add: f_def)
    qed
    show ?thesis
    proof (intro conjI allI)
      show "set m' \<subseteq> set m" using IH m1(1) by blast
      show "distinct (map (resource_file dir) m')" using IH by blast
      show "file_at (files w') p = (if p \<in> resource_file dir ` (set m - set m') then None else file_at (files w) p)" for p
        using IH at1 unfolding split by simp
      show "m' = [] \<or> (of_nat (sum_list (map (entry_bytes dir (files w)) m')) :: uint64) < A"
        using IH sub [of m'] by simp
    qed
  qed
qed

section \<open>After a successful clean-up\<close>

lemma in_directory_split:
  "in_directory dir p \<longleftrightarrow> (\<exists>name. p = dir @ CHR ''/'' # name \<and> name \<noteq> [] \<and> CHR ''/'' \<notin> set name)"
proof
  assume a: "in_directory dir p"
  then obtain name where d: "drop (length dir) p = CHR ''/'' # name" "name \<noteq> []" "CHR ''/'' \<notin> set name"
    by (auto simp: in_directory_def split: list.splits)
  have "p = dir @ CHR ''/'' # name" using a d(1) append_take_drop_id [of "length dir" p] by (simp add: in_directory_def)
  then show "\<exists>name. p = dir @ CHR ''/'' # name \<and> name \<noteq> [] \<and> CHR ''/'' \<notin> set name" using d by blast
qed (auto simp: in_directory_def)

lemma path_join_own:
  assumes "is_absolute dir" "in_directory dir p"
  shows "path_join dir p = p"
proof -
  have "hd p = hd dir" "p \<noteq> []" using assms by (auto simp: in_directory_split is_absolute_def)
  then show ?thesis using assms(1) by (simp add: path_join_def is_absolute_def)
qed

lemma sum_of_kept:
  assumes "distinct (map (resource_file dir) m)" "dir_files dir fs = resource_file dir ` set m"
  shows "dir_bytes dir fs = sum_list (map (entry_bytes dir fs) m)"
proof -
  have d: "distinct m" and inj: "inj_on (resource_file dir) (set m)" using assms(1) by (simp_all add: distinct_map)
  have "dir_bytes dir fs = (\<Sum>e\<in>set m. entry_bytes dir fs e)"
    unfolding dir_bytes_def assms(2) entry_bytes_def by (simp add: sum.reindex [OF inj])
  then show ?thesis using d by (simp add: sum_list_distinct_conv_sum_set)
qed

text \<open>Sizes as the code compares them: no difference of sizes and limits wraps.\<close>

lemma of_nat_less_iff: "k < 2 ^ 64 \<Longrightarrow> l < 2 ^ 64 \<Longrightarrow> (of_nat k :: uint64) < of_nat l \<longleftrightarrow> k < l"
  by (simp add: word_less_nat_alt unsigned_of_nat take_bit_nat_eq_self)

definition clean :: "path \<Rightarrow> CacheManifest \<Rightarrow> file_system \<Rightarrow> bool" where
  "clean dir m fs \<longleftrightarrow> distinct (map (resource_file dir) m) \<and> dir_files dir fs = resource_file dir ` set m"

lemma scan_clean:
  assumes abs: "is_absolute dir" and distinct: "distinct (map fst m)"
    and scan: "fold (keep_or_delete dir now) m (map (path_join dir) (directory_iterator dir fs), []) = (stranded, ids)"
    and rm: "fold remove_stranded stranded (None, w) = (None, w1)" "files w = fs"
  shows "clean dir (fold manifest_erase ids m) (files w1) \<and> set (fold manifest_erase ids m) \<subseteq> set m
    \<and> distinct (map fst (fold manifest_erase ids m))
    \<and> (\<forall>e\<in>set (fold manifest_erase ids m). \<not> ConvertProtoToAbslTime (expiry_time (snd e)) < now)"
proof -
  let ?F = "directory_iterator dir fs"
  have F: "map (path_join dir) ?F = ?F"
    using path_join_own [OF abs] by (intro map_idI) (simp add: set_directory_iterator dir_files_def)
  let ?m = "kept dir now m ?F"
  have out: "stranded = filter (\<lambda>p. p \<notin> resource_file dir ` set ?m) ?F" "fold manifest_erase ids m = ?m"
    using scan keep_or_delete_fold [of dir now m ?F "[]"] erase_gone [OF distinct, of dir now ?F] unfolding F by auto
  have fresh: "\<forall>e\<in>set (kept dir now xs ps). \<not> ConvertProtoToAbslTime (expiry_time (snd e)) < now" for xs ps
    by (induction xs arbitrary: ps) auto
  have keys: "distinct (map fst (kept dir now xs ps))" if "distinct (map fst xs)" for xs ps
    using that
  proof (induction xs arbitrary: ps)
    case (Cons e xs)
    have "fst e \<notin> fst ` set (kept dir now xs qs)" for qs using Cons.prems kept_files [of dir now xs qs] by auto
    then show ?case using Cons by simp
  qed simp
  have "dir_files dir (files w1) = dir_files dir fs - set stranded"
    using rm(2) unfolding dir_files_def remove_all_None [OF rm(1)] by auto
  also have "\<dots> = set ?F - set stranded" by (simp add: set_directory_iterator)
  also have "\<dots> = resource_file dir ` set ?m" using kept_files [of dir now m ?F] unfolding out(1) by auto
  finally show ?thesis
    using kept_files [of dir now m ?F] out(2) keys [OF distinct] fresh by (simp add: clean_def)
qed

lemma evict_least_recent_clean:
  assumes "evict_least_recent dir (of_nat limit) m (of_nat (dir_bytes dir (files w))) w = (Inr m', w')"
    and clean: "clean dir m (files w)" and keys: "distinct (map fst m)"
    and small: "dir_bytes dir (files w) < 2 ^ 64" "limit < 2 ^ 64"
  shows "clean dir m' (files w') \<and> set m' \<subseteq> set m \<and> dir_bytes dir (files w') \<le> limit"
proof -
  have ex: "\<forall>e\<in>set m. file_at (files w) (resource_file dir e) \<noteq> None" using clean by (auto simp: clean_def dir_files_def)
  have bytes: "dir_bytes dir (files w) = sum_list (map (entry_bytes dir (files w)) m)"
    using sum_of_kept clean by (simp add: clean_def)
  show ?thesis
  proof (cases "(of_nat limit :: uint64) < of_nat (dir_bytes dir (files w))")
    case False
    then have "m' = m" "w' = w" using assms(1) by (simp_all add: evict_least_recent_def)
    then show ?thesis using clean False of_nat_less_iff [OF small(2,1)] by simp
  next
    case True
    define ids where "ids = map fst (sort_key snd (sort_key (tie_rank (files w) \<circ> fst) (map (\<lambda>(id, r). (id, ConvertProtoToAbslTime (last_accessed_time r))) m)))"
    have ev: "evict dir (of_nat limit) ids m (of_nat (dir_bytes dir (files w))) (None, w) = (Inr m', None, w')"
      using assms(1) True by (auto simp: evict_least_recent_def ids_def split: prod.splits sum.splits option.splits)
    have "mset ids = mset (map fst m)"
      by (simp add: ids_def comp_def case_prod_unfold multiset.map_comp)
    then have ids: "distinct ids" "set ids = fst ` set m"
      using keys mset_eq_imp_distinct_iff [of ids "map fst m"] mset_eq_setD [of ids "map fst m"] by simp_all
    have r: "set m' \<subseteq> set m" "distinct (map (resource_file dir) m')"
      "\<And>p. file_at (files w') p = (if p \<in> resource_file dir ` (set m - set m') then None else file_at (files w) p)"
      "m' = [] \<or> (of_nat (sum_list (map (entry_bytes dir (files w)) m')) :: uint64) < of_nat limit"
      using evict_Inr [OF ev ids keys _ ex] clean bytes by (simp_all add: clean_def)
    have inj: "inj_on (resource_file dir) (set m)" using clean by (simp add: clean_def distinct_map)
    have left: "dir_files dir (files w') = resource_file dir ` set m'"
    proof -
      have "dir_files dir (files w') = dir_files dir (files w) - resource_file dir ` (set m - set m')"
        unfolding dir_files_def r(3) by auto
      also have "\<dots> = resource_file dir ` set m'"
        using clean double_diff [OF image_mono [OF r(1)] order_refl] by (simp add: clean_def inj_on_image_set_diff [OF inj Diff_subset r(1)])
      finally show ?thesis .
    qed
    have same: "entry_bytes dir (files w') e = entry_bytes dir (files w) e" if "e \<in> set m'" for e
    proof -
      have "resource_file dir e \<notin> resource_file dir ` (set m - set m')" using inj that r(1) by (auto dest: inj_onD)
      then show ?thesis by (simp add: entry_bytes_def r(3))
    qed
    have b': "dir_bytes dir (files w') = sum_list (map (entry_bytes dir (files w)) m')"
      using sum_of_kept [OF r(2) left] same by (simp cong: map_cong)
    have "dir_bytes dir (files w') \<le> dir_bytes dir (files w)"
      using dir_bytes_loses evict_loses [of "(None, w)" dir "of_nat limit" ids m] ev by (metis snd_conv)
    then have "dir_bytes dir (files w') \<le> limit"
      using r(4) b' of_nat_less_iff [OF _ small(2), of "dir_bytes dir (files w')"] small(1) by auto
    then show ?thesis using r(1,2) left by (simp add: clean_def)
  qed
qed

lemma CleanUp_clean:
  assumes "CleanUp c now reserved m w = (Inr m', w')" and abs: "is_absolute (cache_dir_path c)" and keys: "distinct (map fst m)"
    and stat: "\<forall>k p. exists_fails (files w) k p = None" and small: "dir_bytes (cache_dir_path c) (files w) < 2 ^ 64"
    and limit: "max_cache_size_bytes c - (case reserved of None \<Rightarrow> 0 | Some r \<Rightarrow> r) = int limit" "limit < 2 ^ 64"
  shows "clean (cache_dir_path c) m' (files w') \<and> set m' \<subseteq> set m
    \<and> dir_bytes (cache_dir_path c) (files w') \<le> limit
    \<and> (\<forall>e\<in>set m'. \<not> ConvertProtoToAbslTime (expiry_time (snd e)) < now)"
proof -
  let ?dir = "cache_dir_path c"
  obtain stranded ids where scan: "fold (keep_or_delete ?dir now) m (map (path_join ?dir) (directory_iterator ?dir (files w)), [])
      = (stranded, ids)" by fastforce
  obtain status1 w1 where rm: "fold remove_stranded stranded (None, w) = (status1, w1)" by fastforce
  define m1 where "m1 = fold manifest_erase ids m"
  have dirok: "directory_fails (files w) ?dir = None"
    using assms(1) by (cases "directory_fails (files w) ?dir") (simp_all add: CleanUp_def)
  have run: "(case status1 of Some e \<Rightarrow> (Inl e, w1) | None \<Rightarrow> enforce_limit ?dir (of_nat limit) m1 w1) = (Inr m', w')"
    using assms(1) dirok scan rm limit(1) by (cases status1) (simp_all add: CleanUp_def m1_def)
  then have none: "status1 = None" by (cases status1) simp_all
  have m1: "clean ?dir m1 (files w1)" "set m1 \<subseteq> set m" "distinct (map fst m1)"
      "\<forall>e\<in>set m1. \<not> ConvertProtoToAbslTime (expiry_time (snd e)) < now"
    using scan_clean [OF abs keys scan] rm none unfolding m1_def by auto
  have ex: "\<forall>e\<in>set m1. file_at (files w1) (resource_file ?dir e) \<noteq> None"
    using m1(1) by (auto simp: clean_def dir_files_def)
  have l1: "loses (files w) (files w1)" using remove_all_loses [of w stranded None] rm by simp
  then have stat1: "\<forall>k p. exists_fails (files w1) k p = None" using stat by (auto simp: loses_def)
  obtain n status2 w2 where add: "fold (add_size ?dir) m1 (0, None, w1) = (n, status2, w2)" by (metis prod_cases3)
  have none2: "status2 = None" using run none add by (cases status2) (simp_all add: enforce_limit_def)
  have w2: "files w2 = files w1" and n: "n = of_nat (dir_bytes ?dir (files w1))"
    using add_sizes_None [OF add [unfolded none2] ex stat1] sum_of_kept [of ?dir m1 "files w1"] m1(1)
    by (simp_all add: clean_def)
  have small1: "dir_bytes ?dir (files w2) < 2 ^ 64" using dir_bytes_loses [OF l1] small unfolding w2 by (rule le_less_trans)
  have "evict_least_recent ?dir (of_nat limit) m1 (of_nat (dir_bytes ?dir (files w2))) w2 = (Inr m', w')"
    using run none none2 add n w2 by (simp add: enforce_limit_def)
  then have "clean ?dir m' (files w') \<and> set m' \<subseteq> set m1 \<and> dir_bytes ?dir (files w') \<le> limit"
    using evict_least_recent_clean [OF _ _ m1(3) small1 limit(2)] m1(1) w2 by simp
  then show ?thesis using m1(2,4) by blast
qed

lemma evict_least_recent_loses:
  assumes "evict_least_recent dir A m n w = (r, w')"
  shows "loses (files w) (files w')"
proof -
  define ids where "ids = map fst (sort_key snd (sort_key (tie_rank (files w) \<circ> fst) (map (\<lambda>(id, r). (id, ConvertProtoToAbslTime (last_accessed_time r))) m)))"
  obtain r1 status w1 where ev: "evict dir A ids m n (None, w) = (r1, status, w1)" by (metis prod_cases3)
  have l: "loses (files w) (files w1)" using evict_loses [of "(None, w)" dir A ids m n] ev by simp
  have "w' = w \<or> w' = w1"
    using assms ev by (auto simp: evict_least_recent_def ids_def split: if_splits sum.splits option.splits)
  then show ?thesis using l by auto
qed

lemma enforce_limit_loses:
  assumes "enforce_limit dir A m w = (r, w')"
  shows "loses (files w) (files w')"
proof -
  obtain n status w1 where add: "fold (add_size dir) m (0, None, w) = (n, status, w1)" by (metis prod_cases3)
  have l: "loses (files w) (files w1)" using add_sizes_loses [of w dir m 0 None] add by simp
  show ?thesis
  proof (cases status)
    case None
    then have "loses (files w1) (files w')" using assms add evict_least_recent_loses by (simp add: enforce_limit_def)
    then show ?thesis by (rule loses_trans [OF l])
  next
    case (Some e)
    then show ?thesis using assms add l by (auto simp: enforce_limit_def)
  qed
qed

lemma CleanUp_loses:
  assumes "CleanUp c now reserved m w = (r, w')"
  shows "loses (files w) (files w')"
proof (cases "directory_fails (files w) (cache_dir_path c)")
  case None
  let ?dir = "cache_dir_path c"
  obtain stranded ids where scan: "fold (keep_or_delete ?dir now) m (map (path_join ?dir) (directory_iterator ?dir (files w)), [])
      = (stranded, ids)" by fastforce
  obtain status w1 where rm: "fold remove_stranded stranded (None, w) = (status, w1)" by fastforce
  have l: "loses (files w) (files w1)" using remove_all_loses [of w stranded None] rm by simp
  show ?thesis
  proof (cases status)
    case None
    then have "loses (files w1) (files w')"
      using assms scan rm \<open>directory_fails (files w) ?dir = None\<close> enforce_limit_loses by (simp add: CleanUp_def)
    then show ?thesis by (rule loses_trans [OF l])
  next
    case (Some e)
    then show ?thesis using assms scan rm l \<open>directory_fails (files w) ?dir = None\<close> by (auto simp: CleanUp_def)
  qed
next
  case (Some e)
  then show ?thesis using assms by (auto simp: CleanUp_def LogDiag_def)
qed

section \<open>The size of the cache\<close>

text \<open>
  What the cache relies on of protostore: reading gives back what the last successful write was given
  and depends on the file of the manifest alone, a write touches no other file, and the keys of a
  map field are different.
\<close>

definition pds_law :: "FileBackedResourceCache \<Rightarrow> bool" where
  "pds_law c \<longleftrightarrow>
     (\<forall>m fs r fs'. pds_Write (pds c) m fs = (r, fs') \<longrightarrow> (\<exists>l. fs' = fs\<lparr>fs_files := l\<rparr>)
        \<and> (\<forall>p. p \<noteq> manifest_path c \<longrightarrow> file_at fs' p = file_at fs p)
        \<and> (r = Inr () \<longrightarrow> distinct (map fst m) \<longrightarrow> pds_Read (pds c) fs' = Inr m))
     \<and> (\<forall>fs l. map_of l (manifest_path c) = file_at fs (manifest_path c)
          \<longrightarrow> pds_Read (pds c) (fs\<lparr>fs_files := l\<rparr>) = pds_Read (pds c) fs)
     \<and> (\<forall>fs m. pds_Read (pds c) fs = Inr m \<longrightarrow> distinct (map fst m))"

text \<open>The directory is absolute and does not hold the manifest, and \<open>stat\<close> works.\<close>

definition cache_ok :: "FileBackedResourceCache \<Rightarrow> file_system \<Rightarrow> bool" where
  "cache_ok c fs \<longleftrightarrow> pds_law c \<and> is_absolute (cache_dir_path c) \<and> \<not> in_directory (cache_dir_path c) (manifest_path c)
     \<and> 0 \<le> max_cache_size_bytes c \<and> max_cache_size_bytes c < 2 ^ 63
     \<and> (\<forall>k p. exists_fails fs k p = None) \<and> dir_bytes (cache_dir_path c) fs < 2 ^ 64"

lemma dir_bytes_cong:
  assumes "\<And>p. in_directory dir p \<Longrightarrow> file_at fs p = file_at fs' p"
  shows "dir_bytes dir fs = dir_bytes dir fs'"
proof -
  have "dir_files dir fs = dir_files dir fs'" using assms by (auto simp: dir_files_def)
  then show ?thesis unfolding dir_bytes_def using assms by (intro sum.cong) (auto simp: dir_files_def)
qed

lemma DeleteManifest_files: "loses (files w) (files (snd (DeleteManifest c w)))
    \<and> (\<forall>p. p \<noteq> manifest_path c \<longrightarrow> file_at (files (snd (DeleteManifest c w))) p = file_at (files w) p)"
proof -
  obtain there e where ex: "fs_exists 1 (manifest_path c) (files w) = (there, e)" by fastforce
  obtain e' fs where rm: "fs_remove (manifest_path c) (files w) = (e', fs)" by fastforce
  have "files (snd (DeleteManifest c w)) = files w \<or> e' = None \<and> files (snd (DeleteManifest c w)) = fs"
    using ex rm by (cases e; cases there; cases e') (simp_all add: DeleteManifest_def LogDiag_def)
  then show ?thesis using fs_remove_loses [of "files w" "manifest_path c"] fs_remove_ok [of "manifest_path c" "files w" fs] rm by auto
qed

lemma ReadInternal_files:
  assumes "ReadInternal c w = (r, w')"
  shows "loses (files w) (files w') \<and> (\<forall>m. r = Inr m \<longrightarrow> w' = w \<and> pds_Read (pds c) (files w) = Inr m)"
  using assms DeleteManifest_files [of "LogDiag RESOURCE_CACHE_MANIFEST_READ_FAILED w" c]
  by (auto simp: ReadInternal_def LogDiag_def Let_def split: sum.splits prod.splits)

lemma pds_lawD:
  assumes "pds_law c"
  shows "pds_Write (pds c) m fs = (r, fs') \<Longrightarrow> \<exists>l. fs' = fs\<lparr>fs_files := l\<rparr>"
    and "pds_Write (pds c) m fs = (r, fs') \<Longrightarrow> p \<noteq> manifest_path c \<Longrightarrow> file_at fs' p = file_at fs p"
    and "pds_Write (pds c) m fs = (Inr (), fs') \<Longrightarrow> distinct (map fst m) \<Longrightarrow> pds_Read (pds c) fs' = Inr m"
    and "map_of l (manifest_path c) = file_at fs (manifest_path c) \<Longrightarrow> pds_Read (pds c) (fs\<lparr>fs_files := l\<rparr>) = pds_Read (pds c) fs"
    and "pds_Read (pds c) fs = Inr m \<Longrightarrow> distinct (map fst m)"
  using assms unfolding pds_law_def by blast+

lemma WriteInternal_files:
  assumes "WriteInternal c m w = (r, w')" "pds_law c"
  shows "(\<forall>p. p \<noteq> manifest_path c \<longrightarrow> file_at (files w') p = file_at (files w) p)
    \<and> (\<exists>l. files w' = (files w)\<lparr>fs_files := l\<rparr>)
    \<and> (r = Inr () \<longrightarrow> distinct (map fst m) \<longrightarrow> pds_Read (pds c) (files w') = Inr m)"
proof -
  obtain r1 fs1 where wr: "pds_Write (pds c) m (files w) = (r1, fs1)" by fastforce
  then have fs1: "\<forall>p. p \<noteq> manifest_path c \<longrightarrow> file_at fs1 p = file_at (files w) p" "\<exists>l. fs1 = (files w)\<lparr>fs_files := l\<rparr>"
      "r1 = Inr () \<longrightarrow> distinct (map fst m) \<longrightarrow> pds_Read (pds c) fs1 = Inr m"
    using pds_lawD [OF assms(2)] by blast+
  show ?thesis
  proof (cases r1)
    case (Inr u)
    then show ?thesis using assms(1) wr fs1 by (auto simp: WriteInternal_def)
  next
    case (Inl e)
    let ?w1 = "LogDiag RESOURCE_CACHE_MANIFEST_WRITE_FAILED (w\<lparr>files := fs1\<rparr>)"
    have r: "r \<noteq> Inr ()" and "w' = snd (DeleteManifest c ?w1)"
      using assms(1) wr Inl by (auto simp: WriteInternal_def Let_def case_prod_unfold)
    then have d: "\<forall>p. p \<noteq> manifest_path c \<longrightarrow> file_at (files w') p = file_at fs1 p" "\<exists>l. files w' = fs1\<lparr>fs_files := l\<rparr>"
      using DeleteManifest_files [of ?w1 c] by (simp_all add: LogDiag_def loses_def)
    obtain l l' where l: "fs1 = (files w)\<lparr>fs_files := l\<rparr>" "files w' = fs1\<lparr>fs_files := l'\<rparr>" using d(2) fs1(2) by blast
    have "files w' = (files w)\<lparr>fs_files := l'\<rparr>" unfolding l by simp
    then show ?thesis using d(1) fs1(1) r by metis
  qed
qed

lemma WriteCordToFile_bytes:
  assumes "WriteCordToFile p content fs = (r, fs')"
  shows "dir_bytes dir fs' \<le> dir_bytes dir fs + length content"
proof -
  consider "fs' = fs" | k where "fs' = fs\<lparr>fs_files := (p, take k content) # filter (\<lambda>f. fst f \<noteq> p) (fs_files fs)\<rparr>"
    using assms by (auto simp: WriteCordToFile_def Let_def split: if_splits option.splits) (metis order_refl take_all)+
  then show ?thesis
  proof cases
    case 2
    have at': "file_at fs' q = (if q = p then Some (take k content) else file_at fs q)" for q
      using file_at_filter [where fs = fs and p = p and q = q] 2 by (simp add: file_at_def)
    have sub: "dir_files dir fs' \<subseteq> insert p (dir_files dir fs - {p})" by (auto simp: dir_files_def at' split: if_splits)
    have "dir_bytes dir fs' \<le> (\<Sum>q\<in>insert p (dir_files dir fs - {p}). length (the (file_at fs' q)))"
      unfolding dir_bytes_def by (rule sum_mono2) (use sub in auto)
    also have "\<dots> = length (the (file_at fs' p)) + (\<Sum>q\<in>dir_files dir fs - {p}. length (the (file_at fs' q)))"
      by (rule sum.insert) auto
    also have "\<dots> = length (take k content) + (\<Sum>q\<in>dir_files dir fs - {p}. length (the (file_at fs q)))"
      by (simp add: at')
    also have "\<dots> \<le> length content + dir_bytes dir fs"
      unfolding dir_bytes_def by (intro add_mono sum_mono2) auto
    finally show ?thesis by simp
  qed simp
qed


lemma then_do_iff:
  "then_do p f = (r, w') \<longleftrightarrow> (\<exists>e. p = (Inl e, w') \<and> r = Inl e) \<or> (\<exists>a w. p = (Inr a, w) \<and> f a w = (r, w'))"
  by (cases p; cases "fst p") (auto simp: then_do_def)

lemma Put_file_files:
  assumes "Put_file p resource w = (r, w')"
  shows "files w' = files w \<or> file_at (files w) p = None \<and> WriteCordToFile p resource (files w) = (r, files w')"
  using assms
  by (auto simp: Put_file_def fs_exists_def LogDiag_def split: option.splits prod.splits sum.splits if_splits)

text \<open>A resource of at most half the size of the cache leaves the other files a limit that is not negative.\<close>

lemma reserved_limit:
  assumes "\<not> (of_nat (length resource) :: uint64) > of_int (half_size c)"
    and max: "0 \<le> max_cache_size_bytes c" "max_cache_size_bytes c < 2 ^ 63" and len: "length resource < 2 ^ 64"
  obtains limit where "max_cache_size_bytes c - (case Some (int (length resource)) of None \<Rightarrow> 0 | Some r \<Rightarrow> r) = int limit"
    "limit < 2 ^ 64" "limit + length resource = nat (max_cache_size_bytes c)"
proof
  define h where "h = nat (max_cache_size_bytes c div 2)"
  have half: "half_size c = int h" "h < 2 ^ 64" using max by (simp_all add: half_size_def h_def)
  then have fits: "length resource \<le> nat (max_cache_size_bytes c div 2)"
    using assms(1) of_nat_less_iff [OF half(2) len] by (simp add: h_def [symmetric])
  let ?limit = "nat (max_cache_size_bytes c) - length resource"
  show "max_cache_size_bytes c - (case Some (int (length resource)) of None \<Rightarrow> 0 | Some r \<Rightarrow> r) = int ?limit"
    "?limit < 2 ^ 64" "?limit + length resource = nat (max_cache_size_bytes c)" using fits max by auto
qed

lemma Put_written_bytes:
  assumes run: "then_do (WriteInternal c m w2) (\<lambda>_ w. Put_file p resource w) = (r, w')"
    and law: "pds_law c" and out: "\<not> in_directory dir (manifest_path c)"
  shows "dir_bytes dir (files w') \<le> dir_bytes dir (files w2) + length resource"
proof -
  obtain r3 w3 where wr: "WriteInternal c m w2 = (r3, w3)" by fastforce
  have "in_directory dir p \<Longrightarrow> file_at (files w3) p = file_at (files w2) p" for p
    using WriteInternal_files [OF wr law] out by metis
  then have b3: "dir_bytes dir (files w3) = dir_bytes dir (files w2)" by (rule dir_bytes_cong)
  show ?thesis
  proof (cases r3)
    case (Inl e)
    then show ?thesis using run wr b3 by (simp add: then_do_def)
  next
    case (Inr u)
    then have "Put_file p resource w3 = (r, w')" using run wr by (simp add: then_do_def)
    then show ?thesis using Put_file_files [of p resource w3 r w'] WriteCordToFile_bytes [of p resource "files w3" r "files w'" dir] b3 by auto
  qed
qed

text \<open>
  What a call of \<open>Put\<close> does to the directory: only losses before the clean-up has succeeded; after it, the
  directory is within its limit and at most the new file is added.
\<close>

lemma Put_bytes:
  assumes put: "Put c now cache_id resource meta max_age w = (r, w')" and ok: "cache_ok c (files w)"
    and len: "length resource < 2 ^ 64"
  shows "(r \<noteq> Inr () \<and> loses (files w) (files w')) \<or> dir_bytes (cache_dir_path c) (files w') \<le> nat (max_cache_size_bytes c)"
proof -
  let ?dir = "cache_dir_path c"
  have law: "pds_law c" and abs: "is_absolute ?dir" and out: "\<not> in_directory ?dir (manifest_path c)"
    and max: "0 \<le> max_cache_size_bytes c" "max_cache_size_bytes c < 2 ^ 63"
    and stat: "\<forall>k p. exists_fails (files w) k p = None" and small: "dir_bytes ?dir (files w) < 2 ^ 64"
    using ok by (simp_all add: cache_ok_def)
  show ?thesis
  proof (cases "(of_nat (length resource) :: uint64) > of_int (half_size c)")
    case True
    then show ?thesis using put by (auto simp: Put_def)
  next
    case False
    obtain limit where limit: "max_cache_size_bytes c - (case Some (int (length resource)) of None \<Rightarrow> 0 | Some r \<Rightarrow> r) = int limit"
        "limit < 2 ^ 64" "limit + length resource = nat (max_cache_size_bytes c)"
      by (rule reserved_limit [OF False max len])
    obtain r1 w1 where read: "ReadInternal c w = (r1, w1)" by fastforce
    show ?thesis
    proof (cases r1)
      case (Inl e)
      then show ?thesis using put False read ReadInternal_files [OF read] by (auto simp: Put_def then_do_def)
    next
      case (Inr m)
      then have w1: "w1 = w" "pds_Read (pds c) (files w) = Inr m" using ReadInternal_files [OF read] by auto
      obtain r2 w2 where clean: "CleanUp c (now 0) (Some (int (length resource))) m w = (r2, w2)" by fastforce
      show ?thesis
      proof (cases r2)
        case (Inl e)
        then show ?thesis
          using put False read \<open>r1 = Inr m\<close> w1(1) clean CleanUp_loses [OF clean] by (auto simp: Put_def then_do_def)
      next
        case r2: (Inr m2)
        have b2: "dir_bytes ?dir (files w2) \<le> limit"
          using CleanUp_clean [OF clean [unfolded r2] abs pds_lawD(5) [OF law w1(2)] stat small limit(1,2)] by blast
        have "then_do (WriteInternal c (manifest_insert cache_id (new_entry cache_id meta (now 1) max_age) m2) w2)
            (\<lambda>_ w. Put_file (path_join ?dir cache_id) resource w) = (r, w')"
          using put False read \<open>r1 = Inr m\<close> w1(1) clean r2 by (simp add: Put_def then_do_def)
        then show ?thesis using Put_written_bytes [OF _ law out] b2 limit(3) by fastforce
      qed
    qed
  qed
qed

section \<open>The directory in every run\<close>

lemma Get_files:
  assumes "Get c now cache_id max_age w = (r, w')" "ReadInternal c w = (r2, w2)"
  shows "files w' = files w2 \<or> files w' = snd (fs_remove (path_join (cache_dir_path c) cache_id) (files w2))
      \<or> (\<exists>m r3 w3. WriteInternal c m w2 = (r3, w3) \<and> files w' = files w3)"
  using assms
  by (cases r2) (auto simp: Get_def Get_body_def then_do_def LogDiag_def split: option.splits sum.splits prod.splits, blast+)

lemma Get_loses_bytes:
  assumes "Get c now cache_id max_age w = (r, w')" "pds_law c" "\<not> in_directory dir (manifest_path c)"
  shows "dir_bytes dir (files w') \<le> dir_bytes dir (files w)"
proof -
  obtain r2 w2 where read: "ReadInternal c w = (r2, w2)" by fastforce
  have l2: "dir_bytes dir (files w2) \<le> dir_bytes dir (files w)" using dir_bytes_loses ReadInternal_files [OF read] by blast
  have "dir_bytes dir (files w3) = dir_bytes dir (files w2)" if "WriteInternal c m w2 = (r3, w3)" for m r3 w3
    using WriteInternal_files [OF that assms(2)] assms(3) by (metis dir_bytes_cong)
  then have "dir_bytes dir (files w') \<le> dir_bytes dir (files w2)"
    using Get_files [OF assms(1) read] dir_bytes_loses [OF fs_remove_loses] by (metis order_refl)
  then show ?thesis using l2 by simp
qed

text \<open>The calls that fail are a property of the file system that no operation changes.\<close>

definition same_faults :: "file_system \<Rightarrow> file_system \<Rightarrow> bool" where
  "same_faults fs fs' \<longleftrightarrow> (\<exists>l. fs' = fs\<lparr>fs_files := l\<rparr>)"

lemma same_faults_simps:
  "same_faults fs fs" "loses fs fs' \<Longrightarrow> same_faults fs fs'"
  "same_faults fs1 fs2 \<Longrightarrow> same_faults fs2 fs3 \<Longrightarrow> same_faults fs1 fs3"
  "WriteCordToFile p content fs = (r, fs') \<Longrightarrow> same_faults fs fs'"
proof -
  show refl: "same_faults fs fs" by (auto simp: same_faults_def intro: exI [of _ "fs_files fs"])
  show "loses fs fs' \<Longrightarrow> same_faults fs fs'" by (simp add: loses_def same_faults_def)
  show "same_faults fs2 fs3 \<Longrightarrow> same_faults fs1 fs3" if "same_faults fs1 fs2"
    using that by (auto simp: same_faults_def)
  show "WriteCordToFile p content fs = (r, fs') \<Longrightarrow> same_faults fs fs'"
    using refl by (auto simp: WriteCordToFile_def same_faults_def Let_def split: if_splits)
qed

lemma WriteInternal_faults: "WriteInternal c m w = (r, w') \<Longrightarrow> pds_law c \<Longrightarrow> same_faults (files w) (files w')"
  using WriteInternal_files by (simp add: same_faults_def)

lemma then_do_faults:
  assumes "then_do p f = (r, w')" "\<And>r1 w1. p = (r1, w1) \<Longrightarrow> same_faults fs (files w1)"
    and "\<And>a w1. p = (Inr a, w1) \<Longrightarrow> same_faults fs (files w1) \<Longrightarrow> f a w1 = (r, w') \<Longrightarrow> same_faults fs (files w')"
  shows "same_faults fs (files w')"
  using assms(1) unfolding then_do_iff
proof (elim disjE exE conjE)
  fix e assume "p = (Inl e, w')"
  then show ?thesis by (rule assms(2))
next
  fix a w1 assume "p = (Inr a, w1)" "f a w1 = (r, w')"
  then show ?thesis using assms(2,3) by blast
qed

lemma Put_faults:
  assumes put: "Put c now cache_id resource meta max_age w = (r, w')" and law: "pds_law c"
  shows "same_faults (files w) (files w')"
proof (cases "(of_nat (length resource) :: uint64) > of_int (half_size c)")
  case True
  then show ?thesis using put same_faults_simps(1) by (auto simp: Put_def)
next
  case False
  note run = put [unfolded Put_def if_not_P [OF False]]
  show ?thesis
  proof (rule then_do_faults [OF run])
    show "same_faults (files w) (files w1)" if "ReadInternal c w = (r1, w1)" for r1 w1
      using ReadInternal_files [OF that] same_faults_simps(2) by blast
    show "same_faults (files w) (files w')" if s1: "same_faults (files w) (files w1)"
      and run: "then_do (CleanUp c (now 0) (Some (int (length resource))) m w1) (\<lambda>m w.
        then_do (WriteInternal c (manifest_insert cache_id (new_entry cache_id meta (now 1) max_age) m) w) (\<lambda>_ w.
          Put_file (path_join (cache_dir_path c) cache_id) resource w)) = (r, w')" for m w1
    proof (rule then_do_faults [OF run])
      show "same_faults (files w) (files w2)" if "CleanUp c (now 0) (Some (int (length resource))) m w1 = (r2, w2)" for r2 w2
        using same_faults_simps(3) [OF s1 same_faults_simps(2) [OF CleanUp_loses [OF that]]] .
      show "same_faults (files w) (files w')" if s2: "same_faults (files w) (files w2)"
        and run: "then_do (WriteInternal c (manifest_insert cache_id (new_entry cache_id meta (now 1) max_age) m2) w2) (\<lambda>_ w.
          Put_file (path_join (cache_dir_path c) cache_id) resource w) = (r, w')" for m2 w2
      proof (rule then_do_faults [OF run])
        fix r3 w3
        assume "WriteInternal c (manifest_insert cache_id (new_entry cache_id meta (now 1) max_age) m2) w2 = (r3, w3)"
        then show "same_faults (files w) (files w3)" using same_faults_simps(3) [OF s2 WriteInternal_faults [OF _ law]] by blast
      next
        fix u w3
        assume s3: "same_faults (files w) (files w3)" and "Put_file (path_join (cache_dir_path c) cache_id) resource w3 = (r, w')"
        then have "same_faults (files w3) (files w')" using Put_file_files same_faults_simps(1,4) by metis
        then show "same_faults (files w) (files w')" by (rule same_faults_simps(3) [OF s3])
      qed
    qed
  qed
qed

lemma Get_faults:
  assumes "Get c now cache_id max_age w = (r, w')" "pds_law c"
  shows "same_faults (files w) (files w')"
proof -
  obtain r2 w2 where read: "ReadInternal c w = (r2, w2)" by fastforce
  have f2: "same_faults (files w) (files w2)" using ReadInternal_files [OF read] same_faults_simps(2) by blast
  show ?thesis
    using Get_files [OF assms(1) read] same_faults_simps(3) [OF f2] same_faults_simps(1) same_faults_simps(2) [OF fs_remove_loses]
      WriteInternal_faults [OF _ assms(2)] f2 by metis
qed

section \<open>Creation\<close>

lemma Initialize_steps:
  assumes "Initialize_cache c now w = (Inr (), w')"
  obtains w0 w1 m w3 m3 where
    "w0 = w \<or> (\<exists>r fs. WriteCordToFile (manifest_path c) [] (files w) = (r, fs) \<and> w0 = w\<lparr>files := fs\<rparr>)"
    "w1 = w0 \<or> WriteInternal c [] w0 = (Inr (), w1)" "ReadInternal c w1 = (Inr m, w1)"
    "CleanUp c (now 0) None m w1 = (Inr m3, w3)" "WriteInternal c m3 w3 = (Inr (), w')"
proof -
  define w0 where "w0 = (if fst (fs_exists 0 (manifest_path c) (files w)) then w
      else w\<lparr>files := snd (WriteCordToFile (manifest_path c) [] (files w))\<rparr>)"
  obtain there where ex: "fs_exists 0 (manifest_path c) (files w) = (there, None)"
    using assms by (cases "fs_exists 0 (manifest_path c) (files w)"; cases "snd (fs_exists 0 (manifest_path c) (files w))")
      (auto simp: Initialize_cache_def)
  then have w0: "w0 = (if there then w else w\<lparr>files := snd (WriteCordToFile (manifest_path c) [] (files w))\<rparr>)" by (simp add: w0_def)
  note run = assms [unfolded Initialize_cache_def ex prod.case option.case w0 [symmetric] Let_def]
  obtain sz where sz: "GetFileSize (pds c) (manifest_path c) (files w0) = Inr sz"
    using run by (auto split: sum.splits)
  obtain r1 w1 where w1: "(if sz = 0 then WriteInternal c [] w0 else (Inr (), w0)) = (r1, w1)" by fastforce
  obtain r2 w2 where w2: "ReadInternal c w1 = (r2, w2)" by fastforce
  have r1: "r1 = Inr ()" using run sz w1 by (cases r1) simp_all
  then obtain m where r2: "r2 = Inr m"
    using run sz w1 w2 by (cases r2) simp_all
  obtain r3 w3 where w3: "CleanUp c (now 0) None m w2 = (r3, w3)" by fastforce
  then obtain m3 where r3: "r3 = Inr m3"
    using run sz w1 w2 r1 r2 by (cases r3) simp_all
  obtain r4 w4 where w4: "WriteInternal c m3 w3 = (r4, w4)" by fastforce
  have "r4 = Inr ()" "w4 = w'"
    using run sz w1 w2 r1 r2 w3 r3 w4
    by (cases r4; simp)+
  moreover have "w0 = w \<or> (\<exists>r fs. WriteCordToFile (manifest_path c) [] (files w) = (r, fs) \<and> w0 = w\<lparr>files := fs\<rparr>)"
    unfolding w0_def by (metis surjective_pairing)
  moreover have "w1 = w0 \<or> WriteInternal c [] w0 = (Inr (), w1)" using w1 r1 by (auto split: if_splits)
  moreover have "w2 = w1" using ReadInternal_files [OF w2] r2 by simp
  ultimately show ?thesis using that w2 r2 w3 r3 w4 by blast
qed

lemma Initialize_bytes:
  assumes init: "Initialize_cache c now w = (Inr (), w')" and ok: "cache_ok c (files w)"
  shows "dir_bytes (cache_dir_path c) (files w') \<le> nat (max_cache_size_bytes c) \<and> same_faults (files w) (files w')"
proof -
  let ?dir = "cache_dir_path c"
  have law: "pds_law c" and abs: "is_absolute ?dir" and out: "\<not> in_directory ?dir (manifest_path c)"
    and max: "0 \<le> max_cache_size_bytes c" "max_cache_size_bytes c < 2 ^ 63"
    and stat: "\<forall>k p. exists_fails (files w) k p = None" and small: "dir_bytes ?dir (files w) < 2 ^ 64"
    using ok by (simp_all add: cache_ok_def)
  have write_dir: "dir_bytes ?dir (files v') = dir_bytes ?dir (files v)" if "WriteInternal c m v = (r, v')" for m v r v'
    using WriteInternal_files [OF that law] out by (metis dir_bytes_cong)
  obtain w0 w1 m w3 m3 where
    w0: "w0 = w \<or> (\<exists>r fs. WriteCordToFile (manifest_path c) [] (files w) = (r, fs) \<and> w0 = w\<lparr>files := fs\<rparr>)"
    and w1: "w1 = w0 \<or> WriteInternal c [] w0 = (Inr (), w1)" and read: "ReadInternal c w1 = (Inr m, w1)"
    and clean: "CleanUp c (now 0) None m w1 = (Inr m3, w3)" and wr: "WriteInternal c m3 w3 = (Inr (), w')"
    by (rule Initialize_steps [OF init])
  have b0: "dir_bytes ?dir (files w0) \<le> dir_bytes ?dir (files w)" and f0: "same_faults (files w) (files w0)"
    using w0 WriteCordToFile_bytes [of "manifest_path c" "[]" "files w" _ _ ?dir] same_faults_simps(1,4) by fastforce+
  have b1: "dir_bytes ?dir (files w1) = dir_bytes ?dir (files w0)" and f1: "same_faults (files w0) (files w1)"
    using w1 write_dir same_faults_simps(1) WriteInternal_faults [OF _ law] by blast+
  have f: "same_faults (files w) (files w1)" by (rule same_faults_simps(3) [OF f0 f1])
  have stat1: "\<forall>k p. exists_fails (files w1) k p = None" using f stat by (auto simp: same_faults_def)
  have small1: "dir_bytes ?dir (files w1) < 2 ^ 64" using b0 b1 small by simp
  have keys: "distinct (map fst m)" using pds_lawD(5) [OF law] ReadInternal_files [OF read] by blast
  have limit: "max_cache_size_bytes c - (case None of None \<Rightarrow> 0 | Some r \<Rightarrow> r) = int (nat (max_cache_size_bytes c))"
      "nat (max_cache_size_bytes c) < 2 ^ 64"
    using max by simp_all
  have "dir_bytes ?dir (files w3) \<le> nat (max_cache_size_bytes c)"
    using CleanUp_clean [OF clean abs keys stat1 small1 limit] by blast
  moreover have "same_faults (files w) (files w')"
    using same_faults_simps(3) [OF same_faults_simps(3) [OF f same_faults_simps(2) [OF CleanUp_loses [OF clean]]]]
      WriteInternal_faults [OF wr law] by blast
  ultimately show ?thesis using write_dir [OF wr] by simp
qed


text \<open>The manifest of a created cache is not in its directory: the names of the two directories end differently.\<close>

lemma last_component:
  assumes "a @ CHR ''/'' # x = b @ CHR ''/'' # y" "CHR ''/'' \<notin> set x" "CHR ''/'' \<notin> set y"
  shows "a = b"
proof -
  have t: "dropWhile (\<lambda>d. d \<noteq> CHR ''/'') (rev (c @ CHR ''/'' # z)) = CHR ''/'' # rev c" if "CHR ''/'' \<notin> set z" for c z
  proof -
    have "dropWhile (\<lambda>d. d \<noteq> CHR ''/'') (rev z @ CHR ''/'' # rev c) = CHR ''/'' # rev c"
      by (rule dropWhile_eq_Cons_conv [THEN iffD2]) (use that in \<open>auto simp: takeWhile_append\<close>)
    then show ?thesis by simp
  qed
  have "CHR ''/'' # rev a = CHR ''/'' # rev b" using t [OF assms(2), of a] t [OF assms(3), of b] assms(1) by simp
  then show ?thesis by simp
qed

lemma path_join_last: "path_join a (x # b) \<noteq> [] \<and> last (path_join a (x # b)) = last (x # b)"
  by (auto simp: path_join_def)

lemma manifest_outside:
  "\<not> in_directory (path_join d ''cache'') (path_join (path_join base_dir ''fcp'') ''cache_manifest.pb'')"
proof
  let ?dir = "path_join d ''cache''" and ?q = "path_join base_dir ''fcp''"
  let ?p = "path_join ?q ''cache_manifest.pb''"
  assume a: "in_directory ?dir ?p"
  have p: "?p = ?q @ CHR ''/'' # ''cache_manifest.pb''"
    using path_join_last [of base_dir "CHR ''f''" "''cp''"] by (auto simp: path_join_def [of ?q])
  obtain name where "?p = ?dir @ CHR ''/'' # name" "CHR ''/'' \<notin> set name" using a by (auto simp: in_directory_split)
  then have "?q = ?dir" using last_component [of ?q "''cache_manifest.pb''" ?dir] p by simp
  then show False
    using path_join_last [of base_dir "CHR ''f''" "''cp''"] path_join_last [of d "CHR ''c''" "''ache''"] by simp
qed

section \<open>Runs\<close>

text \<open>
  A cache that was created, on a directory and with resources that a 64-bit size can hold, and the calls on it. Between two calls
  the faults of the file system may change. \<open>exists\<close> never fails: with an error there, the clean-up takes a file for a missing one
  and the next \<open>Put\<close> may go over the limit.
\<close>

inductive cache_run :: "FileBackedResourceCache \<Rightarrow> world \<Rightarrow> bool" for c where
  created: "Create_cache store now base_dir cache_dir max_size w = (Inr c, w') \<Longrightarrow> \<forall>k p. exists_fails (files w) k p = None
    \<Longrightarrow> dir_bytes (cache_dir_path c) (files w) < 2 ^ 64 \<Longrightarrow> cache_run c w'"
| stored: "cache_run c w \<Longrightarrow> length resource < 2 ^ 64 \<Longrightarrow> Put c now cache_id resource meta max_age w = (r, w') \<Longrightarrow> cache_run c w'"
| faults: "cache_run c w \<Longrightarrow> fs_files fs = fs_files (files w) \<Longrightarrow> \<forall>k p. exists_fails fs k p = None \<Longrightarrow> cache_run c (w\<lparr>files := fs\<rparr>)"
| looked_up: "cache_run c w \<Longrightarrow> Get c now cache_id max_age' w = (r', w') \<Longrightarrow> cache_run c w'"

lemma Create_cache_Inr:
  assumes "Create_cache store now base_dir cache_dir max_size w = (Inr c, w')"
  shows "Initialize_cache c now w = (Inr (), w')" "\<not> in_directory (cache_dir_path c) (manifest_path c)" "is_absolute (cache_dir_path c)"
proof -
  have r: "is_absolute cache_dir \<and> cache_dir_path c = path_join (path_join cache_dir ''fcp'') ''cache''
      \<and> manifest_path c = path_join (path_join base_dir ''fcp'') ''cache_manifest.pb'' \<and> Initialize_cache c now w = (Inr (), w')"
    using assms by (auto simp: Create_cache_def Let_def split: if_splits sum.splits prod.splits)
  then show "Initialize_cache c now w = (Inr (), w')" by simp
  show "\<not> in_directory (cache_dir_path c) (manifest_path c)" using r manifest_outside by simp
  show "is_absolute (cache_dir_path c)" using r by (auto simp: is_absolute_def path_join_def)
qed

lemma run_invariant:
  assumes "cache_run c w" and law: "pds_law c" and max: "0 \<le> max_cache_size_bytes c" "max_cache_size_bytes c < 2 ^ 63"
  shows "cache_ok c (files w) \<and> dir_bytes (cache_dir_path c) (files w) \<le> nat (max_cache_size_bytes c)"
  using assms(1)
proof induction
  case (created store now base_dir cache_dir max_size w w')
  have c: "cache_ok c (files w)" using Create_cache_Inr [OF created(1)] created(2,3) law max by (simp add: cache_ok_def)
  then show ?case using Initialize_bytes [OF Create_cache_Inr(1) [OF created(1)] c] max by (auto simp: cache_ok_def same_faults_def)
next
  case (stored w resource now cache_id meta max_age r w')
  then have "dir_bytes (cache_dir_path c) (files w') \<le> nat (max_cache_size_bytes c)"
    using Put_bytes [OF stored(3)] dir_bytes_loses [of "files w" "files w'" "cache_dir_path c"] by fastforce
  then show ?case using stored.IH Put_faults [OF stored(3) law] max by (auto simp: cache_ok_def same_faults_def)
next
  case (faults w fs)
  have "dir_bytes (cache_dir_path c) fs = dir_bytes (cache_dir_path c) (files w)" using faults(2) by (intro dir_bytes_cong) (simp add: file_at_def)
  then show ?case using faults.IH faults(3) by (simp add: cache_ok_def)
next
  case (looked_up w now cache_id max_age' r' w')
  then have "dir_bytes (cache_dir_path c) (files w') \<le> nat (max_cache_size_bytes c)"
    using Get_loses_bytes [OF looked_up(2) law, of "cache_dir_path c"] by (simp add: cache_ok_def)
  then show ?case using looked_up.IH Get_faults [OF looked_up(2) law] max by (auto simp: cache_ok_def same_faults_def)
qed

end
