(* ===== verification/Cache_Lookup.thy ===== *)
theory Cache_Lookup
  imports Cache_Laws
begin

text \<open>
  The size of a cache over its runs, and what a lookup returns after a resource was stored: the resource when
  its id is new, and the old one when the id was there and survived the clean-up, although the interface promises to
  overwrite it. A small store of manifests and a cache on it show that the assumptions can be met.
\<close>

section \<open>What the clean-up leaves of the manifest\<close>

lemma manifest_erase_filter: "\<exists>P. manifest_erase x (filter Q m) = filter P m"
  by (auto simp: manifest_erase_def)

lemma erase_all_filter: "\<exists>P. fold manifest_erase ids (filter Q m) = filter P m"
proof (induction ids arbitrary: Q)
  case (Cons x ids)
  obtain P where "manifest_erase x (filter Q m) = filter P m" using manifest_erase_filter by blast
  then show ?case using Cons by simp
qed auto

lemma evict_filter: "evict dir A ids (filter Q m) n acc = (Inr m', acc') \<Longrightarrow> \<exists>P. m' = filter P m"
proof (induction ids arbitrary: Q n acc)
  case (Cons x ids)
  obtain r where r: "map_of (filter Q m) x = Some r" using Cons.prems by (cases "map_of (filter Q m) x") auto
  obtain sz acc1 where f: "evict_file dir r acc = (sz, acc1)" by (cases "evict_file dir r acc") blast
  obtain P where P: "manifest_erase x (filter Q m) = filter P m" using manifest_erase_filter by blast
  show ?case
  proof (cases "n - sz < A")
    case True
    then have "m' = manifest_erase x (filter Q m)" using Cons.prems r f by simp
    then show ?thesis using P by blast
  next
    case False
    then show ?thesis using Cons.prems r f P Cons.IH [of P "n - sz" acc1] by simp
  qed
qed auto

lemma CleanUp_filter:
  assumes "CleanUp c now reserved m w = (Inr m', w')"
  shows "\<exists>P. m' = filter P m"
proof -
  let ?dir = "cache_dir_path c"
  obtain stranded ids where scan: "fold (keep_or_delete ?dir now) m (map (path_join ?dir) (directory_iterator ?dir (files w)), [])
      = (stranded, ids)" by fastforce
  obtain status w1 where rm: "fold remove_stranded stranded (None, w) = (status, w1)" by fastforce
  obtain Q where Q: "fold manifest_erase ids m = filter Q m" using erase_all_filter [of ids "\<lambda>_. True" m] by auto
  have "directory_fails (files w) ?dir = None"
    using assms by (cases "directory_fails (files w) ?dir") (simp_all add: CleanUp_def)
  then obtain A where "enforce_limit ?dir A (filter Q m) w1 = (Inr m', w')"
    using assms scan rm Q by (cases status) (auto simp: CleanUp_def)
  then obtain A n w2 where ev: "evict_least_recent ?dir A (filter Q m) n w2 = (Inr m', w')"
    by (auto simp: enforce_limit_def split: prod.splits option.splits)
  then have "m' = filter Q m \<or> (\<exists>ids w3. evict ?dir A ids (filter Q m) n (None, w2) = (Inr m', None, w3))"
    by (auto simp: evict_least_recent_def split: if_splits prod.splits sum.splits option.splits)
  then show ?thesis using evict_filter by blast
qed

section \<open>Steps of Put and Get\<close>

lemma Put_steps:
  assumes "Put c now cache_id resource meta max_age w = (Inr (), w')"
  obtains m m2 w2 w3 where "pds_Read (pds c) (files w) = Inr m"
    "CleanUp c (now 0) (Some (int (length resource))) m w = (Inr m2, w2)"
    "WriteInternal c (manifest_insert cache_id (new_entry cache_id meta (now 1) max_age) m2) w2 = (Inr (), w3)"
    "Put_file (path_join (cache_dir_path c) cache_id) resource w3 = (Inr (), w')"
proof -
  have run: "then_do (ReadInternal c w) (\<lambda>m w.
        then_do (CleanUp c (now 0) (Some (int (length resource))) m w) (\<lambda>m w.
        then_do (WriteInternal c (manifest_insert cache_id (new_entry cache_id meta (now 1) max_age) m) w) (\<lambda>_ w.
          Put_file (path_join (cache_dir_path c) cache_id) resource w))) = (Inr (), w')"
    using assms by (simp add: Put_def split: if_splits)
  then obtain m w1 where "ReadInternal c w = (Inr m, w1)" and
    run: "then_do (CleanUp c (now 0) (Some (int (length resource))) m w1) (\<lambda>m w.
        then_do (WriteInternal c (manifest_insert cache_id (new_entry cache_id meta (now 1) max_age) m) w) (\<lambda>_ w.
          Put_file (path_join (cache_dir_path c) cache_id) resource w)) = (Inr (), w')"
    unfolding then_do_iff [of "ReadInternal c w"] by blast
  then have m: "pds_Read (pds c) (files w) = Inr m" "w1 = w" using ReadInternal_files by blast+
  obtain m2 w2 where clean: "CleanUp c (now 0) (Some (int (length resource))) m w1 = (Inr m2, w2)" and
    run: "then_do (WriteInternal c (manifest_insert cache_id (new_entry cache_id meta (now 1) max_age) m2) w2) (\<lambda>_ w.
          Put_file (path_join (cache_dir_path c) cache_id) resource w) = (Inr (), w')"
    using run unfolding then_do_iff [of "CleanUp _ _ _ _ _"] by blast
  obtain u w3 where
    "WriteInternal c (manifest_insert cache_id (new_entry cache_id meta (now 1) max_age) m2) w2 = (Inr u, w3)"
    "Put_file (path_join (cache_dir_path c) cache_id) resource w3 = (Inr (), w')"
    using run unfolding then_do_iff by blast
  then show ?thesis using that m clean by simp
qed

text \<open>The messages that a call has logged.\<close>

definition new_diags :: "world \<Rightarrow> world \<Rightarrow> DiagCode list" where
  "new_diags w w' = drop (length (diags w)) (diags w')"

lemma WriteInternal_reported:
  assumes "WriteInternal c m w = (Inl e, w')"
  shows "\<exists>ds. diags w' = diags w @ RESOURCE_CACHE_MANIFEST_WRITE_FAILED # ds"
  using assms
  by (auto simp: WriteInternal_def DeleteManifest_def LogDiag_def Let_def split: prod.splits sum.splits if_splits option.splits bool.splits)

lemma Get_hit:
  assumes get: "Get c now cache_id max_age w = (r, w')"
    and read: "pds_Read (pds c) (files w) = Inr m" and entry: "map_of m cache_id = Some e"
    and at: "file_at (files w) (path_join (cache_dir_path c) cache_id) = Some b"
    and readable: "\<not> read_fails (files w) (path_join (cache_dir_path c) cache_id)"
    and stored: "RESOURCE_CACHE_MANIFEST_WRITE_FAILED \<notin> set (new_diags w w')"
  shows "r = Inr (b, metadata e)"
proof -
  obtain r3 w3 where wr: "WriteInternal c (manifest_insert cache_id (touched now max_age e) (manifest_erase cache_id m)) w = (r3, w3)"
    by fastforce
  have body: "Get_body c now cache_id max_age w = (case r3 of Inl err \<Rightarrow> Inl err | Inr _ \<Rightarrow> Inr (b, metadata e), w3)"
    using read entry at readable wr
    by (simp add: Get_body_def then_do_def ReadInternal_def ReadFileToCord_def split: sum.split)
  show ?thesis
  proof (cases r3)
    case (Inl err)
    then obtain ds where "diags w3 = diags w @ RESOURCE_CACHE_MANIFEST_WRITE_FAILED # ds"
      using WriteInternal_reported wr by blast
    then show ?thesis using get stored body Inl by (auto simp: Get_def LogDiag_def new_diags_def)
  next
    case (Inr u)
    then show ?thesis using get body by (simp add: Get_def)
  qed
qed


section \<open>A lookup after Put\<close>

lemma WriteCordToFile_ok:
  assumes "WriteCordToFile p content fs = (Inr (), fs')"
  shows "\<exists>l. fs' = fs\<lparr>fs_files := l\<rparr>" "file_at fs' q = (if q = p then Some content else file_at fs q)"
proof -
  have fs': "fs' = fs\<lparr>fs_files := (p, content) # filter (\<lambda>f. fst f \<noteq> p) (fs_files fs)\<rparr>"
    using assms by (auto simp: WriteCordToFile_def Let_def split: if_splits)
  show "\<exists>l. fs' = fs\<lparr>fs_files := l\<rparr>" using fs' by blast
  show "file_at fs' q = (if q = p then Some content else file_at fs q)"
    using file_at_filter [where fs = fs and p = p and q = q] by (auto simp: fs' file_at_def)
qed

text \<open>A file other than the manifest can be added without changing what protostore reads.\<close>

lemma read_unchanged:
  assumes "pds_law c" "fs' = fs\<lparr>fs_files := l\<rparr>" "file_at fs' (manifest_path c) = file_at fs (manifest_path c)"
  shows "pds_Read (pds c) fs' = pds_Read (pds c) fs"
proof -
  have "map_of l (manifest_path c) = file_at fs (manifest_path c)" using assms(2,3) by (simp add: file_at_def)
  then show ?thesis unfolding assms(2) by (rule pds_lawD(4) [OF assms(1)])
qed

lemma Put_file_result:
  assumes "Put_file p resource w = (Inr (), w')" "pds_law c" "p \<noteq> manifest_path c"
  shows "pds_Read (pds c) (files w') = pds_Read (pds c) (files w)"
    "file_at (files w') p = (case file_at (files w) p of None \<Rightarrow> Some resource | Some b \<Rightarrow> Some b)"
proof -
  consider (there) b where "files w' = files w" "file_at (files w) p = Some b"
    | (added) "file_at (files w) p = None" "WriteCordToFile p resource (files w) = (Inr (), files w')"
    using assms(1) by (auto simp: Put_file_def fs_exists_def split: option.splits prod.splits sum.splits if_splits)
  then have "pds_Read (pds c) (files w') = pds_Read (pds c) (files w)
      \<and> file_at (files w') p = (case file_at (files w) p of None \<Rightarrow> Some resource | Some b \<Rightarrow> Some b)"
  proof cases
    case added
    then show ?thesis
      using read_unchanged [OF assms(2)] WriteCordToFile_ok [OF added(2)] assms(3) by (metis option.case(1))
  qed simp
  then show "pds_Read (pds c) (files w') = pds_Read (pds c) (files w)"
    "file_at (files w') p = (case file_at (files w) p of None \<Rightarrow> Some resource | Some b \<Rightarrow> Some b)" by simp_all
qed

text \<open>The manifest after a successful \<open>Put\<close>, and the file of the id.\<close>

lemma Put_result:
  assumes put: "Put c now cache_id resource meta max_age w = (Inr (), w')" and law: "pds_law c"
    and path: "path_join (cache_dir_path c) cache_id \<noteq> manifest_path c"
  obtains m m2 w2 where "pds_Read (pds c) (files w) = Inr m"
    "CleanUp c (now 0) (Some (int (length resource))) m w = (Inr m2, w2)" "distinct (map fst m2)"
    "pds_Read (pds c) (files w') = Inr (manifest_insert cache_id (new_entry cache_id meta (now 1) max_age) m2)"
    "file_at (files w') (path_join (cache_dir_path c) cache_id)
       = (case file_at (files w2) (path_join (cache_dir_path c) cache_id) of None \<Rightarrow> Some resource | Some b \<Rightarrow> Some b)"
proof -
  obtain m m2 w2 w3 where m: "pds_Read (pds c) (files w) = Inr m"
    and clean: "CleanUp c (now 0) (Some (int (length resource))) m w = (Inr m2, w2)"
    and wr: "WriteInternal c (manifest_insert cache_id (new_entry cache_id meta (now 1) max_age) m2) w2 = (Inr (), w3)"
    and put_file: "Put_file (path_join (cache_dir_path c) cache_id) resource w3 = (Inr (), w')"
    by (rule Put_steps [OF put])
  obtain P where "m2 = filter P m" using CleanUp_filter [OF clean] by blast
  then have d: "distinct (map fst m2)" using pds_lawD(5) [OF law m] by (simp add: distinct_map_filter)
  then have "distinct (map fst (manifest_insert cache_id (new_entry cache_id meta (now 1) max_age) m2))"
    by (auto simp: manifest_insert_def map_of_eq_None_iff)
  then have "pds_Read (pds c) (files w3) = Inr (manifest_insert cache_id (new_entry cache_id meta (now 1) max_age) m2)"
    "file_at (files w3) (path_join (cache_dir_path c) cache_id) = file_at (files w2) (path_join (cache_dir_path c) cache_id)"
    using WriteInternal_files [OF wr law] path by blast+
  then show ?thesis using that m clean d Put_file_result [OF put_file law path] by simp
qed


section \<open>A small cache\<close>

text \<open>A store that can hold one of a few manifests, by its number, and refuses every other one.\<close>

definition sample_entry :: CachedResource where
  "sample_entry = new_entry ''a'' [7] 0 100"

definition sample_manifest_path :: path where
  "sample_manifest_path = ''/base/fcp/cache_manifest.pb''"

definition number_of :: "CacheManifest \<Rightarrow> uint8 option" where
  "number_of m = (if m = [] then Some 0 else if m = [(''a'', sample_entry)] then Some 1 else None)"

fun manifest_of :: "bytes option \<Rightarrow> CacheManifest status_or" where
  "manifest_of (Some [n]) = (if n = 0 then Inr [] else if n = 1 then Inr [(''a'', sample_entry)] else Inl (Status INTERNAL ''corrupt''))"
| "manifest_of _ = Inl (Status INTERNAL ''corrupt'')"

definition sample_write :: "CacheManifest \<Rightarrow> file_system \<Rightarrow> unit status_or \<times> file_system" where
  "sample_write m fs = (case number_of m of
      None \<Rightarrow> (Inl (Status INTERNAL ''refused''), fs)
    | Some n \<Rightarrow> (Inr (), fs\<lparr>fs_files := (sample_manifest_path, [n]) # filter (\<lambda>f. fst f \<noteq> sample_manifest_path) (fs_files fs)\<rparr>))"

definition sample_store :: ProtoDataStore where
  "sample_store = \<lparr>pds_Read = (\<lambda>fs. manifest_of (file_at fs sample_manifest_path)), pds_Write = sample_write,
     GetFileSize = (\<lambda>p fs. case file_at fs p of None \<Rightarrow> Inl (Status NOT_FOUND p) | Some b \<Rightarrow> Inr (int (length b)))\<rparr>"

definition sample_cache :: FileBackedResourceCache where
  "sample_cache = \<lparr>pds = sample_store, cache_dir_path = ''/tmp/fcp/cache'', manifest_path = sample_manifest_path,
     max_cache_size_bytes = 8\<rparr>"

definition empty_world :: world where
  "empty_world = \<lparr>files = \<lparr>fs_files = [], create_directories_fails = (\<lambda>_. None), directory_fails = (\<lambda>_. None),
      exists_fails = (\<lambda>_ _. None), remove_fails = (\<lambda>_. None), file_size_fails = (\<lambda>_ _. None), read_fails = (\<lambda>_. False),
      create_fails = (\<lambda>_. False), write_stops = (\<lambda>_. None), no_such_file = \<lparr>error_value = 2, error_message = ''missing''\<rparr>,
      tie_rank = length\<rparr>,
    diags = []\<rparr>"

definition created_world :: world where
  "created_world = snd (Create_cache sample_store (\<lambda>_. 0) ''/base'' ''/tmp'' 8 empty_world)"

definition stored_world :: world where
  "stored_world = snd (Put sample_cache (\<lambda>_. 0) ''a'' [1, 2, 3] [7] 100 created_world)"

definition stored_again_world :: world where
  "stored_again_world = snd (Put sample_cache (\<lambda>_. 0) ''a'' [4, 5] [9] 100 stored_world)"

lemma manifest_of_keys: "manifest_of b = Inr m \<Longrightarrow> distinct (map fst m)"
  by (cases b rule: manifest_of.cases) (auto split: if_splits)

lemma sample_law: "pds_law sample_cache"
proof -
  have at: "file_at (fs\<lparr>fs_files := (sample_manifest_path, [n]) # filter (\<lambda>f. fst f \<noteq> sample_manifest_path) (fs_files fs)\<rparr>) p
      = (if p = sample_manifest_path then Some [n] else file_at fs p)" for fs n p
    using file_at_filter [where fs = fs and p = sample_manifest_path and q = p] by (auto simp: file_at_def)
  have same: "\<exists>l. fs = fs\<lparr>fs_files := l\<rparr>" for fs :: file_system by (intro exI [of _ "fs_files fs"]) simp
  show ?thesis
    unfolding pds_law_def sample_cache_def sample_store_def
    by (auto simp: sample_write_def at number_of_def same file_at_def [of "fs_files_update _ _"] dest: manifest_of_keys split: option.splits if_splits)
qed

lemma sample_created: "Create_cache sample_store (\<lambda>_. 0) ''/base'' ''/tmp'' 8 empty_world = (Inr sample_cache, created_world)"
proof -
  have init: "fst (Initialize_cache sample_cache (\<lambda>_. 0) empty_world) = Inr ()" by code_simp
  then obtain w' where "Initialize_cache sample_cache (\<lambda>_. 0) empty_world = (Inr (), w')"
    by (cases "Initialize_cache sample_cache (\<lambda>_. 0) empty_world") simp
  moreover have "is_absolute ''/tmp'' \<and> is_absolute ''/base'' \<and> path_join (path_join ''/tmp'' ''fcp'') ''cache'' = ''/tmp/fcp/cache''
      \<and> path_join (path_join ''/base'' ''fcp'') ''cache_manifest.pb'' = sample_manifest_path" by code_simp
  moreover have "create_directories_fails (files empty_world) p = None" for p by (simp add: empty_world_def)
  ultimately have "Create_cache sample_store (\<lambda>_. 0) ''/base'' ''/tmp'' 8 empty_world = (Inr sample_cache, w')"
    by (simp add: Create_cache_def Let_def sample_cache_def)
  then show ?thesis by (simp add: created_world_def)
qed

lemma sample_stored: "Put sample_cache (\<lambda>_. 0) ''a'' [1, 2, 3] [7] 100 created_world = (Inr (), stored_world)"
proof -
  have "fst (Put sample_cache (\<lambda>_. 0) ''a'' [1, 2, 3] [7] 100 created_world) = Inr ()" by code_simp
  then show ?thesis by (simp add: stored_world_def prod_eq_iff)
qed

lemma sample_cache_run: "cache_run sample_cache stored_world"
proof -
  have "dir_files dir (files empty_world) = {}" for dir
    by (simp add: dir_files_def file_at_def empty_world_def)
  then have "cache_run sample_cache created_world"
    by (intro cache_run.created [OF sample_created]) (simp_all add: dir_bytes_def empty_world_def)
  then show ?thesis by (rule cache_run.stored [OF _ _ sample_stored]) simp
qed

lemma sample_stored_again: "Put sample_cache (\<lambda>_. 0) ''a'' [4, 5] [9] 100 stored_world = (Inr (), stored_again_world)"
proof -
  have "fst (Put sample_cache (\<lambda>_. 0) ''a'' [4, 5] [9] 100 stored_world) = Inr ()" by code_simp
  then show ?thesis by (simp add: stored_again_world_def prod_eq_iff)
qed

section \<open>Properties\<close>

text \<open>
  C21. In every run of a cache that was created successfully, whatever is stored and looked up, whether or not an operation
  reports an error, and whichever calls on the file system (\<open>exists\<close> apart, which is taken to work) or on the manifest fail on the
  way, each on its own, the files of the cache directory never take more than the maximum size the cache was given.
\<close>

theorem cache_stays_bounded:
  assumes "cache_run c w" "pds_law c" "0 \<le> max_cache_size_bytes c" "max_cache_size_bytes c < 2 ^ 63"
  shows "dir_bytes (cache_dir_path c) (files w) \<le> nat (max_cache_size_bytes c)"
  using run_invariant [OF assms] by simp

text \<open>The stored entry has expired, but its file cannot be removed: the next call fails and stores nothing.\<close>

definition stuck_world :: world where
  "stuck_world = stored_world\<lparr>files := (files stored_world)\<lparr>remove_fails := (\<lambda>_. Some \<lparr>error_value = 13, error_message = ''denied''\<rparr>)\<rparr>\<rparr>"

theorem cache_stays_bounded_witness:
  "fst (Put sample_cache (\<lambda>_. 200) ''b'' [4, 5] [9] 100 stuck_world)
      = Inl (Status INTERNAL ''Failed to delete file. Error code: 13, message: denied'')
    \<and> file_at (files (snd (Put sample_cache (\<lambda>_. 200) ''b'' [4, 5] [9] 100 stuck_world))) ''/tmp/fcp/cache/a'' = Some [1, 2, 3]
    \<and> dir_bytes (cache_dir_path sample_cache) (files (snd (Put sample_cache (\<lambda>_. 200) ''b'' [4, 5] [9] 100 stuck_world)))
       \<le> nat (max_cache_size_bytes sample_cache)"
proof -
  let ?put = "Put sample_cache (\<lambda>_. 200) ''b'' [4, 5] [9] 100 stuck_world"
  have "\<forall>k p. exists_fails (files stored_world) k p = None"
    using run_invariant [OF sample_cache_run sample_law] by (simp add: sample_cache_def cache_ok_def)
  then have "cache_run sample_cache stuck_world"
    unfolding stuck_world_def by (intro cache_run.faults [OF sample_cache_run]) simp_all
  then have run: "cache_run sample_cache (snd ?put)"
    by (rule cache_run.stored [where r = "fst ?put" and resource = "[4, 5]" and now = "\<lambda>_. 200" and cache_id = "''b''" and meta = "[9]" and max_age = 100]) simp_all
  have "fst ?put = Inl (Status INTERNAL ''Failed to delete file. Error code: 13, message: denied'')"
      "file_at (files (snd ?put)) ''/tmp/fcp/cache/a'' = Some [1, 2, 3]"
    by code_simp+
  then show ?thesis using cache_stays_bounded [OF run sample_law] by (simp add: sample_cache_def)
qed



text \<open>
  Storing under an id whose entry survives the clean-up does not overwrite: \<open>Put\<close> reports success, and the
  id keeps its old entry and its old file, so a lookup returns the old resource and the old metadata.
\<close>

lemma Put_keeps_first:
  assumes put: "Put c now cache_id resource meta max_age w = (Inr (), w1)"
    and get: "Get c now' cache_id max_age' w1 = (r, w2)"
    and ok: "cache_ok c (files w)" "length resource < 2 ^ 64" and path: "path_join (cache_dir_path c) cache_id \<noteq> manifest_path c"
    and old: "file_at (files w) (path_join (cache_dir_path c) cache_id) = Some b" "pds_Read (pds c) (files w) = Inr m"
      "map_of m cache_id = Some e" "file_name e = cache_id"
    and survives: "fst (CleanUp c (now 0) (Some (int (length resource))) m w) = Inr m2" "cache_id \<in> fst ` set m2"
    and readable: "\<not> read_fails (files w) (path_join (cache_dir_path c) cache_id)"
    and stored: "RESOURCE_CACHE_MANIFEST_WRITE_FAILED \<notin> set (new_diags w1 w2)"
  shows "r = Inr (b, metadata e)"
proof -
  let ?p = "path_join (cache_dir_path c) cache_id"
  have law: "pds_law c" and abs: "is_absolute (cache_dir_path c)"
    and max: "0 \<le> max_cache_size_bytes c" "max_cache_size_bytes c < 2 ^ 63"
    and stat: "\<forall>k p. exists_fails (files w) k p = None" and small: "dir_bytes (cache_dir_path c) (files w) < 2 ^ 64"
    using ok by (simp_all add: cache_ok_def)
  have keys: "distinct (map fst m)" by (rule pds_lawD(5) [OF law old(2)])
  obtain w' where clean: "CleanUp c (now 0) (Some (int (length resource))) m w = (Inr m2, w')"
    and keys2: "distinct (map fst m2)"
    and read: "pds_Read (pds c) (files w1) = Inr (manifest_insert cache_id (new_entry cache_id meta (now 1) max_age) m2)"
    and at: "file_at (files w1) ?p = (case file_at (files w') ?p of None \<Rightarrow> Some resource | Some b \<Rightarrow> Some b)"
    using Put_result [OF put law path] old(2) survives(1) by (metis Inr_inject fst_conv)
  obtain limit where "max_cache_size_bytes c - (case Some (int (length resource)) of None \<Rightarrow> 0 | Some r \<Rightarrow> r) = int limit" "limit < 2 ^ 64"
    using reserved_limit [OF _ max ok(2)] put by (auto simp: Put_def split: if_splits)
  then have m2: "clean (cache_dir_path c) m2 (files w')" "set m2 \<subseteq> set m"
    using CleanUp_clean [OF clean abs keys stat small] by blast+
  obtain e' where e': "(cache_id, e') \<in> set m2" using survives(2) by auto
  then have "e' = e" using m2(2) old(3) keys by (metis in_mono map_of_is_SomeI option.inject)
  then have in2: "map_of m2 cache_id = Some e" using e' keys2 by simp
  have "?p \<in> dir_files (cache_dir_path c) (files w')"
    using e' \<open>e' = e\<close> m2(1) old(4) by (force simp: clean_def)
  then have "file_at (files w') ?p = Some b"
    using CleanUp_loses [OF clean] old(1) unfolding loses_def dir_files_def by (metis (mono_tags, lifting) mem_Collect_eq)
  moreover have "\<not> read_fails (files w1) ?p" using readable Put_faults [OF put law] by (auto simp: same_faults_def)
  ultimately show ?thesis using Get_hit [OF get read _ _ _ stored] at in2 by (simp add: manifest_insert_def)
qed

lemma Put_keeps_first_sample:
  "fst (Get sample_cache (\<lambda>_. 0) ''a'' None stored_again_world) = Inr ([1, 2, 3], metadata sample_entry)"
proof (rule Put_keeps_first [OF sample_stored_again surjective_pairing])
  show "cache_ok sample_cache (files stored_world)"
    using run_invariant [OF sample_cache_run sample_law] by (simp add: sample_cache_def)
  show "path_join (cache_dir_path sample_cache) ''a'' \<noteq> manifest_path sample_cache"
    "file_at (files stored_world) (path_join (cache_dir_path sample_cache) ''a'') = Some [1, 2, 3]"
    "pds_Read (pds sample_cache) (files stored_world) = Inr [(''a'', sample_entry)]"
    "map_of [(''a'', sample_entry)] ''a'' = Some sample_entry" "file_name sample_entry = ''a''"
    "fst (CleanUp sample_cache 0 (Some (int (length [4 :: uint8, 5]))) [(''a'', sample_entry)] stored_world) = Inr [(''a'', sample_entry)]"
    "''a'' \<in> fst ` set [(''a'', sample_entry)]"
    "\<not> read_fails (files stored_world) (path_join (cache_dir_path sample_cache) ''a'')"
    "RESOURCE_CACHE_MANIFEST_WRITE_FAILED \<notin> set (new_diags stored_again_world (snd (Get sample_cache (\<lambda>_. 0) ''a'' None stored_again_world)))"
    by code_simp+
qed simp

end
