(* ===== verification/Op_Stats.thy ===== *)
theory Op_Stats
  imports Time_Util
begin

text \<open>
  The record of past runs (\<open>fcp/protos/opstats.proto\<close>) and the questions that are asked about it
  (\<open>fcp/client/opstats/opstats_utils.cc\<close>). A run is stored either flat, the legacy form, or as a list of phases; the
  questions convert the second form to the first, one entry per task. 64-bit counts of bytes and examples are integers.
  What the sources use of the protobuf library is the record \<open>proto_lib\<close>.
\<close>

section \<open>Data\<close>

type_synonym EventKind = int

abbreviation EVENT_KIND_RESULT_UPLOAD_STARTED :: EventKind where
  "EVENT_KIND_RESULT_UPLOAD_STARTED \<equiv> 38"

abbreviation EVENT_KIND_RESULT_UPLOAD_SERVER_ABORTED :: EventKind where
  "EVENT_KIND_RESULT_UPLOAD_SERVER_ABORTED \<equiv> 41"

record Event =
  event_type :: EventKind
  timestamp :: Timestamp

record DatasetStats =
  num_examples_read :: int
  num_bytes_read :: int
  first_access_timestamp :: "Timestamp option"

type_synonym dataset_map = "(string \<times> DatasetStats) list"

datatype Phase = UNSPECIFIED | ELIGIBILITY_EVAL_CHECKIN | ELIGIBILITY_COMPUTATION | MULTIPLE_TASK_ASSIGNMENTS
  | CHECKIN | COMPUTATION | UPLOAD

record PhaseStats =
  phase :: Phase
  phase_task_name :: string
  phase_events :: "Event list"
  phase_dataset_stats :: dataset_map
  phase_error_message :: string
  bytes_downloaded :: int
  bytes_uploaded :: int
  phase_network_duration :: Duration

definition new_PhaseStats :: PhaseStats where
  "new_PhaseStats = \<lparr>phase = UNSPECIFIED, phase_task_name = [], phase_events = [], phase_dataset_stats = [],
     phase_error_message = [], bytes_downloaded = 0, bytes_uploaded = 0,
     phase_network_duration = \<lparr>duration_seconds = 0, duration_nanos = 0\<rparr>\<rparr>"

record RetryWindow =
  retry_token :: string
  delay_min :: "Duration option"
  delay_max :: "Duration option"

definition new_RetryWindow :: RetryWindow where
  "new_RetryWindow = \<lparr>retry_token = [], delay_min = None, delay_max = None\<rparr>"

record OperationalStats =
  population_name :: string
  session_name :: string
  task_name :: string
  events :: "Event list"
  dataset_stats :: dataset_map
  stats_error_message :: string
  retry_window :: "RetryWindow option"
  chunking_layer_bytes_downloaded :: int
  chunking_layer_bytes_uploaded :: int
  network_duration :: "Duration option"
  phase_stats :: "PhaseStats list"
  min_sep_policy_index :: "int option"

definition new_OperationalStats :: OperationalStats where
  "new_OperationalStats = \<lparr>population_name = [], session_name = [], task_name = [], events = [], dataset_stats = [],
     stats_error_message = [], retry_window = None, chunking_layer_bytes_downloaded = 0, chunking_layer_bytes_uploaded = 0,
     network_duration = None, phase_stats = [], min_sep_policy_index = None\<rparr>"

record OpStatsSequence =
  opstats :: "OperationalStats list"
  earliest_trustworthy_time :: "Timestamp option"

text \<open>Conversions of \<open>google::protobuf::util::TimeUtil\<close>, its current time excepted, and the sizes of serialised messages.\<close>

record proto_lib =
  TimestampToSeconds :: "Timestamp \<Rightarrow> int"
  TimestampToMilliseconds :: "Timestamp \<Rightarrow> int"
  MillisecondsToTimestamp :: "int \<Rightarrow> Timestamp"
  DurationToMilliseconds :: "Duration \<Rightarrow> int"
  MillisecondsToDuration :: "int \<Rightarrow> Duration"
  stats_ByteSizeLong :: "OperationalStats \<Rightarrow> int"
  sequence_ByteSizeLong :: "OpStatsSequence \<Rightarrow> int"

text \<open>The value of a message field that is not set.\<close>

definition timestamp_or_zero :: "Timestamp option \<Rightarrow> Timestamp" where
  "timestamp_or_zero t = (case t of None \<Rightarrow> \<lparr>seconds = 0, nanos = 0\<rparr> | Some t \<Rightarrow> t)"

definition timestamp_less :: "Timestamp \<Rightarrow> Timestamp \<Rightarrow> bool" where
  "timestamp_less a b \<longleftrightarrow> seconds a < seconds b \<or> seconds a = seconds b \<and> nanos a < nanos b"

section \<open>One entry per task\<close>

record per_task_loop =
  per_task_stats :: "PhaseStats list list"
  pre_task_assignment_stats :: "PhaseStats list"
  latest_task_assignment_stats :: PhaseStats
  pending_stats :: "PhaseStats list"

definition per_task_step :: "PhaseStats \<Rightarrow> per_task_loop \<Rightarrow> per_task_loop" where
  "per_task_step phase_stat s =
     (case phase phase_stat of
        ELIGIBILITY_EVAL_CHECKIN \<Rightarrow> s\<lparr>pre_task_assignment_stats := pre_task_assignment_stats s @ [phase_stat]\<rparr>
      | ELIGIBILITY_COMPUTATION \<Rightarrow> s\<lparr>pre_task_assignment_stats := pre_task_assignment_stats s @ [phase_stat]\<rparr>
      | MULTIPLE_TASK_ASSIGNMENTS \<Rightarrow> s\<lparr>latest_task_assignment_stats := phase_stat\<rparr>
      | CHECKIN \<Rightarrow> s\<lparr>latest_task_assignment_stats := phase_stat\<rparr>
      | COMPUTATION \<Rightarrow>
          s\<lparr>per_task_stats := per_task_stats s @ (if pending_stats s = [] then [] else [pending_stats s]),
            pending_stats := pre_task_assignment_stats s @ [latest_task_assignment_stats s, phase_stat]\<rparr>
      | UPLOAD \<Rightarrow> s\<lparr>pending_stats := pending_stats s @ [phase_stat]\<rparr>
      | UNSPECIFIED \<Rightarrow> s)"

definition GeneratePerTaskStats :: "OperationalStats \<Rightarrow> PhaseStats list list" where
  "GeneratePerTaskStats op_stats =
     (let s = fold per_task_step (phase_stats op_stats)
            \<lparr>per_task_stats = [], pre_task_assignment_stats = [], latest_task_assignment_stats = new_PhaseStats, pending_stats = []\<rparr>;
          stats = per_task_stats s @ (if pending_stats s = [] then [] else [pending_stats s])
      in if stats = []
         then [pre_task_assignment_stats s
               @ (if phase_events (latest_task_assignment_stats s) = [] then [] else [latest_task_assignment_stats s])]
         else stats)"

definition add_dataset :: "string \<times> DatasetStats \<Rightarrow> dataset_map \<Rightarrow> dataset_map" where
  "add_dataset entry m =
     (let (collection_uri, stats) = entry;
          existing = (case map_of m collection_uri of
             None \<Rightarrow> \<lparr>num_examples_read = 0, num_bytes_read = 0, first_access_timestamp = None\<rparr> | Some d \<Rightarrow> d);
          existing = existing\<lparr>num_bytes_read := num_bytes_read existing + num_bytes_read stats,
            num_examples_read := num_examples_read existing + num_examples_read stats\<rparr>;
          existing =
            (if first_access_timestamp existing = None
               \<or> timestamp_less (timestamp_or_zero (first_access_timestamp stats)) (timestamp_or_zero (first_access_timestamp existing))
             then existing\<lparr>first_access_timestamp := Some (timestamp_or_zero (first_access_timestamp stats))\<rparr> else existing)
      in (if map_of m collection_uri = None then m @ [(collection_uri, existing)]
          else map (\<lambda>(u, d). (u, if u = collection_uri then existing else d)) m))"

definition legacy_step :: "PhaseStats \<Rightarrow> OperationalStats \<Rightarrow> OperationalStats" where
  "legacy_step p s =
     (let s = (if phase_task_name p = [] then s else s\<lparr>task_name := phase_task_name p\<rparr>);
          s = (if phase_error_message p = [] then s else s\<lparr>stats_error_message := phase_error_message p\<rparr>)
      in s\<lparr>dataset_stats := fold add_dataset (phase_dataset_stats p) (dataset_stats s), events := events s @ phase_events p\<rparr>)"

definition CreateLegacyOperationalStats ::
  "proto_lib \<Rightarrow> string \<Rightarrow> string \<Rightarrow> RetryWindow \<Rightarrow> PhaseStats list \<Rightarrow> OperationalStats" where
  "CreateLegacyOperationalStats lib population session window per_task =
     (let s = new_OperationalStats\<lparr>population_name := population, session_name := session,
            retry_window := (if delay_max window \<noteq> None \<or> delay_min window \<noteq> None then Some window else None)\<rparr>;
          s = fold legacy_step per_task s;
          network_duration_millis = sum_list (map (\<lambda>p. DurationToMilliseconds lib (phase_network_duration p)) per_task)
      in s\<lparr>chunking_layer_bytes_downloaded := sum_list (map bytes_downloaded per_task),
           chunking_layer_bytes_uploaded := sum_list (map bytes_uploaded per_task),
           network_duration := (if network_duration_millis \<noteq> 0 then Some (MillisecondsToDuration lib network_duration_millis) else None)\<rparr>)"

definition legacy_of_stats :: "proto_lib \<Rightarrow> OperationalStats \<Rightarrow> OperationalStats list" where
  "legacy_of_stats lib op_stats =
     (if phase_stats op_stats = [] then [op_stats]
      else map (CreateLegacyOperationalStats lib (population_name op_stats) (session_name op_stats)
                  (case retry_window op_stats of None \<Rightarrow> new_RetryWindow | Some w \<Rightarrow> w)) (GeneratePerTaskStats op_stats))"

definition ConvertToLegacyOperationalStats :: "proto_lib \<Rightarrow> OpStatsSequence \<Rightarrow> OperationalStats list" where
  "ConvertToLegacyOperationalStats lib data = concat (map (legacy_of_stats lib) (opstats data))"

section \<open>Past contributions\<close>

definition successful_upload :: "OperationalStats \<Rightarrow> bool" where
  "successful_upload entry \<longleftrightarrow>
     EVENT_KIND_RESULT_UPLOAD_STARTED \<in> event_type ` set (events entry)
     \<and> EVENT_KIND_RESULT_UPLOAD_SERVER_ABORTED \<notin> event_type ` set (events entry)"

fun last_successful :: "(OperationalStats \<Rightarrow> bool) \<Rightarrow> OperationalStats list \<Rightarrow> OperationalStats option status_or" where
  "last_successful predicate [] = Inr None"
| "last_successful predicate (entry # older) =
     (if phase_stats entry \<noteq> [] then Inl CheckFailed
      else if predicate entry \<and> successful_upload entry then Inr (Some entry)
      else last_successful predicate older)"

definition GetLastSuccessfulContributionForPredicate ::
  "OperationalStats list \<Rightarrow> (OperationalStats \<Rightarrow> bool) \<Rightarrow> OperationalStats option status_or" where
  "GetLastSuccessfulContributionForPredicate data predicate = last_successful predicate (rev data)"

definition GetContributionTimeForLegacyOpStats :: "OperationalStats \<Rightarrow> Timestamp option" where
  "GetContributionTimeForLegacyOpStats entry =
     map_option timestamp (find (\<lambda>e. event_type e = EVENT_KIND_RESULT_UPLOAD_STARTED) (events entry))"

definition GetCollectionFirstAccessTimeFromLegacyOpstats :: "OperationalStats \<Rightarrow> (string \<times> Timestamp) list" where
  "GetCollectionFirstAccessTimeFromLegacyOpstats entry =
     map (\<lambda>(uri, stats). (uri, timestamp_or_zero (first_access_timestamp stats))) (dataset_stats entry)"

text \<open>In milliseconds; \<open>None\<close> is the infinite past.\<close>

definition GetLastUpdatedTimeFromLegacyOpStats :: "proto_lib \<Rightarrow> OperationalStats \<Rightarrow> int option" where
  "GetLastUpdatedTimeFromLegacyOpStats lib op_stats =
     (if events op_stats = [] then None else Some (TimestampToMilliseconds lib (timestamp (last (events op_stats)))))"

definition GetLastSuccessfulContribution :: "proto_lib \<Rightarrow> OpStatsSequence \<Rightarrow> string \<Rightarrow> OperationalStats option status_or" where
  "GetLastSuccessfulContribution lib data name =
     GetLastSuccessfulContributionForPredicate (ConvertToLegacyOperationalStats lib data) (\<lambda>entry. task_name entry = name)"

definition GetPreviousCollectionFirstAccessTimeMap ::
  "proto_lib \<Rightarrow> OpStatsSequence \<Rightarrow> string \<Rightarrow> (string \<times> Timestamp) list option status_or" where
  "GetPreviousCollectionFirstAccessTimeMap lib data name =
     and_then (GetLastSuccessfulContribution lib data name) (\<lambda>entry. Inr (map_option GetCollectionFirstAccessTimeFromLegacyOpstats entry))"

definition contribution_time :: "OperationalStats option \<Rightarrow> Timestamp option" where
  "contribution_time entry = (case entry of None \<Rightarrow> None | Some entry \<Rightarrow> GetContributionTimeForLegacyOpStats entry)"

definition GetLastSuccessfulContributionTime :: "proto_lib \<Rightarrow> OpStatsSequence \<Rightarrow> string \<Rightarrow> Timestamp option status_or" where
  "GetLastSuccessfulContributionTime lib data name =
     and_then (GetLastSuccessfulContribution lib data name) (\<lambda>entry. Inr (contribution_time entry))"

definition GetLastSuccessfulContributionTimeForPattern ::
  "proto_lib \<Rightarrow> OpStatsSequence \<Rightarrow> (string \<Rightarrow> bool) \<Rightarrow> Timestamp option status_or" where
  "GetLastSuccessfulContributionTimeForPattern lib data full_match =
     and_then (GetLastSuccessfulContributionForPredicate (ConvertToLegacyOperationalStats lib data)
                 (\<lambda>entry. full_match (task_name entry))) (\<lambda>entry. Inr (contribution_time entry))"

definition GetOperationalStatsForTimeRange :: "proto_lib \<Rightarrow> OpStatsSequence \<Rightarrow> int option \<Rightarrow> int option \<Rightarrow> OperationalStats list" where
  "GetOperationalStatsForTimeRange lib data lower_bound_time upper_bound_time =
     filter (\<lambda>s. let t = GetLastUpdatedTimeFromLegacyOpStats lib s
                 in (case lower_bound_time of None \<Rightarrow> True | Some l \<Rightarrow> (case t of None \<Rightarrow> False | Some t \<Rightarrow> l \<le> t))
                  \<and> (case upper_bound_time of None \<Rightarrow> True | Some u \<Rightarrow> (case t of None \<Rightarrow> True | Some t \<Rightarrow> t \<le> u)))
       (rev (ConvertToLegacyOperationalStats lib data))"

definition GetLastSuccessfulContributionMinSepPolicyIndex :: "proto_lib \<Rightarrow> OpStatsSequence \<Rightarrow> string \<Rightarrow> int option status_or" where
  "GetLastSuccessfulContributionMinSepPolicyIndex lib data name =
     and_then (GetLastSuccessfulContribution lib data name) (\<lambda>entry.
       Inr (case entry of None \<Rightarrow> None | Some entry \<Rightarrow> min_sep_policy_index entry))"

section \<open>What the questions answer\<close>

lemma legacy_step_keeps [simp]:
  "phase_stats (legacy_step p s) = phase_stats s" "min_sep_policy_index (legacy_step p s) = min_sep_policy_index s"
  by (simp_all add: legacy_step_def Let_def)

lemma legacy_fold_keeps [simp]:
  "phase_stats (fold legacy_step ps s) = phase_stats s" "min_sep_policy_index (fold legacy_step ps s) = min_sep_policy_index s"
  by (induction ps arbitrary: s) simp_all

lemma legacy_entry [simp]:
  "phase_stats (CreateLegacyOperationalStats lib population session window per_task) = []"
  "min_sep_policy_index (CreateLegacyOperationalStats lib population session window per_task) = None"
  by (simp_all add: CreateLegacyOperationalStats_def Let_def new_OperationalStats_def)

lemma converted_legacy: "entry \<in> set (ConvertToLegacyOperationalStats lib data) \<Longrightarrow> phase_stats entry = []"
  by (auto simp: ConvertToLegacyOperationalStats_def legacy_of_stats_def split: if_splits)

lemma converted_index_lost:
  assumes "entry \<in> set (ConvertToLegacyOperationalStats lib data)" "\<forall>s\<in>set (opstats data). phase_stats s \<noteq> []"
  shows "min_sep_policy_index entry = None"
  using assms by (auto simp: ConvertToLegacyOperationalStats_def legacy_of_stats_def)

lemma last_successful_finds:
  assumes "\<forall>entry\<in>set entries. phase_stats entry = []"
  shows "last_successful predicate entries = Inr (find (\<lambda>entry. predicate entry \<and> successful_upload entry) entries)"
  using assms by (induction entries) auto

text \<open>The check on the form of the entries never fails, and the answer is the last entry that satisfies the predicate.\<close>

lemma last_contribution:
  "GetLastSuccessfulContributionForPredicate (ConvertToLegacyOperationalStats lib data) predicate
    = Inr (find (\<lambda>entry. predicate entry \<and> successful_upload entry) (rev (ConvertToLegacyOperationalStats lib data)))"
  unfolding GetLastSuccessfulContributionForPredicate_def by (rule last_successful_finds) (auto dest: converted_legacy)

text \<open>The contributions that a sequence of runs records for the tasks of a predicate.\<close>

definition contributions :: "proto_lib \<Rightarrow> OpStatsSequence \<Rightarrow> (string \<Rightarrow> bool) \<Rightarrow> OperationalStats list" where
  "contributions lib data tasks =
     filter (\<lambda>entry. tasks (task_name entry) \<and> successful_upload entry) (ConvertToLegacyOperationalStats lib data)"

text \<open>The time of a contribution is that of the first start of an upload.\<close>

definition upload_time :: "OperationalStats \<Rightarrow> int" where
  "upload_time entry = ConvertProtoToAbslTime (the (GetContributionTimeForLegacyOpStats entry))"

lemma find_rev_filter: "find P (rev xs) = (if filter P xs = [] then None else Some (last (filter P xs)))"
  by (induction xs rule: rev_induct) auto

lemma contribution_time_some:
  assumes "successful_upload entry"
  shows "GetContributionTimeForLegacyOpStats entry \<noteq> None"
proof -
  obtain e where "e \<in> set (events entry)" "event_type e = EVENT_KIND_RESULT_UPLOAD_STARTED"
    using assms by (auto simp: successful_upload_def)
  then show ?thesis by (auto simp: GetContributionTimeForLegacyOpStats_def find_None_iff)
qed

lemma last_contribution_time:
  "and_then (GetLastSuccessfulContributionForPredicate (ConvertToLegacyOperationalStats lib data) (\<lambda>entry. tasks (task_name entry)))
     (\<lambda>entry. Inr (contribution_time entry))
    = Inr (if contributions lib data tasks = [] then None
           else GetContributionTimeForLegacyOpStats (last (contributions lib data tasks)))"
  by (simp add: last_contribution find_rev_filter contributions_def contribution_time_def and_then_def)

lemma GetLastSuccessfulContributionTime_iff:
  "GetLastSuccessfulContributionTime lib data name
    = Inr (if contributions lib data (\<lambda>t. t = name) = [] then None
           else GetContributionTimeForLegacyOpStats (last (contributions lib data (\<lambda>t. t = name))))"
  unfolding GetLastSuccessfulContributionTime_def GetLastSuccessfulContribution_def by (rule last_contribution_time)

lemma GetLastSuccessfulContributionTimeForPattern_iff:
  "GetLastSuccessfulContributionTimeForPattern lib data matches
    = Inr (if contributions lib data matches = [] then None
           else GetContributionTimeForLegacyOpStats (last (contributions lib data matches)))"
  unfolding GetLastSuccessfulContributionTimeForPattern_def by (rule last_contribution_time)

lemma MinSepPolicyIndex_iff:
  "GetLastSuccessfulContributionMinSepPolicyIndex lib data name
    = Inr (if contributions lib data (\<lambda>t. t = name) = [] then None
           else min_sep_policy_index (last (contributions lib data (\<lambda>t. t = name))))"
  by (simp add: GetLastSuccessfulContributionMinSepPolicyIndex_def GetLastSuccessfulContribution_def last_contribution
      find_rev_filter contributions_def and_then_def)

end
