(* ===== verification/Op_Stats_Db.thy ===== *)
theory Op_Stats_Db
  imports Op_Stats Resource_Cache
begin

text \<open>
  The database of past runs (\<open>fcp/client/opstats/pds_backed_opstats_db.cc\<close>) and the logger that writes the entry of the
  current run (\<open>fcp/client/opstats/opstats_logger_impl.cc\<close>). The protostore library keeps the data in a state of type
  \<open>'s\<close>; diagnostic codes and histograms are left out. A mutex is the atomicity of a call; \<open>now k\<close> is the \<open>k\<close>-th reading of the clock.
\<close>

section \<open>The database\<close>

record 's stats_store =
  store_Read :: "'s \<Rightarrow> OpStatsSequence status_or"
  store_Write :: "OpStatsSequence \<Rightarrow> 's \<Rightarrow> unit status_or \<times> 's"

record 's PdsBackedOpStatsDb =
  db_store :: "'s stats_store"
  db_lib :: proto_lib
  ttl :: int
  max_size_bytes :: int

text \<open>The files in use, and the locks of other processes; a descriptor is released with its path.\<close>

record file_locks =
  files_in_use :: "string list"
  open_fails :: "string \<Rightarrow> bool"
  flock_fails :: "string \<Rightarrow> bool"

definition AcquireFileLock :: "string \<Rightarrow> file_locks \<Rightarrow> unit status_or \<times> file_locks" where
  "AcquireFileLock db_path locks =
     (if db_path \<in> set (files_in_use locks)
      then (Inl (Status INTERNAL ''Another instance is already using the underlying database file.''), locks)
      else if open_fails locks db_path then (Inl (Status INTERNAL (''Failed to open file: '' @ db_path)), locks)
      else if flock_fails locks db_path
      then (Inl (Status INTERNAL ''Failed to acquire file lock on the underlying database file.''), locks)
      else (Inr (), locks\<lparr>files_in_use := db_path # files_in_use locks\<rparr>))"

definition ReleaseFileLock :: "string \<Rightarrow> file_locks \<Rightarrow> file_locks" where
  "ReleaseFileLock db_path locks = locks\<lparr>files_in_use := filter (\<lambda>p. p \<noteq> db_path) (files_in_use locks)\<rparr>"

definition CreateEmptyData :: "int \<Rightarrow> OpStatsSequence" where
  "CreateEmptyData now = \<lparr>opstats = [], earliest_trustworthy_time = Some (ConvertAbslToProtoTimestamp now)\<rparr>"

definition db_ReadInternal :: "'s PdsBackedOpStatsDb \<Rightarrow> 's \<Rightarrow> OpStatsSequence status_or" where
  "db_ReadInternal db s =
     (case store_Read (db_store db) s of
        Inr data \<Rightarrow> Inr data
      | Inl e \<Rightarrow> Inl (Status INTERNAL (''Failed to read from database, with error message: '' @ status_message e)))"

text \<open>The message ends with the number of the status code, which is left out here.\<close>

definition ResetInternal :: "'s PdsBackedOpStatsDb \<Rightarrow> int \<Rightarrow> 's \<Rightarrow> unit status_or \<times> 's" where
  "ResetInternal db now s =
     (case store_Write (db_store db) (CreateEmptyData now) s of
        (Inr _, s) \<Rightarrow> (Inr (), s)
      | (Inl e, s) \<Rightarrow> (Inl (Status INTERNAL ''Failed to reset the database, with error message: ''), s))"

text \<open>A time in nanoseconds; \<open>None\<close> is the infinite past.\<close>

definition GetLastUpdateTime :: "proto_lib \<Rightarrow> OperationalStats \<Rightarrow> int option" where
  "GetLastUpdateTime lib s =
     (case find (\<lambda>p. phase_events p \<noteq> []) (rev (phase_stats s)) of
        Some p \<Rightarrow> Some (TimestampToSeconds lib (timestamp (last (phase_events p))) * 1000000000)
      | None \<Rightarrow> if events s = [] then None
                else Some (TimestampToSeconds lib (timestamp (last (events s))) * 1000000000))"

definition GetEarliestTrustWorthyTime :: "int \<Rightarrow> OperationalStats list \<Rightarrow> Timestamp" where
  "GetEarliestTrustWorthyTime now op_stats =
     (case find (\<lambda>s. events s \<noteq> []) op_stats of
        None \<Rightarrow> ConvertAbslToProtoTimestamp now
      | Some s \<Rightarrow> timestamp (hd (events s)))"

definition RemoveOutdatedData :: "proto_lib \<Rightarrow> int \<Rightarrow> int \<Rightarrow> OpStatsSequence \<Rightarrow> OpStatsSequence" where
  "RemoveOutdatedData lib time_to_live now data =
     (let earliest_accepted_time = now - time_to_live;
          left = filter (\<lambda>s. \<not> (case GetLastUpdateTime lib s of None \<Rightarrow> True | Some t \<Rightarrow> t < earliest_accepted_time)) (opstats data);
          original_num_entries = length (opstats data);
          data = data\<lparr>opstats := left\<rparr>
      in if length left < original_num_entries
         then data\<lparr>earliest_trustworthy_time := Some (MillisecondsToTimestamp lib (earliest_accepted_time div 1000000))\<rparr>
         else data)"

fun prune_entries :: "proto_lib \<Rightarrow> int \<Rightarrow> int \<Rightarrow> OperationalStats list \<Rightarrow> OperationalStats list" where
  "prune_entries lib max_size current_size [] = []"
| "prune_entries lib max_size current_size (s # op_stats) =
     (if current_size > max_size then prune_entries lib max_size (current_size - stats_ByteSizeLong lib s) op_stats
      else s # op_stats)"

definition PruneOldDataUntilBelowSizeLimit :: "proto_lib \<Rightarrow> int \<Rightarrow> int \<Rightarrow> OpStatsSequence \<Rightarrow> OpStatsSequence" where
  "PruneOldDataUntilBelowSizeLimit lib max_size now data =
     (let current_size = sequence_ByteSizeLong lib data in
      if current_size > max_size
      then let left = prune_entries lib max_size current_size (opstats data)
           in data\<lparr>opstats := left, earliest_trustworthy_time := Some (GetEarliestTrustWorthyTime now left)\<rparr>
      else data)"

definition db_Read :: "'s PdsBackedOpStatsDb \<Rightarrow> int \<Rightarrow> 's \<Rightarrow> OpStatsSequence status_or \<times> 's" where
  "db_Read db now s =
     (case db_ReadInternal db s of
        Inr data \<Rightarrow> (Inr data, s)
      | Inl e \<Rightarrow> (Inl e, snd (ResetInternal db now s)))"

text \<open>\<open>GetFileSize\<close> of protostore is a parameter.\<close>

definition Create_db ::
  "'s PdsBackedOpStatsDb \<Rightarrow> string \<Rightarrow> (path \<Rightarrow> os_error option) \<Rightarrow> ('s \<Rightarrow> int status_or) \<Rightarrow> int \<Rightarrow> file_locks \<times> 's
    \<Rightarrow> unit status_or \<times> file_locks \<times> 's" where
  "Create_db db base_dir create_directories get_size now state =
     (let (locks, s) = state in
      if \<not> is_absolute base_dir
      then (Inl (Status INVALID_ARGUMENT (''The provided path: '' @ base_dir @ '' is invalid. The path must start with \"/\"'')), locks, s)
      else
        let dir = path_join base_dir ''fcp/opstats'' in
        if create_directories dir \<noteq> None then (Inl (Status INTERNAL (''Failed to create directory '' @ dir)), locks, s)
        else
          let db_path = path_join dir ''opstats.pb'' in
          case AcquireFileLock db_path locks of
            (Inl e, locks) \<Rightarrow> (Inl e, locks, s)
          | (Inr _, locks) \<Rightarrow>
              (case get_size s of
                 Inl e \<Rightarrow> (Inl e, ReleaseFileLock db_path locks, s)
               | Inr file_size \<Rightarrow>
                   if file_size = 0
                   then (case store_Write (db_store db) (CreateEmptyData now) s of
                           (Inl e, s) \<Rightarrow> (Inl e, ReleaseFileLock db_path locks, s)
                         | (Inr _, s) \<Rightarrow> (Inr (), locks, s))
                   else (Inr (), locks, s)))"

text \<open>The end of \<open>Transform\<close>, once there is data to change.\<close>

definition transform_data ::
  "'s PdsBackedOpStatsDb \<Rightarrow> (nat \<Rightarrow> int) \<Rightarrow> (OpStatsSequence \<Rightarrow> OpStatsSequence) \<Rightarrow> OpStatsSequence \<Rightarrow> OpStatsSequence" where
  "transform_data db now func data =
     (let data = PruneOldDataUntilBelowSizeLimit (db_lib db) (max_size_bytes db) (now 2) (func data)
      in if earliest_trustworthy_time data = None
         then data\<lparr>earliest_trustworthy_time := Some (GetEarliestTrustWorthyTime (now 3) (opstats data))\<rparr> else data)"

definition Transform ::
  "'s PdsBackedOpStatsDb \<Rightarrow> (nat \<Rightarrow> int) \<Rightarrow> (OpStatsSequence \<Rightarrow> OpStatsSequence) \<Rightarrow> 's \<Rightarrow> unit status_or \<times> 's" where
  "Transform db now func s =
     (case db_ReadInternal db s of
        Inr data \<Rightarrow> store_Write (db_store db) (transform_data db now func (RemoveOutdatedData (db_lib db) (ttl db) (now 1) data)) s
      | Inl _ \<Rightarrow>
          (case ResetInternal db (now 0) s of
             (Inl e, s) \<Rightarrow> (Inl e, s)
           | (Inr _, s) \<Rightarrow> store_Write (db_store db) (transform_data db now func \<lparr>opstats = [], earliest_trustworthy_time = None\<rparr>) s))"

section \<open>The logger\<close>

record NetworkStats =
  net_bytes_downloaded :: int
  net_bytes_uploaded :: int
  net_duration :: int

record OpStatsLoggerImpl =
  stats :: OperationalStats
  current_phase_stats :: PhaseStats
  use_phase_stats :: bool
  already_committed :: bool
  collection_first_access_time_map :: "string \<rightharpoonup> int"
  accumulated_network_stats :: NetworkStats

definition new_OpStatsLoggerImpl :: "bool \<Rightarrow> string \<Rightarrow> string \<Rightarrow> OpStatsLoggerImpl" where
  "new_OpStatsLoggerImpl enable_phase_stats_logging session population =
     \<lparr>stats = new_OperationalStats\<lparr>session_name := session, population_name := population\<rparr>, current_phase_stats = new_PhaseStats,
      use_phase_stats = enable_phase_stats_logging, already_committed = False, collection_first_access_time_map = Map.empty,
      accumulated_network_stats = \<lparr>net_bytes_downloaded = 0, net_bytes_uploaded = 0, net_duration = 0\<rparr>\<rparr>"

definition in_phase :: "OpStatsLoggerImpl \<Rightarrow> bool" where
  "in_phase l \<longleftrightarrow> use_phase_stats l \<and> phase (current_phase_stats l) \<noteq> UNSPECIFIED"

definition AddNewEventToStats :: "Timestamp \<Rightarrow> EventKind \<Rightarrow> OpStatsLoggerImpl \<Rightarrow> OpStatsLoggerImpl" where
  "AddNewEventToStats now kind l = l\<lparr>stats := (stats l)\<lparr>events := events (stats l) @ [\<lparr>event_type = kind, timestamp = now\<rparr>]\<rparr>\<rparr>"

definition AddNewEventToCurrentPhaseStats :: "Timestamp \<Rightarrow> EventKind \<Rightarrow> OpStatsLoggerImpl \<Rightarrow> OpStatsLoggerImpl" where
  "AddNewEventToCurrentPhaseStats now kind l = l\<lparr>current_phase_stats := (current_phase_stats l)\<lparr>phase_events :=
     phase_events (current_phase_stats l) @ [\<lparr>event_type = kind, timestamp = now\<rparr>]\<rparr>\<rparr>"

definition AddEvent :: "Timestamp \<Rightarrow> EventKind \<Rightarrow> OpStatsLoggerImpl \<Rightarrow> OpStatsLoggerImpl" where
  "AddEvent now kind l = (if in_phase l then AddNewEventToCurrentPhaseStats now kind l else AddNewEventToStats now kind l)"

definition AddEventAndSetTaskName :: "Timestamp \<Rightarrow> string \<Rightarrow> EventKind \<Rightarrow> OpStatsLoggerImpl \<Rightarrow> OpStatsLoggerImpl" where
  "AddEventAndSetTaskName now name kind l =
     (if in_phase l
      then let l = AddNewEventToCurrentPhaseStats now kind l in l\<lparr>current_phase_stats := (current_phase_stats l)\<lparr>phase_task_name := name\<rparr>\<rparr>
      else let l = AddNewEventToStats now kind l in l\<lparr>stats := (stats l)\<lparr>task_name := name\<rparr>\<rparr>)"

definition AddEventWithErrorMessage :: "Timestamp \<Rightarrow> EventKind \<Rightarrow> string \<Rightarrow> OpStatsLoggerImpl \<Rightarrow> OpStatsLoggerImpl" where
  "AddEventWithErrorMessage now kind message l =
     (if in_phase l
      then let l = AddNewEventToCurrentPhaseStats now kind l
           in (if phase_error_message (current_phase_stats l) = []
               then l\<lparr>current_phase_stats := (current_phase_stats l)\<lparr>phase_error_message := message\<rparr>\<rparr> else l)
      else let l = AddNewEventToStats now kind l
           in (if stats_error_message (stats l) = [] then l\<lparr>stats := (stats l)\<lparr>stats_error_message := message\<rparr>\<rparr> else l))"

definition SetMinSepPolicyIndex :: "int \<Rightarrow> OpStatsLoggerImpl \<Rightarrow> OpStatsLoggerImpl" where
  "SetMinSepPolicyIndex index l = l\<lparr>stats := (stats l)\<lparr>min_sep_policy_index := Some index\<rparr>\<rparr>"

definition RecordCollectionFirstAccessTime :: "string \<Rightarrow> int \<Rightarrow> OpStatsLoggerImpl \<Rightarrow> OpStatsLoggerImpl" where
  "RecordCollectionFirstAccessTime uri first_access_time l =
     (if collection_first_access_time_map l uri = None
      then l\<lparr>collection_first_access_time_map := (collection_first_access_time_map l)(uri \<mapsto> first_access_time)\<rparr> else l)"

definition update_dataset :: "string \<Rightarrow> int \<Rightarrow> int \<Rightarrow> int option \<Rightarrow> dataset_map \<Rightarrow> dataset_map" where
  "update_dataset uri example_count example_size first_access m =
     (let d = (case map_of m uri of None \<Rightarrow> \<lparr>num_examples_read = 0, num_bytes_read = 0, first_access_timestamp = None\<rparr> | Some d \<Rightarrow> d);
          d = d\<lparr>num_examples_read := num_examples_read d + example_count, num_bytes_read := num_bytes_read d + example_size\<rparr>;
          d = (case first_access of None \<Rightarrow> d | Some t \<Rightarrow> d\<lparr>first_access_timestamp := Some (ConvertAbslToProtoTimestamp t)\<rparr>)
      in (if map_of m uri = None then m @ [(uri, d)] else map (\<lambda>(u, old). (u, if u = uri then d else old)) m))"

definition UpdateDatasetStats :: "string \<Rightarrow> int \<Rightarrow> int \<Rightarrow> OpStatsLoggerImpl \<Rightarrow> OpStatsLoggerImpl" where
  "UpdateDatasetStats uri example_count example_size l =
     (let update = update_dataset uri example_count example_size (collection_first_access_time_map l uri)
      in if in_phase l
         then l\<lparr>current_phase_stats := (current_phase_stats l)\<lparr>phase_dataset_stats := update (phase_dataset_stats (current_phase_stats l))\<rparr>\<rparr>
         else l\<lparr>stats := (stats l)\<lparr>dataset_stats := update (dataset_stats (stats l))\<rparr>\<rparr>)"

definition SetNetworkStats :: "NetworkStats \<Rightarrow> OpStatsLoggerImpl \<Rightarrow> OpStatsLoggerImpl" where
  "SetNetworkStats network_stats l =
     (if in_phase l then
        let old = accumulated_network_stats l; p = current_phase_stats l
        in l\<lparr>current_phase_stats := p\<lparr>
               bytes_downloaded := bytes_downloaded p + (net_bytes_downloaded network_stats - net_bytes_downloaded old),
               bytes_uploaded := bytes_uploaded p + (net_bytes_uploaded network_stats - net_bytes_uploaded old),
               phase_network_duration := ConvertAbslToProtoDuration
                 (ConvertProtoToAbslDuration (phase_network_duration p) + (net_duration network_stats - net_duration old))\<rparr>,
             accumulated_network_stats := network_stats\<rparr>
      else l\<lparr>stats := (stats l)\<lparr>chunking_layer_bytes_downloaded := net_bytes_downloaded network_stats,
               chunking_layer_bytes_uploaded := net_bytes_uploaded network_stats,
               network_duration := Some (ConvertAbslToProtoDuration (net_duration network_stats))\<rparr>\<rparr>)"

definition SetRetryWindow :: "RetryWindow \<Rightarrow> OpStatsLoggerImpl \<Rightarrow> OpStatsLoggerImpl" where
  "SetRetryWindow window l = l\<lparr>stats := (stats l)\<lparr>retry_window := Some (window\<lparr>retry_token := []\<rparr>)\<rparr>\<rparr>"

text \<open>The entry that a commit stores, and what it does with it.\<close>

definition commit_copy :: "OpStatsLoggerImpl \<Rightarrow> OperationalStats" where
  "commit_copy l = (if in_phase l then (stats l)\<lparr>phase_stats := phase_stats (stats l) @ [current_phase_stats l]\<rparr> else stats l)"

definition add_entry :: "OperationalStats \<Rightarrow> OpStatsSequence \<Rightarrow> OpStatsSequence" where
  "add_entry entry data = data\<lparr>opstats := opstats data @ [entry]\<rparr>"

definition replace_last :: "OperationalStats \<Rightarrow> OpStatsSequence \<Rightarrow> OpStatsSequence" where
  "replace_last entry data =
     (if opstats data = [] then add_entry entry data else data\<lparr>opstats := butlast (opstats data) @ [entry]\<rparr>)"

definition CommitToStorage ::
  "'s PdsBackedOpStatsDb \<Rightarrow> (nat \<Rightarrow> int) \<Rightarrow> OpStatsLoggerImpl \<Rightarrow> 's \<Rightarrow> unit status_or \<times> OpStatsLoggerImpl \<times> 's" where
  "CommitToStorage db now l s =
     (let copy = commit_copy l;
          (status, s) = Transform db now (if already_committed l then replace_last copy else add_entry copy) s
      in (status, l\<lparr>already_committed := True\<rparr>, s))"

definition GetCurrentTaskName :: "OpStatsLoggerImpl \<Rightarrow> string" where
  "GetCurrentTaskName l =
     (if use_phase_stats l then
        if phase_task_name (current_phase_stats l) \<noteq> [] then phase_task_name (current_phase_stats l)
        else (case find (\<lambda>p. phase_task_name p \<noteq> []) (rev (phase_stats (stats l))) of Some p \<Rightarrow> phase_task_name p | None \<Rightarrow> [])
      else task_name (stats l))"

definition flush_phase :: "OpStatsLoggerImpl \<Rightarrow> OpStatsLoggerImpl" where
  "flush_phase l = l\<lparr>stats := (stats l)\<lparr>phase_stats := phase_stats (stats l) @ [current_phase_stats l]\<rparr>, current_phase_stats := new_PhaseStats\<rparr>"

definition StartLoggingForPhase :: "Phase \<Rightarrow> OpStatsLoggerImpl \<Rightarrow> OpStatsLoggerImpl" where
  "StartLoggingForPhase new_phase l =
     (if \<not> use_phase_stats l then l
      else let l = (if phase (current_phase_stats l) \<noteq> UNSPECIFIED then flush_phase l else l)
           in l\<lparr>current_phase_stats := (current_phase_stats l)\<lparr>phase := new_phase\<rparr>\<rparr>)"

definition StopLoggingForTheCurrentPhase :: "OpStatsLoggerImpl \<Rightarrow> OpStatsLoggerImpl" where
  "StopLoggingForTheCurrentPhase l = (if in_phase l then flush_phase l else l)"

end
