(* ===== verification/Eligibility.thy ===== *)
theory Eligibility
  imports Complex_Main Op_Stats
begin

text \<open>
  \<open>fcp/client/eligibility_decider.cc\<close>: which tasks of a population this client may take part in. A set of task names is a list
  without repetitions. What the host or other libraries provide (example iterators, the runner of TensorFlow plans, RE2,
  SHA-256, the serialisation of protos) are fields of \<open>eligibility_env\<close>; the clock is read once for each policy.
\<close>

section \<open>Specifications\<close>

record ExampleSelector =
  collection_uri :: string
  criteria :: bytes

record DataAvailabilityPolicy =
  selector :: ExampleSelector
  min_example_count :: int
  use_example_query_result_format :: bool

record SamplingWithoutReplacementPolicy =
  min_period :: Duration
  group_regex :: string

record MinimumSeparationPolicy =
  current_index :: int
  minimum_separation :: int
  min_trustworthiness_period :: Duration

datatype policy_type =
    DataAvailability DataAvailabilityPolicy
  | Swor SamplingWithoutReplacementPolicy
  | TfCustom bytes
  | MinSep MinimumSeparationPolicy
  | PolicyTypeNotSet

record EligibilityPolicyEvalSpec =
  policy_name :: string
  min_version :: int
  policy_type :: policy_type

record TaskInfo =
  info_task_name :: string
  eligibility_policy_indices :: "int list"

record PopulationEligibilitySpec =
  task_info :: "TaskInfo list"
  eligibility_policies :: "EligibilityPolicyEvalSpec list"

record TaskWeight =
  weight_task_name :: string
  weight :: rat

record TaskEligibilityInfo =
  info_version :: int
  task_weights :: "TaskWeight list"

section \<open>Interfaces of the host\<close>

record SelectorContext =
  computation_id :: "bytes option"
  example_query_result_output :: bool
  other_properties :: bytes

text \<open>An iterator is what its calls of \<open>Next\<close> return, in order.\<close>

type_synonym ExampleIterator = "nat \<Rightarrow> bytes status_or"

record ExampleIteratorFactory =
  CanHandle :: "ExampleSelector \<Rightarrow> bool"
  CreateExampleIterator :: "ExampleSelector \<Rightarrow> SelectorContext \<Rightarrow> ExampleIterator status_or"
  GetSelectorContext :: SelectorContext

text \<open>\<open>RunPlan\<close> gives the status of a plan that failed, or its output tensors.\<close>

record EetPlanRunner =
  RunPlan :: "ExampleIteratorFactory list \<Rightarrow> bytes list status_or"
  ParseOutput :: "bytes list \<Rightarrow> TaskEligibilityInfo status_or"

record Flags =
  use_example_query_result_for_data_avail :: bool
  enable_lightweight_computation_id :: bool
  check_trustworthiness_for_min_sep_policy :: bool

record eligibility_env =
  proto :: proto_lib
  RE2 :: "string \<Rightarrow> (string \<Rightarrow> bool) option"
  ComputeSHA256 :: "bytes \<Rightarrow> bytes"
  parse_example_query_result :: "bytes \<Rightarrow> int option"
  serialize_example :: "(string \<times> string list) list \<Rightarrow> bytes"
  example_iterator_factories :: "ExampleIteratorFactory list"
  eet_plan_runner :: EetPlanRunner
  flags :: Flags
  opstats_sequence :: OpStatsSequence

section \<open>Sampling without replacement\<close>

definition ExecutionOutsideSworPeriod :: "int \<Rightarrow> int \<Rightarrow> Timestamp \<Rightarrow> bool" where
  "ExecutionOutsideSworPeriod now period last_successful_contribution_time \<longleftrightarrow>
     period < now - ConvertProtoToAbslTime last_successful_contribution_time"

text \<open>The time since the history can be trusted.\<close>

definition trustworthiness_period :: "OpStatsSequence \<Rightarrow> int \<Rightarrow> int" where
  "trustworthiness_period sequence now = now - ConvertProtoToAbslTime (timestamp_or_zero (earliest_trustworthy_time sequence))"

definition outside_period :: "int \<Rightarrow> int \<Rightarrow> Timestamp option \<Rightarrow> bool" where
  "outside_period now period time = (case time of None \<Rightarrow> True | Some t \<Rightarrow> ExecutionOutsideSworPeriod now period t)"

fun insert_eligible :: "(string \<Rightarrow> bool status_or) \<Rightarrow> string list \<Rightarrow> string list status_or" where
  "insert_eligible eligible [] = Inr []"
| "insert_eligible eligible (task # tasks) =
     and_then (eligible task) (\<lambda>ok. and_then (insert_eligible eligible tasks) (\<lambda>rest. Inr (if ok then task # rest else rest)))"

definition ComputePerTaskSworEligibility ::
  "eligibility_env \<Rightarrow> SamplingWithoutReplacementPolicy \<Rightarrow> string list \<Rightarrow> int \<Rightarrow> string list status_or" where
  "ComputePerTaskSworEligibility env swor_policy task_names now =
     (let period = ConvertProtoToAbslDuration (min_period swor_policy); data = opstats_sequence env in
      if trustworthiness_period data now < period then Inr []
      else if group_regex swor_policy \<noteq> [] then
        case RE2 env (group_regex swor_policy) of None \<Rightarrow> Inr []
        | Some full_match \<Rightarrow>
            and_then (GetLastSuccessfulContributionTimeForPattern (proto env) data full_match) (\<lambda>time.
              Inr (if outside_period now period time then task_names else []))
      else
        insert_eligible (\<lambda>task. and_then (GetLastSuccessfulContributionTime (proto env) data task) (\<lambda>time.
          Inr (outside_period now period time))) task_names)"

section \<open>Available data\<close>

definition FindExampleIteratorFactory :: "ExampleSelector \<Rightarrow> ExampleIteratorFactory list \<Rightarrow> ExampleIteratorFactory option" where
  "FindExampleIteratorFactory sel factories = find (\<lambda>f. CanHandle f sel) factories"

text \<open>The loop over the examples: \<open>left\<close> more are needed, \<open>k\<close> calls have been made.\<close>

fun count_examples :: "ExampleIterator \<Rightarrow> nat \<Rightarrow> nat \<Rightarrow> bool status_or" where
  "count_examples iterator 0 k = Inr True"
| "count_examples iterator (Suc left) k =
     (case iterator k of
        Inr _ \<Rightarrow> count_examples iterator left (Suc k)
      | Inl (Status OUT_OF_RANGE _) \<Rightarrow> Inr False
      | Inl e \<Rightarrow> Inl e)"

definition ComputeDataAvailabilityEligibility :: "eligibility_env \<Rightarrow> DataAvailabilityPolicy \<Rightarrow> bool status_or" where
  "ComputeDataAvailabilityEligibility env policy =
     (case FindExampleIteratorFactory (selector policy) (example_iterator_factories env) of
        None \<Rightarrow> Inl (Status INVALID_ARGUMENT
                     (''No iterator factory that can handle selector with uri '' @ collection_uri (selector policy)))
      | Some iterator_factory \<Rightarrow>
          let context = GetSelectorContext iterator_factory;
              context = (if enable_lightweight_computation_id (flags env)
                         then context\<lparr>computation_id := Some (ComputeSHA256 env (criteria (selector policy)))\<rparr> else context);
              use_result = (use_example_query_result_for_data_avail (flags env) \<and> use_example_query_result_format policy);
              context = (if use_result then context\<lparr>example_query_result_output := True\<rparr> else context)
          in and_then (CreateExampleIterator iterator_factory (selector policy) context) (\<lambda>iterator.
             if use_result then
               and_then (iterator 0) (\<lambda>result.
                 case parse_example_query_result env result of
                   None \<Rightarrow> Inl (Status INVALID_ARGUMENT ''Failed to parse ExampleQueryResult'')
                 | Some example_count_for_logs \<Rightarrow> Inr (example_count_for_logs \<ge> min_example_count policy))
             else count_examples iterator (nat (min_example_count policy)) 0))"

section \<open>Custom policies\<close>

definition EligibilityContextIterator :: "eligibility_env \<Rightarrow> string \<Rightarrow> string list \<Rightarrow> ExampleIterator" where
  "EligibilityContextIterator env name task_names k =
     (if k = 0 then Inr (serialize_example env [(''policy_name'', [name]), (''task_names'', task_names)])
      else Inl (Status OUT_OF_RANGE ''Already returned neet context example''))"

definition CreateEligibilityContextExampleIteratorFactory :: "eligibility_env \<Rightarrow> string \<Rightarrow> string list \<Rightarrow> ExampleIteratorFactory" where
  "CreateEligibilityContextExampleIteratorFactory env name task_names =
     \<lparr>CanHandle = (\<lambda>s. collection_uri s = ''internal:/eligibility_context''),
      CreateExampleIterator = (\<lambda>_ _. Inr (EligibilityContextIterator env name task_names)),
      GetSelectorContext = \<lparr>computation_id = None, example_query_result_output = False, other_properties = []\<rparr>\<rparr>"

definition ComputeTfCustomPolicyEligibility ::
  "eligibility_env \<Rightarrow> EligibilityPolicyEvalSpec \<Rightarrow> string list \<Rightarrow> string list status_or" where
  "ComputeTfCustomPolicyEligibility env policy_spec task_names =
     and_then (RunPlan (eet_plan_runner env)
        (CreateEligibilityContextExampleIteratorFactory env (policy_name policy_spec) task_names # example_iterator_factories env))
       (\<lambda>output_tensors. and_then (ParseOutput (eet_plan_runner env) output_tensors) (\<lambda>info.
          Inr (remdups (map weight_task_name (filter (\<lambda>w. weight w > 0) (task_weights info))))))"

section \<open>Minimum separation\<close>

text \<open>The difference of two signed 64-bit integers, which is undefined when it does not fit.\<close>

definition fits_int64 :: "int \<Rightarrow> bool" where
  "fits_int64 i \<longleftrightarrow> - (2 ^ 63) \<le> i \<and> i < 2 ^ 63"

definition int64_minus :: "int \<Rightarrow> int \<Rightarrow> int status_or" where
  "int64_minus a b = (if fits_int64 (a - b) then Inr (a - b) else Inl Undefined)"

definition ComputeMinimumSeparationPolicyEligibility ::
  "eligibility_env \<Rightarrow> MinimumSeparationPolicy \<Rightarrow> string list \<Rightarrow> int \<Rightarrow> string list status_or" where
  "ComputeMinimumSeparationPolicyEligibility env policy task_names now =
     (let period = ConvertProtoToAbslDuration (min_trustworthiness_period policy) in
      if check_trustworthiness_for_min_sep_policy (flags env) \<and> period \<noteq> 0
         \<and> trustworthiness_period (opstats_sequence env) now < period
      then Inr []
      else
        insert_eligible (\<lambda>task.
          and_then (GetLastSuccessfulContributionMinSepPolicyIndex (proto env) (opstats_sequence env) task) (\<lambda>index.
            case index of None \<Rightarrow> Inr True
            | Some index \<Rightarrow> and_then (int64_minus (current_index policy) index) (\<lambda>distance. Inr (distance > minimum_separation policy)))) task_names)"

section \<open>All policies\<close>

definition policy_implemented :: "Flags \<Rightarrow> EligibilityPolicyEvalSpec \<Rightarrow> bool" where
  "policy_implemented fl policy_spec =
     (case policy_type policy_spec of
        DataAvailability _ \<Rightarrow> \<not> (if use_example_query_result_for_data_avail fl then 2 else 1) < min_version policy_spec
      | Swor _ \<Rightarrow> \<not> 1 < min_version policy_spec
      | TfCustom _ \<Rightarrow> \<not> 1 < min_version policy_spec
      | MinSep _ \<Rightarrow> \<not> (if check_trustworthiness_for_min_sep_policy fl then 2 else 1) < min_version policy_spec
      | PolicyTypeNotSet \<Rightarrow> False)"

text \<open>The tasks that use the policy with this index.\<close>

definition tasks_using :: "TaskInfo list \<Rightarrow> nat \<Rightarrow> string list" where
  "tasks_using infos policy_index = remdups (map info_task_name (filter (\<lambda>t. int policy_index \<in> set (eligibility_policy_indices t)) infos))"

fun collect_policies ::
  "Flags \<Rightarrow> TaskInfo list \<Rightarrow> nat \<Rightarrow> EligibilityPolicyEvalSpec list \<Rightarrow> (string \<rightharpoonup> string list) \<times> string list
    \<Rightarrow> (string \<rightharpoonup> string list) \<times> string list" where
  "collect_policies fl infos i [] acc = acc"
| "collect_policies fl infos i (policy_spec # specs) (policy_name_to_task_names, unimplemented) =
     collect_policies fl infos (Suc i) specs
       (if policy_implemented fl policy_spec
        then (policy_name_to_task_names(policy_name policy_spec \<mapsto> tasks_using infos i), unimplemented)
        else (policy_name_to_task_names, unimplemented @ tasks_using infos i))"

text \<open>One policy on a set of tasks: the tasks that stay eligible, and the errors that are logged.\<close>

definition eligible_for_policy ::
  "eligibility_env \<Rightarrow> int \<Rightarrow> EligibilityPolicyEvalSpec \<Rightarrow> string list \<Rightarrow> (string list \<times> failure list) status_or" where
  "eligible_for_policy env now policy_spec policy_task_names =
     (case policy_type policy_spec of
        Swor policy \<Rightarrow> and_then (ComputePerTaskSworEligibility env policy policy_task_names now) (\<lambda>names. Inr (names, []))
      | DataAvailability policy \<Rightarrow>
          (case ComputeDataAvailabilityEligibility env policy of
             Inr available \<Rightarrow> Inr (if available then policy_task_names else [], [])
           | Inl e \<Rightarrow> Inr ([], [e]))
      | TfCustom _ \<Rightarrow>
          (case ComputeTfCustomPolicyEligibility env policy_spec policy_task_names of
             Inr names \<Rightarrow> Inr (names, []) | Inl e \<Rightarrow> Inr ([], [e]))
      | MinSep policy \<Rightarrow> and_then (ComputeMinimumSeparationPolicyEligibility env policy policy_task_names now) (\<lambda>names. Inr (names, []))
      | PolicyTypeNotSet \<Rightarrow> Inl (Status INTERNAL ''Unexpected policy kind during eval: 0''))"

fun evaluate_policies ::
  "eligibility_env \<Rightarrow> (nat \<Rightarrow> int) \<Rightarrow> (string \<rightharpoonup> string list) \<Rightarrow> nat \<Rightarrow> EligibilityPolicyEvalSpec list \<Rightarrow> string list \<times> failure list
    \<Rightarrow> (string list \<times> failure list) status_or" where
  "evaluate_policies env now policies i [] (eligible_tasks, logged) = Inr (eligible_tasks, logged)"
| "evaluate_policies env now policies i (policy_spec # specs) (eligible_tasks, logged) =
     (if eligible_tasks = [] then Inr (eligible_tasks, logged)
      else case policies (policy_name policy_spec) of
        None \<Rightarrow> evaluate_policies env now policies (Suc i) specs (eligible_tasks, logged)
      | Some names \<Rightarrow>
          let policy_task_names = filter (\<lambda>t. t \<in> set eligible_tasks) names in
          if policy_task_names = [] then evaluate_policies env now policies (Suc i) specs (eligible_tasks, logged)
          else and_then (eligible_for_policy env (now i) policy_spec policy_task_names) (\<lambda>(eligible_policy_task_names, errors).
            evaluate_policies env now policies (Suc i) specs
              (filter (\<lambda>t. \<not> (t \<in> set policy_task_names \<and> t \<notin> set eligible_policy_task_names)) eligible_tasks,
               logged @ errors)))"

definition ComputeEligibility ::
  "eligibility_env \<Rightarrow> (nat \<Rightarrow> int) \<Rightarrow> PopulationEligibilitySpec \<Rightarrow> (TaskEligibilityInfo \<times> failure list) status_or" where
  "ComputeEligibility env now spec =
     (let (policies, unimplemented) = collect_policies (flags env) (task_info spec) 0 (eligibility_policies spec) (Map.empty, []);
          eligible_tasks = filter (\<lambda>t. t \<notin> set unimplemented) (remdups (map info_task_name (task_info spec)))
      in and_then (evaluate_policies env now policies 0 (eligibility_policies spec) (eligible_tasks, [])) (\<lambda>(eligible_tasks, logged).
           Inr (\<lparr>info_version = 1, task_weights = map (\<lambda>t. \<lparr>weight_task_name = info_task_name t,
                  weight = (if info_task_name t \<in> set eligible_tasks then 1 else 0)\<rparr>) (task_info spec)\<rparr>, logged)))"

end
