(* ===== verification/Eligibility_Laws.thy ===== *)
theory Eligibility_Laws
  imports Eligibility
begin

text \<open>
  What the eligibility decision means: for policies that the client implements, a task gets weight 1 exactly when every policy it
  uses lets it through; sampling without replacement looks at every contribution of the history; the minimum separation policy
  sees no index of a run that was stored with its phases.
\<close>

section \<open>Single policies\<close>

lemma insert_eligible_filter: "insert_eligible (\<lambda>t. Inr (P t)) tasks = Inr (filter P tasks)"
  by (induction tasks) auto

lemma swor_eligible:
  "ComputePerTaskSworEligibility env policy tasks now =
     Inr (if trustworthiness_period (opstats_sequence env) now < ConvertProtoToAbslDuration (min_period policy) then []
          else if group_regex policy \<noteq> [] then
            (case RE2 env (group_regex policy) of None \<Rightarrow> []
             | Some matches \<Rightarrow> if outside_period now (ConvertProtoToAbslDuration (min_period policy))
                 (if contributions (proto env) (opstats_sequence env) matches = [] then None
                  else GetContributionTimeForLegacyOpStats (last (contributions (proto env) (opstats_sequence env) matches)))
               then tasks else [])
          else filter (\<lambda>task. outside_period now (ConvertProtoToAbslDuration (min_period policy))
                 (if contributions (proto env) (opstats_sequence env) (\<lambda>t. t = task) = [] then None
                  else GetContributionTimeForLegacyOpStats (last (contributions (proto env) (opstats_sequence env) (\<lambda>t. t = task))))) tasks)"
  by (simp add: ComputePerTaskSworEligibility_def Let_def GetLastSuccessfulContributionTimeForPattern_iff
      GetLastSuccessfulContributionTime_iff insert_eligible_filter split: option.split)

text \<open>The differences of indices that the minimum separation policies of a population can meet are in range.\<close>

definition separations_fit :: "eligibility_env \<Rightarrow> EligibilityPolicyEvalSpec \<Rightarrow> bool" where
  "separations_fit env spec = (case policy_type spec of
     MinSep policy \<Rightarrow> list_all (\<lambda>s. case min_sep_policy_index s of None \<Rightarrow> True | Some index \<Rightarrow> fits_int64 (current_index policy - index))
       (opstats (opstats_sequence env))
   | _ \<Rightarrow> True)"

lemma contribution_index:
  assumes "entry \<in> set (contributions lib data P)" "min_sep_policy_index entry = Some index"
  shows "\<exists>s\<in>set (opstats data). min_sep_policy_index s = Some index"
  using assms by (auto simp: contributions_def ConvertToLegacyOperationalStats_def legacy_of_stats_def split: if_splits)

lemma min_sep_eligible:
  assumes "list_all (\<lambda>s. case min_sep_policy_index s of None \<Rightarrow> True | Some index \<Rightarrow> fits_int64 (current_index policy - index)) (opstats (opstats_sequence env))"
  shows "ComputeMinimumSeparationPolicyEligibility env policy tasks now =
     Inr (if check_trustworthiness_for_min_sep_policy (flags env) \<and> ConvertProtoToAbslDuration (min_trustworthiness_period policy) \<noteq> 0
           \<and> trustworthiness_period (opstats_sequence env) now < ConvertProtoToAbslDuration (min_trustworthiness_period policy) then []
          else filter (\<lambda>task. case (if contributions (proto env) (opstats_sequence env) (\<lambda>t. t = task) = [] then None
              else min_sep_policy_index (last (contributions (proto env) (opstats_sequence env) (\<lambda>t. t = task)))) of
              None \<Rightarrow> True | Some index \<Rightarrow> current_index policy - index > minimum_separation policy) tasks)"
proof -
  let ?index = "\<lambda>task. if contributions (proto env) (opstats_sequence env) (\<lambda>t. t = task) = [] then None
      else min_sep_policy_index (last (contributions (proto env) (opstats_sequence env) (\<lambda>t. t = task)))"
  have fits: "fits_int64 (current_index policy - index)" if "?index task = Some index" for task index
    using that contribution_index [OF last_in_set, of "proto env" "opstats_sequence env" "\<lambda>t. t = task" index] assms
    by (fastforce simp: list_all_iff split: if_splits)
  have "(case ?index task of None \<Rightarrow> Inr True
      | Some index \<Rightarrow> and_then (int64_minus (current_index policy) index) (\<lambda>distance. Inr (distance > minimum_separation policy)))
      = (Inr (case ?index task of None \<Rightarrow> True | Some index \<Rightarrow> current_index policy - index > minimum_separation policy) :: bool status_or)" for task
    using fits [of task] by (auto simp: int64_minus_def split: option.split)
  then show ?thesis
    by (simp add: ComputeMinimumSeparationPolicyEligibility_def Let_def MinSepPolicyIndex_iff insert_eligible_filter)
qed

text \<open>A policy that is implemented always gives an answer.\<close>

lemma eligible_for_policy_total:
  assumes "policy_type spec \<noteq> PolicyTypeNotSet" "separations_fit env spec"
  shows "\<exists>names errors. eligible_for_policy env now spec tasks = Inr (names, errors)"
  using assms
  by (cases "policy_type spec") (auto simp: eligible_for_policy_def swor_eligible min_sep_eligible separations_fit_def split: sum.split)

definition passes :: "eligibility_env \<Rightarrow> int \<Rightarrow> EligibilityPolicyEvalSpec \<Rightarrow> string list \<Rightarrow> string \<Rightarrow> bool" where
  "passes env now spec tasks task = (case eligible_for_policy env now spec tasks of Inl _ \<Rightarrow> False | Inr (names, _) \<Rightarrow> task \<in> set names)"

definition is_custom :: "EligibilityPolicyEvalSpec \<Rightarrow> bool" where
  "is_custom spec = (case policy_type spec of TfCustom _ \<Rightarrow> True | _ \<Rightarrow> False)"

text \<open>Except for a custom policy, what a policy says of a task does not depend on the other tasks.\<close>

lemma passes_independent:
  assumes "\<not> is_custom spec" "separations_fit env spec" "task \<in> set tasks" "task \<in> set tasks'"
  shows "passes env now spec tasks task = passes env now spec tasks' task"
  using assms
  by (cases "policy_type spec")
    (simp_all add: is_custom_def passes_def eligible_for_policy_def swor_eligible min_sep_eligible separations_fit_def split: sum.split option.split)

section \<open>The policies that are evaluated\<close>

lemma collect_policies_names:
  assumes "distinct (map policy_name specs)" "collect_policies fl infos i specs (m, u) = (m', u')"
  shows "(\<forall>j<length specs. m' (policy_name (specs ! j))
            = (if policy_implemented fl (specs ! j) then Some (tasks_using infos (i + j)) else m (policy_name (specs ! j))))
    \<and> (\<forall>nm. nm \<notin> policy_name ` set specs \<longrightarrow> m' nm = m nm)
    \<and> set u' = set u \<union> (\<Union>j\<in>{j. j < length specs \<and> \<not> policy_implemented fl (specs ! j)}. set (tasks_using infos (i + j)))"
  using assms
proof (induction specs arbitrary: i m u)
  case (Cons spec specs)
  define m1 where "m1 = (if policy_implemented fl spec then m(policy_name spec \<mapsto> tasks_using infos i) else m)"
  define u1 where "u1 = (if policy_implemented fl spec then u else u @ tasks_using infos i)"
  have "collect_policies fl infos (Suc i) specs (m1, u1) = (m', u')"
    using Cons.prems(2) by (simp add: m1_def u1_def split: if_splits)
  then have ih: "\<forall>j<length specs. m' (policy_name (specs ! j))
            = (if policy_implemented fl (specs ! j) then Some (tasks_using infos (Suc i + j)) else m1 (policy_name (specs ! j)))"
      "\<forall>nm. nm \<notin> policy_name ` set specs \<longrightarrow> m' nm = m1 nm"
      "set u' = set u1 \<union> (\<Union>j\<in>{j. j < length specs \<and> \<not> policy_implemented fl (specs ! j)}. set (tasks_using infos (Suc i + j)))"
    using Cons.IH [of "Suc i" m1 u1] Cons.prems(1) by auto
  have new: "policy_name spec \<notin> policy_name ` set specs" using Cons.prems(1) by simp
  have a: "m' (policy_name ((spec # specs) ! j))
      = (if policy_implemented fl ((spec # specs) ! j) then Some (tasks_using infos (i + j)) else m (policy_name ((spec # specs) ! j)))"
    if "j < length (spec # specs)" for j
  proof (cases j)
    case 0
    then show ?thesis using ih(2) new by (simp add: m1_def)
  next
    case (Suc k)
    then have "policy_name (specs ! k) \<noteq> policy_name spec" using new that by (metis Suc_less_eq image_eqI length_Cons nth_mem)
    then show ?thesis using ih(1) Suc that by (simp add: m1_def)
  qed
  have b: "m' nm = m nm" if "nm \<notin> policy_name ` set (spec # specs)" for nm using ih(2) that by (simp add: m1_def)
  have "{j. j < length (spec # specs) \<and> \<not> policy_implemented fl ((spec # specs) ! j)}
      = (if policy_implemented fl spec then {} else {0}) \<union> Suc ` {j. j < length specs \<and> \<not> policy_implemented fl (specs ! j)}"
    by (auto simp: less_Suc_eq_0_disj split: if_splits)
  then have "set u' = set u \<union> (\<Union>j\<in>{j. j < length (spec # specs) \<and> \<not> policy_implemented fl ((spec # specs) ! j)}. set (tasks_using infos (i + j)))"
    using ih(3) by (auto simp: u1_def)
  then show ?case using a b by blast
qed auto

section \<open>The decision\<close>

text \<open>
  The reference: the tasks that the first \<open>k\<close> policies let through. A policy judges those of its users that all earlier policies
  have let through.
\<close>

fun let_through :: "eligibility_env \<Rightarrow> (nat \<Rightarrow> int) \<Rightarrow> PopulationEligibilitySpec \<Rightarrow> nat \<Rightarrow> string \<Rightarrow> bool" where
  "let_through env now spec 0 t \<longleftrightarrow> t \<in> info_task_name ` set (task_info spec)"
| "let_through env now spec (Suc k) t \<longleftrightarrow> let_through env now spec k t
     \<and> (t \<in> set (tasks_using (task_info spec) k)
        \<longrightarrow> passes env (now k) (eligibility_policies spec ! k) (filter (let_through env now spec k) (tasks_using (task_info spec) k)) t)"

text \<open>What policy \<open>k\<close> says of a task: by itself, or among the users that are left for a custom policy, which sees them all.\<close>

definition verdict :: "eligibility_env \<Rightarrow> (nat \<Rightarrow> int) \<Rightarrow> PopulationEligibilitySpec \<Rightarrow> nat \<Rightarrow> string \<Rightarrow> bool" where
  "verdict env now spec k t = (let policy = eligibility_policies spec ! k in
     passes env (now k) policy (if is_custom policy then filter (let_through env now spec k) (tasks_using (task_info spec) k) else [t]) t)"

lemma implemented_type: "policy_implemented fl spec \<Longrightarrow> policy_type spec \<noteq> PolicyTypeNotSet"
  by (auto simp: policy_implemented_def)

lemma let_through_verdict:
  assumes "\<forall>p\<in>set (eligibility_policies spec). separations_fit env p" "k \<le> length (eligibility_policies spec)"
  shows "let_through env now spec k t \<longleftrightarrow> t \<in> info_task_name ` set (task_info spec)
    \<and> (\<forall>j<k. t \<in> set (tasks_using (task_info spec) j) \<longrightarrow> verdict env now spec j t)"
  using assms(2)
proof (induction k)
  case (Suc k)
  let ?p = "eligibility_policies spec ! k" and ?S = "filter (let_through env now spec k) (tasks_using (task_info spec) k)"
  have fit: "separations_fit env ?p" using assms(1) Suc.prems by simp
  have "passes env (now k) ?p ?S t = verdict env now spec k t"
    if "let_through env now spec k t" "t \<in> set (tasks_using (task_info spec) k)"
    using that passes_independent [OF _ fit, of t ?S "[t]" "now k"] by (simp add: verdict_def Let_def)
  then show ?case using Suc by (auto simp: less_Suc_eq)
qed simp

lemma evaluate_policies_decides:
  assumes "eligibility_policies spec = before @ specs"
    and "\<forall>p\<in>set specs. policy_implemented (flags env) p \<and> separations_fit env p"
    and "\<forall>j<length specs. policies (policy_name (specs ! j)) = Some (tasks_using (task_info spec) (length before + j))"
    and "set E = {t. let_through env now spec (length before) t}"
  shows "\<exists>E' logged'. evaluate_policies env now policies (length before) specs (E, logged) = Inr (E', logged')
    \<and> set E' = {t. let_through env now spec (length (eligibility_policies spec)) t}"
  using assms
proof (induction specs arbitrary: before E logged)
  case (Cons p specs)
  let ?k = "length before"
  define S where "S = filter (let_through env now spec ?k) (tasks_using (task_info spec) ?k)"
  have S: "filter (\<lambda>t. t \<in> set E) (tasks_using (task_info spec) ?k) = S" using Cons.prems(4) by (simp add: S_def)
  have p: "eligibility_policies spec ! ?k = p" "eligibility_policies spec = (before @ [p]) @ specs" using Cons.prems(1) by simp_all
  have first: "policies (policy_name p) = Some (tasks_using (task_info spec) ?k)" using Cons.prems(3) by (auto dest: spec [of _ 0])
  have rest: "\<forall>j<length specs. policies (policy_name (specs ! j)) = Some (tasks_using (task_info spec) (length (before @ [p]) + j))"
    using Cons.prems(3) by (auto dest: spec [of _ "Suc _"])
  note ih = Cons.IH [OF p(2) _ rest]
  consider (stop) "E = []" | (skip) "E \<noteq> []" "S = []" | (run) "E \<noteq> []" "S \<noteq> []" by blast
  then show ?case
  proof cases
    case stop
    have "\<not> let_through env now spec (?k + n) t" for n t using stop Cons.prems(4) by (induction n) auto
    then have "{t. let_through env now spec (length (eligibility_policies spec)) t} = {}"
      unfolding Cons.prems(1) length_append by blast
    then show ?thesis using stop by simp
  next
    case skip
    have "let_through env now spec (Suc ?k) t \<longleftrightarrow> t \<in> set E" for t
      using skip Cons.prems(4) by (auto simp: S_def filter_empty_conv)
    then show ?thesis using ih [of E logged] Cons.prems(2) skip first S by (simp add: Let_def)
  next
    case run
    obtain names errors where r: "eligible_for_policy env (now ?k) p S = Inr (names, errors)"
      using eligible_for_policy_total [OF implemented_type] Cons.prems(2) by fastforce
    define E1 where "E1 = filter (\<lambda>t. \<not> (t \<in> set S \<and> t \<notin> set names)) E"
    have "passes env (now ?k) p S t \<longleftrightarrow> t \<in> set names" for t by (simp add: passes_def r)
    then have "set E1 = {t. let_through env now spec (length (before @ [p])) t}"
      using Cons.prems(4) by (auto simp: E1_def p(1) S_def [symmetric]) (auto simp: S_def)
    moreover have "evaluate_policies env now policies ?k (p # specs) (E, logged) = evaluate_policies env now policies (length (before @ [p])) specs (E1, logged @ errors)"
      using run first r S by (simp add: E1_def Let_def)
    ultimately show ?thesis using ih [of E1 "logged @ errors"] Cons.prems(2) by auto
  qed
qed simp

section \<open>A small population\<close>

definition sample_lib :: proto_lib where
  "sample_lib = \<lparr>TimestampToSeconds = seconds, TimestampToMilliseconds = (\<lambda>t. seconds t * 1000 + nanos t div 1000000),
     MillisecondsToTimestamp = (\<lambda>n. ConvertAbslToProtoTimestamp (n * 1000000)),
     DurationToMilliseconds = (\<lambda>d. duration_seconds d * 1000), MillisecondsToDuration = (\<lambda>n. ConvertAbslToProtoDuration (n * 1000000)),
     stats_ByteSizeLong = (\<lambda>s. 10), sequence_ByteSizeLong = (\<lambda>s. 10 * int (length (opstats s)))\<rparr>"

definition at_second :: "int \<Rightarrow> Timestamp" where
  "at_second t = \<lparr>seconds = t, nanos = 0\<rparr>"

text \<open>A run with phases that has contributed to the task \<open>train\<close> at second 1000, for index 5.\<close>

definition sample_run_stats :: OperationalStats where
  "sample_run_stats = new_OperationalStats\<lparr>min_sep_policy_index := Some 5, phase_stats := [
     new_PhaseStats\<lparr>phase := COMPUTATION, phase_task_name := ''train'', phase_events := [\<lparr>event_type = 10, timestamp = at_second 990\<rparr>]\<rparr>,
     new_PhaseStats\<lparr>phase := UPLOAD, phase_task_name := ''train'',
       phase_events := [\<lparr>event_type = EVENT_KIND_RESULT_UPLOAD_STARTED, timestamp = at_second 1000\<rparr>]\<rparr>]\<rparr>"

definition sample_env :: eligibility_env where
  "sample_env = \<lparr>proto = sample_lib, RE2 = (\<lambda>_. None), ComputeSHA256 = id, parse_example_query_result = (\<lambda>_. None),
     serialize_example = (\<lambda>_. []), example_iterator_factories = [], eet_plan_runner = \<lparr>RunPlan = (\<lambda>_. Inr []),
       ParseOutput = (\<lambda>_. Inr \<lparr>info_version = 1, task_weights = []\<rparr>)\<rparr>,
     flags = \<lparr>use_example_query_result_for_data_avail = False, enable_lightweight_computation_id = False,
       check_trustworthiness_for_min_sep_policy = True\<rparr>,
     opstats_sequence = \<lparr>opstats = [sample_run_stats], earliest_trustworthy_time = Some (at_second 0)\<rparr>\<rparr>"

definition sample_swor :: SamplingWithoutReplacementPolicy where
  "sample_swor = \<lparr>min_period = \<lparr>duration_seconds = 500, duration_nanos = 0\<rparr>, group_regex = []\<rparr>"

definition sample_min_sep :: MinimumSeparationPolicy where
  "sample_min_sep = \<lparr>current_index = 5, minimum_separation = 100, min_trustworthiness_period = \<lparr>duration_seconds = 0, duration_nanos = 0\<rparr>\<rparr>"

definition sample_population :: PopulationEligibilitySpec where
  "sample_population = \<lparr>
     task_info = [\<lparr>info_task_name = ''train'', eligibility_policy_indices = [0]\<rparr>, \<lparr>info_task_name = ''eval'', eligibility_policy_indices = [0]\<rparr>,
       \<lparr>info_task_name = ''new'', eligibility_policy_indices = [1, 0]\<rparr>],
     eligibility_policies = [\<lparr>policy_name = ''once'', min_version = 1, policy_type = Swor sample_swor\<rparr>,
       \<lparr>policy_name = ''custom'', min_version = 1, policy_type = TfCustom []\<rparr>]\<rparr>"

section \<open>Properties\<close>

text \<open>
  C23. When the policies of a population have different names, the client implements them all at the required version and the
  differences of the indices of minimum separation fit 64 bits, the decision succeeds and has one weight per task, in order. A
  task has weight 1 when every policy it uses lets it through, and weight 0 otherwise. What a policy other than a custom one says
  of a task does not depend on the other tasks; a custom policy is given those of its users that all earlier policies let
  through, and says of each of them.
\<close>

theorem eligibility_decided:
  assumes "distinct (map policy_name (eligibility_policies spec))"
    and "\<forall>p\<in>set (eligibility_policies spec). policy_implemented (flags env) p \<and> separations_fit env p"
  shows "\<exists>info logged. ComputeEligibility env now spec = Inr (info, logged) \<and> info_version info = 1
    \<and> map weight_task_name (task_weights info) = map info_task_name (task_info spec)
    \<and> (\<forall>w\<in>set (task_weights info). weight w =
         (if \<forall>k<length (eligibility_policies spec). weight_task_name w \<in> set (tasks_using (task_info spec) k)
               \<longrightarrow> verdict env now spec k (weight_task_name w) then 1 else 0))"
proof -
  let ?infos = "task_info spec" and ?specs = "eligibility_policies spec"
  obtain policies unimplemented where c: "collect_policies (flags env) ?infos 0 ?specs (Map.empty, []) = (policies, unimplemented)"
    by fastforce
  have names: "\<forall>j<length ?specs. policies (policy_name (?specs ! j)) = Some (tasks_using ?infos j)"
    using collect_policies_names [OF assms(1) c] assms(2) by simp
  have none: "{j. j < length ?specs \<and> \<not> policy_implemented (flags env) (?specs ! j)} = {}" using assms(2) by auto
  have un: "unimplemented = []" using conjunct2 [OF conjunct2 [OF collect_policies_names [OF assms(1) c]]] unfolding none by simp
  obtain E' logged where e: "evaluate_policies env now policies 0 ?specs (remdups (map info_task_name ?infos), []) = Inr (E', logged)"
      "set E' = {t. let_through env now spec (length ?specs) t}"
    using evaluate_policies_decides [of spec "[]" ?specs env policies "remdups (map info_task_name ?infos)" now "[]"] assms(2) names by auto
  define info where "info = \<lparr>info_version = 1, task_weights = map (\<lambda>t. \<lparr>weight_task_name = info_task_name t,
      weight = (if info_task_name t \<in> set E' then 1 else 0)\<rparr>) ?infos\<rparr>"
  have r: "ComputeEligibility env now spec = Inr (info, logged)"
    using c e(1) un by (simp add: ComputeEligibility_def Let_def info_def)
  have "weight w = (if \<forall>k<length ?specs. weight_task_name w \<in> set (tasks_using ?infos k) \<longrightarrow> verdict env now spec k (weight_task_name w) then 1 else 0)"
    if "w \<in> set (task_weights info)" for w
    using that let_through_verdict [of spec env "length ?specs" now "weight_task_name w"] assms(2) e(2) by (auto simp: info_def)
  then show ?thesis using r by (intro exI [of _ info] exI [of _ logged]) (auto simp: info_def)
qed

theorem eligibility_decided_witness:
  "(\<exists>info logged. ComputeEligibility sample_env (\<lambda>_. 1200000000000) sample_population = Inr (info, logged)
      \<and> map weight_task_name (task_weights info) = [''train'', ''eval'', ''new''])
    \<and> ComputeEligibility sample_env (\<lambda>_. 1200000000000) sample_population = Inr (\<lparr>info_version = 1, task_weights =
        [\<lparr>weight_task_name = ''train'', weight = 0\<rparr>, \<lparr>weight_task_name = ''eval'', weight = 1\<rparr>, \<lparr>weight_task_name = ''new'', weight = 0\<rparr>]\<rparr>, [])
    \<and> \<not> verdict sample_env (\<lambda>_. 1200000000000) sample_population 0 ''train''
    \<and> verdict sample_env (\<lambda>_. 1200000000000) sample_population 0 ''eval''
    \<and> \<not> verdict sample_env (\<lambda>_. 1200000000000) sample_population 1 ''new''"
proof (intro conjI)
  have d: "distinct (map policy_name (eligibility_policies sample_population))" by code_simp
  have "list_all (\<lambda>p. policy_implemented (flags sample_env) p \<and> separations_fit sample_env p) (eligibility_policies sample_population)"
    by code_simp
  then have i: "\<forall>p\<in>set (eligibility_policies sample_population). policy_implemented (flags sample_env) p \<and> separations_fit sample_env p"
    by (simp add: list_all_iff)
  have "map info_task_name (task_info sample_population) = [''train'', ''eval'', ''new'']" by code_simp
  then show "\<exists>info logged. ComputeEligibility sample_env (\<lambda>_. 1200000000000) sample_population = Inr (info, logged)
      \<and> map weight_task_name (task_weights info) = [''train'', ''eval'', ''new'']"
    using eligibility_decided [OF d i, of "\<lambda>_. 1200000000000"] by metis
  show "ComputeEligibility sample_env (\<lambda>_. 1200000000000) sample_population = Inr (\<lparr>info_version = 1, task_weights =
        [\<lparr>weight_task_name = ''train'', weight = 0\<rparr>, \<lparr>weight_task_name = ''eval'', weight = 1\<rparr>, \<lparr>weight_task_name = ''new'', weight = 0\<rparr>]\<rparr>, [])"
    by code_simp
  show "\<not> verdict sample_env (\<lambda>_. 1200000000000) sample_population 0 ''train''"
    "verdict sample_env (\<lambda>_. 1200000000000) sample_population 0 ''eval''"
    "\<not> verdict sample_env (\<lambda>_. 1200000000000) sample_population 1 ''new''" by code_simp+
qed

text \<open>The tasks whose contributions count for a task under a policy: its own, or those of the group.\<close>

definition counts_for :: "eligibility_env \<Rightarrow> SamplingWithoutReplacementPolicy \<Rightarrow> string \<Rightarrow> string \<Rightarrow> bool" where
  "counts_for env policy task other =
     (if group_regex policy = [] then other = task
      else case RE2 env (group_regex policy) of None \<Rightarrow> False | Some full_match \<Rightarrow> full_match other)"

lemma sorted_last: "sorted xs \<Longrightarrow> x \<in> set xs \<Longrightarrow> x \<le> last xs" for xs :: "int list"
  by (induction xs) auto

lemma outside_last:
  assumes "outside_period now period (if es = [] then None else GetContributionTimeForLegacyOpStats (last es))"
    and "\<forall>e\<in>set es. successful_upload e" "sorted (map upload_time es)" "e \<in> set es"
  shows "upload_time e < now - period"
proof -
  have ne: "es \<noteq> []" using assms(4) by auto
  then obtain t where t: "GetContributionTimeForLegacyOpStats (last es) = Some t"
    using assms(2) contribution_time_some by (metis last_in_set not_None_eq)
  then have "upload_time (last es) < now - period"
    using assms(1) ne by (simp add: outside_period_def ExecutionOutsideSworPeriod_def upload_time_def)
  moreover have "upload_time e \<le> last (map upload_time es)"
    using sorted_last [OF assms(3)] assms(4) by simp
  then have "upload_time e \<le> upload_time (last es)" using ne by (simp add: last_map)
  ultimately show ?thesis by simp
qed

text \<open>
  A task that the policy lets through has no contribution, its own or one of its group, that is as recent as the period,
  among all that the history holds in the order of time, and the history reaches back over the whole period.
\<close>

lemma swor_respects_period:
  assumes "ComputePerTaskSworEligibility env policy tasks now = Inr names" "t \<in> set names"
    and "sorted (map upload_time (contributions (proto env) (opstats_sequence env) (counts_for env policy t)))"
  shows "t \<in> set tasks
    \<and> ConvertProtoToAbslTime (timestamp_or_zero (earliest_trustworthy_time (opstats_sequence env)))
        \<le> now - ConvertProtoToAbslDuration (min_period policy)
    \<and> (\<forall>e\<in>set (contributions (proto env) (opstats_sequence env) (counts_for env policy t)).
         upload_time e < now - ConvertProtoToAbslDuration (min_period policy))"
proof -
  let ?es = "contributions (proto env) (opstats_sequence env) (counts_for env policy t)"
  have ok: "\<forall>e\<in>set ?es. successful_upload e" by (simp add: contributions_def)
  have trusted: "\<not> trustworthiness_period (opstats_sequence env) now < ConvertProtoToAbslDuration (min_period policy)"
    using assms(1,2) by (auto simp: swor_eligible split: if_splits)
  have "t \<in> set tasks \<and> outside_period now (ConvertProtoToAbslDuration (min_period policy))
      (if ?es = [] then None else GetContributionTimeForLegacyOpStats (last ?es))"
  proof (cases "group_regex policy = []")
    case True
    then have "counts_for env policy t = (\<lambda>other. other = t)" by (simp add: counts_for_def fun_eq_iff)
    then show ?thesis using assms(1,2) trusted True by (auto simp: swor_eligible)
  next
    case False
    then obtain matches where m: "RE2 env (group_regex policy) = Some matches"
      using assms(1,2) trusted by (cases "RE2 env (group_regex policy)") (auto simp: swor_eligible)
    then have "counts_for env policy t = matches" using False by (simp add: counts_for_def fun_eq_iff)
    then show ?thesis using assms(1,2) trusted False m by (auto simp: swor_eligible split: if_splits)
  qed
  then show ?thesis using outside_last [OF _ ok assms(3)] trusted by (auto simp: trustworthiness_period_def)
qed

text \<open>
  The minimum separation policy has no effect on runs that were stored with their phases: the conversion of such a run to one entry per
  task drops the index of its contribution, so that the policy lets every task through, whatever the history, unless the
  history is too short to be trusted.
\<close>

lemma min_sep_index_lost:
  assumes "\<forall>s\<in>set (opstats (opstats_sequence env)). phase_stats s \<noteq> []"
  shows "GetLastSuccessfulContributionMinSepPolicyIndex (proto env) (opstats_sequence env) t = Inr None
    \<and> (ComputeMinimumSeparationPolicyEligibility env policy tasks now = Inr tasks
      \<or> ComputeMinimumSeparationPolicyEligibility env policy tasks now = Inr []
        \<and> trustworthiness_period (opstats_sequence env) now < ConvertProtoToAbslDuration (min_trustworthiness_period policy))"
proof -
  have lost: "min_sep_policy_index (last (contributions (proto env) (opstats_sequence env) P)) = None"
    if "contributions (proto env) (opstats_sequence env) P \<noteq> []" for P
    using last_in_set [OF that] converted_index_lost [OF _ assms] by (auto simp: contributions_def)
  then have none: "GetLastSuccessfulContributionMinSepPolicyIndex (proto env) (opstats_sequence env) t = Inr None" for t
    by (simp add: MinSepPolicyIndex_iff)
  have "ComputeMinimumSeparationPolicyEligibility env policy tasks now = Inr tasks
      \<or> ComputeMinimumSeparationPolicyEligibility env policy tasks now = Inr []
        \<and> trustworthiness_period (opstats_sequence env) now < ConvertProtoToAbslDuration (min_trustworthiness_period policy)"
    using insert_eligible_filter [of "\<lambda>_. True" tasks]
    by (simp add: ComputeMinimumSeparationPolicyEligibility_def Let_def none)
  then show ?thesis using none by blast
qed

lemma min_sep_index_lost_sample:
  "min_sep_policy_index sample_run_stats = Some 5 \<and> current_index sample_min_sep = 5 \<and> minimum_separation sample_min_sep = 100
    \<and> ComputeMinimumSeparationPolicyEligibility sample_env sample_min_sep [''train''] 1200000000000 = Inr [''train'']"
proof -
  have p: "\<forall>s\<in>set (opstats (opstats_sequence sample_env)). phase_stats s \<noteq> []" by (simp add: sample_env_def sample_run_stats_def)
  have t: "\<not> trustworthiness_period (opstats_sequence sample_env) 1200000000000 < ConvertProtoToAbslDuration (min_trustworthiness_period sample_min_sep)"
    by code_simp
  show ?thesis
    using min_sep_index_lost [OF p, of "''train''" sample_min_sep "[''train'']" 1200000000000] t
    by (simp add: sample_run_stats_def sample_min_sep_def)
qed

end
