(* ===== verification/Op_Stats_Trust.thy ===== *)
theory Op_Stats_Trust
  imports Op_Stats_Db Eligibility_Laws
begin

text \<open>
  What the database of past runs can be trusted for. In every run of the database, of all entries that were ever
  committed the ones that are missing are older than its earliest trustworthy time, up to the second that
  \<open>GetLastUpdateTime\<close> rounds off. Sampling without replacement therefore counts every run.
\<close>

section \<open>Times of a run\<close>

definition all_events :: "OperationalStats \<Rightarrow> Event list" where
  "all_events s = events s @ concat (map phase_events (phase_stats s))"

definition entry_times :: "OperationalStats \<Rightarrow> int list" where
  "entry_times s = map (\<lambda>e. ConvertProtoToAbslTime (timestamp e)) (all_events s)"

abbreviation last_time :: "OperationalStats \<Rightarrow> int" where
  "last_time s \<equiv> last (entry_times s)"

definition valid_timestamp :: "Timestamp \<Rightarrow> bool" where
  "valid_timestamp t \<longleftrightarrow> 0 \<le> nanos t \<and> nanos t < 1000000000"

text \<open>Every run has events, and the events of all runs are in the order of time.\<close>

definition chronological :: "OperationalStats list \<Rightarrow> bool" where
  "chronological H \<longleftrightarrow> sorted (concat (map entry_times H)) \<and> (\<forall>s\<in>set H. all_events s \<noteq> [] \<and> (\<forall>e\<in>set (all_events s). valid_timestamp (timestamp e)))"

definition not_after :: "int \<Rightarrow> OperationalStats list \<Rightarrow> bool" where
  "not_after now H \<longleftrightarrow> (\<forall>s\<in>set H. \<forall>t\<in>set (entry_times s). t \<le> now)"

text \<open>What the documentation of protobuf says of the conversions that are used.\<close>

definition lib_law :: "proto_lib \<Rightarrow> bool" where
  "lib_law lib \<longleftrightarrow> (\<forall>t. valid_timestamp t \<longrightarrow> TimestampToSeconds lib t = seconds t)
     \<and> (\<forall>n. ConvertProtoToAbslTime (MillisecondsToTimestamp lib n) = n * 1000000)"

text \<open>A write that succeeds can be read back; one that fails leaves the old data or data that cannot be read.\<close>

definition store_law :: "'s stats_store \<Rightarrow> bool" where
  "store_law st \<longleftrightarrow> (\<forall>d s r s'. store_Write st d s = (r, s') \<longrightarrow>
     (case r of Inr _ \<Rightarrow> store_Read st s' = Inr d | Inl _ \<Rightarrow> (\<forall>d'. store_Read st s' = Inr d' \<longrightarrow> store_Read st s = Inr d')))"

lemma sorted_concat:
  "sorted (concat (map f H)) \<Longrightarrow> i < j \<Longrightarrow> j < length H \<Longrightarrow> u \<in> set (f (H ! i)) \<Longrightarrow> t \<in> set (f (H ! j)) \<Longrightarrow> u \<le> t"
  for f :: "'a \<Rightarrow> int list"
proof (induction H arbitrary: i j)
  case (Cons s H)
  obtain j' where j: "j = Suc j'" "j' < length H" using Cons.prems by (cases j) auto
  show ?case
  proof (cases i)
    case 0
    have "t \<in> set (concat (map f H))" using Cons.prems(5) j by auto
    then show ?thesis using Cons.prems(1,4) 0 by (auto simp: sorted_append)
  next
    case (Suc i')
    then show ?thesis using Cons j by (auto simp: sorted_append)
  qed
qed simp

lemma entry_times_nonempty: "chronological H \<Longrightarrow> s \<in> set H \<Longrightarrow> entry_times s \<noteq> [] \<and> last_time s \<in> set (entry_times s)"
  by (intro conjI last_in_set) (auto simp: chronological_def entry_times_def)

lemma before_later:
  assumes "chronological H" "i < j" "j < length H" "t \<in> set (entry_times (H ! j))"
  shows "last_time (H ! i) \<le> t"
  using sorted_concat [of entry_times H i j "last_time (H ! i)" t] assms entry_times_nonempty [OF assms(1), of "H ! i"]
  by (simp add: chronological_def)

lemma last_times_sorted:
  assumes "chronological H" "i \<le> j" "j < length H"
  shows "last_time (H ! i) \<le> last_time (H ! j)"
  using assms before_later [of H i j "last_time (H ! j)"] entry_times_nonempty [OF assms(1), of "H ! j"]
  by (cases "i = j") auto

text \<open>The last update is the last event, rounded down to seconds.\<close>

lemma concat_nonempty: "xs \<noteq> [] \<Longrightarrow> \<forall>x\<in>set xs. x \<noteq> [] \<Longrightarrow> concat xs \<noteq> []"
  by (cases xs) auto

lemma last_concat_nonempty: "xs \<noteq> [] \<Longrightarrow> \<forall>x\<in>set xs. x \<noteq> [] \<Longrightarrow> last (concat xs) = last (last xs)"
  by (induction xs rule: rev_induct) auto

lemma GetLastUpdateTime_last:
  assumes "all_events s \<noteq> []"
  shows "GetLastUpdateTime lib s = Some (TimestampToSeconds lib (timestamp (last (all_events s))) * 1000000000)"
proof -
  let ?P = "\<lambda>p. phase_events p \<noteq> []"
  have c: "concat (map phase_events (phase_stats s)) = concat (map phase_events (filter ?P (phase_stats s)))"
  proof -
    have "concat (map phase_events ps) = concat (map phase_events (filter ?P ps))" for ps by (induction ps) auto
    then show ?thesis .
  qed
  show ?thesis
  proof (cases "filter ?P (phase_stats s) = []")
    case True
    then have "concat (map phase_events (phase_stats s)) = []" by (subst c) (simp only: True list.map concat.simps)
    moreover have "find ?P (rev (phase_stats s)) = None" by (simp only: find_rev_filter True if_True simp_thms)
    ultimately show ?thesis using assms by (simp add: GetLastUpdateTime_def all_events_def)
  next
    case False
    let ?xs = "map phase_events (filter ?P (phase_stats s))"
    have ne: "?xs \<noteq> []" "\<forall>x\<in>set ?xs. x \<noteq> []" using False by auto
    have "concat ?xs \<noteq> []" by (rule concat_nonempty [OF ne])
    then have "last (all_events s) = last (concat ?xs)" unfolding all_events_def by (subst c) (simp only: last_append if_False)
    also have "\<dots> = last (phase_events (last (filter ?P (phase_stats s))))"
      using last_concat_nonempty [OF ne] False by (simp add: last_map)
    finally show ?thesis using False by (simp only: GetLastUpdateTime_def find_rev_filter if_False option.case)
  qed
qed

lemma GetLastUpdateTime_bounds:
  assumes "chronological H" "s \<in> set H" "lib_law lib"
  shows "\<exists>t. GetLastUpdateTime lib s = Some (t * 1000000000) \<and> t = last_time s div 1000000000"
proof -
  have ev: "all_events s \<noteq> []" "valid_timestamp (timestamp (last (all_events s)))" using assms(1,2) by (simp_all add: chronological_def)
  let ?t = "timestamp (last (all_events s))"
  have "last_time s = ConvertProtoToAbslTime ?t" using ev(1) by (simp add: entry_times_def last_map)
  then have "last_time s div 1000000000 = seconds ?t" using ev(2) by (simp add: ConvertProtoToAbslTime_def valid_timestamp_def)
  then show ?thesis using GetLastUpdateTime_last [OF ev(1), of lib] ev(2) assms(3) by (simp add: lib_law_def)
qed

section \<open>What is missing\<close>

definition trust_time :: "OpStatsSequence \<Rightarrow> int" where
  "trust_time data = ConvertProtoToAbslTime (timestamp_or_zero (earliest_trustworthy_time data))"

text \<open>
  The data holds the runs from the \<open>k\<close>-th on, and those before it ended less than a second and a millisecond after
  the earliest trustworthy time: one is rounded off by the last update, the other by the conversion to milliseconds.
\<close>

definition trusted_from :: "nat \<Rightarrow> OperationalStats list \<Rightarrow> OpStatsSequence \<Rightarrow> bool" where
  "trusted_from k H data \<longleftrightarrow> k \<le> length H \<and> opstats data = drop k H
     \<and> (earliest_trustworthy_time data \<noteq> None \<longrightarrow> (\<forall>i<k. last_time (H ! i) < trust_time data + 1001000000))"

definition trusted :: "OperationalStats list \<Rightarrow> OpStatsSequence \<Rightarrow> bool" where
  "trusted H data \<longleftrightarrow> earliest_trustworthy_time data \<noteq> None \<and> (\<exists>k. trusted_from k H data)"

lemma filter_dropWhile: "sorted_wrt (\<lambda>x y. Q y \<longrightarrow> Q x) xs \<Longrightarrow> filter (\<lambda>x. \<not> Q x) xs = dropWhile Q xs"
proof (induction xs)
  case (Cons x xs)
  then show ?case by (cases "Q x") (auto intro: filter_True)
qed simp

lemma RemoveOutdatedData_trusted:
  assumes "trusted_from k H data" "chronological H" "lib_law lib" and trust: "earliest_trustworthy_time data \<noteq> None"
  shows "\<exists>k'. trusted_from k' H (RemoveOutdatedData lib time_to_live now data) \<and> earliest_trustworthy_time (RemoveOutdatedData lib time_to_live now data) \<noteq> None"
proof -
  define Q where "Q s = (case GetLastUpdateTime lib s of None \<Rightarrow> True | Some t \<Rightarrow> t < now - time_to_live)" for s
  have Q: "Q s \<longleftrightarrow> last_time s div 1000000000 * 1000000000 < now - time_to_live" if "s \<in> set H" for s
    using GetLastUpdateTime_bounds [OF assms(2) that assms(3)] by (auto simp: Q_def)
  have k: "k \<le> length H" "opstats data = drop k H" using assms(1) by (simp_all add: trusted_from_def)
  have "sorted_wrt (\<lambda>x y. Q y \<longrightarrow> Q x) H"
  proof (unfold sorted_wrt_iff_nth_less, intro allI impI)
    fix i j assume ij: "i < j" "j < length H" "Q (H ! j)"
    have "last_time (H ! i) div 1000000000 \<le> last_time (H ! j) div 1000000000"
      using last_times_sorted [OF assms(2), of i j] ij by (intro zdiv_mono1) simp_all
    then show "Q (H ! i)" using ij Q [of "H ! i"] Q [of "H ! j"] by simp
  qed
  then have "filter (\<lambda>s. \<not> Q s) (drop k H) = dropWhile Q (drop k H)"
    using filter_dropWhile by (metis append_take_drop_id sorted_wrt_append)
  also have "\<dots> = drop (k + length (takeWhile Q (drop k H))) H" by (simp add: dropWhile_eq_drop add.commute)
  finally have left: "filter (\<lambda>s. \<not> Q s) (drop k H) = drop (k + length (takeWhile Q (drop k H))) H" .
  define n where "n = length (takeWhile Q (drop k H))"
  have n: "k + n \<le> length H" using length_takeWhile_le [of Q "drop k H"] k(1) unfolding n_def by simp
  have gone: "Q (H ! i)" if "k \<le> i" "i < k + n" for i
  proof -
    have i: "i - k < length (takeWhile Q (drop k H))" using that by (simp add: n_def)
    then have "takeWhile Q (drop k H) ! (i - k) = H ! i" using that k(1) by (simp add: takeWhile_nth)
    then show ?thesis using nth_mem [OF i] set_takeWhileD by metis
  qed
  let ?d = "RemoveOutdatedData lib time_to_live now data"
  have d: "?d = (if n = 0 then data else data\<lparr>opstats := drop (k + n) H,
      earliest_trustworthy_time := Some (MillisecondsToTimestamp lib ((now - time_to_live) div 1000000))\<rparr>)"
    using left k n by (auto simp: RemoveOutdatedData_def Let_def Q_def [symmetric] n_def [symmetric])
  show ?thesis
  proof (cases "n = 0")
    case True
    then show ?thesis using assms(1) trust d by auto
  next
    case False
    have t: "trust_time ?d = (now - time_to_live) div 1000000 * 1000000"
      using d False assms(3) by (simp add: trust_time_def timestamp_or_zero_def lib_law_def)
    have "last_time (H ! i) < trust_time ?d + 1001000000" if "i < k + n" for i
    proof -
      have len: "k + n - 1 < length H" using False n by simp
      then have in_H: "H ! (k + n - 1) \<in> set H" by simp
      have "Q (H ! (k + n - 1))" by (rule gone) (use False in simp_all)
      then have "last_time (H ! (k + n - 1)) div 1000000000 * 1000000000 < now - time_to_live" using Q [OF in_H] by simp
      moreover have "last_time (H ! i) \<le> last_time (H ! (k + n - 1))" by (rule last_times_sorted [OF assms(2)]) (use that len in simp_all)
      ultimately show ?thesis unfolding t by linarith
    qed
    then show ?thesis using d False n by (intro exI [of _ "k + n"]) (simp add: trusted_from_def)
  qed
qed

lemma earliest_after_missing:
  assumes "chronological H" "not_after now H" "i < k" "k \<le> length H"
  shows "last_time (H ! i) \<le> ConvertProtoToAbslTime (GetEarliestTrustWorthyTime now (drop k H))"
proof -
  have "H ! i \<in> set H" using assms(3,4) by simp
  then have "last_time (H ! i) \<le> now" using assms(2) entry_times_nonempty [OF assms(1)] by (simp add: not_after_def)
  moreover have "last_time (H ! i) \<le> ConvertProtoToAbslTime (timestamp (hd (events s)))"
    if found: "find (\<lambda>s. events s \<noteq> []) (drop k H) = Some s" for s
  proof -
    obtain j where j: "j < length (drop k H)" "s = drop k H ! j" and s: "events s \<noteq> []" using found unfolding find_Some_iff by metis
    have "hd (events s) \<in> set (all_events s)" using s by (simp add: all_events_def)
    then have "ConvertProtoToAbslTime (timestamp (hd (events s))) \<in> set (entry_times (H ! (k + j)))"
      using j assms(4) by (simp add: entry_times_def)
    then show ?thesis using before_later [OF assms(1), of i "k + j"] assms(3) j(1) by simp
  qed
  ultimately show ?thesis by (auto simp: GetEarliestTrustWorthyTime_def split: option.split)
qed

lemma prune_entries_drop: "\<exists>n\<le>length xs. prune_entries lib m c xs = drop n xs"
proof (induction xs arbitrary: c)
  case (Cons x xs)
  obtain n where "n \<le> length xs" "prune_entries lib m (c - stats_ByteSizeLong lib x) xs = drop n xs" using Cons by blast
  then show ?case by (cases "c > m") (auto intro: exI [of _ "Suc n"] exI [of _ 0])
qed simp

text \<open>Pruning, and setting a time that is missing, keep the contract and leave a time that is set.\<close>

lemma Prune_trusted:
  assumes "trusted_from k H data" "chronological H" "not_after now H"
  shows "\<exists>k'. trusted_from k' H (PruneOldDataUntilBelowSizeLimit lib m now data)"
proof (cases "sequence_ByteSizeLong lib data > m")
  case True
  have k: "k \<le> length H" "opstats data = drop k H" using assms(1) by (simp_all add: trusted_from_def)
  obtain n where n: "n \<le> length H - k" "prune_entries lib m (sequence_ByteSizeLong lib data) (drop k H) = drop n (drop k H)"
    using prune_entries_drop [of "drop k H" lib m "sequence_ByteSizeLong lib data"] unfolding length_drop by blast
  have "trusted_from (k + n) H (PruneOldDataUntilBelowSizeLimit lib m now data)"
    using True k n earliest_after_missing [OF assms(2,3), of _ "k + n"]
    by (fastforce simp: PruneOldDataUntilBelowSizeLimit_def Let_def trusted_from_def trust_time_def timestamp_or_zero_def add.commute)
  then show ?thesis by blast
next
  case False
  then show ?thesis using assms(1) by (auto simp: PruneOldDataUntilBelowSizeLimit_def)
qed

lemma transform_data_trusted:
  assumes "trusted_from k H (func data)" "chronological H" "not_after (now 2) H" "not_after (now 3) H"
  shows "trusted H (transform_data db now func data)"
proof -
  let ?d = "PruneOldDataUntilBelowSizeLimit (db_lib db) (max_size_bytes db) (now 2) (func data)"
  obtain k' where k': "trusted_from k' H ?d" using Prune_trusted [OF assms(1,2,3)] by blast
  show ?thesis
  proof (cases "earliest_trustworthy_time ?d = None")
    case True
    have "k' \<le> length H" "opstats ?d = drop k' H" using k' by (simp_all add: trusted_from_def)
    then have "trusted_from k' H (?d\<lparr>earliest_trustworthy_time := Some (GetEarliestTrustWorthyTime (now 3) (opstats ?d))\<rparr>)"
      using earliest_after_missing [OF assms(2,4), of _ k']
      by (fastforce simp: trusted_from_def trust_time_def timestamp_or_zero_def)
    then show ?thesis using True by (auto simp: transform_data_def Let_def trusted_def)
  next
    case False
    then show ?thesis using k' by (auto simp: transform_data_def Let_def trusted_def)
  qed
qed

lemma add_entry_trusted: "trusted_from k H data \<Longrightarrow> trusted_from k (H @ [copy]) (add_entry copy data)"
  by (auto simp: trusted_from_def add_entry_def trust_time_def nth_append)

lemma replace_last_trusted:
  assumes "trusted_from k (H @ [old]) data"
  shows "\<exists>k'. trusted_from k' (H @ [copy]) (replace_last copy data)"
proof -
  have k: "k \<le> length H + 1" "opstats data = drop k (H @ [old])" using assms by (simp_all add: trusted_from_def)
  have before: "last_time ((H @ [copy]) ! i) < trust_time data + 1001000000"
    if "i < min k (length H)" "earliest_trustworthy_time data \<noteq> None" for i
  proof -
    have "last_time ((H @ [old]) ! i) < trust_time data + 1001000000" using assms that by (simp add: trusted_from_def)
    then show ?thesis using that(1) by (simp add: nth_append)
  qed
  have "opstats (replace_last copy data) = drop (min k (length H)) (H @ [copy])"
    using k by (cases "k \<le> length H") (simp_all add: replace_last_def add_entry_def butlast_append)
  moreover have "earliest_trustworthy_time (replace_last copy data) = earliest_trustworthy_time data"
    by (simp add: replace_last_def add_entry_def)
  ultimately have "trusted_from (min k (length H)) (H @ [copy]) (replace_last copy data)"
    using before by (simp add: trusted_from_def trust_time_def)
  then show ?thesis ..
qed

section \<open>Runs of the database\<close>

lemma ResetInternal_result:
  assumes "ResetInternal db now s = (r, s')" "store_law (db_store db)"
  shows "case r of Inr _ \<Rightarrow> store_Read (db_store db) s' = Inr (CreateEmptyData now)
    | Inl _ \<Rightarrow> (\<forall>d. store_Read (db_store db) s' = Inr d \<longrightarrow> store_Read (db_store db) s = Inr d)"
proof -
  obtain r1 s1 where w: "store_Write (db_store db) (CreateEmptyData now) s = (r1, s1)" by fastforce
  then have "case r1 of Inr _ \<Rightarrow> store_Read (db_store db) s1 = Inr (CreateEmptyData now)
      | Inl _ \<Rightarrow> (\<forall>d. store_Read (db_store db) s1 = Inr d \<longrightarrow> store_Read (db_store db) s = Inr d)"
    using assms(2) unfolding store_law_def by blast
  then show ?thesis using assms(1) w by (auto simp: ResetInternal_def split: sum.splits)
qed

lemma empty_trusted: "chronological H \<Longrightarrow> not_after now H \<Longrightarrow> trusted H (CreateEmptyData now)"
proof -
  assume c: "chronological H" "not_after now H"
  have "last_time (H ! i) < now + 1001000000" if "i < length H" for i
  proof -
    have "last_time (H ! i) \<le> now" using c(2) entry_times_nonempty [OF c(1) nth_mem [OF that]] nth_mem [OF that] by (simp add: not_after_def)
    then show ?thesis by simp
  qed
  then have "trusted_from (length H) H (CreateEmptyData now)"
    by (simp add: trusted_from_def CreateEmptyData_def trust_time_def timestamp_or_zero_def)
  then show ?thesis by (auto simp: trusted_def CreateEmptyData_def)
qed

lemma db_ReadInternal_Inr: "db_ReadInternal db s = Inr d \<longleftrightarrow> store_Read (db_store db) s = Inr d"
  by (auto simp: db_ReadInternal_def split: sum.split)

text \<open>A transformation that fails leaves data that can be trusted for the same runs.\<close>

lemma Transform_fails:
  assumes "Transform db now func s = (Inl e, s')" "store_law (db_store db)" "chronological H" "not_after (now 0) H"
    and inv: "\<forall>d. store_Read (db_store db) s = Inr d \<longrightarrow> trusted H d" and d: "store_Read (db_store db) s' = Inr d"
  shows "trusted H d"
proof (cases "db_ReadInternal db s")
  case (Inr data)
  then have "store_Write (db_store db) (transform_data db now func (RemoveOutdatedData (db_lib db) (ttl db) (now 1) data)) s = (Inl e, s')"
    using assms(1) by (simp add: Transform_def)
  then have "store_Read (db_store db) s = Inr d" using assms(2) d unfolding store_law_def by fastforce
  then show ?thesis using inv by blast
next
  case (Inl e1)
  obtain r1 s1 where reset: "ResetInternal db (now 0) s = (r1, s1)" by fastforce
  note result = ResetInternal_result [OF reset assms(2)]
  show ?thesis
  proof (cases r1)
    case r1: (Inl e2)
    then have "s' = s1" using assms(1) Inl reset by (simp add: Transform_def)
    then show ?thesis using result r1 d inv by auto
  next
    case r1: (Inr u)
    then have "store_Write (db_store db) (transform_data db now func \<lparr>opstats = [], earliest_trustworthy_time = None\<rparr>) s1 = (Inl e, s')"
      using assms(1) Inl reset by (simp add: Transform_def)
    then have "store_Read (db_store db) s1 = Inr d" using assms(2) d unfolding store_law_def by fastforce
    then show ?thesis using result r1 empty_trusted [OF assms(3,4)] by simp
  qed
qed

lemma Transform_succeeds:
  assumes "Transform db now func s = (Inr u, s')" "store_law (db_store db)" "lib_law (db_lib db)" "chronological H"
    and inv: "\<forall>d. store_Read (db_store db) s = Inr d \<longrightarrow> trusted H d"
    and func: "\<And>k d. trusted_from k H d \<Longrightarrow> \<exists>k'. trusted_from k' H' (func d)"
    and new: "chronological H'" "not_after (now 2) H'" "not_after (now 3) H'"
  shows "\<exists>d. store_Read (db_store db) s' = Inr d \<and> trusted H' d"
proof -
  obtain data s1 k where w: "store_Write (db_store db) (transform_data db now func data) s1 = (Inr u, s')" and k: "trusted_from k H data"
  proof (cases "db_ReadInternal db s")
    case (Inr data)
    then obtain k where k: "trusted_from k H data" "earliest_trustworthy_time data \<noteq> None"
      using inv by (auto simp: db_ReadInternal_Inr trusted_def)
    let ?d = "RemoveOutdatedData (db_lib db) (ttl db) (now 1) data"
    obtain k' where "trusted_from k' H ?d" using RemoveOutdatedData_trusted [OF k(1) assms(4,3) k(2)] by blast
    moreover have "store_Write (db_store db) (transform_data db now func ?d) s = (Inr u, s')"
      using assms(1) Inr by (simp add: Transform_def)
    ultimately show ?thesis using that by blast
  next
    case (Inl e1)
    obtain r1 s1 where reset: "ResetInternal db (now 0) s = (r1, s1)" by fastforce
    let ?d = "\<lparr>opstats = [], earliest_trustworthy_time = None\<rparr> :: OpStatsSequence"
    have "store_Write (db_store db) (transform_data db now func ?d) s1 = (Inr u, s')"
      using assms(1) Inl reset by (cases r1) (simp_all add: Transform_def)
    moreover have "trusted_from (length H) H ?d" by (simp add: trusted_from_def)
    ultimately show ?thesis using that by blast
  qed
  obtain k' where "trusted_from k' H' (func data)" using func [OF k] by blast
  then have "trusted H' (transform_data db now func data)" by (rule transform_data_trusted [OF _ new])
  moreover have "store_Read (db_store db) s' = Inr (transform_data db now func data)"
    using assms(2) w unfolding store_law_def by fastforce
  ultimately show ?thesis by blast
qed

text \<open>What a logger does between two commits: any of its operations, in any order.\<close>

inductive logged :: "OpStatsLoggerImpl \<Rightarrow> OpStatsLoggerImpl \<Rightarrow> bool" for l0 where
  nothing: "logged l0 l0"
| event: "logged l0 l \<Longrightarrow> logged l0 (AddEvent time kind l)"
| task_event: "logged l0 l \<Longrightarrow> logged l0 (AddEventAndSetTaskName time name kind l)"
| error_event: "logged l0 l \<Longrightarrow> logged l0 (AddEventWithErrorMessage time kind message l)"
| min_sep: "logged l0 l \<Longrightarrow> logged l0 (SetMinSepPolicyIndex index l)"
| first_access: "logged l0 l \<Longrightarrow> logged l0 (RecordCollectionFirstAccessTime uri access l)"
| dataset: "logged l0 l \<Longrightarrow> logged l0 (UpdateDatasetStats uri example_count example_size l)"
| network: "logged l0 l \<Longrightarrow> logged l0 (SetNetworkStats net l)"
| retry: "logged l0 l \<Longrightarrow> logged l0 (SetRetryWindow window l)"
| start_phase: "logged l0 l \<Longrightarrow> logged l0 (StartLoggingForPhase new_phase l)"
| stop_phase: "logged l0 l \<Longrightarrow> logged l0 (StopLoggingForTheCurrentPhase l)"

lemmas logger_defs = AddEvent_def AddEventAndSetTaskName_def AddEventWithErrorMessage_def AddNewEventToStats_def
  AddNewEventToCurrentPhaseStats_def SetMinSepPolicyIndex_def RecordCollectionFirstAccessTime_def UpdateDatasetStats_def
  SetNetworkStats_def SetRetryWindow_def StartLoggingForPhase_def StopLoggingForTheCurrentPhase_def flush_phase_def Let_def

lemma logged_committed: "logged l0 l \<Longrightarrow> already_committed l = already_committed l0"
  by (induction rule: logged.induct) (simp_all add: logger_defs)

text \<open>What is logged later keeps the events that a commit has stored.\<close>

lemma logged_keeps_events: "logged l0 l \<Longrightarrow> set (all_events (commit_copy l0)) \<subseteq> set (all_events (commit_copy l))"
proof (induction rule: logged.induct)
  case nothing
  then show ?case by simp
qed (auto simp: logger_defs commit_copy_def in_phase_def all_events_def split: if_splits)

text \<open>
  A database that was created, the runs that were committed to it, each as its logger committed it last, and the current logger
  once it has committed. Each commit is later than all events. A logger that has committed may log on and commit again, which
  replaces its own entry. A logger whose first commit failed makes no second one here: it would replace the entry of another run.
\<close>

inductive db_run :: "'s PdsBackedOpStatsDb \<Rightarrow> OperationalStats list \<Rightarrow> OpStatsLoggerImpl option \<Rightarrow> 's \<Rightarrow> bool" for db where
  created: "Create_db db base_dir dirs get_size time (locks, s) = (Inr (), locks', s') \<Longrightarrow> get_size s = Inr 0 \<Longrightarrow> db_run db [] None s'"
| new_logger: "db_run db H own s \<Longrightarrow> db_run db H None s"
| looked_at: "db_run db H own s \<Longrightarrow> not_after time H \<Longrightarrow> db_Read db time s = (r, s') \<Longrightarrow> db_run db H own s'"
| failed: "db_run db H own s \<Longrightarrow> not_after (now 0) H \<Longrightarrow> CommitToStorage db now l s = (Inl e, l', s') \<Longrightarrow> db_run db H own s'"
| committed: "db_run db H own s \<Longrightarrow> \<not> already_committed l \<Longrightarrow> CommitToStorage db now l s = (Inr (), l', s')
    \<Longrightarrow> chronological (H @ [commit_copy l]) \<Longrightarrow> \<forall>k. not_after (now k) (H @ [commit_copy l]) \<Longrightarrow> db_run db (H @ [commit_copy l]) (Some l') s'"
| recommitted: "db_run db (H @ [old]) (Some l0) s \<Longrightarrow> logged l0 l \<Longrightarrow> CommitToStorage db now l s = (Inr (), l', s')
    \<Longrightarrow> chronological (H @ [commit_copy l]) \<Longrightarrow> \<forall>k. not_after (now k) (H @ [commit_copy l]) \<Longrightarrow> db_run db (H @ [commit_copy l]) (Some l') s'"

lemma db_run_own:
  assumes "db_run db H own s" "own = Some l0"
  shows "already_committed l0 \<and> (\<exists>H'. H = H' @ [commit_copy l0])"
  using assms
  by (induction arbitrary: l0) (auto simp: CommitToStorage_def commit_copy_def in_phase_def Let_def split: prod.splits if_splits)

lemma CommitToStorage_Transform:
  "CommitToStorage db now l s = (r, l', s')
    \<Longrightarrow> Transform db now (if already_committed l then replace_last (commit_copy l) else add_entry (commit_copy l)) s = (r, s')"
  by (auto simp: CommitToStorage_def Let_def split: prod.splits)

lemma db_run_trusted:
  assumes "db_run db H own s" and laws: "store_law (db_store db)" "lib_law (db_lib db)"
  shows "chronological H \<and> (\<forall>d. store_Read (db_store db) s = Inr d \<longrightarrow> trusted H d)"
  using assms(1)
proof induction
  case (created base_dir dirs get_size time locks s locks' s')
  then obtain s1 where "store_Write (db_store db) (CreateEmptyData time) s1 = (Inr (), s')"
    by (auto simp: Create_db_def Let_def split: if_splits sum.splits prod.splits)
  then have "store_Read (db_store db) s' = Inr (CreateEmptyData time)" using laws(1) unfolding store_law_def by fastforce
  moreover have "chronological []" "not_after time []" by (simp_all add: chronological_def not_after_def)
  ultimately show ?case using empty_trusted by auto
next
  case (looked_at H own s time r s')
  show ?case
  proof (cases "db_ReadInternal db s")
    case (Inl e)
    have "s' = snd (ResetInternal db time s)" using looked_at(3) Inl by (simp add: db_Read_def)
    then obtain r1 where reset: "ResetInternal db time s = (r1, s')" by (metis prod.collapse)
    then show ?thesis
      using ResetInternal_result [OF reset laws(1)] looked_at.IH empty_trusted looked_at(2) by (cases r1) auto
  qed (use looked_at in \<open>auto simp: db_Read_def\<close>)
next
  case (failed H own s now l e l' s')
  then show ?case using Transform_fails [OF CommitToStorage_Transform [OF failed(3)] laws(1)] by blast
next
  case (committed H own s l now l' s')
  have "\<exists>k'. trusted_from k' (H @ [commit_copy l]) (add_entry (commit_copy l) d)" if "trusted_from k H d" for k d
    using add_entry_trusted [OF that] by blast
  then show ?case
    using Transform_succeeds [OF CommitToStorage_Transform [OF committed(3)] laws, of H "H @ [commit_copy l]"] committed by auto
next
  case (recommitted H old l0 s l now l' s')
  have l: "already_committed l" using db_run_own [OF recommitted(1)] logged_committed [OF recommitted(2)] by simp
  have "\<exists>k'. trusted_from k' (H @ [commit_copy l]) (replace_last (commit_copy l) d)" if "trusted_from k (H @ [old]) d" for k d
    using replace_last_trusted [OF that] by blast
  then show ?case
    using Transform_succeeds [OF CommitToStorage_Transform [OF recommitted(3)] laws, of "H @ [old]" "H @ [commit_copy l]"] recommitted l by auto
qed

section \<open>Contributions of a run\<close>

text \<open>The entries that a run is split into have no events but those of the run.\<close>

definition phases_of :: "per_task_loop \<Rightarrow> PhaseStats set" where
  "phases_of s = set (concat (per_task_stats s)) \<union> set (pre_task_assignment_stats s) \<union> {latest_task_assignment_stats s} \<union> set (pending_stats s)"

lemma per_task_phases: "phases_of (fold per_task_step ps s) \<subseteq> phases_of s \<union> set ps"
proof (induction ps arbitrary: s)
  case (Cons p ps)
  have "phases_of (per_task_step p s) \<subseteq> phases_of s \<union> {p}"
    unfolding phases_of_def by (cases "phase p") (auto simp: per_task_step_def)
  then show ?case using Cons [of "per_task_step p s"] by auto
qed simp

lemma GeneratePerTaskStats_phases:
  assumes "per_task \<in> set (GeneratePerTaskStats s)" "p \<in> set per_task"
  shows "p = new_PhaseStats \<or> p \<in> set (phase_stats s)"
proof -
  let ?init = "\<lparr>per_task_stats = [], pre_task_assignment_stats = [], latest_task_assignment_stats = new_PhaseStats, pending_stats = []\<rparr>"
  let ?r = "fold per_task_step (phase_stats s) ?init"
  have "p \<in> phases_of ?r"
    using assms by (auto simp: GeneratePerTaskStats_def Let_def phases_of_def split: if_splits)
  moreover have "phases_of ?init = {new_PhaseStats}" by (simp add: phases_of_def)
  ultimately show ?thesis using per_task_phases [of "phase_stats s" ?init] by auto
qed

lemma legacy_fold_events: "events (fold legacy_step ps s) = events s @ concat (map phase_events ps)"
  by (induction ps arbitrary: s) (simp_all add: legacy_step_def Let_def)

lemma legacy_events:
  assumes "entry \<in> set (legacy_of_stats lib s)"
  shows "set (events entry) \<subseteq> set (all_events s)"
proof (cases "phase_stats s = []")
  case True
  then show ?thesis using assms by (simp add: legacy_of_stats_def all_events_def)
next
  case False
  then obtain per_task window where p: "per_task \<in> set (GeneratePerTaskStats s)"
      "entry = CreateLegacyOperationalStats lib (population_name s) (session_name s) window per_task"
    using assms by (auto simp: legacy_of_stats_def)
  have "events entry = concat (map phase_events per_task)"
    by (simp add: p(2) CreateLegacyOperationalStats_def Let_def legacy_fold_events new_OperationalStats_def)
  moreover have "set (phase_events q) \<subseteq> set (all_events s)" if "q \<in> set per_task" for q
    using GeneratePerTaskStats_phases [OF p(1) that] by (auto simp: all_events_def new_PhaseStats_def)
  ultimately show ?thesis by auto
qed

lemma upload_time_before_last:
  assumes "entry \<in> set (legacy_of_stats lib run)" "successful_upload entry" "chronological H" "run \<in> set H"
  shows "upload_time entry \<le> last_time run"
proof -
  obtain e where "find (\<lambda>e. event_type e = EVENT_KIND_RESULT_UPLOAD_STARTED) (events entry) = Some e"
    using contribution_time_some [OF assms(2)] by (auto simp: GetContributionTimeForLegacyOpStats_def)
  then have "upload_time entry = ConvertProtoToAbslTime (timestamp e)" "e \<in> set (events entry)"
    by (simp add: upload_time_def GetContributionTimeForLegacyOpStats_def) (metis \<open>find _ _ = Some e\<close> find_Some_iff nth_mem)
  then have "upload_time entry \<in> set (entry_times run)" using legacy_events [OF assms(1)] by (auto simp: entry_times_def)
  moreover have "sorted (entry_times run)"
    using assms(3,4) by (auto simp: chronological_def in_set_conv_decomp [of run] sorted_append)
  ultimately show ?thesis by (rule sorted_last [rotated])
qed

section \<open>A small database\<close>

text \<open>A store whose state is what it holds and how many more writes fail.\<close>

type_synonym sample_disk = "OpStatsSequence option \<times> bool list"

definition sample_stats_store :: "sample_disk stats_store" where
  "sample_stats_store = \<lparr>
     store_Read = (\<lambda>s. case fst s of None \<Rightarrow> Inl (Status INTERNAL ''empty'') | Some d \<Rightarrow> Inr d),
     store_Write = (\<lambda>d s. case snd s of
        True # rest \<Rightarrow> (Inl (Status INTERNAL ''full''), fst s, rest)
      | False # rest \<Rightarrow> (Inr (), Some d, rest)
      | [] \<Rightarrow> (Inr (), Some d, []))\<rparr>"

definition sample_db :: "sample_disk PdsBackedOpStatsDb" where
  "sample_db = \<lparr>db_store = sample_stats_store, db_lib = sample_lib, ttl = 2000000000000, max_size_bytes = 1000\<rparr>"

definition sample_disk_created :: sample_disk where
  "sample_disk_created = (Some (CreateEmptyData 0), [])"

definition sample_logger :: OpStatsLoggerImpl where
  "sample_logger = (new_OpStatsLoggerImpl True ''s'' ''p'')\<lparr>stats := sample_run_stats\<rparr>"

definition sample_committed :: sample_disk where
  "sample_committed = snd (snd (CommitToStorage sample_db (\<lambda>_. 1000000000000) sample_logger sample_disk_created))"

text \<open>A later run of another task, on a disk that refuses one write.\<close>

definition later_logger :: OpStatsLoggerImpl where
  "later_logger = AddEventAndSetTaskName (at_second 1100) ''eval'' EVENT_KIND_RESULT_UPLOAD_STARTED
     (StartLoggingForPhase UPLOAD (new_OpStatsLoggerImpl True ''s'' ''p''))"

lemma sample_store_law: "store_law (db_store sample_db)"
  by (auto simp: store_law_def sample_db_def sample_stats_store_def split: list.splits bool.splits option.splits)

lemma sample_lib_law: "lib_law (db_lib sample_db)"
  by (simp add: lib_law_def sample_db_def sample_lib_def)

lemma sample_db_run: "\<exists>l. db_run sample_db [sample_run_stats] (Some l) sample_committed"
proof -
  have create: "Create_db sample_db ''/d'' (\<lambda>_. None) (\<lambda>_. Inr 0) 0 (\<lparr>files_in_use = [], open_fails = (\<lambda>_. False), flock_fails = (\<lambda>_. False)\<rparr>, None, [])
      = (Inr (), \<lparr>files_in_use = [''/d/fcp/opstats/opstats.pb''], open_fails = (\<lambda>_. False), flock_fails = (\<lambda>_. False)\<rparr>, sample_disk_created)"
    by (simp add: Create_db_def AcquireFileLock_def is_absolute_def path_join_def sample_db_def sample_stats_store_def sample_disk_created_def)
  then have run: "db_run sample_db [] None sample_disk_created" by (rule db_run.created) simp
  have "fst (CommitToStorage sample_db (\<lambda>_. 1000000000000) sample_logger sample_disk_created) = Inr ()" by code_simp
  then obtain l' where commit: "CommitToStorage sample_db (\<lambda>_. 1000000000000) sample_logger sample_disk_created = (Inr (), l', sample_committed)"
    unfolding sample_committed_def by (metis prod.collapse)
  have copy: "commit_copy sample_logger = sample_run_stats"
    by (simp add: commit_copy_def in_phase_def sample_logger_def new_OpStatsLoggerImpl_def new_PhaseStats_def)
  have "chronological [sample_run_stats] \<and> not_after 1000000000000 [sample_run_stats]"
    by (simp add: chronological_def not_after_def entry_times_def all_events_def sample_run_stats_def at_second_def
        valid_timestamp_def ConvertProtoToAbslTime_def new_PhaseStats_def new_OperationalStats_def)
  then have "db_run sample_db ([] @ [commit_copy sample_logger]) (Some l') sample_committed"
    by (intro db_run.committed [OF run _ commit]) (simp_all add: copy, simp add: sample_logger_def new_OpStatsLoggerImpl_def)
  then show ?thesis by (auto simp: copy)
qed

section \<open>Properties\<close>

text \<open>
  C24. Sampling without replacement counts every run, also those that the database has dropped since. Let the runs be committed in
  the order of time, and none by a logger whose first commit failed. Then, whatever was committed, expired, pruned or lost by a
  failed read, when the policy lets a task through at some time, no run of the history of commits has contributed to the task or to
  its group within the period before that time, up to 1.001 seconds: the second and the millisecond that the times of last
  update and of the earliest trustworthy time are rounded by.
\<close>

theorem swor_counts_all_runs:
  assumes run: "db_run db H own s" and laws: "store_law (db_store db)" "lib_law (db_lib db)"
    and env: "proto env = db_lib db" "fst (db_Read db time s) = Inr (opstats_sequence env)"
    and sorted: "sorted (map upload_time (contributions (proto env) (opstats_sequence env) (counts_for env policy t)))"
    and eligible: "ComputePerTaskSworEligibility env policy tasks now = Inr names" "t \<in> set names"
    and contribution: "r \<in> set H" "entry \<in> set (legacy_of_stats (proto env) r)" "successful_upload entry" "counts_for env policy t (task_name entry)"
  shows "upload_time entry < now - ConvertProtoToAbslDuration (min_period policy) + 1001000000"
proof -
  let ?data = "opstats_sequence env"
  have "store_Read (db_store db) s = Inr ?data"
    using env(2) by (auto simp: db_Read_def db_ReadInternal_Inr [symmetric] split: sum.splits)
  then obtain k where chron: "chronological H" and k: "trusted_from k H ?data" "earliest_trustworthy_time ?data \<noteq> None"
    using db_run_trusted [OF run laws] by (auto simp: trusted_def)
  obtain i where i: "i < length H" "r = H ! i" using contribution(1) by (metis in_set_conv_nth)
  note period = swor_respects_period [OF eligible sorted]
  show ?thesis
  proof (cases "i < k")
    case True
    then have "last_time r < trust_time ?data + 1001000000" using k i(2) by (simp add: trusted_from_def)
    moreover have "upload_time entry \<le> last_time r" by (rule upload_time_before_last [OF contribution(2,3) chron contribution(1)])
    ultimately show ?thesis using period by (simp add: trust_time_def)
  next
    case False
    have "drop k H ! (i - k) = H ! i" "i - k < length (drop k H)" using False i(1) by simp_all
    then have "r \<in> set (opstats ?data)" using nth_mem [of "i - k" "drop k H"] k(1) i(2) by (simp add: trusted_from_def)
    then have "entry \<in> set (contributions (proto env) ?data (counts_for env policy t))"
      using contribution(2,3,4) by (auto simp: contributions_def ConvertToLegacyOperationalStats_def)
    then show ?thesis using period by auto
  qed
qed

definition later_env :: eligibility_env where
  "later_env = sample_env\<lparr>opstats_sequence := \<lparr>opstats = [sample_run_stats], earliest_trustworthy_time = Some (at_second 0)\<rparr>\<rparr>"

theorem swor_counts_all_runs_witness:
  "upload_time (hd (legacy_of_stats sample_lib sample_run_stats)) < 1600000000000 - 500000000000 + 1001000000"
proof -
  let ?entry = "hd (legacy_of_stats sample_lib sample_run_stats)"
  have all: "?entry \<in> set (legacy_of_stats sample_lib sample_run_stats) \<and> successful_upload ?entry \<and> task_name ?entry = ''train''" by code_simp
  have env: "proto later_env = db_lib sample_db" by (simp add: later_env_def sample_env_def sample_db_def)
  have read: "fst (db_Read sample_db 0 sample_committed) = Inr (opstats_sequence later_env)" by code_simp
  have run: "ComputePerTaskSworEligibility later_env sample_swor [''train''] 1600000000000 = Inr [''train'']" by code_simp
  have sorted: "sorted (map upload_time (contributions (proto later_env) (opstats_sequence later_env) (counts_for later_env sample_swor ''train'')))"
    by code_simp
  have d: "ConvertProtoToAbslDuration (min_period sample_swor) = 500000000000" by code_simp
  have lib: "db_lib sample_db = sample_lib" by (simp add: sample_db_def)
  have counts: "counts_for later_env sample_swor ''train'' (task_name ?entry)" using all by (simp add: counts_for_def sample_swor_def)
  obtain l where db: "db_run sample_db [sample_run_stats] (Some l) sample_committed" using sample_db_run by blast
  show ?thesis
    using swor_counts_all_runs [OF db sample_store_law sample_lib_law env read sorted run, of sample_run_stats ?entry] all counts
    by (simp add: env lib d)
qed

text \<open>
  C25. A logger whose first commit failed overwrites the entry of the run before it with its second one: the failed commit counts
  as made, so the second replaces the last entry of the database, whosever it is. The earliest trustworthy time stays
  where it was, so that the loss of the run, and of its contribution, does not show.
\<close>

theorem failed_commit_overwrites:
  assumes "CommitToStorage db now l s = (Inl e, l1, s1)" "CommitToStorage db now' l1 s1 = (Inr (), l2, s2)" "store_law (db_store db)"
    and data: "store_Read (db_store db) s1 = Inr data" "opstats data = runs @ [previous]" "earliest_trustworthy_time data \<noteq> None"
    and fits: "RemoveOutdatedData (db_lib db) (ttl db) (now' 1) data = data"
      "sequence_ByteSizeLong (db_lib db) (replace_last (commit_copy l) data) \<le> max_size_bytes db"
  shows "\<exists>d. store_Read (db_store db) s2 = Inr d \<and> opstats d = runs @ [commit_copy l]
    \<and> earliest_trustworthy_time d = earliest_trustworthy_time data"
proof -
  have "l1 = l\<lparr>already_committed := True\<rparr>" using assms(1) by (auto simp: CommitToStorage_def Let_def split: prod.splits)
  then have l1: "already_committed l1" "commit_copy l1 = commit_copy l" by (simp_all add: commit_copy_def in_phase_def)
  let ?d = "transform_data db now' (replace_last (commit_copy l)) data"
  have "store_Write (db_store db) ?d s1 = (Inr (), s2)"
    using CommitToStorage_Transform [OF assms(2)] l1 data(1) fits(1) by (simp add: Transform_def db_ReadInternal_def)
  then have "store_Read (db_store db) s2 = Inr ?d" using assms(3) unfolding store_law_def by fastforce
  moreover have "?d = replace_last (commit_copy l) data"
    using fits(2) data(3) by (simp add: transform_data_def PruneOldDataUntilBelowSizeLimit_def replace_last_def add_entry_def Let_def)
  ultimately show ?thesis using data(2) by (simp add: replace_last_def add_entry_def)
qed

theorem failed_commit_overwrites_witness:
  "\<exists>l1 s1 l2 s2 e d. opstats (opstats_sequence later_env) = [sample_run_stats]
    \<and> CommitToStorage sample_db (\<lambda>_. 1100000000000) later_logger (Some (opstats_sequence later_env), [True]) = (Inl e, l1, s1)
    \<and> CommitToStorage sample_db (\<lambda>_. 1100000000000) l1 s1 = (Inr (), l2, s2)
    \<and> store_Read (db_store sample_db) s2 = Inr d \<and> opstats d = [commit_copy later_logger]
    \<and> earliest_trustworthy_time d = Some (at_second 0)"
proof -
  let ?s = "(Some (opstats_sequence later_env), [True]) :: sample_disk" and ?s1 = "(Some (opstats_sequence later_env), []) :: sample_disk"
  let ?l1 = "later_logger\<lparr>already_committed := True\<rparr>"
  obtain e where first: "CommitToStorage sample_db (\<lambda>_. 1100000000000) later_logger ?s = (Inl e, ?l1, ?s1)"
    by (simp add: CommitToStorage_def Transform_def Let_def db_ReadInternal_def sample_db_def sample_stats_store_def)
  have "fst (CommitToStorage sample_db (\<lambda>_. 1100000000000) ?l1 ?s1) = Inr ()" by code_simp
  then obtain l2 s2 where second: "CommitToStorage sample_db (\<lambda>_. 1100000000000) ?l1 ?s1 = (Inr (), l2, s2)" by (metis prod.collapse)
  have read: "store_Read (db_store sample_db) ?s1 = Inr (opstats_sequence later_env)" by (simp add: sample_db_def sample_stats_store_def)
  have data: "opstats (opstats_sequence later_env) = [] @ [sample_run_stats]" "earliest_trustworthy_time (opstats_sequence later_env) = Some (at_second 0)"
    by (simp_all add: later_env_def)
  have "RemoveOutdatedData (db_lib sample_db) (ttl sample_db) 1100000000000 (opstats_sequence later_env) = opstats_sequence later_env"
    "sequence_ByteSizeLong (db_lib sample_db) (replace_last (commit_copy later_logger) (opstats_sequence later_env)) \<le> max_size_bytes sample_db"
    by code_simp+
  then obtain d where "store_Read (db_store sample_db) s2 = Inr d" "opstats d = [] @ [commit_copy later_logger]"
      "earliest_trustworthy_time d = earliest_trustworthy_time (opstats_sequence later_env)"
    using failed_commit_overwrites [OF first second sample_store_law read data(1)] data(2) by auto
  then show ?thesis using first second data by (metis append_Nil)
qed

end
