(* ===== verification/Op_Stats_Examples.thy ===== *)
theory Op_Stats_Examples
  imports Op_Stats_Db Eligibility
begin

text \<open>
  \<open>fcp/client/opstats/opstats_example_store.cc\<close>: the history as a collection of examples. A \<open>tensorflow::Example\<close> is its
  map of features; its serialisation and the unpacking of the selection criteria are parameters.
\<close>

datatype Feature = BytesList "string list" | Int64List "int list"

definition millis_or_zero :: "proto_lib \<Rightarrow> Duration option \<Rightarrow> int" where
  "millis_or_zero lib d = DurationToMilliseconds lib (case d of None \<Rightarrow> \<lparr>duration_seconds = 0, duration_nanos = 0\<rparr> | Some d \<Rightarrow> d)"

definition CreateExample :: "proto_lib \<Rightarrow> OperationalStats \<Rightarrow> int \<Rightarrow> (string \<times> Feature) list" where
  "CreateExample lib op_stats earliest_trustworthy =
     (let window = (case retry_window op_stats of None \<Rightarrow> new_RetryWindow | Some w \<Rightarrow> w) in
      [(''population_name'', BytesList [population_name op_stats]),
       (''session_name'', BytesList [session_name op_stats]),
       (''task_name'', BytesList [task_name op_stats]),
       (''events-event_type'', Int64List (map event_type (events op_stats))),
       (''events-timestamp'', Int64List (map (\<lambda>e. TimestampToMilliseconds lib (timestamp e)) (events op_stats))),
       (''dataset_stats-uri'', BytesList (map fst (dataset_stats op_stats))),
       (''dataset_stats-num_examples_read'', Int64List (map (num_examples_read \<circ> snd) (dataset_stats op_stats))),
       (''dataset_stats-num_bytes_read'', Int64List (map (num_bytes_read \<circ> snd) (dataset_stats op_stats))),
       (''error_message'', BytesList [stats_error_message op_stats]),
       (''retry_window-delay_min'', Int64List [millis_or_zero lib (delay_min window)]),
       (''retry_window-delay_max'', Int64List [millis_or_zero lib (delay_max window)]),
       (''chunking_layer_bytes_downloaded'', Int64List [chunking_layer_bytes_downloaded op_stats]),
       (''chunking_layer_bytes_uploaded'', Int64List [chunking_layer_bytes_uploaded op_stats]),
       (''network_duration'', Int64List [millis_or_zero lib (network_duration op_stats)]),
       (''earliest_trustworthy_time'', Int64List [earliest_trustworthy]),
       (''supports_neet_context'', Int64List [1])])"

record OpStatsExampleIterator =
  next_index :: int
  iterator_data :: "OperationalStats list"
  earliest_trustworthy_time_millis :: int

definition Next :: "proto_lib \<Rightarrow> OpStatsExampleIterator \<Rightarrow> (string \<times> Feature) list status_or \<times> OpStatsExampleIterator" where
  "Next lib it =
     (if iterator_data it = [] \<and> next_index it = 0
      then (Inr (CreateExample lib new_OperationalStats (earliest_trustworthy_time_millis it)), it\<lparr>next_index := next_index it + 1\<rparr>)
      else if next_index it < 0 \<or> next_index it \<ge> int (length (iterator_data it))
      then (Inl (Status OUT_OF_RANGE ''The iterator is out of range.''), it)
      else (Inr (CreateExample lib (iterator_data it ! nat (next_index it)) (earliest_trustworthy_time_millis it)),
            it\<lparr>next_index := next_index it + 1\<rparr>))"

definition Close :: "OpStatsExampleIterator \<Rightarrow> OpStatsExampleIterator" where
  "Close it = it\<lparr>next_index := 0, iterator_data := []\<rparr>"

record OpStatsSelectionCriteria =
  start_time :: "Timestamp option"
  end_time :: "Timestamp option"
  last_successful_contribution :: bool

definition opstats_CanHandle :: "ExampleSelector \<Rightarrow> bool" where
  "opstats_CanHandle example_selector \<longleftrightarrow> collection_uri example_selector = ''internal:/opstats''"

text \<open>The criteria of a selector may be missing, or not be of the right type.\<close>

definition opstats_CreateExampleIterator ::
  "'s PdsBackedOpStatsDb \<Rightarrow> OpStatsLoggerImpl \<Rightarrow> (ExampleSelector \<Rightarrow> OpStatsSelectionCriteria option option) \<Rightarrow> int \<Rightarrow> ExampleSelector \<Rightarrow> 's
    \<Rightarrow> OpStatsExampleIterator status_or \<times> 's" where
  "opstats_CreateExampleIterator db logger unpack now example_selector s =
     (if collection_uri example_selector \<noteq> ''internal:/opstats''
      then (Inl (Status INVALID_ARGUMENT (''The collection uri is '' @ collection_uri example_selector
              @ '', which is not the expected uri: internal:/opstats'')), s)
      else case (case unpack example_selector of None \<Rightarrow> Inr \<lparr>start_time = None, end_time = None, last_successful_contribution = False\<rparr>
                 | Some None \<Rightarrow> Inl (Status INVALID_ARGUMENT ''Unable to parse selection criteria.'')
                 | Some (Some crit) \<Rightarrow> Inr crit) of
        Inl e \<Rightarrow> (Inl e, s)
      | Inr crit \<Rightarrow>
          let lower = map_option (TimestampToMilliseconds (db_lib db)) (start_time crit);
              upper = map_option (TimestampToMilliseconds (db_lib db)) (end_time crit)
          in if (case (lower, upper) of (Some l, Some u) \<Rightarrow> l > u | _ \<Rightarrow> False)
             then (Inl (Status INVALID_ARGUMENT ''Invalid selection criteria: start_time is after end_time.''), s)
             else case db_Read db now s of
               (Inl e, s) \<Rightarrow> (Inl e, s)
             | (Inr data, s) \<Rightarrow>
                 (and_then (if last_successful_contribution crit
                            then and_then (GetLastSuccessfulContribution (db_lib db) data (GetCurrentTaskName logger)) (\<lambda>entry.
                              Inr (case entry of None \<Rightarrow> [] | Some e \<Rightarrow> [e]))
                            else Inr (GetOperationalStatsForTimeRange (db_lib db) data lower upper))
                    (\<lambda>selected_data. Inr \<lparr>next_index = 0, iterator_data = selected_data, earliest_trustworthy_time_millis =
                        TimestampToMilliseconds (db_lib db) (timestamp_or_zero (earliest_trustworthy_time data))\<rparr>), s))"

text \<open>An iterator returns the selected entries in order, or one example that tells the earliest trustworthy time, and then ends.\<close>

fun drain :: "proto_lib \<Rightarrow> nat \<Rightarrow> OpStatsExampleIterator \<Rightarrow> (string \<times> Feature) list list" where
  "drain lib 0 it = []"
| "drain lib (Suc n) it = (case Next lib it of (Inl _, _) \<Rightarrow> [] | (Inr x, it) \<Rightarrow> x # drain lib n it)"

lemma drain_from:
  assumes "iterator_data it \<noteq> []" "next_index it = int i" "length (iterator_data it) - i \<le> n"
  shows "drain lib n it = map (\<lambda>s. CreateExample lib s (earliest_trustworthy_time_millis it)) (drop i (iterator_data it))"
  using assms
proof (induction n arbitrary: it i)
  case (Suc n)
  show ?case
  proof (cases "i < length (iterator_data it)")
    case True
    have "Next lib it = (Inr (CreateExample lib (iterator_data it ! i) (earliest_trustworthy_time_millis it)), it\<lparr>next_index := int i + 1\<rparr>)"
      using True Suc.prems by (simp add: Next_def)
    moreover have "drain lib n (it\<lparr>next_index := int i + 1\<rparr>)
        = map (\<lambda>s. CreateExample lib s (earliest_trustworthy_time_millis it)) (drop (Suc i) (iterator_data it))"
      using Suc.IH [of "it\<lparr>next_index := int i + 1\<rparr>" "Suc i"] Suc.prems by simp
    ultimately show ?thesis using True by (simp add: Cons_nth_drop_Suc [symmetric])
  next
    case False
    then show ?thesis using Suc.prems by (simp add: Next_def)
  qed
qed simp

lemma iterator_returns_all:
  assumes "next_index it = 0" "length (iterator_data it) < n"
  shows "drain lib n it = map (\<lambda>s. CreateExample lib s (earliest_trustworthy_time_millis it))
    (if iterator_data it = [] then [new_OperationalStats] else iterator_data it)"
proof (cases "iterator_data it = []")
  case True
  then obtain m where "n = Suc m" using assms(2) by (cases n) auto
  then show ?thesis using True assms(1) by (cases m) (simp_all add: Next_def)
next
  case False
  then show ?thesis using drain_from [of it 0 n] assms by simp
qed

end
