(* ===== verification/Server_Callbacks.thy ===== *)
theory Server_Callbacks
  imports Server_States Accumulator
begin

text \<open>
  \<open>SetAsyncCallback\<close> of \<open>SecAggServer\<close> and of its states: a host asks to be called once the background work of round 2 or of the
  PRNG stage is done. The base class refuses, round 2 forwards to the accumulator of the masked inputs, the PRNG state keeps the
  callback until the accumulator of the masks has finished or, after that, gives it to the scheduler at once.
\<close>

record ('v, 'cb) server_callbacks =
  async_token :: "('v, 'cb) Accumulator option"
  prng_done_callback :: "'cb option"
  scheduled_callbacks :: "'cb list"
  called_callbacks :: "'cb list"

definition R2_SetAsyncCallback :: "'cb \<Rightarrow> ('v, 'cb) server_callbacks \<Rightarrow> bool \<times> ('v, 'cb) server_callbacks" where
  "R2_SetAsyncCallback cb s =
     (case async_token s of
        None \<Rightarrow> (False, s)
      | Some a \<Rightarrow> let (result, now, a) = SetAsyncObserver cb a
                  in (result, s\<lparr>async_token := Some a, scheduled_callbacks := scheduled_callbacks s @ case_option [] (\<lambda>cb. [cb]) now\<rparr>))"

text \<open>\<open>None\<close> is the null function, which the PRNG state refuses.\<close>

definition Prng_SetAsyncCallback ::
  "'cb option \<Rightarrow> SecAggServerState \<Rightarrow> ('v, 'cb) server_callbacks \<Rightarrow> (bool \<times> ('v, 'cb) server_callbacks) status_or" where
  "Prng_SetAsyncCallback cb st s =
     (case cb of
        None \<Rightarrow> Inl CheckFailed
      | Some cb \<Rightarrow>
          Inr (True, if completion_status st \<noteq> None then s\<lparr>scheduled_callbacks := scheduled_callbacks s @ [cb]\<rparr>
                     else s\<lparr>prng_done_callback := Some cb\<rparr>))"

definition server_SetAsyncCallback ::
  "'cb option \<Rightarrow> SecAggServerState \<Rightarrow> ('v, 'cb option) server_callbacks \<Rightarrow> (bool \<times> ('v, 'cb option) server_callbacks) status_or" where
  "server_SetAsyncCallback cb st s =
     (case state_kind st of
        R2_MASKED_INPUT_COLLECTION \<Rightarrow> Inr (R2_SetAsyncCallback cb s)
      | PRNG_RUNNING \<Rightarrow> Prng_SetAsyncCallback (map_option Some cb) st s
      | _ \<Rightarrow> Inr (False, s))"

text \<open>The end of the PRNG stage as the observer sees it: the status is set, then the callback is called.\<close>

definition finish_prng ::
  "unit status_or \<Rightarrow> SecAggServerState \<times> ('v, 'cb) server_callbacks \<Rightarrow> SecAggServerState \<times> ('v, 'cb) server_callbacks" where
  "finish_prng final_status state =
     (PrngRunnerFinished final_status (fst state),
      (snd state)\<lparr>called_callbacks := called_callbacks (snd state) @ case_option [] (\<lambda>cb. [cb]) (prng_done_callback (snd state))\<rparr>)"

text \<open>The callback of the PRNG stage is delivered exactly once, whether it is set before the end of the stage or after it.\<close>

lemma prng_callback_delivered:
  assumes "completion_status st = None" "prng_done_callback s = None"
    and "Prng_SetAsyncCallback (Some cb) st s = Inr (r1, s1)" "finish_prng status (st, s1) = (st1, s2)"
    and "finish_prng status (st, s) = (st3, s3)" "Prng_SetAsyncCallback (Some cb) st3 s3 = Inr (r2, s4)"
  shows "r1 \<and> r2 \<and> scheduled_callbacks s2 @ called_callbacks s2 = scheduled_callbacks s @ called_callbacks s @ [cb]
    \<and> scheduled_callbacks s4 = scheduled_callbacks s @ [cb] \<and> called_callbacks s4 = called_callbacks s"
  using assms by (auto simp: Prng_SetAsyncCallback_def finish_prng_def PrngRunnerFinished_def)

text \<open>In round 2 the answer says whether there is work that no callback has seen.\<close>

lemma R2_callback_accepted:
  "fst (R2_SetAsyncCallback cb s) \<longleftrightarrow> (\<exists>a. async_token s = Some a \<and> has_unobserved_work a)"
  by (auto simp: R2_SetAsyncCallback_def SetAsyncObserver_def Let_def split: option.split if_splits)

end
