(* ===== verification/Clock_Wakeups.thy ===== *)
theory Clock_Wakeups
  imports FCP_Prelude Complex_Main "HOL-Library.Multiset"
begin

text \<open>
  \<open>fcp/base/clock.cc\<close>: the wake-ups of a clock. A step of a thread is one critical section of \<open>DispatchWakeups\<close>, or one call of
  \<open>WakeUp\<close> outside it; a call of \<open>WakeupWithDeadline\<close> from within \<open>WakeUp\<close> is that of another thread. A time is a number of
  nanoseconds. The deadline stays beside a waiter that is taken out of the map, so that the properties can speak of it.
\<close>

section \<open>The clock\<close>

type_synonym 'w WaiterMap = "(int \<times> 'w list) list"

record 'w Clock =
  pending_waiters :: "'w WaiterMap"
  dispatch_level :: nat
  next_wakeup :: "int option"

text \<open>Insertion into the map, which is ordered by deadline; a bucket keeps the order of its waiters.\<close>

fun insert_waiter :: "int \<Rightarrow> 'w \<Rightarrow> 'w WaiterMap \<Rightarrow> 'w WaiterMap" where
  "insert_waiter deadline waiter [] = [(deadline, [waiter])]"
| "insert_waiter deadline waiter ((d, ws) # m) =
     (if deadline = d then (d, ws @ [waiter]) # m
      else if deadline < d then (deadline, [waiter]) # (d, ws) # m
      else (d, ws) # insert_waiter deadline waiter m)"

definition CheckReentrancy :: "'w Clock \<Rightarrow> bool \<times> 'w Clock" where
  "CheckReentrancy c = (let c = c\<lparr>dispatch_level := dispatch_level c + 1\<rparr> in (dispatch_level c > 1, c))"

fun expired :: "int \<Rightarrow> 'w WaiterMap \<Rightarrow> (int \<times> 'w) list \<times> 'w WaiterMap" where
  "expired now [] = ([], [])"
| "expired now ((d, ws) # m) =
     (if d \<le> now then let (calls, m) = expired now m in (map (Pair d) ws @ calls, m) else ([], (d, ws) # m))"

definition GetExpiredWaiters :: "int \<Rightarrow> 'w Clock \<Rightarrow> (int \<times> 'w) list \<times> 'w Clock" where
  "GetExpiredWaiters now c = (let (wakeup_calls, m) = expired now (pending_waiters c) in (wakeup_calls, c\<lparr>pending_waiters := m\<rparr>))"

text \<open>
  \<open>ScheduleWakeup\<close> of the real-time clock goes through the conversions of Abseil between a time and a \<open>double\<close> number of
  milliseconds, which are parameters: \<open>toU\<close> is \<open>absl::ToUDate\<close> and \<open>fromU\<close> is \<open>absl::FromUDate\<close>. A \<open>double\<close> holds a
  present-day number of milliseconds to about a quarter of a microsecond, so neither conversion is exact and the result may lie
  below the time that was asked for.
\<close>

definition round_up :: "(int \<Rightarrow> real) \<Rightarrow> (real \<Rightarrow> int) \<Rightarrow> int \<Rightarrow> int" where
  "round_up toU fromU t = fromU (of_int \<lceil>toU t\<rceil>)"

definition ScheduleWakeup :: "(int \<Rightarrow> real) \<Rightarrow> (real \<Rightarrow> int) \<Rightarrow> int \<Rightarrow> 'w Clock \<Rightarrow> 'w Clock" where
  "ScheduleWakeup toU fromU wakeup_time c =
     (let wakeup_time = round_up toU fromU wakeup_time
      in if next_wakeup c = Some wakeup_time then c else c\<lparr>next_wakeup := Some wakeup_time\<rparr>)"

definition FinishDispatchAndScheduleNextWakeup :: "(int \<Rightarrow> real) \<Rightarrow> (real \<Rightarrow> int) \<Rightarrow> int \<Rightarrow> 'w Clock \<Rightarrow> bool \<times> 'w Clock" where
  "FinishDispatchAndScheduleNextWakeup toU fromU now c =
     (let current_dispatch_level = dispatch_level c; c = c\<lparr>dispatch_level := 0\<rparr>
      in case pending_waiters c of
           [] \<Rightarrow> (True, c)
         | (first, _) # _ \<Rightarrow>
             if current_dispatch_level > 1 then (False, c)
             else if first \<le> now then (False, c)
             else (True, ScheduleWakeup toU fromU first c))"

section \<open>Threads\<close>

datatype 'w dispatch_thread = LoopTop | Collecting | Waking "(int \<times> 'w) list" | Finishing | Done

record 'w clock_system =
  clock :: "'w Clock"
  current_time :: int
  threads :: "'w dispatch_thread list"
  requested :: "(int \<times> 'w) list"
  woken :: "(int \<times> 'w) list"

definition WakeupWithDeadline :: "int \<Rightarrow> 'w \<Rightarrow> 'w clock_system \<Rightarrow> 'w clock_system" where
  "WakeupWithDeadline deadline waiter s =
     s\<lparr>clock := (clock s)\<lparr>pending_waiters := insert_waiter deadline waiter (pending_waiters (clock s))\<rparr>,
       threads := threads s @ [LoopTop], requested := requested s @ [(deadline, waiter)]\<rparr>"

definition DispatchWakeups_step :: "(int \<Rightarrow> real) \<Rightarrow> (real \<Rightarrow> int) \<Rightarrow> nat \<Rightarrow> 'w clock_system \<Rightarrow> 'w clock_system" where
  "DispatchWakeups_step toU fromU i s =
     (case threads s ! i of
        LoopTop \<Rightarrow> let (reentrant, c) = CheckReentrancy (clock s)
                   in s\<lparr>clock := c, threads := (threads s)[i := if reentrant then Done else Collecting]\<rparr>
      | Collecting \<Rightarrow> let (wakeup_calls, c) = GetExpiredWaiters (current_time s) (clock s)
                      in s\<lparr>clock := c, threads := (threads s)[i := Waking wakeup_calls]\<rparr>
      | Waking [] \<Rightarrow> s\<lparr>threads := (threads s)[i := Finishing]\<rparr>
      | Waking (waiter # rest) \<Rightarrow> s\<lparr>threads := (threads s)[i := Waking rest], woken := woken s @ [waiter]\<rparr>
      | Finishing \<Rightarrow> let (finished, c) = FinishDispatchAndScheduleNextWakeup toU fromU (current_time s) (clock s)
                     in s\<lparr>clock := c, threads := (threads s)[i := if finished then Done else LoopTop]\<rparr>
      | Done \<Rightarrow> s)"

text \<open>The worker of the real-time clock, when it finds its deadline passed.\<close>

definition WorkerLoop_dispatch :: "'w clock_system \<Rightarrow> 'w clock_system" where
  "WorkerLoop_dispatch s =
     (case next_wakeup (clock s) of
        Some t \<Rightarrow> if current_time s \<ge> t then s\<lparr>clock := (clock s)\<lparr>next_wakeup := None\<rparr>, threads := threads s @ [LoopTop]\<rparr> else s
      | None \<Rightarrow> s)"

inductive clock_run :: "(int \<Rightarrow> real) \<Rightarrow> (real \<Rightarrow> int) \<Rightarrow> 'w clock_system \<Rightarrow> bool" for toU fromU where
  started: "clock_run toU fromU \<lparr>clock = \<lparr>pending_waiters = [], dispatch_level = 0, next_wakeup = None\<rparr>, current_time = t, threads = [], requested = [], woken = []\<rparr>"
| request: "clock_run toU fromU s \<Longrightarrow> clock_run toU fromU (WakeupWithDeadline deadline waiter s)"
| dispatch: "clock_run toU fromU s \<Longrightarrow> i < length (threads s) \<Longrightarrow> clock_run toU fromU (DispatchWakeups_step toU fromU i s)"
| timer: "clock_run toU fromU s \<Longrightarrow> clock_run toU fromU (WorkerLoop_dispatch s)"
| time: "clock_run toU fromU s \<Longrightarrow> current_time s \<le> t \<Longrightarrow> clock_run toU fromU (s\<lparr>current_time := t\<rparr>)"

section \<open>What holds in every run\<close>

definition waiters :: "'w WaiterMap \<Rightarrow> (int \<times> 'w) list" where
  "waiters m = concat (map (\<lambda>(d, ws). map (Pair d) ws) m)"

fun calls_of :: "'w dispatch_thread \<Rightarrow> (int \<times> 'w) list" where
  "calls_of (Waking ws) = ws"
| "calls_of _ = []"

fun active :: "'w dispatch_thread \<Rightarrow> nat" where
  "active LoopTop = 0"
| "active Done = 0"
| "active _ = 1"

definition map_ok :: "'w WaiterMap \<Rightarrow> bool" where
  "map_ok m \<longleftrightarrow> sorted_wrt (<) (map fst m) \<and> (\<forall>b\<in>set m. snd b \<noteq> [])"

definition in_flight :: "'w clock_system \<Rightarrow> (int \<times> 'w) multiset" where
  "in_flight s = sum_list (map (\<lambda>t. mset (calls_of t)) (threads s))"

definition clock_inv :: "(int \<Rightarrow> real) \<Rightarrow> (real \<Rightarrow> int) \<Rightarrow> 'w clock_system \<Rightarrow> bool" where
  "clock_inv toU fromU s \<longleftrightarrow> map_ok (pending_waiters (clock s))
     \<and> mset (requested s) = mset (waiters (pending_waiters (clock s))) + in_flight s + mset (woken s)
     \<and> (\<forall>w\<in>set_mset (in_flight s) \<union> set (woken s). fst w \<le> current_time s)
     \<and> sum_list (map active (threads s)) = (if dispatch_level (clock s) = 0 then 0 else 1)
     \<and> (pending_waiters (clock s) \<noteq> [] \<and> (\<forall>t\<in>set (threads s). t = Done)
          \<longrightarrow> next_wakeup (clock s) = Some (round_up toU fromU (fst (hd (pending_waiters (clock s))))))"

lemma sum_list_set:
  "i < length xs \<Longrightarrow> sum_list (map f (xs[i := x])) + f (xs ! i) = sum_list (map f xs) + f x"
  for f :: "'a \<Rightarrow> 'b::comm_monoid_add"
proof (induction xs arbitrary: i)
  case (Cons y ys)
  then show ?case by (cases i) (simp_all add: add.assoc add.commute add.left_commute)
qed simp

lemma insert_waiter_keys: "set (map fst (insert_waiter d w m)) = insert d (set (map fst m))"
  by (induction d w m rule: insert_waiter.induct) auto

lemma insert_waiter_ok:
  assumes "map_ok m"
  shows "map_ok (insert_waiter d w m)" "mset (waiters (insert_waiter d w m)) = add_mset (d, w) (mset (waiters m))"
proof -
  show "map_ok (insert_waiter d w m)"
    using assms
  proof (induction d w m rule: insert_waiter.induct)
    case (2 d w e ws m)
    have later: "\<forall>x\<in>set (map fst (insert_waiter d w m)). e < x" if "\<not> d < e" "d \<noteq> e"
      unfolding insert_waiter_keys using 2(2) that by (auto simp: map_ok_def)
    show ?case using 2 later by (auto simp: map_ok_def)
  qed (simp add: map_ok_def)
  show "mset (waiters (insert_waiter d w m)) = add_mset (d, w) (mset (waiters m))"
    by (induction d w m rule: insert_waiter.induct) (auto simp: waiters_def)
qed

lemma expired_ok:
  assumes "map_ok m" "expired now m = (calls, m')"
  shows "map_ok m' \<and> waiters m = calls @ waiters m' \<and> (\<forall>w\<in>set calls. fst w \<le> now) \<and> (\<forall>b\<in>set m'. now < fst b)"
  using assms
proof (induction now m arbitrary: calls m' rule: expired.induct)
  case (2 now d ws m)
  show ?case
  proof (cases "d \<le> now")
    case True
    obtain calls1 m1 where e: "expired now m = (calls1, m1)" by fastforce
    have "map_ok m" using 2(2) by (auto simp: map_ok_def)
    then show ?thesis using 2(1) [OF True _ e] 2(3) True e by (auto simp: waiters_def)
  next
    case False
    then show ?thesis using 2(2,3) by (fastforce simp: map_ok_def waiters_def)
  qed
qed (auto simp: map_ok_def)

lemma active_zero: "sum_list (map active ts) = 0 \<Longrightarrow> t \<in> set ts \<Longrightarrow> active t = 0"
  by (simp add: sum_list_eq_0_iff)

text \<open>A thread in an active stage is the only one.\<close>

lemma one_active:
  assumes "clock_inv toU fromU s" "i < length (threads s)" "active (threads s ! i) = 1"
  shows "dispatch_level (clock s) \<noteq> 0" "sum_list (map active ((threads s)[i := t])) = active t"
proof -
  have sum: "sum_list (map active (threads s)) = (if dispatch_level (clock s) = 0 then 0 else 1)" using assms(1) by (simp add: clock_inv_def)
  then show "dispatch_level (clock s) \<noteq> 0" using active_zero [of "threads s" "threads s ! i"] assms(2,3) by (auto split: if_splits)
  then show "sum_list (map active ((threads s)[i := t])) = active t"
    using sum_list_set [OF assms(2), of active t] sum assms(3) by simp
qed

lemma flight_set:
  assumes "i < length (threads s)"
  shows "sum_list (map (\<lambda>t. mset (calls_of t)) ((threads s)[i := t])) + mset (calls_of (threads s ! i)) = in_flight s + mset (calls_of t)"
  using sum_list_set [OF assms, of "\<lambda>t. mset (calls_of t)" t] by (simp add: in_flight_def)

text \<open>The five stages of a dispatch keep the invariant.\<close>

lemma step_top:
  assumes "clock_inv toU fromU s" "i < length (threads s)" "threads s ! i = LoopTop"
  shows "clock_inv toU fromU (DispatchWakeups_step toU fromU i s)"
proof (cases "dispatch_level (clock s) = 0")
  case True
  have "sum_list (map active (threads s)) = 0" using assms(1) True by (simp add: clock_inv_def)
  then have "sum_list (map active ((threads s)[i := Collecting])) = 1"
    using sum_list_set [OF assms(2), of active Collecting] assms(3) by simp
  moreover have "Collecting \<in> set ((threads s)[i := Collecting])" by (rule set_update_memI [OF assms(2)])
  ultimately show ?thesis
    using assms True flight_set [OF assms(2), of Collecting]
    by (auto simp: clock_inv_def DispatchWakeups_step_def CheckReentrancy_def Let_def in_flight_def)
next
  case False
  have one: "sum_list (map active (threads s)) = 1" using assms(1) False by (simp add: clock_inv_def)
  have sum: "sum_list (map active ((threads s)[i := Done])) = 1"
    using sum_list_set [OF assms(2), of active Done] assms(3) one by simp
  then have "\<not> (\<forall>t\<in>set ((threads s)[i := Done]). t = Done)"
    using sum_list_eq_0_iff [of "map active ((threads s)[i := Done])"] by fastforce
  then show ?thesis
    using assms False sum flight_set [OF assms(2), of Done]
    by (auto simp: clock_inv_def DispatchWakeups_step_def CheckReentrancy_def Let_def in_flight_def)
qed

lemma step_collect:
  assumes inv: "clock_inv toU fromU s" and i: "i < length (threads s)" "threads s ! i = Collecting"
  shows "clock_inv toU fromU (DispatchWakeups_step toU fromU i s)"
proof -
  obtain calls m where e: "expired (current_time s) (pending_waiters (clock s)) = (calls, m)" by fastforce
  have ok: "map_ok m" "waiters (pending_waiters (clock s)) = calls @ waiters m" "\<forall>w\<in>set calls. fst w \<le> current_time s"
    using expired_ok [OF _ e] inv by (auto simp: clock_inv_def)
  let ?ts = "(threads s)[i := Waking calls]"
  have flight: "sum_list (map (\<lambda>t. mset (calls_of t)) ?ts) = in_flight s + mset calls"
    using flight_set [OF i(1), of "Waking calls"] i(2) by simp
  have "sum_list (map active ?ts) = 1" "dispatch_level (clock s) \<noteq> 0" using one_active [OF inv i(1)] i(2) by simp_all
  moreover have "Waking calls \<in> set ?ts" by (rule set_update_memI [OF i(1)])
  ultimately show ?thesis
    using inv i e ok flight
    by (auto simp: clock_inv_def DispatchWakeups_step_def GetExpiredWaiters_def in_flight_def [of "clock_system.threads_update _ _"] Let_def ac_simps)
qed

lemma step_wake:
  assumes inv: "clock_inv toU fromU s" and i: "i < length (threads s)" "threads s ! i = Waking ws"
  shows "clock_inv toU fromU (DispatchWakeups_step toU fromU i s)"
proof (cases ws)
  case Nil
  let ?ts = "(threads s)[i := Finishing]"
  have flight: "sum_list (map (\<lambda>t. mset (calls_of t)) ?ts) = in_flight s" using flight_set [OF i(1), of Finishing] i(2) Nil by simp
  have "sum_list (map active ?ts) = 1" "dispatch_level (clock s) \<noteq> 0" using one_active [OF inv i(1)] i(2) by simp_all
  moreover have "Finishing \<in> set ?ts" by (rule set_update_memI [OF i(1)])
  moreover have "DispatchWakeups_step toU fromU i s = s\<lparr>threads := ?ts\<rparr>" using i Nil by (simp add: DispatchWakeups_step_def)
  ultimately show ?thesis using inv flight by (auto simp: clock_inv_def in_flight_def [of "s\<lparr>threads := ?ts\<rparr>"])
next
  case (Cons w rest)
  let ?ts = "(threads s)[i := Waking rest]"
  have flight: "in_flight s = add_mset w (sum_list (map (\<lambda>t. mset (calls_of t)) ?ts))"
    using flight_set [OF i(1), of "Waking rest"] i(2) Cons by simp
  have "sum_list (map active ?ts) = 1" "dispatch_level (clock s) \<noteq> 0" using one_active [OF inv i(1)] i(2) by simp_all
  moreover have "Waking rest \<in> set ?ts" by (rule set_update_memI [OF i(1)])
  moreover have "DispatchWakeups_step toU fromU i s = s\<lparr>threads := ?ts, woken := woken s @ [w]\<rparr>" using i Cons by (simp add: DispatchWakeups_step_def)
  ultimately show ?thesis
    using inv flight by (auto simp: clock_inv_def in_flight_def [of "s\<lparr>threads := ?ts, woken := woken s @ [w]\<rparr>"])
qed

lemma step_finish:
  assumes inv: "clock_inv toU fromU s" and i: "i < length (threads s)" "threads s ! i = Finishing"
  shows "clock_inv toU fromU (DispatchWakeups_step toU fromU i s)"
proof -
  obtain finished c where f: "FinishDispatchAndScheduleNextWakeup toU fromU (current_time s) (clock s) = (finished, c)" by fastforce
  let ?t = "if finished then Done else LoopTop"
  let ?s = "s\<lparr>clock := c, threads := (threads s)[i := ?t]\<rparr>"
  have c: "pending_waiters c = pending_waiters (clock s)" "dispatch_level c = 0"
      "finished \<Longrightarrow> pending_waiters c \<noteq> [] \<Longrightarrow> next_wakeup c = Some (round_up toU fromU (fst (hd (pending_waiters c))))"
    using f by (auto simp: FinishDispatchAndScheduleNextWakeup_def ScheduleWakeup_def Let_def split: list.splits prod.splits if_splits)
  have flight: "in_flight ?s = in_flight s" using flight_set [OF i(1), of ?t] i(2) by (simp add: in_flight_def)
  have sum: "sum_list (map active (threads ?s)) = 0" using one_active [OF inv i(1)] i(2) by simp
  have "finished" if "\<forall>t\<in>set (threads ?s). t = Done" using that set_update_memI [OF i(1), of ?t] by (auto split: if_splits)
  then have wake: "pending_waiters c \<noteq> [] \<and> (\<forall>t\<in>set (threads ?s). t = Done) \<longrightarrow> next_wakeup c = Some (round_up toU fromU (fst (hd (pending_waiters c))))"
    using c(3) by blast
  have same: "clock ?s = c" "requested ?s = requested s" "woken ?s = woken s" "current_time ?s = current_time s" by simp_all
  have "clock_inv toU fromU ?s" using inv wake sum unfolding clock_inv_def same c(1,2) flight by simp
  then show ?thesis using i f by (simp add: DispatchWakeups_step_def)
qed

lemma step_inv: "clock_inv toU fromU s \<Longrightarrow> i < length (threads s) \<Longrightarrow> clock_inv toU fromU (DispatchWakeups_step toU fromU i s)"
  using step_top step_collect step_wake step_finish
  by (cases "threads s ! i") (blast, blast, blast, blast, simp add: DispatchWakeups_step_def)

lemma clock_run_inv: "clock_run toU fromU s \<Longrightarrow> clock_inv toU fromU s"
proof (induction rule: clock_run.induct)
  case (request s deadline waiter)
  then show ?case
    using insert_waiter_ok [of "pending_waiters (clock s)" deadline waiter]
    by (auto simp: clock_inv_def WakeupWithDeadline_def in_flight_def)
next
  case (timer s)
  show ?case
  proof (cases "\<exists>t. next_wakeup (clock s) = Some t \<and> t \<le> current_time s")
    case True
    then have "WorkerLoop_dispatch s = s\<lparr>clock := (clock s)\<lparr>next_wakeup := None\<rparr>, threads := threads s @ [LoopTop]\<rparr>"
      by (auto simp: WorkerLoop_dispatch_def)
    then show ?thesis using timer.IH by (simp add: clock_inv_def in_flight_def)
  next
    case False
    then have "WorkerLoop_dispatch s = s" by (auto simp: WorkerLoop_dispatch_def split: option.split)
    then show ?thesis using timer.IH by simp
  qed
next
  case (time s t)
  have "\<forall>w\<in>set_mset (in_flight s) \<union> set (woken s). fst w \<le> current_time s" using time.IH by (simp add: clock_inv_def)
  then have "\<forall>w\<in>set_mset (in_flight s) \<union> set (woken s). fst w \<le> t" using time.hyps(2) order_trans by blast
  moreover have "in_flight (s\<lparr>current_time := t\<rparr>) = in_flight s" by (simp add: in_flight_def)
  ultimately show ?case using time.IH by (simp add: clock_inv_def)
next
  case (dispatch s i)
  then show ?case by (blast intro: step_inv)
qed (simp add: clock_inv_def in_flight_def map_ok_def waiters_def)

text \<open>The conversions are accurate to a microsecond: what a \<open>double\<close> gives for the times of the next two centuries.\<close>

definition to_microsecond :: "(int \<Rightarrow> real) \<Rightarrow> (real \<Rightarrow> int) \<Rightarrow> int \<Rightarrow> bool" where
  "to_microsecond toU fromU t \<longleftrightarrow> \<bar>toU t * 1000000 - of_int t\<bar> \<le> 1000
     \<and> \<bar>fromU (of_int \<lceil>toU t\<rceil>) - \<lceil>toU t\<rceil> * 1000000\<bar> \<le> 1000"

lemma round_up_near:
  assumes "to_microsecond toU fromU t"
  shows "t - 2000 \<le> round_up toU fromU t \<and> round_up toU fromU t < t + 1002000"
proof -
  let ?c = "\<lceil>toU t\<rceil>"
  have near: "\<bar>toU t * 1000000 - of_int t\<bar> \<le> 1000" "\<bar>round_up toU fromU t - ?c * 1000000\<bar> \<le> 1000"
    using assms by (simp_all add: to_microsecond_def round_up_def)
  have "toU t \<le> of_int ?c" "of_int ?c < toU t + 1" by linarith+
  then have "of_int t - 1000 \<le> real_of_int (?c * 1000000)" "real_of_int (?c * 1000000) < of_int t + 1001000"
    using near(1) unfolding of_int_mult of_int_numeral by linarith+
  then have "t - 1000 \<le> ?c * 1000000" "?c * 1000000 < t + 1001000" by linarith+
  then show ?thesis using near(2) by linarith
qed

section \<open>Property\<close>

text \<open>
  C20. In every run of a clock, whatever threads ask for wake-ups and however their dispatches interleave: the waiters that were
  asked for are those that wait, those that are about to be woken and those that have been, so each is woken once and
  none is lost; none is woken before its deadline; at most one dispatch is under way; and when all calls have
  returned and some waiter waits, the worker of the clock has its wake-up set, to the rounded time of the earliest deadline.
  That time is less than a millisecond and two microseconds after the deadline and at most two microseconds before it, when the
  conversions of Abseil are accurate to a microsecond at the deadlines; a worker that wakes too early finds the waiter not due
  and sets its wake-up again.
\<close>

theorem clock_wakes_each_once:
  assumes "clock_run toU fromU s" "\<forall>w\<in>set (requested s). to_microsecond toU fromU (fst w)"
  shows "mset (requested s) = mset (waiters (pending_waiters (clock s))) + in_flight s + mset (woken s)
    \<and> (\<forall>w\<in>set (woken s). fst w \<le> current_time s)
    \<and> sum_list (map active (threads s)) \<le> 1
    \<and> (pending_waiters (clock s) \<noteq> [] \<and> (\<forall>t\<in>set (threads s). t = Done)
         \<longrightarrow> (\<exists>t. next_wakeup (clock s) = Some t
               \<and> (\<exists>w\<in>set (waiters (pending_waiters (clock s))). (\<forall>v\<in>set (waiters (pending_waiters (clock s))). fst w \<le> fst v)
                    \<and> t = round_up toU fromU (fst w) \<and> fst w - 2000 \<le> t \<and> t < fst w + 1002000)))"
proof -
  have inv: "clock_inv toU fromU s" by (rule clock_run_inv [OF assms(1)])
  let ?m = "pending_waiters (clock s)"
  have asked: "mset (requested s) = mset (waiters ?m) + in_flight s + mset (woken s)" using inv by (simp add: clock_inv_def)
  have "\<exists>t. next_wakeup (clock s) = Some t \<and> (\<exists>w\<in>set (waiters ?m). (\<forall>v\<in>set (waiters ?m). fst w \<le> fst v)
      \<and> t = round_up toU fromU (fst w) \<and> fst w - 2000 \<le> t \<and> t < fst w + 1002000)"
    if quiet: "?m \<noteq> []" "\<forall>t\<in>set (threads s). t = Done"
  proof -
    obtain d ws m where m: "?m = (d, ws) # m" using quiet(1) by (cases ?m) auto
    have ok: "ws \<noteq> []" "\<forall>b\<in>set m. d < fst b" using inv m by (auto simp: clock_inv_def map_ok_def)
    have first: "(d, hd ws) \<in> set (waiters ?m)" using ok(1) m by (simp add: waiters_def)
    then have "(d, hd ws) \<in># mset (requested s)" unfolding asked by simp
    then have near: "d - 2000 \<le> round_up toU fromU d" "round_up toU fromU d < d + 1002000"
      using round_up_near [of toU fromU d] assms(2) by auto
    have "d \<le> fst v" if "v \<in> set (waiters ?m)" for v using that ok(2) m by (fastforce simp: waiters_def)
    moreover have "next_wakeup (clock s) = Some (round_up toU fromU d)" using inv quiet m by (simp add: clock_inv_def)
    ultimately show ?thesis using first near by force
  qed
  then show ?thesis using inv by (auto simp: clock_inv_def split: if_splits)
qed

text \<open>
  A waiter for time 5 of a clock at 10, and one for 50 nanoseconds past 4 milliseconds, with conversions that keep 256 nanoseconds:
  the wake-up is set for 4 milliseconds, just before the deadline.
\<close>

definition sample_toU :: "int \<Rightarrow> real" where
  "sample_toU t = of_int (256 * ((t + 128) div 256)) / 1000000"

definition sample_fromU :: "real \<Rightarrow> int" where
  "sample_fromU x = \<lfloor>x * 1000000\<rfloor>"

definition sample_clock :: "nat clock_system" where
  "sample_clock = fold (DispatchWakeups_step sample_toU sample_fromU) [0, 0, 0, 0, 0, 1, 1, 1, 1] (WakeupWithDeadline 4000050 1 (WakeupWithDeadline 5 0
     \<lparr>clock = \<lparr>pending_waiters = [], dispatch_level = 0, next_wakeup = None\<rparr>, current_time = 10, threads = [], requested = [], woken = []\<rparr>))"

theorem clock_wakes_each_once_witness:
  "threads sample_clock = [Done, Done] \<and> woken sample_clock = [(5, 0)] \<and> waiters (pending_waiters (clock sample_clock)) = [(4000050, 1)]
    \<and> next_wakeup (clock sample_clock) = Some 4000000
    \<and> (\<exists>t. next_wakeup (clock sample_clock) = Some t \<and> 3998050 \<le> t \<and> t < 5002050)
    \<and> mset (requested sample_clock) = mset [(4000050, 1)] + in_flight sample_clock + mset [(5, 0)]"
proof -
  have eval: "threads sample_clock = [Done, Done]" "woken sample_clock = [(5, 0)]"
      "waiters (pending_waiters (clock sample_clock)) = [(4000050, 1)]" "pending_waiters (clock sample_clock) = [(4000050, [1])]"
      "requested sample_clock = [(5, 0), (4000050, 1)]" "next_wakeup (clock sample_clock) = Some 4000000"
    by code_simp+
  have "to_microsecond sample_toU sample_fromU 5" "to_microsecond sample_toU sample_fromU 4000050"
    by (simp_all add: to_microsecond_def sample_toU_def sample_fromU_def)
  moreover have "clock_run sample_toU sample_fromU sample_clock"
    unfolding sample_clock_def fold.simps comp_def id_def
    by (intro clock_run.dispatch clock_run.request clock_run.started) code_simp+
  ultimately show ?thesis using clock_wakes_each_once [of sample_toU sample_fromU sample_clock] eval by auto
qed

end
