(* ===== verification/Spec2Isabelle.thy ===== *)
theory Spec2Isabelle
  imports Math_Inverse Shamir Mask_Sums Client_Shares Server_Protocol Key_Recovery Thread_Pool Accumulator Cache_Lookup Op_Stats_Trust Op_Stats_Examples
    Server_Callbacks Clock_Wakeups
begin

text \<open>
  Verification of federated-compute (the C++ sources under \<open>src/fcp\<close>): the secure-aggregation protocol with its
  client, its server and the libraries they share, the schedulers that run the server's background work, and of the
  federated client its resource cache, its record of past runs and the decision which tasks it may take part in.

  \<^bold>\<open>The program.\<close> In secure aggregation (\<open>fcp/secagg\<close>) every client holds a map of input vectors and the server
  learns only their sum. In round 0 the clients advertise two public keys each; in round 1 each client draws a key of
  its own, splits it and its private key into Shamir shares and sends every neighbour, encrypted, one share of each; in
  round 2 each client sends its input plus the masks that are generated from its own key and, with opposite signs on
  the two sides, from the keys it has in common with its neighbours; in round 3 the remaining clients send, for every
  other client, one share: of the own key of a client whose input arrived, of the private key of one that dropped
  out. The server reconstructs these keys, generates their masks again, takes them off the sum and publishes the result.
  The work of rounds 2 and 3 runs in the background on an accumulator over a thread pool.

  The federated client (\<open>fcp/client\<close>) keeps the resources it downloads in a cache of files. It logs each of its runs, with the
  start of every upload, into a database of past runs, and before it asks for tasks it evaluates the policies of the population on that
  database: a task may for instance not be taken again before some time has passed (sampling without replacement).

  \<^bold>\<open>The theories\<close>, in the order of their imports:

  \<^item> \<open>FCP_Prelude\<close>: the integer types as words, byte strings, \<open>absl::Status\<close> and \<open>FCP_CHECK\<close> as the sum type
    \<open>status_or\<close> (\<open>Status\<close>: a returned error, \<open>CheckFailed\<close>: a failed check that ends the process, \<open>Undefined\<close>: behaviour the language
    leaves undefined, \<open>OutOfFuel\<close>: below), loops that may fail, and the shared facts on lists, sums and words (\<open>unat_ops\<close>).
  \<^item> \<open>SecAgg_Math\<close>, \<open>Math_Inverse\<close>: \<open>shared/math.h\<close>. The plain and the branchless modular operations agree and compute
    what they say; \<open>InverseModPrime\<close> inverts.
  \<^item> \<open>Prime_Field\<close>, \<open>Interpolation\<close>: the number theory that Shamir sharing rests on, the field of the code's prime
    as a type and Lagrange interpolation over it.
  \<^item> \<open>Shamir_Subsecrets\<close>, \<open>Shamir\<close>: \<open>shared/shamir_secret_sharing\<close>. The object with its two caches is the record
    \<open>ShamirSecretSharing\<close>; cutting into subsecrets and back is a round trip, a threshold of shares reconstructs the secret from any
    state of the caches, too few are refused, \<open>Share\<close> returns when enough random draws are below the prime. The 32-bit sum
    of \<open>Reconstruct\<close> can wrap: the round trip has the hypothesis that it does not, \<open>Reconstruct_wraps\<close> is the case that does.
  \<^item> \<open>SecAgg_Vector\<close>, \<open>SecAgg_Codec\<close>: \<open>shared/secagg_vector\<close>. Packed and unpacked vectors, the plain packer and the
    branchless \<open>Coder\<close> and \<open>Decoder\<close> with their bit positions, each proved against one reference, the digits of a number.
  \<^item> \<open>Map_Of_Masks\<close>, \<open>Vector_Sums\<close>, \<open>Mask_Sums\<close>: \<open>shared/aes_ctr_prng\<close> and \<open>shared/map_of_masks\<close>. Buffering is invisible, the
    first masks that \<open>mask_with_key\<close> takes from a key stream are uniform, the three variants of the map of masks compute the signed sum of the masks of the keys, and
    \<open>AddVectors\<close> and the maps of the server add elementwise.
  \<^item> \<open>SecAgg_Messages\<close>, \<open>SecAgg_Keys\<close>: the messages of \<open>secagg_messages.proto\<close>, keys, key agreement, encryption and
    session ids of \<open>fcp/secagg/shared\<close> with their round trips and refusals.
  \<^item> \<open>Sharing_Graph\<close>: the neighbourhoods of \<open>fcp/secagg/server/secret_sharing_*\<close>: neighbours and their indices are inverse,
    neighbourhood is symmetric, and of two neighbours exactly one is outgoing, so that their common masks cancel.
  \<^item> \<open>SecAgg_Client\<close>, \<open>Client_Protocol\<close>, \<open>Client_Masking\<close>, \<open>Client_Shares\<close>: \<open>fcp/secagg/client\<close>. A state object is a value of
    \<open>SecAggClientState\<close> with its members as a record; \<open>SecAggClient\<close> has the calls of the class, \<open>client_reachable\<close> every
    sequence of them. The client refines the automaton \<open>client_spec\<close>, its data is well formed in every
    state, after its end no call has an effect, its round-2 message is the input plus the masks, and its last one reveals one share per client.
  \<^item> \<open>Server_Impl\<close>, \<open>Server_States\<close>: \<open>server/secagg_server_protocol_impl\<close> with its AES subclass (record
    \<open>SecAggServerProtocolImpl\<close>), the state classes \<open>server/secagg_server_*_state\<close> (record \<open>SecAggServerState\<close>, dispatch on
    \<open>state_kind\<close>) and the calls of \<open>server/secagg_server.cc\<close>.
  \<^item> \<open>Server_Round2\<close>: every interleaving of arriving inputs with the critical sections of the tasks that empty
    the queue gives the sum of the sequential server, and the tasks come to an end with the queue empty.
  \<^item> \<open>Server_Unmasking\<close>, \<open>Server_Protocol\<close>: the counters of the server are the numbers of clients with the statuses
    they stand for, every accepted call is a step of the automaton \<open>spec_step\<close>, and a committed sum has enough inputs.
  \<^item> \<open>Key_Recovery\<close>: responses in any order fill the share tables so that the server recovers the own key of every
    client in the sum and the private key of those that dropped out.
  \<^item> \<open>Aggregation\<close>: client and server together. The result is the sum of the inputs of exactly the included clients.
  \<^item> \<open>Draining\<close>, \<open>Thread_Pool\<close>, \<open>Accumulator\<close>: \<open>fcp/base/scheduler.cc\<close> and \<open>server/secagg_scheduler.h\<close>. A step is one critical
    section or one run of a task, taken by any thread. Tasks start once and in order, the accumulated
    value is the fold of all results, the observer is called once, nothing waits for ever. After a cancellation the accumulator
    counts the tasks it skips as pending, so what idleness means is proved of runs without one.
  \<^item> \<open>Server_Callbacks\<close>: \<open>SetAsyncCallback\<close> of the server and of its states. The callback of the PRNG stage is delivered once.
  \<^item> \<open>Clock_Wakeups\<close>: \<open>fcp/base/clock.cc\<close>, which the delayed tasks of the accumulator wait on. Each waiter is woken once, none before its
    deadline, and no wake-up is lost between overlapping dispatches. The worker sleeps until the earliest deadline, rounded to milliseconds
    in floating point: the two conversions of Abseil are parameters, taken to be accurate to a microsecond, and the wake-up can come
    that much before the deadline.
  \<^item> \<open>Time_Util\<close>: \<open>fcp/base/time_util.cc\<close>, with round trips of times and durations.
  \<^item> \<open>Resource_Cache\<close>, \<open>Cache_Laws\<close>, \<open>Cache_Lookup\<close>: \<open>fcp/client/cache/file_backed_resource_cache.cc\<close> with the parts of
    \<open>fcp/base\<close> it uses. Each call on the file system can fail on its own, and differently from one operation to the next; the order of
    \<open>std::sort\<close> on entries of the same age is arbitrary. The directory stays within its size in every run in which the checks
    for the existence of a file work (\<open>CleanUp\<close> does not count a file it cannot check), whatever else fails, and a resource
    stored under a new id is returned. \<open>Put_keeps_first\<close> shows what \<open>Put\<close> does with an id that is still there.
  \<^item> \<open>Op_Stats\<close>, \<open>Op_Stats_Db\<close>, \<open>Op_Stats_Examples\<close>: \<open>fcp/client/opstats\<close>, the entries of past runs and the questions about them, the
    database with expiry, pruning and reset, the logger (record \<open>OpStatsLoggerImpl\<close>) and the history as a collection of examples.
  \<^item> \<open>Eligibility\<close>, \<open>Eligibility_Laws\<close>: \<open>fcp/client/eligibility_decider.cc\<close>. When the client implements all policies, their names
    differ and the index differences of the minimum separation fit 64 bits (beyond, the subtraction is undefined), a task has weight 1
    exactly when every policy it uses lets it through. \<open>min_sep_index_lost\<close> is about the minimum separation policy on runs with phases.
  \<^item> \<open>Op_Stats_Trust\<close>: database, logger and decision together. The entries that are missing are older than the earliest trustworthy
    time, so sampling without replacement counts every run up to 1.001 s, for commits in order of time. A logger may commit
    again after it has logged more, which replaces its own entry; one whose first commit failed replaces another's and breaks this.

  \<^bold>\<open>Interfaces.\<close> Three contracts are locales whose lemmas the clients use through interpretations on the code's own
  definitions: \<open>mod_adapter\<close> (the template argument of the map of masks; \<open>plain_adapter\<close>, \<open>opt_adapter\<close>), \<open>sharing_graph\<close>
  (the abstract class of the graphs; \<open>complete\<close>, \<open>harary\<close> and the dispatching \<open>graph\<close>) and \<open>draining\<close> (whatever runs
  tasks in the background; \<open>pool\<close>, \<open>accumulator\<close>).

  \<^bold>\<open>Parameters.\<close> Code outside the repository is an argument. The record \<open>crypto\<close> has SHA-256, the AES-CTR key stream,
  the elliptic curve, AES-GCM and the generated proto code; \<open>ecdh_law\<close>, \<open>gcm_law\<close>, \<open>proto_law\<close> say what their documentation
  promises, \<open>pds_law\<close> and \<open>store_law\<close> the same for the protostore library of the cache and of the database, \<open>lib_law\<close> for the time
  conversions of protobuf. Example iterators, TensorFlow plans and RE2 are fields of \<open>eligibility_env\<close>. Random values, readings of a clock, what a poll of the abort
  signal sees and which calls on the file system fail are arguments too, so the theorems hold for all of them.

  \<^bold>\<open>Bounds.\<close> Loops are structural recursions or functions with a termination proof, with two exceptions. Rejection
  sampling in \<open>mask_with_key\<close> may draw \<open>env_fuel\<close> times per key; the properties allow up to 8589934590 draws, the most
  for which eight bytes each stay within the 2^32 - 1 blocks of the generator, and on both sides of the protocol the
  same keys with the same bound give the same masks. \<open>RandomFieldElement\<close> takes its draws from a list, and \<open>Share_returns\<close>
  says which lists are long enough. Integers have the width of the source wherever it can matter; the pool, the
  accumulator and the cache have the hypotheses that fewer than 2^64 tasks are scheduled and sizes are below 2^64.

  \<^bold>\<open>Not modelled.\<close> Metrics, trace spans and log messages (except the diagnostic codes of the cache), which no result
  depends on; the simulated clock of the tests; the search for the degree of the graph
  (\<open>graph_parameter_finder\<close>, floating-point tail probabilities), whose result is an argument of the server; the HTTP
  transport, plan execution and its orchestration (\<open>fl_runner\<close>, \<open>http_federated_protocol\<close>), attestation and TensorFlow
  kernels, which are input and output against interfaces, generated protos and libraries that are not here; the Python, Java
  and Kotlin sources.
\<close>

end
